(* ===== verification/Prelude.thy ===== *)
theory Prelude
  imports
    "HOL-Library.AList"
    "HOL-Library.Char_ord"
    "HOL-Library.List_Lexorder"
    "HOL-Library.Multiset"
    "HOL-Library.Word"
begin

text \<open>
  Shared vocabulary of the development. It holds the model of Go maps as association lists
  with distinct keys, comparator sorts (the model of \<open>sort.Slice\<close> and \<open>slices.Sort\<close>), the
  reachability of a state machine with the locale that turns step-wise preservation into an
  invariant of every reachable state, and the lemma collections the component theories use.

  Go strings are byte strings: a \<^typ>\<open>char\<close> is one byte and \<^const>\<open>length\<close> is Go's \<open>len\<close>. The
  order on strings is the byte-wise lexicographic one of Go's \<open><\<close>.
\<close>

named_theorems gomap_simps \<open>lookup and key-set laws of the map operations\<close>
named_theorems sched_defs \<open>definitions of the scheduler's locked sections\<close>
named_theorems res_defs \<open>definitions of the residency controller's locked sections\<close>

section \<open>Go maps\<close>

text \<open>
  A Go map is a list of key-value pairs with distinct keys. Iteration visits the pairs in list
  order; Go leaves the order open, so where a loop's outcome could depend on it the component
  proves that it does not.
\<close>

type_synonym ('k, 'v) gomap = "('k \<times> 'v) list"

type_synonym uint64 = "64 word"

abbreviation gm_put :: "'k \<Rightarrow> 'v \<Rightarrow> ('k, 'v) gomap \<Rightarrow> ('k, 'v) gomap" where
  "gm_put \<equiv> AList.update"

abbreviation gm_del :: "'k \<Rightarrow> ('k, 'v) gomap \<Rightarrow> ('k, 'v) gomap" where
  "gm_del \<equiv> AList.delete"

definition gm_wf :: "('k, 'v) gomap \<Rightarrow> bool" where
  "gm_wf m \<longleftrightarrow> distinct (map fst m)"

text \<open>Reading a missing key yields the zero value of the element type.\<close>

definition gm_get0 :: "'v \<Rightarrow> ('k, 'v) gomap \<Rightarrow> 'k \<Rightarrow> 'v" where
  "gm_get0 z m k = (case map_of m k of None \<Rightarrow> z | Some v \<Rightarrow> v)"

definition gm_keys :: "('k, 'v) gomap \<Rightarrow> 'k list" where
  "gm_keys m = map fst m"

definition gm_map :: "('v \<Rightarrow> 'w) \<Rightarrow> ('k, 'v) gomap \<Rightarrow> ('k, 'w) gomap" where
  "gm_map f m = map (\<lambda>(k, v). (k, f v)) m"

lemma gm_wf_Nil [simp]: "gm_wf []"
  by (simp add: gm_wf_def)

lemma gm_wf_put [simp]: "gm_wf m \<Longrightarrow> gm_wf (gm_put k v m)"
  by (simp add: gm_wf_def distinct_update)

lemma gm_wf_del [simp]: "gm_wf m \<Longrightarrow> gm_wf (gm_del k m)"
  by (simp add: gm_wf_def distinct_delete)

lemma gm_get_put [simp, gomap_simps]:
  "map_of (gm_put k v m) x = (if x = k then Some v else map_of m x)"
  by (simp add: update_conv')

lemma gm_get_del [simp, gomap_simps]:
  "map_of (gm_del k m) x = (if x = k then None else map_of m x)"
  by (simp add: delete_conv')

lemma gm_get0_put [simp, gomap_simps]:
  "gm_get0 z (gm_put k v m) x = (if x = k then v else gm_get0 z m x)"
  by (simp add: gm_get0_def)

lemma gm_get0_del [simp, gomap_simps]:
  "gm_get0 z (gm_del k m) x = (if x = k then z else gm_get0 z m x)"
  by (simp add: gm_get0_def)

lemma map_fst_gm_map [simp]: "map fst (gm_map f m) = map fst m"
  by (induction m) (auto simp: gm_map_def)

lemma gm_wf_gm_map [simp]: "gm_wf (gm_map f m) = gm_wf m"
  by (simp add: gm_wf_def)

lemma gm_map_get [simp, gomap_simps]: "map_of (gm_map f m) k = map_option f (map_of m k)"
  by (induction m) (auto simp: gm_map_def)

lemma gm_map_gm_map: "gm_map f (gm_map g m) = gm_map (\<lambda>x. f (g x)) m"
  by (simp add: gm_map_def case_prod_unfold)

lemma gm_map_cong: "(\<And>k v. (k, v) \<in> set m \<Longrightarrow> f v = g v) \<Longrightarrow> gm_map f m = gm_map g m"
  by (auto simp: gm_map_def)

lemma set_gm_map: "set (gm_map f m) = (\<lambda>(k, v). (k, f v)) ` set m"
  by (simp add: gm_map_def)

lemma gm_wf_mem: "gm_wf m \<Longrightarrow> (k, v) \<in> set m \<longleftrightarrow> map_of m k = Some v"
  by (simp add: gm_wf_def)

lemma gm_get_mem: "map_of m k = Some v \<Longrightarrow> (k, v) \<in> set m"
  by (rule map_of_SomeD)

lemma gm_mem_put:
  "gm_wf m \<Longrightarrow> (x, y) \<in> set (gm_put k v m) \<longleftrightarrow> (if x = k then y = v else (x, y) \<in> set m)"
  by (auto simp: gm_wf_mem)

lemma gm_mem_del:
  "gm_wf m \<Longrightarrow> (x, y) \<in> set (gm_del k m) \<longleftrightarrow> x \<noteq> k \<and> (x, y) \<in> set m"
  by (auto simp: gm_wf_mem)

text \<open>Two maps agree exactly when one is a reordering of the other.\<close>

lemma gm_perm_iff:
  assumes "gm_wf m" "gm_wf m'"
  shows "mset m = mset m' \<longleftrightarrow> map_of m = map_of m'"
proof
  assume "mset m = mset m'"
  then have "set m = set m'" by (rule mset_eq_setD)
  with assms show "map_of m = map_of m'"
    by (metis gm_wf_def map_of_inject_set)
next
  assume "map_of m = map_of m'"
  with assms have "set m = set m'"
    by (metis gm_wf_def map_of_inject_set)
  moreover have "distinct m" "distinct m'"
    using assms by (auto simp: gm_wf_def distinct_map)
  ultimately show "mset m = mset m'"
    by (simp add: set_eq_iff_mset_eq_distinct)
qed

section \<open>Sorting with a comparator\<close>

fun insert_by :: "('a \<Rightarrow> 'a \<Rightarrow> bool) \<Rightarrow> 'a \<Rightarrow> 'a list \<Rightarrow> 'a list" where
  "insert_by lt x [] = [x]"
| "insert_by lt x (y # ys) = (if lt x y then x # y # ys else y # insert_by lt x ys)"

fun sort_by :: "('a \<Rightarrow> 'a \<Rightarrow> bool) \<Rightarrow> 'a list \<Rightarrow> 'a list" where
  "sort_by lt [] = []"
| "sort_by lt (x # xs) = insert_by lt x (sort_by lt xs)"

lemma mset_insert_by [simp]: "mset (insert_by lt x xs) = add_mset x (mset xs)"
  by (induction xs) auto

lemma mset_sort_by [simp]: "mset (sort_by lt xs) = mset xs"
  by (induction xs) auto

lemma set_sort_by [simp]: "set (sort_by lt xs) = set xs"
  by (metis mset_sort_by set_mset_mset)

lemma length_sort_by [simp]: "length (sort_by lt xs) = length xs"
  by (metis mset_sort_by size_mset)

text \<open>
  A comparator that is a strict order, total between elements with different keys. On elements
  with pairwise different keys its sort is the unique increasing arrangement, so the result
  neither depends on the order of the input nor on the stability of the sorting algorithm.
\<close>

locale keyed_order =
  fixes lt :: "'a \<Rightarrow> 'a \<Rightarrow> bool"
    and key :: "'a \<Rightarrow> 'k"
  assumes less_irrefl: "\<not> lt x x"
    and less_trans: "lt x y \<Longrightarrow> lt y z \<Longrightarrow> lt x z"
    and less_total: "key x \<noteq> key y \<Longrightarrow> lt x y \<or> lt y x"
begin

lemma less_asym: "lt x y \<Longrightarrow> \<not> lt y x"
  using less_irrefl less_trans by blast

lemma sorted_insert_by:
  "sorted_wrt lt xs \<Longrightarrow> key x \<notin> key ` set xs \<Longrightarrow> sorted_wrt lt (insert_by lt x xs)"
proof (induction xs)
  case Nil
  then show ?case by simp
next
  case (Cons y ys)
  show ?case
  proof (cases "lt x y")
    case True
    with Cons.prems show ?thesis by (auto intro: less_trans)
  next
    case False
    with Cons.prems have "lt y x" using less_total by auto
    moreover have "set (insert_by lt x ys) = insert x (set ys)"
      by (metis mset_insert_by set_mset_add_mset_insert set_mset_mset)
    ultimately show ?thesis using False Cons by auto
  qed
qed

lemma sorted_sort_by: "distinct (map key xs) \<Longrightarrow> sorted_wrt lt (sort_by lt xs)"
  by (induction xs) (auto intro!: sorted_insert_by)

lemma sorted_unique:
  "sorted_wrt lt xs \<Longrightarrow> sorted_wrt lt ys \<Longrightarrow> mset xs = mset ys \<Longrightarrow> xs = ys"
proof (induction xs arbitrary: ys)
  case Nil
  then show ?case by simp
next
  case (Cons x xs)
  from Cons.prems obtain y zs where ys: "ys = y # zs"
    by (cases ys) auto
  have "x = y"
  proof (rule ccontr)
    assume "x \<noteq> y"
    with Cons.prems ys have "y \<in> set xs" "x \<in> set zs"
      by (metis mset_eq_setD set_ConsD list.set_intros(1))+
    with Cons.prems ys show False using less_asym by auto
  qed
  with Cons ys show ?case by simp
qed

lemma sort_by_perm:
  assumes "mset xs = mset ys" and "distinct (map key xs)"
  shows "sort_by lt xs = sort_by lt ys"
proof -
  have "distinct (map key ys)"
    using assms by (metis mset_eq_imp_distinct_iff mset_map)
  with assms show ?thesis
    by (intro sorted_unique sorted_sort_by) auto
qed

end

section \<open>State machines\<close>

inductive reach :: "('s \<Rightarrow> bool) \<Rightarrow> ('s \<Rightarrow> 's \<Rightarrow> bool) \<Rightarrow> 's \<Rightarrow> bool"
  for init :: "'s \<Rightarrow> bool" and stp :: "'s \<Rightarrow> 's \<Rightarrow> bool"
where
  reach_init: "init s \<Longrightarrow> reach init stp s"
| reach_step: "reach init stp s \<Longrightarrow> stp s t \<Longrightarrow> reach init stp t"

text \<open>
  The contract of a component whose operations run one at a time under a mutex: the start state
  satisfies the invariant and each locked section keeps it.
\<close>

locale invariant_machine =
  fixes init :: "'s \<Rightarrow> bool"
    and stp :: "'s \<Rightarrow> 's \<Rightarrow> bool"
    and inv :: "'s \<Rightarrow> bool"
  assumes inv_init: "init s \<Longrightarrow> inv s"
    and inv_step: "stp s t \<Longrightarrow> inv s \<Longrightarrow> inv t"
begin

lemma reach_inv: "reach init stp s \<Longrightarrow> inv s"
  by (induction rule: reach.induct) (auto intro: inv_init inv_step)

lemma steps_inv: "stp\<^sup>*\<^sup>* s t \<Longrightarrow> inv s \<Longrightarrow> inv t"
  by (induction rule: rtranclp_induct) (auto intro: inv_step)

end

lemma length_filter_mono:
  "(\<And>x. P x \<Longrightarrow> Q x) \<Longrightarrow> length (filter P xs) \<le> length (filter Q xs)"
  by (induction xs) auto

section \<open>Remote calls\<close>

text \<open>
  A call to a remote store succeeds, fails without effect, or takes effect with its answer lost. The
  outcome of the \<open>n\<close>-th call is given by a function, so a theorem for every such function covers all
  failures. \<open>andThen\<close> is the early return of Go after an error.
\<close>

datatype call_outcome = CallOk | CallFailed | CallLost

type_synonym call_oracle = "nat \<Rightarrow> call_outcome"

definition andThen :: "'s \<times> 'e option \<Rightarrow> ('s \<Rightarrow> 's \<times> 'e option) \<Rightarrow> 's \<times> 'e option" where
  "andThen r f = (case r of (s, None) \<Rightarrow> f s | (s, Some e) \<Rightarrow> (s, Some e))"

lemma andThen_fst:
  assumes "P (fst r)" and "\<And>s. snd r = None \<Longrightarrow> s = fst r \<Longrightarrow> P s \<Longrightarrow> P (fst (f s))"
  shows "P (fst (andThen r f))"
  using assms by (cases r) (auto simp: andThen_def split: option.splits)

lemma andThen_ok: "snd r = None \<Longrightarrow> andThen r f = f (fst r)"
  by (cases r) (simp add: andThen_def)

lemma andThen_err: "snd r = Some e \<Longrightarrow> andThen r f = (fst r, Some e)"
  by (cases r) (simp add: andThen_def)

lemma andThen_None: "snd (andThen r f) = None \<longleftrightarrow> snd r = None \<and> snd (f (fst r)) = None"
  by (cases r) (auto simp: andThen_def split: option.splits)

lemma andThen_fst_ok: "snd r = None \<Longrightarrow> fst (andThen r f) = fst (f (fst r))"
  by (cases r) (auto simp: andThen_def)

text \<open>Slices of a list in batches of \<open>n\<close>.\<close>

function batchesOf :: "nat \<Rightarrow> 'a list \<Rightarrow> 'a list list" where
  "batchesOf n xs = (if xs = [] \<or> n = 0 then [] else take n xs # batchesOf n (drop n xs))"
  by pat_completeness auto
termination
  by (relation "measure (length \<circ> snd)") (auto simp: neq_Nil_conv)

declare batchesOf.simps [simp del]

lemma batchesOf_Nil [simp]: "batchesOf n [] = []"
  by (simp add: batchesOf.simps)

lemma concat_batchesOf: "0 < n \<Longrightarrow> concat (batchesOf n xs) = xs"
proof (induction n xs rule: batchesOf.induct)
  case (1 n xs)
  then show ?case by (cases "xs = []") (simp_all add: batchesOf.simps [of n xs])
qed

lemma batchesOf_bounds: "b \<in> set (batchesOf n xs) \<Longrightarrow> b \<noteq> [] \<and> length b \<le> n \<and> set b \<subseteq> set xs"
proof (induction n xs rule: batchesOf.induct)
  case (1 n xs)
  then show ?case
    by (cases "xs = [] \<or> n = 0") (auto simp: batchesOf.simps [of n xs] dest: in_set_takeD in_set_dropD)
qed

end
