(* ===== verification/SchedulingPolicy.thy ===== *)
theory SchedulingPolicy
  imports Prelude
begin

text \<open>
  The scheduling policy of a codebase (\<open>internal/model/scheduling.go\<close>) and the merge of staged
  policy patches (\<open>internal/jobscheduler/job_scheduler_policy.go\<close>). Priorities and reasons are
  Go string types and stay strings here. A nil pointer field of a patch is \<^const>\<open>None\<close>. The
  \<open>int32\<close> idle threshold is an \<^typ>\<open>int\<close>: it is only compared and copied.
\<close>

section \<open>Model\<close>

type_synonym job_priority = string

type_synonym scheduling_reason = string

definition JobPriorityHigh :: job_priority where "JobPriorityHigh = ''high''"

definition JobPriorityNormal :: job_priority where "JobPriorityNormal = ''normal''"

definition JobPriorityLow :: job_priority where "JobPriorityLow = ''low''"

lemmas job_priority_defs = JobPriorityHigh_def JobPriorityNormal_def JobPriorityLow_def

definition SchedulingReasonUnspecified :: scheduling_reason where
  "SchedulingReasonUnspecified = ''''"

definition SchedulingReasonHigherPriorityWork :: scheduling_reason where
  "SchedulingReasonHigherPriorityWork = ''higher-priority work''"

definition SchedulingReasonUserActive :: scheduling_reason where
  "SchedulingReasonUserActive = ''user active''"

definition SchedulingReasonActivityUnavailable :: scheduling_reason where
  "SchedulingReasonActivityUnavailable = ''activity unavailable''"

definition SchedulingReasonThermalSafety :: scheduling_reason where
  "SchedulingReasonThermalSafety = ''thermal safety''"

definition SchedulingReasonStalledRead :: scheduling_reason where
  "SchedulingReasonStalledRead = ''stalled read''"

lemmas scheduling_reason_defs =
  SchedulingReasonUnspecified_def SchedulingReasonHigherPriorityWork_def
  SchedulingReasonUserActive_def SchedulingReasonActivityUnavailable_def
  SchedulingReasonThermalSafety_def SchedulingReasonStalledRead_def

definition DefaultIdleAfterSeconds :: int where "DefaultIdleAfterSeconds = 300"

record scheduling_policy =
  Priority :: job_priority
  Quiet :: bool
  IdleAfterSeconds :: int

record scheduling_policy_patch =
  patchPriority :: "job_priority option"
  patchQuiet :: "bool option"
  patchIdleAfterSeconds :: "int option"

text \<open>The zero value of the patch struct: no field supplied.\<close>

definition emptyPatch :: scheduling_policy_patch where
  "emptyPatch = \<lparr>patchPriority = None, patchQuiet = None, patchIdleAfterSeconds = None\<rparr>"

datatype policy_error = PriorityUnsupported | IdleNotPositive

definition DefaultSchedulingPolicy :: scheduling_policy where
  "DefaultSchedulingPolicy =
     \<lparr>Priority = JobPriorityNormal, Quiet = False, IdleAfterSeconds = DefaultIdleAfterSeconds\<rparr>"

definition ValidateSchedulingPolicy :: "scheduling_policy \<Rightarrow> policy_error option" where
  "ValidateSchedulingPolicy p =
     (if Priority p \<noteq> JobPriorityHigh \<and> Priority p \<noteq> JobPriorityNormal
          \<and> Priority p \<noteq> JobPriorityLow
      then Some PriorityUnsupported
      else if IdleAfterSeconds p \<le> 0 then Some IdleNotPositive
      else None)"

definition fillLegacyZeros :: "scheduling_policy \<Rightarrow> scheduling_policy" where
  "fillLegacyZeros stored =
     (let p = (if Priority stored = '''' then stored\<lparr>Priority := Priority DefaultSchedulingPolicy\<rparr>
               else stored)
      in if IdleAfterSeconds p = 0
         then p\<lparr>IdleAfterSeconds := IdleAfterSeconds DefaultSchedulingPolicy\<rparr> else p)"

definition overlayPatch :: "scheduling_policy \<Rightarrow> scheduling_policy_patch \<Rightarrow> scheduling_policy" where
  "overlayPatch p patch =
     (let p1 = (case patchPriority patch of None \<Rightarrow> p | Some v \<Rightarrow> p\<lparr>Priority := v\<rparr>);
          p2 = (case patchQuiet patch of None \<Rightarrow> p1 | Some v \<Rightarrow> p1\<lparr>Quiet := v\<rparr>)
      in case patchIdleAfterSeconds patch of None \<Rightarrow> p2 | Some v \<Rightarrow> p2\<lparr>IdleAfterSeconds := v\<rparr>)"

definition ApplySchedulingPolicyPatch ::
    "scheduling_policy \<Rightarrow> scheduling_policy_patch \<Rightarrow> policy_error + scheduling_policy" where
  "ApplySchedulingPolicyPatch stored patch =
     (let p = overlayPatch (fillLegacyZeros stored) patch
      in case ValidateSchedulingPolicy p of Some e \<Rightarrow> Inl e | None \<Rightarrow> Inr p)"

definition mergeSchedulingPolicyPatch ::
    "scheduling_policy_patch \<Rightarrow> scheduling_policy_patch \<Rightarrow> scheduling_policy_patch" where
  "mergeSchedulingPolicyPatch existing incoming =
     (let m1 = (if patchPriority incoming \<noteq> None
                then existing\<lparr>patchPriority := patchPriority incoming\<rparr> else existing);
          m2 = (if patchQuiet incoming \<noteq> None then m1\<lparr>patchQuiet := patchQuiet incoming\<rparr> else m1)
      in if patchIdleAfterSeconds incoming \<noteq> None
         then m2\<lparr>patchIdleAfterSeconds := patchIdleAfterSeconds incoming\<rparr> else m2)"

lemmas policy_defs =
  DefaultSchedulingPolicy_def ValidateSchedulingPolicy_def fillLegacyZeros_def overlayPatch_def
  ApplySchedulingPolicyPatch_def mergeSchedulingPolicyPatch_def DefaultIdleAfterSeconds_def

section \<open>Properties\<close>

lemma apply_patch_valid:
  "ApplySchedulingPolicyPatch stored patch = Inr p \<Longrightarrow> ValidateSchedulingPolicy p = None"
  by (auto simp: ApplySchedulingPolicyPatch_def Let_def split: option.splits)

lemma valid_policy_filled: "ValidateSchedulingPolicy p = None \<Longrightarrow> fillLegacyZeros p = p"
  by (auto simp: ValidateSchedulingPolicy_def fillLegacyZeros_def job_priority_defs Let_def
      split: if_splits)

lemma overlay_merge:
  "overlayPatch p (mergeSchedulingPolicyPatch a b) = overlayPatch (overlayPatch p a) b"
  by (cases p; cases a; cases b)
     (auto simp: overlayPatch_def mergeSchedulingPolicyPatch_def Let_def split: option.splits)

lemma apply_merged_patch:
  assumes "ApplySchedulingPolicyPatch stored a = Inr mid"
  shows "ApplySchedulingPolicyPatch stored (mergeSchedulingPolicyPatch a b)
         = ApplySchedulingPolicyPatch mid b"
proof -
  have "mid = overlayPatch (fillLegacyZeros stored) a"
    using assms by (auto simp: ApplySchedulingPolicyPatch_def Let_def split: option.splits)
  moreover have "fillLegacyZeros mid = mid"
    using apply_patch_valid [OF assms] by (rule valid_policy_filled)
  ultimately show ?thesis
    by (simp add: ApplySchedulingPolicyPatch_def overlay_merge)
qed

lemma apply_empty_patch:
  "ValidateSchedulingPolicy p = None \<Longrightarrow> ApplySchedulingPolicyPatch p emptyPatch = Inr p"
  by (simp add: ApplySchedulingPolicyPatch_def valid_policy_filled emptyPatch_def overlayPatch_def)

lemma merge_empty_left: "mergeSchedulingPolicyPatch emptyPatch b = b"
  by (cases b) (auto simp: mergeSchedulingPolicyPatch_def emptyPatch_def Let_def)

lemma merge_assoc:
  "mergeSchedulingPolicyPatch (mergeSchedulingPolicyPatch a b) c
   = mergeSchedulingPolicyPatch a (mergeSchedulingPolicyPatch b c)"
  by (cases a; cases b; cases c) (auto simp: mergeSchedulingPolicyPatch_def Let_def)

lemma default_policy_valid: "ValidateSchedulingPolicy DefaultSchedulingPolicy = None"
  by (simp add: policy_defs job_priority_defs)

end
