(* ===== verification/JobScheduler.thy ===== *)
theory JobScheduler
  imports SchedulingPolicy
begin

text \<open>
  The job scheduler (\<open>internal/jobscheduler\<close>): entries compete for a fixed number of slots,
  ordered by priority, queue sequence and job id. Every exported operation runs its body under
  one mutex; each such locked section is one state transformer here. \<open>uint64\<close> counters keep
  their width. A \<open>time.Time\<close> is an \<^typ>\<open>int\<close> in nanoseconds with the zero time at 0, and each
  read of \<open>scheduler.now\<close> is an argument. The \<open>changed\<close> channel that \<open>notifyLocked\<close> closes and
  replaces is the number of the current channel. A context is the Boolean answer of its
  \<open>Err\<close> method (\<^const>\<open>True\<close>: ended). An armed \<open>time.AfterFunc\<close> is the generation its
  callback passes to \<open>openRetryRound\<close>.

  Map iterations read the entries in list order. The loops that update several entries write
  only the visited entry and read only state, policy and identity of the others, so they are
  maps over the list.
\<close>

section \<open>Data\<close>

record activity_snapshot =
  InputAvailable :: bool
  InputIdleFor :: int
  InputReason :: scheduling_reason
  ThermalAvailable :: bool
  ThermalUnsafe :: bool
  ThermalReason :: scheduling_reason

datatype entry_state = EntryWaiting | EntryRunning | EntryPaused

record entry =
  JobID :: string
  Policy :: scheduling_policy
  QueueSequence :: uint64
  State :: entry_state
  Reason :: scheduling_reason
  PauseRequested :: bool
  generation :: uint64
  policyGeneration :: uint64

type_synonym entry_map = "(string, entry) gomap"

record scheduler =
  capacity :: int
  entries :: entry_map
  registrationPolicies :: "(string, scheduling_policy_patch) gomap"
  registrationPolicyGenerations :: "(string, uint64) gomap"
  pauseGenerations :: "(string, uint64) gomap"
  nextEntryGeneration :: uint64
  pauseClaims :: "(string, uint64) gomap"
  retryWaiting :: "(string, int) gomap"
  retryShared :: "(string, bool) gomap"
  retryTimer :: "uint64 option"
  retryTimerDeadline :: int
  retryGeneration :: uint64
  yields :: uint64
  changed :: nat
  activity :: activity_snapshot

record lease =
  leaseJobID :: string
  leaseGeneration :: uint64

record pause_claim =
  claimLease :: lease
  claimGeneration :: uint64
  claimReason :: scheduling_reason

record scheduler_snapshot =
  snapCapacity :: int
  snapRunning :: "(job_priority, int) gomap"
  snapQueued :: "(job_priority, int) gomap"
  snapPaused :: "(job_priority, int) gomap"
  snapReasons :: "(string, scheduling_reason) gomap"
  snapYields :: uint64
  snapActivity :: activity_snapshot

record policy_update_receipt =
  receiptJobID :: string
  staged :: bool
  hadPreviousStaged :: bool
  previousStaged :: scheduling_policy_patch
  entryGeneration :: uint64
  receiptPolicyGeneration :: uint64

datatype sched_error =
    AcquireCancelled
  | JobIDRequired
  | PolicyInvalid policy_error
  | JobExists string
  | RegistrationPolicyRejected policy_error
  | JobMissing string
  | PolicyUpdateRejected policy_error
  | WaitCancelled string
  | RetryCancelled
  | RetryDelayNotPositive
  | JobNotRunning string
  | ReacquireCancelled
  | LeaseNotOwner string
  | StagedPolicyInvalid policy_error
  | ReceiptMissingJobID
  | RollbackPolicyInvalid policy_error

definition ReasonWaitingForCapacity :: scheduling_reason where
  "ReasonWaitingForCapacity = SchedulingReasonUnspecified"

definition ReasonHigherPriorityWork :: scheduling_reason where
  "ReasonHigherPriorityWork = SchedulingReasonHigherPriorityWork"

definition ReasonActivityUnavailable :: scheduling_reason where
  "ReasonActivityUnavailable = SchedulingReasonActivityUnavailable"

definition ReasonWaitingForInputIdle :: scheduling_reason where
  "ReasonWaitingForInputIdle = SchedulingReasonUserActive"

definition ReasonThermalUnsafe :: scheduling_reason where
  "ReasonThermalUnsafe = SchedulingReasonThermalSafety"

lemmas reason_defs =
  ReasonWaitingForCapacity_def ReasonHigherPriorityWork_def ReasonActivityUnavailable_def
  ReasonWaitingForInputIdle_def ReasonThermalUnsafe_def scheduling_reason_defs

definition unavailableActivitySnapshot :: activity_snapshot where
  "unavailableActivitySnapshot =
     \<lparr>InputAvailable = False, InputIdleFor = 0, InputReason = ReasonActivityUnavailable,
      ThermalAvailable = False, ThermalUnsafe = False, ThermalReason = ReasonActivityUnavailable\<rparr>"

section \<open>Ordering and eligibility\<close>

definition schedulerPriorityRank :: "job_priority \<Rightarrow> nat" where
  "schedulerPriorityRank p =
     (if p = JobPriorityHigh then 0 else if p = JobPriorityNormal then 1
      else if p = JobPriorityLow then 2 else 3)"

abbreviation entryRank :: "entry \<Rightarrow> nat" where
  "entryRank e \<equiv> schedulerPriorityRank (Priority (Policy e))"

definition secondNanos :: int where "secondNanos = 1000000000"

definition quietBlockingReasonLocked ::
    "activity_snapshot \<Rightarrow> scheduling_policy \<Rightarrow> scheduling_reason" where
  "quietBlockingReasonLocked act p =
     (if \<not> Quiet p then ''''
      else if ThermalAvailable act \<and> ThermalUnsafe act then ReasonThermalUnsafe
      else if Priority p = JobPriorityHigh then ''''
      else if \<not> InputAvailable act then ReasonActivityUnavailable
      else if InputIdleFor act < IdleAfterSeconds p * secondNanos then ReasonWaitingForInputIdle
      else '''')"

definition waitingBefore :: "entry \<Rightarrow> entry \<Rightarrow> bool" where
  "waitingBefore l r =
     (if entryRank l \<noteq> entryRank r then entryRank l < entryRank r
      else if QueueSequence l \<noteq> QueueSequence r then QueueSequence l < QueueSequence r
      else JobID l < JobID r)"

definition waitingEntriesLocked :: "entry_map \<Rightarrow> entry list" where
  "waitingEntriesLocked es =
     sort_by waitingBefore (filter (\<lambda>e. State e = EntryWaiting) (map snd es))"

definition eligibleWaitingEntriesLocked :: "activity_snapshot \<Rightarrow> entry_map \<Rightarrow> entry list" where
  "eligibleWaitingEntriesLocked act es =
     filter (\<lambda>e. quietBlockingReasonLocked act (Policy e) = '''') (waitingEntriesLocked es)"

definition runningCountLocked :: "entry_map \<Rightarrow> int" where
  "runningCountLocked es = int (length (filter (\<lambda>(k, e). State e = EntryRunning) es))"

definition schedulerVictimBefore :: "entry \<Rightarrow> entry \<Rightarrow> bool" where
  "schedulerVictimBefore l r =
     (if entryRank l \<noteq> entryRank r then entryRank l > entryRank r
      else if QueueSequence l \<noteq> QueueSequence r then QueueSequence l > QueueSequence r
      else JobID l > JobID r)"

fun selectVictim_loop ::
    "job_priority \<Rightarrow> string list \<Rightarrow> entry option \<Rightarrow> entry list \<Rightarrow> entry option" where
  "selectVictim_loop p selected victim [] = victim"
| "selectVictim_loop p selected victim (c # cs) =
     (if State c \<noteq> EntryRunning \<or> JobID c \<in> set selected
      then selectVictim_loop p selected victim cs
      else if entryRank c \<le> schedulerPriorityRank p then selectVictim_loop p selected victim cs
      else case victim of
             None \<Rightarrow> selectVictim_loop p selected (Some c) cs
           | Some v \<Rightarrow>
               if schedulerVictimBefore c v then selectVictim_loop p selected (Some c) cs
               else selectVictim_loop p selected victim cs)"

definition selectVictimLocked :: "entry_map \<Rightarrow> job_priority \<Rightarrow> string list \<Rightarrow> entry option" where
  "selectVictimLocked es p selected = selectVictim_loop p selected None (map snd es)"

definition waitingReasonLocked ::
    "activity_snapshot \<Rightarrow> entry_map \<Rightarrow> entry \<Rightarrow> scheduling_reason" where
  "waitingReasonLocked act es e =
     (if quietBlockingReasonLocked act (Policy e) \<noteq> '''' then quietBlockingReasonLocked act (Policy e)
      else if list_ex (\<lambda>(k, c). JobID c \<noteq> JobID e \<and> State c \<noteq> EntryPaused
                 \<and> quietBlockingReasonLocked act (Policy c) = '''' \<and> entryRank c < entryRank e) es
           then ReasonHigherPriorityWork
      else ReasonWaitingForCapacity)"

section \<open>Rebalancing\<close>

definition startEntry :: "entry \<Rightarrow> entry" where
  "startEntry e = e\<lparr>State := EntryRunning, Reason := '''', PauseRequested := False\<rparr>"

text \<open>The first loop of \<open>rebalanceLocked\<close>: fill free slots from the head of the queue.\<close>

fun admit_loop :: "int \<Rightarrow> int \<Rightarrow> entry list \<Rightarrow> entry_map \<Rightarrow> entry_map" where
  "admit_loop cap running [] es = es"
| "admit_loop cap running (e # waiting) es =
     (if running < cap
      then admit_loop cap (running + 1) waiting (gm_put (JobID e) (startEntry e) es)
      else es)"

text \<open>The second loop: quiet running entries are asked to pause, waiting entries get a reason.\<close>

definition annotateEntry :: "activity_snapshot \<Rightarrow> entry_map \<Rightarrow> entry \<Rightarrow> entry" where
  "annotateEntry act es e =
     (case State e of
        EntryRunning \<Rightarrow>
          (let r = quietBlockingReasonLocked act (Policy e)
           in e\<lparr>PauseRequested := (r \<noteq> ''''), Reason := r\<rparr>)
      | EntryWaiting \<Rightarrow> e\<lparr>Reason := waitingReasonLocked act es e\<rparr>
      | EntryPaused \<Rightarrow> e)"

definition markVictim :: "entry \<Rightarrow> entry" where
  "markVictim v = v\<lparr>PauseRequested := True, Reason := ReasonHigherPriorityWork\<rparr>"

text \<open>The last loop: each eligible waiting entry uses a free slot or selects a victim.\<close>

fun victim_loop :: "int \<Rightarrow> string list \<Rightarrow> entry list \<Rightarrow> entry_map \<Rightarrow> entry_map" where
  "victim_loop free selected [] es = es"
| "victim_loop free selected (w # waiting) es =
     (if free > 0 then victim_loop (free - 1) selected waiting es
      else case selectVictimLocked es (Priority (Policy w)) selected of
             None \<Rightarrow> victim_loop free selected waiting es
           | Some v \<Rightarrow>
               victim_loop free (JobID v # selected) waiting (gm_put (JobID v) (markVictim v) es))"

definition admitEntries :: "int \<Rightarrow> activity_snapshot \<Rightarrow> entry_map \<Rightarrow> entry_map" where
  "admitEntries cap act es =
     admit_loop cap (runningCountLocked es) (eligibleWaitingEntriesLocked act es) es"

definition annotateEntries :: "activity_snapshot \<Rightarrow> entry_map \<Rightarrow> entry_map" where
  "annotateEntries act es = gm_map (annotateEntry act es) es"

definition pausedVictims :: "entry_map \<Rightarrow> string list" where
  "pausedVictims es =
     map JobID (filter (\<lambda>e. State e = EntryRunning \<and> PauseRequested e) (map snd es))"

definition selectVictims :: "int \<Rightarrow> activity_snapshot \<Rightarrow> entry_map \<Rightarrow> entry_map" where
  "selectVictims cap act es =
     (let selected = pausedVictims es;
          free = cap - runningCountLocked es + int (length selected)
      in victim_loop free selected (eligibleWaitingEntriesLocked act es) es)"

definition rebalanceEntries :: "int \<Rightarrow> activity_snapshot \<Rightarrow> entry_map \<Rightarrow> entry_map" where
  "rebalanceEntries cap act es =
     selectVictims cap act (annotateEntries act (admitEntries cap act es))"

definition rebalanceLocked :: "scheduler \<Rightarrow> scheduler" where
  "rebalanceLocked s = s\<lparr>entries := rebalanceEntries (capacity s) (activity s) (entries s)\<rparr>"

definition notifyLocked :: "scheduler \<Rightarrow> scheduler" where
  "notifyLocked s = s\<lparr>changed := Suc (changed s)\<rparr>"

section \<open>Construction and activity sampling\<close>

text \<open>The sample taken at construction; \<^const>\<open>None\<close> when there is no source or it panicked.\<close>

definition NewScheduler :: "int \<Rightarrow> activity_snapshot option \<Rightarrow> scheduler" where
  "NewScheduler cap sampled =
     \<lparr>capacity = cap, entries = [], registrationPolicies = [],
      registrationPolicyGenerations = [], pauseGenerations = [], nextEntryGeneration = 0,
      pauseClaims = [], retryWaiting = [], retryShared = [], retryTimer = None,
      retryTimerDeadline = 0, retryGeneration = 0, yields = 0, changed = 0,
      activity = (case sampled of None \<Rightarrow> unavailableActivitySnapshot | Some a \<Rightarrow> a)\<rparr>"

definition sampleActivity :: "activity_snapshot option \<Rightarrow> scheduler \<Rightarrow> scheduler" where
  "sampleActivity sampled s =
     (let act = (case sampled of None \<Rightarrow> unavailableActivitySnapshot | Some a \<Rightarrow> a)
      in if activity s = act then s
         else notifyLocked (rebalanceLocked (s\<lparr>activity := act\<rparr>)))"

section \<open>Staged policy updates\<close>

definition DiscardStagedPolicyUpdate :: "string \<Rightarrow> scheduler \<Rightarrow> scheduler" where
  "DiscardStagedPolicyUpdate jobID s =
     s\<lparr>registrationPolicies := gm_del jobID (registrationPolicies s),
       registrationPolicyGenerations := gm_del jobID (registrationPolicyGenerations s)\<rparr>"

definition updatePolicyLocked ::
    "string \<Rightarrow> entry \<Rightarrow> scheduling_policy_patch \<Rightarrow> scheduler \<Rightarrow> sched_error option \<times> scheduler" where
  "updatePolicyLocked jobID e patch s =
     (case ApplySchedulingPolicyPatch (Policy e) patch of
        Inl err \<Rightarrow> (Some (PolicyUpdateRejected err), s)
      | Inr policy \<Rightarrow>
          (let e' = e\<lparr>Policy := policy, policyGeneration := policyGeneration e + 1\<rparr>
           in (None, notifyLocked (rebalanceLocked (s\<lparr>entries := gm_put jobID e' (entries s)\<rparr>)))))"

definition UpdatePolicy ::
    "string \<Rightarrow> scheduling_policy_patch \<Rightarrow> scheduler \<Rightarrow> sched_error option \<times> scheduler" where
  "UpdatePolicy jobID patch s =
     (case map_of (entries s) jobID of
        None \<Rightarrow> (Some (JobMissing jobID), s)
      | Some e \<Rightarrow> updatePolicyLocked jobID e patch s)"

definition StagePolicyUpdate ::
    "string \<Rightarrow> scheduling_policy_patch \<Rightarrow> scheduler
     \<Rightarrow> (sched_error + policy_update_receipt) \<times> scheduler" where
  "StagePolicyUpdate jobID patch s =
     (if jobID = '''' then (Inl JobIDRequired, s)
      else case ApplySchedulingPolicyPatch DefaultSchedulingPolicy patch of
        Inl err \<Rightarrow> (Inl (StagedPolicyInvalid err), s)
      | Inr _ \<Rightarrow>
         (case map_of (entries s) jobID of
            None \<Rightarrow>
              (let had = (map_of (registrationPolicies s) jobID \<noteq> None);
                   current = gm_get0 emptyPatch (registrationPolicies s) jobID;
                   g = gm_get0 0 (registrationPolicyGenerations s) jobID + 1
               in (Inr \<lparr>receiptJobID = jobID, staged = True, hadPreviousStaged = had,
                        previousStaged = current, entryGeneration = 0,
                        receiptPolicyGeneration = g\<rparr>,
                   s\<lparr>registrationPolicies :=
                       gm_put jobID (mergeSchedulingPolicyPatch current patch)
                         (registrationPolicies s),
                     registrationPolicyGenerations :=
                       gm_put jobID g (registrationPolicyGenerations s)\<rparr>))
          | Some e \<Rightarrow>
              (case updatePolicyLocked jobID e patch s of
                 (Some err, s') \<Rightarrow> (Inl err, s')
               | (None, s') \<Rightarrow>
                   (Inr \<lparr>receiptJobID = jobID, staged = False, hadPreviousStaged = False,
                         previousStaged = emptyPatch, entryGeneration = generation e,
                         receiptPolicyGeneration = policyGeneration e + 1\<rparr>, s'))))"

definition RollbackPolicyUpdate ::
    "policy_update_receipt \<Rightarrow> scheduling_policy \<Rightarrow> scheduler \<Rightarrow> sched_error option \<times> scheduler" where
  "RollbackPolicyUpdate receipt previousPolicy s =
     (let jobID = receiptJobID receipt in
      if jobID = '''' then (Some ReceiptMissingJobID, s)
      else case ValidateSchedulingPolicy previousPolicy of
        Some err \<Rightarrow> (Some (RollbackPolicyInvalid err), s)
      | None \<Rightarrow>
         (case map_of (entries s) jobID of
            Some e \<Rightarrow>
              if entryGeneration receipt \<noteq> generation e
                 \<or> receiptPolicyGeneration receipt \<noteq> policyGeneration e
              then (None, s)
              else (let e' = e\<lparr>Policy := previousPolicy, policyGeneration := policyGeneration e + 1\<rparr>
                    in (None, notifyLocked (rebalanceLocked
                                (s\<lparr>entries := gm_put jobID e' (entries s)\<rparr>))))
          | None \<Rightarrow>
              if \<not> staged receipt then (Some (JobMissing jobID), s)
              else if hadPreviousStaged receipt
              then (if gm_get0 0 (registrationPolicyGenerations s) jobID
                       \<noteq> receiptPolicyGeneration receipt
                    then (None, s)
                    else (None, s\<lparr>registrationPolicies :=
                                    gm_put jobID (previousStaged receipt) (registrationPolicies s),
                                  registrationPolicyGenerations :=
                                    gm_put jobID
                                      (gm_get0 0 (registrationPolicyGenerations s) jobID + 1)
                                      (registrationPolicyGenerations s)\<rparr>))
              else if gm_get0 0 (registrationPolicyGenerations s) jobID
                      \<noteq> receiptPolicyGeneration receipt
              then (None, s)
              else (None, DiscardStagedPolicyUpdate jobID s)))"

section \<open>Waiting for a slot\<close>

text \<open>
  In \<open>cancelWaitLocked\<close> the reason of a kept entry is replaced only when it is empty, by a
  constant that is empty too.
\<close>

definition cancelWaitLocked :: "string \<Rightarrow> entry \<Rightarrow> bool \<Rightarrow> scheduler \<Rightarrow> scheduler" where
  "cancelWaitLocked jobID e rem s =
     notifyLocked (rebalanceLocked
       (if rem
        then s\<lparr>entries := gm_del jobID (entries s),
               registrationPolicies := gm_del jobID (registrationPolicies s),
               registrationPolicyGenerations := gm_del jobID (registrationPolicyGenerations s),
               pauseClaims := gm_del jobID (pauseClaims s),
               pauseGenerations := gm_del jobID (pauseGenerations s),
               retryWaiting := gm_del jobID (retryWaiting s),
               retryShared := gm_del jobID (retryShared s)\<rparr>
        else s\<lparr>entries := gm_put jobID
                 (e\<lparr>State := EntryPaused, PauseRequested := False,
                    Reason := (if Reason e = '''' then ReasonWaitingForCapacity else Reason e)\<rparr>)
                 (entries s),
               pauseClaims := gm_del jobID (pauseClaims s),
               retryWaiting := gm_del jobID (retryWaiting s)\<rparr>))"

datatype wait_outcome = WaitFailed sched_error | WaitReady | WaitOn nat

text \<open>One iteration of the \<open>waitForRunning\<close> loop: its locked section.\<close>

definition waitIteration ::
    "bool \<Rightarrow> string \<Rightarrow> uint64 \<Rightarrow> bool \<Rightarrow> scheduler \<Rightarrow> wait_outcome \<times> scheduler" where
  "waitIteration ctxEnded jobID gen removeOnCancel s =
     (case map_of (entries s) jobID of
        None \<Rightarrow> (WaitFailed (JobMissing jobID), s)
      | Some e \<Rightarrow>
          if generation e \<noteq> gen then (WaitFailed (JobMissing jobID), s)
          else if ctxEnded
          then (WaitFailed (WaitCancelled jobID), cancelWaitLocked jobID e removeOnCancel s)
          else if State e = EntryRunning then (WaitReady, s)
          else (WaitOn (changed s), s))"

text \<open>
  The whole loop against a given interleaving: each element of \<open>envs\<close> is what other goroutines do
  to the scheduler while this one blocks, with the context's state at the wake-up. \<^const>\<open>None\<close>
  means that it still blocks when the interleaving ends.
\<close>

fun waitForRunning ::
    "((scheduler \<Rightarrow> scheduler) \<times> bool) list \<Rightarrow> bool \<Rightarrow> string \<Rightarrow> uint64 \<Rightarrow> bool \<Rightarrow> scheduler
     \<Rightarrow> sched_error option option \<times> scheduler" where
  "waitForRunning envs ctxEnded jobID gen removeOnCancel s =
     (case waitIteration ctxEnded jobID gen removeOnCancel s of
        (WaitFailed err, s') \<Rightarrow> (Some (Some err), s')
      | (WaitReady, s') \<Rightarrow> (Some None, s')
      | (WaitOn _, s') \<Rightarrow>
          (case envs of
             [] \<Rightarrow> (None, s')
           | (env, ctxEnded') # envs' \<Rightarrow>
               waitForRunning envs' ctxEnded' jobID gen removeOnCancel (env s')))"

declare waitForRunning.simps [simp del]

section \<open>Acquiring a lease\<close>

text \<open>\<open>Acquire\<close> up to its wait: the checks and the registration under the mutex.\<close>

definition registerEntry :: "entry \<Rightarrow> scheduling_policy \<Rightarrow> scheduler \<Rightarrow> scheduler" where
  "registerEntry e policy s =
     (let g = nextEntryGeneration s + 1;
          e' = e\<lparr>Policy := policy, generation := g, State := EntryWaiting,
                 Reason := ReasonWaitingForCapacity, PauseRequested := False\<rparr>
      in notifyLocked (rebalanceLocked
           (s\<lparr>nextEntryGeneration := g, entries := gm_put (JobID e) e' (entries s)\<rparr>)))"

definition acquireRegister ::
    "bool \<Rightarrow> entry \<Rightarrow> scheduler \<Rightarrow> (sched_error + lease) \<times> scheduler" where
  "acquireRegister ctxEnded e s =
     (if ctxEnded
      then (Inl AcquireCancelled,
            if JobID e \<noteq> '''' then DiscardStagedPolicyUpdate (JobID e) s else s)
      else if JobID e = '''' then (Inl JobIDRequired, s)
      else case ValidateSchedulingPolicy (Policy e) of
        Some err \<Rightarrow> (Inl (PolicyInvalid err), DiscardStagedPolicyUpdate (JobID e) s)
      | None \<Rightarrow>
          if map_of (entries s) (JobID e) \<noteq> None then (Inl (JobExists (JobID e)), s)
          else (let l = \<lparr>leaseJobID = JobID e, leaseGeneration = nextEntryGeneration s + 1\<rparr>
                in case map_of (registrationPolicies s) (JobID e) of
                     None \<Rightarrow> (Inr l, registerEntry e (Policy e) s)
                   | Some patch \<Rightarrow>
                       (case ApplySchedulingPolicyPatch (Policy e) patch of
                          Inl err \<Rightarrow> (Inl (RegistrationPolicyRejected err),
                                      DiscardStagedPolicyUpdate (JobID e) s)
                        | Inr policy \<Rightarrow>
                            (Inr l, registerEntry e policy
                                      (DiscardStagedPolicyUpdate (JobID e) s)))))"

definition Acquire ::
    "((scheduler \<Rightarrow> scheduler) \<times> bool) list \<Rightarrow> bool \<Rightarrow> entry \<Rightarrow> scheduler
     \<Rightarrow> (sched_error + lease) option \<times> scheduler" where
  "Acquire envs ctxEnded e s =
     (case acquireRegister ctxEnded e s of
        (Inl err, s') \<Rightarrow> (Some (Inl err), s')
      | (Inr l, s') \<Rightarrow>
          (case waitForRunning envs ctxEnded (leaseJobID l) (leaseGeneration l) True s' of
             (None, s'') \<Rightarrow> (None, s'')
           | (Some (Some err), s'') \<Rightarrow> (Some (Inl err), s'')
           | (Some None, s'') \<Rightarrow> (Some (Inr l), s'')))"

section \<open>Lease operations\<close>

text \<open>The entry a lease owns: present under its job id with the lease's generation.\<close>

definition leaseEntry :: "lease \<Rightarrow> scheduler \<Rightarrow> entry option" where
  "leaseEntry l s =
     (case map_of (entries s) (leaseJobID l) of
        None \<Rightarrow> None
      | Some e \<Rightarrow> if generation e = leaseGeneration l then Some e else None)"

definition Checkpoint :: "lease \<Rightarrow> scheduler \<Rightarrow> bool \<times> scheduling_reason" where
  "Checkpoint l s =
     (case leaseEntry l s of
        None \<Rightarrow> (False, '''')
      | Some e \<Rightarrow>
          if State e \<noteq> EntryRunning then (False, '''')
          else if \<not> PauseRequested e \<or> gm_get0 0 (pauseClaims s) (leaseJobID l) \<noteq> 0
          then (False, '''')
          else (True, Reason e))"

definition claimPause ::
    "scheduling_reason \<Rightarrow> bool \<Rightarrow> lease \<Rightarrow> scheduler \<Rightarrow> pause_claim option \<times> scheduler" where
  "claimPause reason requireRequest l s =
     (case leaseEntry l s of
        None \<Rightarrow> (None, s)
      | Some e \<Rightarrow>
          if State e \<noteq> EntryRunning then (None, s)
          else if gm_get0 0 (pauseClaims s) (leaseJobID l) \<noteq> 0 then (None, s)
          else if requireRequest \<and> \<not> PauseRequested e then (None, s)
          else (let r = (if reason = '''' then Reason e else reason);
                    g = gm_get0 0 (pauseGenerations s) (leaseJobID l) + 1
                in (Some \<lparr>claimLease = l, claimGeneration = g, claimReason = r\<rparr>,
                    s\<lparr>pauseGenerations := gm_put (leaseJobID l) g (pauseGenerations s),
                      pauseClaims := gm_put (leaseJobID l) g (pauseClaims s)\<rparr>)))"

definition ClaimPauseRequest :: "lease \<Rightarrow> scheduler \<Rightarrow> pause_claim option \<times> scheduler" where
  "ClaimPauseRequest l s = claimPause '''' True l s"

definition ClaimYield ::
    "scheduling_reason \<Rightarrow> lease \<Rightarrow> scheduler \<Rightarrow> pause_claim option \<times> scheduler" where
  "ClaimYield reason l s = claimPause reason False l s"

definition CancelClaim :: "pause_claim \<Rightarrow> scheduler \<Rightarrow> scheduler" where
  "CancelClaim c s =
     (let jobID = leaseJobID (claimLease c) in
      case leaseEntry (claimLease c) s of
        None \<Rightarrow> s
      | Some _ \<Rightarrow>
          if gm_get0 0 (pauseClaims s) jobID \<noteq> claimGeneration c then s
          else notifyLocked (s\<lparr>pauseClaims := gm_del jobID (pauseClaims s)\<rparr>))"

definition YieldClaim :: "pause_claim \<Rightarrow> scheduler \<Rightarrow> bool \<times> scheduler" where
  "YieldClaim c s =
     (let jobID = leaseJobID (claimLease c) in
      case leaseEntry (claimLease c) s of
        None \<Rightarrow> (False, s)
      | Some e \<Rightarrow>
          if State e \<noteq> EntryRunning \<or> gm_get0 0 (pauseClaims s) jobID \<noteq> claimGeneration c
          then (False, s)
          else (True, notifyLocked (rebalanceLocked
                  (s\<lparr>pauseClaims := gm_del jobID (pauseClaims s),
                     retryWaiting := gm_del jobID (retryWaiting s),
                     retryShared := gm_del jobID (retryShared s),
                     entries := gm_put jobID
                       (e\<lparr>State := EntryPaused, Reason := claimReason c, PauseRequested := False\<rparr>)
                       (entries s),
                     yields := yields s + 1\<rparr>))))"

definition YieldLease :: "scheduling_reason \<Rightarrow> lease \<Rightarrow> scheduler \<Rightarrow> bool \<times> scheduler" where
  "YieldLease reason l s =
     (case ClaimYield reason l s of
        (None, s') \<Rightarrow> (False, s')
      | (Some c, s') \<Rightarrow> YieldClaim c s')"

definition Release :: "lease \<Rightarrow> scheduler \<Rightarrow> scheduler" where
  "Release l s =
     (let jobID = leaseJobID l in
      case leaseEntry l s of
        None \<Rightarrow> s
      | Some _ \<Rightarrow>
          notifyLocked (rebalanceLocked
            (s\<lparr>entries := gm_del jobID (entries s),
               pauseClaims := gm_del jobID (pauseClaims s),
               pauseGenerations := gm_del jobID (pauseGenerations s),
               retryWaiting := gm_del jobID (retryWaiting s),
               retryShared := gm_del jobID (retryShared s)\<rparr>)))"

definition UpdatePolicyLease ::
    "scheduling_policy_patch \<Rightarrow> lease \<Rightarrow> scheduler \<Rightarrow> sched_error option \<times> scheduler" where
  "UpdatePolicyLease patch l s =
     (case leaseEntry l s of
        None \<Rightarrow> (Some (LeaseNotOwner (leaseJobID l)), s)
      | Some e \<Rightarrow> updatePolicyLocked (leaseJobID l) e patch s)"

section \<open>Retry rounds\<close>

definition startRetryRoundLocked :: "int \<Rightarrow> int \<Rightarrow> scheduler \<Rightarrow> scheduler" where
  "startRetryRoundLocked now delay s =
     s\<lparr>retryGeneration := retryGeneration s + 1,
       retryTimerDeadline := now + delay,
       retryTimer := Some (retryGeneration s + 1)\<rparr>"

fun earliestDeadline :: "int \<Rightarrow> int list \<Rightarrow> int" where
  "earliestDeadline nxt [] = nxt"
| "earliestDeadline nxt (d # ds) = earliestDeadline (if nxt = 0 \<or> d < nxt then d else nxt) ds"

text \<open>\<open>now\<close> is the caller's clock reading, \<open>clk\<close> the later one in \<open>startRetryRoundLocked\<close>.\<close>

definition scheduleNextRetryLocked :: "int \<Rightarrow> int \<Rightarrow> scheduler \<Rightarrow> scheduler" where
  "scheduleNextRetryLocked now clk s =
     (if retryWaiting s = [] then s
      else (let nxt = earliestDeadline 0 (map snd (retryWaiting s));
                delay = max (nxt - now) 0
            in case retryTimer s of
                 None \<Rightarrow> startRetryRoundLocked clk delay s
               | Some _ \<Rightarrow>
                   if \<not> nxt < retryTimerDeadline s then s
                   else startRetryRoundLocked clk delay
                          (s\<lparr>retryTimer := None, retryTimerDeadline := 0\<rparr>)))"

definition dueSharedReasons :: "int \<Rightarrow> scheduler \<Rightarrow> scheduling_reason list" where
  "dueSharedReasons now s =
     List.map_filter
       (\<lambda>(jobID, deadline).
          if now < deadline \<or> \<not> gm_get0 False (retryShared s) jobID then None
          else case map_of (entries s) jobID of
                 None \<Rightarrow> None
               | Some e \<Rightarrow> if State e = EntryPaused then Some (Reason e) else None)
       (retryWaiting s)"

definition openRetryJob ::
    "int \<Rightarrow> scheduling_reason list \<Rightarrow> string \<Rightarrow> int \<Rightarrow> scheduler \<Rightarrow> scheduler" where
  "openRetryJob now shared jobID deadline s =
     (let drop = (\<lambda>t. t\<lparr>retryWaiting := gm_del jobID (retryWaiting t),
                        retryShared := gm_del jobID (retryShared t)\<rparr>)
      in case map_of (entries s) jobID of
           None \<Rightarrow> drop s
         | Some e \<Rightarrow>
             if now < deadline \<and> Reason e \<notin> set shared then s
             else if State e = EntryPaused
             then drop (s\<lparr>entries := gm_put jobID (e\<lparr>State := EntryWaiting, PauseRequested := False\<rparr>)
                                       (entries s)\<rparr>)
             else drop s)"

fun openRetry_loop ::
    "int \<Rightarrow> scheduling_reason list \<Rightarrow> (string \<times> int) list \<Rightarrow> scheduler \<Rightarrow> scheduler" where
  "openRetry_loop now shared [] s = s"
| "openRetry_loop now shared ((jobID, deadline) # rest) s =
     openRetry_loop now shared rest (openRetryJob now shared jobID deadline s)"

definition openRetryRound :: "uint64 \<Rightarrow> int \<Rightarrow> int \<Rightarrow> scheduler \<Rightarrow> scheduler" where
  "openRetryRound gen now clk s =
     (if gen \<noteq> retryGeneration s then s
      else (let s1 = s\<lparr>retryTimer := None, retryTimerDeadline := 0\<rparr>;
                shared = dueSharedReasons now s1;
                s2 = openRetry_loop now shared (retryWaiting s1) s1
            in notifyLocked (rebalanceLocked (scheduleNextRetryLocked now clk s2))))"

text \<open>The locked section of \<open>retryAfter\<close>, before its wait.\<close>

definition retryAfterLocked ::
    "bool \<Rightarrow> int \<Rightarrow> scheduling_reason \<Rightarrow> bool \<Rightarrow> int \<Rightarrow> int \<Rightarrow> lease \<Rightarrow> scheduler
     \<Rightarrow> sched_error option \<times> scheduler" where
  "retryAfterLocked ctxEnded delay reason shared now clk l s =
     (let jobID = leaseJobID l in
      if ctxEnded then (Some RetryCancelled, s)
      else if delay \<le> 0 then (Some RetryDelayNotPositive, s)
      else case leaseEntry l s of
        None \<Rightarrow> (Some (JobMissing jobID), s)
      | Some e \<Rightarrow>
          if State e \<noteq> EntryRunning then (Some (JobNotRunning jobID), s)
          else (None,
            notifyLocked (rebalanceLocked (scheduleNextRetryLocked now clk
              (s\<lparr>pauseClaims := gm_del jobID (pauseClaims s),
                 entries := gm_put jobID
                   (e\<lparr>State := EntryPaused, Reason := reason, PauseRequested := False\<rparr>) (entries s),
                 retryWaiting := gm_put jobID (now + delay) (retryWaiting s),
                 retryShared := gm_put jobID shared (retryShared s),
                 yields := yields s + 1\<rparr>)))))"

definition retryAfter ::
    "((scheduler \<Rightarrow> scheduler) \<times> bool) list \<Rightarrow> bool \<Rightarrow> int \<Rightarrow> scheduling_reason \<Rightarrow> bool \<Rightarrow> int \<Rightarrow> int
     \<Rightarrow> lease \<Rightarrow> scheduler \<Rightarrow> sched_error option option \<times> scheduler" where
  "retryAfter envs ctxEnded delay reason shared now clk l s =
     (case retryAfterLocked ctxEnded delay reason shared now clk l s of
        (Some err, s') \<Rightarrow> (Some (Some err), s')
      | (None, s') \<Rightarrow>
          waitForRunning envs ctxEnded (leaseJobID l) (leaseGeneration l) False s')"

datatype reacquire_outcome = ReacquireFailed sched_error | ReacquireDone | ReacquireWait

definition reacquireLocked :: "bool \<Rightarrow> lease \<Rightarrow> scheduler \<Rightarrow> reacquire_outcome \<times> scheduler" where
  "reacquireLocked ctxEnded l s =
     (let jobID = leaseJobID l in
      case leaseEntry l s of
        None \<Rightarrow> (ReacquireFailed (JobMissing jobID), s)
      | Some e \<Rightarrow>
          if State e = EntryRunning then (ReacquireDone, s)
          else if ctxEnded then (ReacquireFailed ReacquireCancelled, s)
          else if State e = EntryPaused
          then (ReacquireWait,
                notifyLocked (rebalanceLocked
                  (s\<lparr>retryWaiting := gm_del jobID (retryWaiting s),
                     retryShared := gm_del jobID (retryShared s),
                     entries := gm_put jobID
                       (e\<lparr>State := EntryWaiting, PauseRequested := False\<rparr>) (entries s)\<rparr>)))
          else (ReacquireWait, s))"

definition Reacquire ::
    "((scheduler \<Rightarrow> scheduler) \<times> bool) list \<Rightarrow> bool \<Rightarrow> lease \<Rightarrow> scheduler
     \<Rightarrow> sched_error option option \<times> scheduler" where
  "Reacquire envs ctxEnded l s =
     (case reacquireLocked ctxEnded l s of
        (ReacquireFailed err, s') \<Rightarrow> (Some (Some err), s')
      | (ReacquireDone, s') \<Rightarrow> (Some None, s')
      | (ReacquireWait, s') \<Rightarrow>
          waitForRunning envs ctxEnded (leaseJobID l) (leaseGeneration l) False s')"

section \<open>Snapshots\<close>

definition newSchedulerPriorityCounts :: "(job_priority, int) gomap" where
  "newSchedulerPriorityCounts = [(JobPriorityHigh, 0), (JobPriorityNormal, 0), (JobPriorityLow, 0)]"

definition bumpCount :: "job_priority \<Rightarrow> (job_priority, int) gomap \<Rightarrow> (job_priority, int) gomap" where
  "bumpCount p m = gm_put p (gm_get0 0 m p + 1) m"

definition snapshotEntry :: "entry \<Rightarrow> scheduler_snapshot \<Rightarrow> scheduler_snapshot" where
  "snapshotEntry e sn =
     (let sn1 = sn\<lparr>snapReasons := gm_put (JobID e) (Reason e) (snapReasons sn)\<rparr>;
          p = Priority (Policy e)
      in case State e of
           EntryWaiting \<Rightarrow> sn1\<lparr>snapQueued := bumpCount p (snapQueued sn1)\<rparr>
         | EntryRunning \<Rightarrow> sn1\<lparr>snapRunning := bumpCount p (snapRunning sn1)\<rparr>
         | EntryPaused \<Rightarrow> sn1\<lparr>snapPaused := bumpCount p (snapPaused sn1)\<rparr>)"

definition SchedulerSnapshot :: "scheduler \<Rightarrow> scheduler_snapshot" where
  "SchedulerSnapshot s =
     fold snapshotEntry (map snd (entries s))
       \<lparr>snapCapacity = capacity s, snapRunning = newSchedulerPriorityCounts,
        snapQueued = newSchedulerPriorityCounts, snapPaused = newSchedulerPriorityCounts,
        snapReasons = [], snapYields = yields s, snapActivity = activity s\<rparr>"

section \<open>The scheduler as a state machine\<close>

text \<open>
  One rule per locked section. Any goroutine may run any of them in any order; the retry timer's
  callback may run late with a stale generation.
\<close>

inductive sched_step :: "scheduler \<Rightarrow> scheduler \<Rightarrow> bool" where
  step_register: "sched_step s (snd (acquireRegister ctx e s))"
| step_wait: "sched_step s (snd (waitIteration ctx jobID gen rem s))"
| step_update: "sched_step s (snd (UpdatePolicy jobID patch s))"
| step_update_lease: "sched_step s (snd (UpdatePolicyLease patch l s))"
| step_stage: "sched_step s (snd (StagePolicyUpdate jobID patch s))"
| step_rollback: "sched_step s (snd (RollbackPolicyUpdate receipt policy s))"
| step_discard: "sched_step s (DiscardStagedPolicyUpdate jobID s)"
| step_claim: "sched_step s (snd (claimPause reason req l s))"
| step_cancel: "sched_step s (CancelClaim c s)"
| step_yield: "sched_step s (snd (YieldClaim c s))"
| step_retry: "sched_step s (snd (retryAfterLocked ctx delay reason shared now clk l s))"
| step_reacquire: "sched_step s (snd (reacquireLocked ctx l s))"
| step_release: "sched_step s (Release l s)"
| step_retry_round: "sched_step s (openRetryRound gen now clk s)"
| step_sample: "sched_step s (sampleActivity sampled s)"

definition sched_init :: "scheduler \<Rightarrow> bool" where
  "sched_init s \<longleftrightarrow> (\<exists>cap sampled. s = NewScheduler cap sampled)"

end
