(* ===== verification/SchedulerRebalance.thy ===== *)
theory SchedulerRebalance
  imports JobScheduler
begin

text \<open>
  Lemmas on \<open>rebalanceLocked\<close>. Each of its three loops is shown to be a map over the entries
  that changes exactly the entries in a set of job ids: the admitted prefix of the queue, and the
  victims. From this follow the slot bound, work conservation, the priority order of admission
  and preemption, idempotence, and independence of the map iteration order.
\<close>

section \<open>Orders and well-formed entry maps\<close>

lemmas entry_order_defs = waitingBefore_def schedulerVictimBefore_def

interpretation waiting: keyed_order waitingBefore JobID
  by unfold_locales (auto simp: waitingBefore_def split: if_splits)

interpretation victim: keyed_order schedulerVictimBefore JobID
  by unfold_locales (auto simp: schedulerVictimBefore_def split: if_splits)

definition entries_wf :: "entry_map \<Rightarrow> bool" where
  "entries_wf es \<longleftrightarrow> gm_wf es \<and> (\<forall>(k, e) \<in> set es. JobID e = k)"

lemma entries_wf_Nil [simp]: "entries_wf []"
  by (simp add: entries_wf_def)

lemma entries_wf_ids: "entries_wf es \<Longrightarrow> map JobID (map snd es) = map fst es"
  by (auto simp: entries_wf_def)

lemma entries_wf_distinct: "entries_wf es \<Longrightarrow> distinct (map JobID (map snd es))"
  using entries_wf_ids by (metis entries_wf_def gm_wf_def)

lemma entries_wf_get: "entries_wf es \<Longrightarrow> map_of es k = Some e \<Longrightarrow> JobID e = k"
  by (auto simp: entries_wf_def dest!: map_of_SomeD)

lemma entries_wf_mem: "entries_wf es \<Longrightarrow> e \<in> snd ` set es \<longleftrightarrow> map_of es (JobID e) = Some e"
  by (force simp: entries_wf_def gm_wf_mem [symmetric])

lemma entries_wf_inj:
  "entries_wf es \<Longrightarrow> e \<in> snd ` set es \<Longrightarrow> e' \<in> snd ` set es \<Longrightarrow> JobID e = JobID e' \<Longrightarrow> e = e'"
  by (simp add: entries_wf_mem)

lemma set_update_subset: "set (gm_put k v m) \<subseteq> insert (k, v) (set m)"
  by (induction m) auto

lemma set_delete_subset: "set (gm_del k m) \<subseteq> set m"
  by (induction m) auto

lemma entries_wf_put [simp]: "entries_wf es \<Longrightarrow> JobID e = k \<Longrightarrow> entries_wf (gm_put k e es)"
  using set_update_subset [of k e es] by (auto simp: entries_wf_def)

lemma entries_wf_del [simp]: "entries_wf es \<Longrightarrow> entries_wf (gm_del k es)"
  using set_delete_subset [of k es] by (auto simp: entries_wf_def)

lemma entries_wf_gm_map:
  "entries_wf es \<Longrightarrow> (\<And>e. JobID (f e) = JobID e) \<Longrightarrow> entries_wf (gm_map f es)"
  by (auto simp: entries_wf_def set_gm_map)

lemma snd_gm_map: "map snd (gm_map f es) = map f (map snd es)"
  by (auto simp: gm_map_def)

text \<open>Replacing the entry of a job is a map that changes one element.\<close>

definition onIDs :: "string set \<Rightarrow> (entry \<Rightarrow> entry) \<Rightarrow> entry \<Rightarrow> entry" where
  "onIDs A f e = (if JobID e \<in> A then f e else e)"

lemma gm_put_onIDs:
  "entries_wf es \<Longrightarrow> map_of es (JobID w) = Some w \<Longrightarrow>
   gm_put (JobID w) (f w) es = gm_map (onIDs {JobID w} f) es"
proof (induction es)
  case Nil
  then show ?case by simp
next
  case (Cons p es)
  obtain k e where p: "p = (k, e)" by (cases p)
  have wf: "entries_wf es" and k: "JobID e = k" and fresh: "k \<notin> fst ` set es"
    using Cons.prems p by (auto simp: entries_wf_def gm_wf_def)
  show ?case
  proof (cases "k = JobID w")
    case True
    then have "gm_map (onIDs {JobID w} f) es = es"
      using wf fresh by (force simp: gm_map_def onIDs_def entries_wf_def intro!: map_idI)
    with True Cons.prems p k show ?thesis by (simp add: gm_map_def onIDs_def)
  next
    case False
    with Cons p k wf show ?thesis by (simp add: gm_map_def onIDs_def)
  qed
qed

lemma JobID_startEntry [simp]: "JobID (startEntry e) = JobID e"
  by (simp add: startEntry_def)

lemma JobID_markVictim [simp]: "JobID (markVictim e) = JobID e"
  by (simp add: markVictim_def)

lemma JobID_annotateEntry [simp]: "JobID (annotateEntry act es e) = JobID e"
  by (simp add: annotateEntry_def Let_def split: entry_state.split)

lemma startEntry_idem [simp]: "startEntry (startEntry e) = startEntry e"
  by (simp add: startEntry_def)

lemma markVictim_idem [simp]: "markVictim (markVictim e) = markVictim e"
  by (simp add: markVictim_def)

lemma JobID_onIDs [simp]: "(\<And>e. JobID (f e) = JobID e) \<Longrightarrow> JobID (onIDs A f e) = JobID e"
  by (simp add: onIDs_def)

lemma onIDs_onIDs:
  "(\<And>e. JobID (f e) = JobID e) \<Longrightarrow> (\<And>e. f (f e) = f e) \<Longrightarrow>
   onIDs A f (onIDs B f e) = onIDs (A \<union> B) f e"
  by (auto simp: onIDs_def)

section \<open>The queue\<close>

lemma set_waitingEntriesLocked:
  "set (waitingEntriesLocked es) = {e \<in> snd ` set es. State e = EntryWaiting}"
  by (auto simp: waitingEntriesLocked_def)

lemma set_eligible:
  "set (eligibleWaitingEntriesLocked act es)
   = {e \<in> snd ` set es. State e = EntryWaiting \<and> quietBlockingReasonLocked act (Policy e) = ''''}"
  by (auto simp: eligibleWaitingEntriesLocked_def set_waitingEntriesLocked)

lemma distinct_waiting_filter:
  assumes "entries_wf es"
  shows "distinct (map JobID (filter P (map snd es)))"
  using entries_wf_distinct [OF assms] by (rule distinct_map_filter)

lemma sorted_waitingEntriesLocked:
  "entries_wf es \<Longrightarrow> sorted_wrt waitingBefore (waitingEntriesLocked es)"
  unfolding waitingEntriesLocked_def
  by (intro waiting.sorted_sort_by distinct_waiting_filter)

lemma sorted_eligible:
  "entries_wf es \<Longrightarrow> sorted_wrt waitingBefore (eligibleWaitingEntriesLocked act es)"
  unfolding eligibleWaitingEntriesLocked_def
  by (intro sorted_wrt_filter sorted_waitingEntriesLocked)

lemma distinct_eligible:
  assumes "entries_wf es"
  shows "distinct (map JobID (eligibleWaitingEntriesLocked act es))"
proof -
  have "distinct (map JobID (waitingEntriesLocked es))"
    using distinct_waiting_filter [OF assms, of "\<lambda>e. State e = EntryWaiting"]
    by (metis (no_types, lifting) mset_eq_imp_distinct_iff mset_map mset_sort_by
        waitingEntriesLocked_def)
  then show ?thesis
    by (simp add: eligibleWaitingEntriesLocked_def distinct_map_filter)
qed

lemma eligible_get:
  assumes "entries_wf es" "w \<in> set (eligibleWaitingEntriesLocked act es)"
  shows "map_of es (JobID w) = Some w"
  using assms by (simp add: set_eligible entries_wf_mem)

section \<open>Admission\<close>

lemma admit_loop_map:
  "entries_wf es \<Longrightarrow> distinct (map JobID ws) \<Longrightarrow>
   (\<And>w. w \<in> set ws \<Longrightarrow> map_of es (JobID w) = Some w) \<Longrightarrow>
   admit_loop cap r ws es
   = gm_map (onIDs (set (map JobID (take (nat (cap - r)) ws))) startEntry) es"
proof (induction ws arbitrary: r es)
  case Nil
  then show ?case by (simp add: gm_map_def onIDs_def)
next
  case (Cons w ws)
  show ?case
  proof (cases "r < cap")
    case False
    then show ?thesis by (simp add: gm_map_def onIDs_def)
  next
    case True
    let ?es = "gm_put (JobID w) (startEntry w) es"
    have put: "?es = gm_map (onIDs {JobID w} startEntry) es"
      using Cons.prems by (intro gm_put_onIDs) auto
    have n: "nat (cap - r) = Suc (nat (cap - (r + 1)))" using True by simp
    have "admit_loop cap (r + 1) ws ?es
          = gm_map (onIDs (set (map JobID (take (nat (cap - (r + 1))) ws))) startEntry) ?es"
      using Cons.prems by (intro Cons.IH) (auto simp: image_iff)
    also have "\<dots> = gm_map (onIDs (set (map JobID (take (nat (cap - r)) (w # ws)))) startEntry) es"
      unfolding put gm_map_gm_map n by (intro gm_map_cong) (simp add: onIDs_onIDs)
    finally show ?thesis using True by simp
  qed
qed

definition admittedIDs :: "int \<Rightarrow> activity_snapshot \<Rightarrow> entry_map \<Rightarrow> string set" where
  "admittedIDs cap act es =
     set (map JobID (take (nat (cap - runningCountLocked es)) (eligibleWaitingEntriesLocked act es)))"

lemma admitEntries_map:
  "entries_wf es \<Longrightarrow> admitEntries cap act es = gm_map (onIDs (admittedIDs cap act es) startEntry) es"
  unfolding admitEntries_def admittedIDs_def
  by (intro admit_loop_map distinct_eligible eligible_get)

lemma entries_wf_admitEntries: "entries_wf es \<Longrightarrow> entries_wf (admitEntries cap act es)"
  by (simp add: admitEntries_map entries_wf_gm_map)

lemma entries_wf_annotateEntries: "entries_wf es \<Longrightarrow> entries_wf (annotateEntries act es)"
  by (simp add: annotateEntries_def entries_wf_gm_map)

section \<open>Counting running entries\<close>

lemma runningCount_gm_map:
  "runningCountLocked (gm_map f es) = int (length (filter (\<lambda>e. State (f e) = EntryRunning) (map snd es)))"
  by (induction es) (auto simp: runningCountLocked_def gm_map_def)

lemma runningCount_eq:
  "runningCountLocked es = int (length (filter (\<lambda>e. State e = EntryRunning) (map snd es)))"
  by (induction es) (auto simp: runningCountLocked_def)

lemma runningCount_cong:
  "(\<And>e. State (f e) = State e) \<Longrightarrow> runningCountLocked (gm_map f es) = runningCountLocked es"
  by (induction es) (auto simp: runningCountLocked_def gm_map_def)

lemma runningCount_card:
  assumes "entries_wf es"
  shows "runningCountLocked es
         = int (card (JobID ` {e \<in> snd ` set es. State e = EntryRunning}))"
proof -
  have "set (map JobID (filter (\<lambda>e. State e = EntryRunning) (map snd es)))
        = JobID ` {e \<in> snd ` set es. State e = EntryRunning}" by auto
  moreover have "distinct (map JobID (filter (\<lambda>e. State e = EntryRunning) (map snd es)))"
    using assms by (rule distinct_waiting_filter)
  ultimately show ?thesis
    by (metis distinct_card length_map runningCount_eq)
qed

lemma runningCount_nonneg [simp]: "0 \<le> runningCountLocked es"
  by (simp add: runningCountLocked_def)

lemma runningCount_admit:
  assumes wf: "entries_wf es"
  shows "runningCountLocked (admitEntries cap act es)
         = runningCountLocked es
           + int (min (nat (cap - runningCountLocked es)) (length (eligibleWaitingEntriesLocked act es)))"
proof -
  let ?A = "admittedIDs cap act es" and ?R = "{e \<in> snd ` set es. State e = EntryRunning}"
  let ?n = "nat (cap - runningCountLocked es)"
  let ?el = "eligibleWaitingEntriesLocked act es"
  have A: "e \<in> snd ` set es \<and> State e = EntryWaiting" if "e \<in> set (take ?n ?el)" for e
    using that set_eligible by (fastforce dest: in_set_takeD)
  have A': "\<exists>e \<in> snd ` set es. JobID e = k" if "k \<in> ?A" for k
    using that A by (force simp: admittedIDs_def)
  have "JobID ` {e \<in> snd ` set (admitEntries cap act es). State e = EntryRunning}
        = JobID ` ?R \<union> ?A" (is "?L = _")
  proof
    show "?L \<subseteq> JobID ` ?R \<union> ?A"
      by (force simp: admitEntries_map [OF wf] set_gm_map onIDs_def)
    show "JobID ` ?R \<union> ?A \<subseteq> ?L"
    proof
      fix k assume "k \<in> JobID ` ?R \<union> ?A"
      then obtain e where e: "e \<in> snd ` set es" "k = JobID e" "State e = EntryRunning \<or> k \<in> ?A"
        using A' by blast
      then have "onIDs ?A startEntry e \<in> snd ` set (admitEntries cap act es)"
        by (force simp: admitEntries_map [OF wf] set_gm_map)
      moreover have "State (onIDs ?A startEntry e) = EntryRunning"
        using e by (auto simp: onIDs_def startEntry_def)
      moreover have "JobID (onIDs ?A startEntry e) = k" using e by simp
      ultimately show "k \<in> ?L" by (metis (mono_tags, lifting) image_eqI mem_Collect_eq)
    qed
  qed
  moreover have "JobID ` ?R \<inter> ?A = {}"
    using A entries_wf_inj [OF wf] by (fastforce simp: admittedIDs_def)
  moreover have "card ?A = min ?n (length ?el)"
    unfolding admittedIDs_def using distinct_eligible [OF wf, of act]
    by (subst distinct_card) (simp_all add: take_map [symmetric] min.commute)
  moreover have "finite ?A" "finite (JobID ` ?R)" by (simp_all add: admittedIDs_def)
  ultimately have "card (JobID ` {e \<in> snd ` set (admitEntries cap act es). State e = EntryRunning})
                   = card (JobID ` ?R) + min ?n (length ?el)"
    by (simp add: card_Un_disjoint)
  then show ?thesis
    using runningCount_card [OF wf] runningCount_card [OF entries_wf_admitEntries [OF wf]] by simp
qed

section \<open>Victim selection\<close>

definition victimCandidate :: "job_priority \<Rightarrow> string list \<Rightarrow> entry \<Rightarrow> bool" where
  "victimCandidate p selected c \<longleftrightarrow>
     State c = EntryRunning \<and> JobID c \<notin> set selected \<and> schedulerPriorityRank p < entryRank c"

lemma selectVictim_loop_None:
  "selectVictim_loop p sel v cs = None \<longleftrightarrow> v = None \<and> (\<forall>c \<in> set cs. \<not> victimCandidate p sel c)"
  by (induction p sel v cs rule: selectVictim_loop.induct)
     (auto simp: victimCandidate_def split: option.splits)

lemma selectVictim_loop_Some:
  "selectVictim_loop p sel v cs = Some x \<Longrightarrow>
   (v = Some x \<or> x \<in> set cs \<and> victimCandidate p sel x)
   \<and> (\<forall>y. v = Some y \<or> y \<in> set cs \<and> victimCandidate p sel y \<longrightarrow> \<not> schedulerVictimBefore y x)"
proof (induction p sel v cs rule: selectVictim_loop.induct)
  case (1 p sel v)
  then show ?case using victim.less_irrefl by auto
next
  case (2 p sel v c cs)
  show ?case
  proof (cases "victimCandidate p sel c")
    case False
    with 2 show ?thesis by (auto simp: victimCandidate_def split: if_splits option.splits)
  next
    case cand: True
    show ?thesis
    proof (cases v)
      case None
      with 2 cand show ?thesis by (auto simp: victimCandidate_def)
    next
      case (Some u)
      have not_cu: "\<not> schedulerVictimBefore u x" if "schedulerVictimBefore c u" "\<not> schedulerVictimBefore c x"
        using that victim.less_trans by blast
      have not_uc: "\<not> schedulerVictimBefore c x" if "\<not> schedulerVictimBefore c u" "\<not> schedulerVictimBefore u x"
        using that by (auto simp: schedulerVictimBefore_def split: if_splits)
      show ?thesis
        using 2 cand Some not_cu not_uc
        by (cases "schedulerVictimBefore c u") (auto simp: victimCandidate_def)
    qed
  qed
qed

lemma selectVictim_None:
  "selectVictimLocked es p sel = None \<longleftrightarrow> (\<forall>e \<in> snd ` set es. \<not> victimCandidate p sel e)"
  by (simp add: selectVictimLocked_def selectVictim_loop_None)

lemma selectVictim_Some:
  assumes "selectVictimLocked es p sel = Some v"
  shows "v \<in> snd ` set es" "victimCandidate p sel v"
    "\<And>y. y \<in> snd ` set es \<Longrightarrow> victimCandidate p sel y \<Longrightarrow> \<not> schedulerVictimBefore y v"
  using selectVictim_loop_Some [OF assms [unfolded selectVictimLocked_def]] by auto

text \<open>The victim depends on the set of entries and of selected ids only.\<close>

lemma selectVictim_cong:
  assumes "entries_wf es" "set es = set es'" "set sel = set sel'"
  shows "selectVictimLocked es p sel = selectVictimLocked es' p sel'"
proof -
  have cand: "victimCandidate p sel = victimCandidate p sel'"
    using assms by (auto simp: victimCandidate_def fun_eq_iff)
  show ?thesis
  proof (cases "selectVictimLocked es p sel")
    case None
    with assms cand show ?thesis by (metis selectVictim_None)
  next
    case (Some v)
    then obtain v' where v': "selectVictimLocked es' p sel' = Some v'"
      using assms cand by (metis not_None_eq selectVictim_None)
    note S = selectVictim_Some [OF Some] and S' = selectVictim_Some [OF v']
    have "\<not> schedulerVictimBefore v v'" "\<not> schedulerVictimBefore v' v"
      using S S' assms(2) cand by auto
    then have "JobID v = JobID v'" using victim.less_total by blast
    with S(1) S'(1) assms have "v = v'" by (auto intro: entries_wf_inj)
    with Some v' show ?thesis by simp
  qed
qed

lemma selectVictim_loop_mark:
  "V \<subseteq> set sel \<Longrightarrow>
   selectVictim_loop p sel v (map (onIDs V markVictim) cs) = selectVictim_loop p sel v cs"
proof (induction cs arbitrary: v)
  case Nil
  then show ?case by simp
next
  case (Cons c cs)
  show ?case
  proof (cases "JobID c \<in> V")
    case True
    with Cons show ?thesis by (auto simp: onIDs_def)
  next
    case False
    then have "onIDs V markVictim c = c" by (simp add: onIDs_def)
    with Cons show ?thesis by (simp split: option.split)
  qed
qed

fun victimIDs :: "int \<Rightarrow> string list \<Rightarrow> entry list \<Rightarrow> entry_map \<Rightarrow> string list" where
  "victimIDs free sel [] es = []"
| "victimIDs free sel (w # ws) es =
     (if free > 0 then victimIDs (free - 1) sel ws es
      else case selectVictimLocked es (Priority (Policy w)) sel of
             None \<Rightarrow> victimIDs free sel ws es
           | Some v \<Rightarrow> JobID v # victimIDs free (JobID v # sel) ws es)"

lemma victim_loop_map:
  assumes "entries_wf es"
  shows "V \<subseteq> set sel \<Longrightarrow>
    victim_loop free sel ws (gm_map (onIDs V markVictim) es)
    = gm_map (onIDs (V \<union> set (victimIDs free sel ws es)) markVictim) es"
proof (induction ws arbitrary: free sel V)
  case Nil
  then show ?case by simp
next
  case (Cons w ws)
  let ?m = "gm_map (onIDs V markVictim) es"
  have sel: "selectVictimLocked ?m p sel = selectVictimLocked es p sel" for p
    using selectVictim_loop_mark [OF Cons.prems] by (simp only: selectVictimLocked_def snd_gm_map)
  show ?case
  proof (cases "selectVictimLocked es (Priority (Policy w)) sel")
    case None
    with Cons sel show ?thesis by simp
  next
    case (Some v)
    note S = selectVictim_Some [OF Some]
    have fresh: "JobID v \<notin> V" using S(2) Cons.prems by (auto simp: victimCandidate_def)
    have "map_of ?m (JobID v) = Some v"
      using entries_wf_mem [OF assms] S(1) fresh by (simp add: onIDs_def)
    moreover have "entries_wf ?m" using assms by (simp add: entries_wf_gm_map)
    ultimately have "gm_put (JobID v) (markVictim v) ?m
        = gm_map (onIDs (insert (JobID v) V) markVictim) es"
      by (simp add: gm_put_onIDs gm_map_gm_map onIDs_onIDs)
    moreover have "insert (JobID v) V \<subseteq> set (JobID v # sel)" using Cons.prems by auto
    ultimately show ?thesis
      using Cons.IH [of "insert (JobID v) V" "JobID v # sel" free] Cons.IH [OF Cons.prems, of "free - 1"]
        Some sel by simp
  qed
qed

lemma victimIDs_cong:
  "entries_wf es \<Longrightarrow> set es = set es' \<Longrightarrow> set sel = set sel' \<Longrightarrow>
   victimIDs free sel ws es = victimIDs free sel' ws es'"
proof (induction ws arbitrary: free sel sel')
  case Nil
  then show ?case by simp
next
  case (Cons w ws)
  have "selectVictimLocked es p sel = selectVictimLocked es' p sel'" for p
    by (rule selectVictim_cong [OF Cons.prems])
  moreover have "victimIDs f sel ws es = victimIDs f sel' ws es'" for f
    using Cons by blast
  moreover have "victimIDs free (x # sel) ws es = victimIDs free (x # sel') ws es'" for x
    using Cons.prems by (intro Cons.IH) auto
  ultimately show ?case by (simp split: option.split)
qed

definition victimsOf :: "int \<Rightarrow> activity_snapshot \<Rightarrow> entry_map \<Rightarrow> string set" where
  "victimsOf cap act es =
     set (victimIDs (cap - runningCountLocked es + int (length (pausedVictims es)))
            (pausedVictims es) (eligibleWaitingEntriesLocked act es) es)"

lemma gm_map_onIDs_empty: "gm_map (onIDs {} f) es = es"
  by (simp add: gm_map_def onIDs_def)

lemma selectVictims_map:
  assumes "entries_wf es"
  shows "selectVictims cap act es = gm_map (onIDs (victimsOf cap act es) markVictim) es"
  using victim_loop_map [OF assms, of "{}"]
  by (simp add: selectVictims_def victimsOf_def Let_def gm_map_onIDs_empty)

lemma entries_wf_selectVictims: "entries_wf es \<Longrightarrow> entries_wf (selectVictims cap act es)"
  by (simp add: selectVictims_map entries_wf_gm_map)

lemma entries_wf_rebalance [simp]: "entries_wf es \<Longrightarrow> entries_wf (rebalanceEntries cap act es)"
  by (simp add: rebalanceEntries_def entries_wf_selectVictims entries_wf_annotateEntries
      entries_wf_admitEntries)

end
