(* ===== verification/SchedulerFairness.thy ===== *)
theory SchedulerFairness
  imports SchedulerRebalance
begin

text \<open>
  What one call of \<open>rebalanceLocked\<close> guarantees: which fields it may change, the slot bound,
  work conservation, priority order of admission and of preemption, idempotence, and that Go's
  unspecified map iteration order cannot influence the outcome.
\<close>

section \<open>Updates that keep what the queue order reads\<close>

definition keeps_core :: "(entry \<Rightarrow> entry) \<Rightarrow> bool" where
  "keeps_core f \<longleftrightarrow> (\<forall>e. JobID (f e) = JobID e \<and> State (f e) = State e \<and> Policy (f e) = Policy e
     \<and> QueueSequence (f e) = QueueSequence e)"

lemma keeps_core_annotate [simp]: "keeps_core (annotateEntry act es)"
  by (auto simp: keeps_core_def annotateEntry_def Let_def split: entry_state.split)

lemma keeps_core_victims [simp]: "keeps_core (onIDs V markVictim)"
  by (auto simp: keeps_core_def onIDs_def markVictim_def)

lemma keeps_coreD:
  assumes "keeps_core f"
  shows "JobID (f e) = JobID e" "State (f e) = State e" "Policy (f e) = Policy e"
    "QueueSequence (f e) = QueueSequence e"
  using assms by (auto simp: keeps_core_def)

lemma insert_by_map:
  "(\<And>x y. lt (f x) (f y) = lt x y) \<Longrightarrow> insert_by lt (f x) (map f ys) = map f (insert_by lt x ys)"
  by (induction ys) auto

lemma sort_by_map:
  "(\<And>x y. lt (f x) (f y) = lt x y) \<Longrightarrow> sort_by lt (map f xs) = map f (sort_by lt xs)"
  by (induction xs) (auto simp: insert_by_map)

lemma eligible_gm_map:
  assumes "keeps_core f"
  shows "eligibleWaitingEntriesLocked act (gm_map f es)
         = map f (eligibleWaitingEntriesLocked act es)"
proof -
  have "waitingBefore (f x) (f y) = waitingBefore x y" for x y
    by (simp add: waitingBefore_def keeps_coreD [OF assms])
  moreover have "filter (\<lambda>e. State e = EntryWaiting) (map f xs)
                 = map f (filter (\<lambda>e. State e = EntryWaiting) xs)" for xs
    by (simp add: filter_map comp_def keeps_coreD [OF assms])
  ultimately show ?thesis
    unfolding eligibleWaitingEntriesLocked_def waitingEntriesLocked_def snd_gm_map
    by (simp add: sort_by_map filter_map comp_def keeps_coreD [OF assms] del: map_map)
qed

lemma waitingReason_gm_map:
  assumes "keeps_core f" "Policy e' = Policy e" "JobID e' = JobID e"
  shows "waitingReasonLocked act (gm_map f es) e' = waitingReasonLocked act es e"
  using assms(2,3) keeps_coreD [OF assms(1)]
  by (simp add: waitingReasonLocked_def list_ex_iff set_gm_map case_prod_unfold)

lemma annotate_gm_map:
  assumes "keeps_core f" "\<And>e. State e \<noteq> EntryRunning \<Longrightarrow> f e = e"
    and "\<And>e. f e\<lparr>PauseRequested := b, Reason := r\<rparr> = e\<lparr>PauseRequested := b, Reason := r\<rparr>"
  shows "annotateEntries act (gm_map f es) = annotateEntries act es"
proof -
  have "annotateEntry act (gm_map f es) (f e) = annotateEntry act es e" for e
  proof (cases "State e = EntryRunning")
    case True
    with assms(1) show ?thesis
      using keeps_coreD [OF assms(1), of e] assms(3) [of e]
      by (cases "f e"; cases e) (auto simp: annotateEntry_def Let_def)
  next
    case False
    then have "f e = e" by (rule assms(2))
    then show ?thesis
      using waitingReason_gm_map [OF assms(1), of e e act es]
      by (simp add: annotateEntry_def split: entry_state.split)
  qed
  then show ?thesis
    unfolding annotateEntries_def gm_map_gm_map by simp
qed

section \<open>Effect on one entry\<close>

text \<open>The entries after admission and annotation, before victims are marked.\<close>

definition settledEntries :: "int \<Rightarrow> activity_snapshot \<Rightarrow> entry_map \<Rightarrow> entry_map" where
  "settledEntries cap act es = annotateEntries act (admitEntries cap act es)"

lemma entries_wf_settled: "entries_wf es \<Longrightarrow> entries_wf (settledEntries cap act es)"
  by (simp add: settledEntries_def entries_wf_annotateEntries entries_wf_admitEntries)

lemma rebalance_settled:
  assumes "entries_wf es"
  shows "rebalanceEntries cap act es
    = gm_map (onIDs (victimsOf cap act (settledEntries cap act es)) markVictim)
        (settledEntries cap act es)"
  using selectVictims_map [OF entries_wf_settled [OF assms]]
  by (simp add: rebalanceEntries_def settledEntries_def)

lemma rebalance_get:
  assumes "entries_wf es"
  shows "map_of (rebalanceEntries cap act es) k
    = map_option (\<lambda>e. onIDs (victimsOf cap act (settledEntries cap act es)) markVictim
        (annotateEntry act (admitEntries cap act es)
          (onIDs (admittedIDs cap act es) startEntry e))) (map_of es k)"
  by (simp add: rebalance_settled [OF assms] settledEntries_def annotateEntries_def
      admitEntries_map [OF assms] gm_map_gm_map option.map_comp comp_def)

lemma admitted_eligible:
  assumes "entries_wf es" "map_of es k = Some e" "k \<in> admittedIDs cap act es"
  shows "State e = EntryWaiting" "quietBlockingReasonLocked act (Policy e) = ''''"
proof -
  obtain w where w: "w \<in> set (eligibleWaitingEntriesLocked act es)" "JobID w = k"
    using assms(3) by (auto simp: admittedIDs_def dest: in_set_takeD)
  then have "w = e" using eligible_get [OF assms(1)] assms(2) by fastforce
  with w show "State e = EntryWaiting" "quietBlockingReasonLocked act (Policy e) = ''''"
    by (auto simp: set_eligible)
qed

lemma rebalance_entry:
  assumes wf: "entries_wf es" and k: "map_of (rebalanceEntries cap act es) k = Some e'"
  obtains e where "map_of es k = Some e" "JobID e' = JobID e" "Policy e' = Policy e"
    "QueueSequence e' = QueueSequence e" "generation e' = generation e"
    "policyGeneration e' = policyGeneration e"
    "State e' = (if k \<in> admittedIDs cap act es then EntryRunning else State e)"
proof -
  obtain e where e: "map_of es k = Some e"
    and e': "e' = onIDs (victimsOf cap act (settledEntries cap act es)) markVictim
        (annotateEntry act (admitEntries cap act es)
          (onIDs (admittedIDs cap act es) startEntry e))"
    using k by (auto simp: rebalance_get [OF wf])
  have "JobID e = k" by (rule entries_wf_get [OF wf e])
  show ?thesis
    by (rule that [OF e], unfold e')
       (simp_all add: onIDs_def markVictim_def startEntry_def annotateEntry_def Let_def
         \<open>JobID e = k\<close> split: entry_state.split)
qed

lemma rebalance_state:
  assumes "entries_wf es" "map_of es k = Some e" "map_of (rebalanceEntries cap act es) k = Some e'"
  shows "State e' = (if k \<in> admittedIDs cap act es then EntryRunning else State e)"
  using assms by (metis option.inject rebalance_entry)

section \<open>Slots\<close>

lemma runningCount_rebalance:
  assumes "entries_wf es"
  shows "runningCountLocked (rebalanceEntries cap act es)
         = runningCountLocked es
           + int (min (nat (cap - runningCountLocked es)) (length (eligibleWaitingEntriesLocked act es)))"
  by (simp add: rebalance_settled [OF assms] settledEntries_def annotateEntries_def
      runningCount_cong keeps_coreD runningCount_admit [OF assms])

lemma rebalance_slot_bound:
  "entries_wf es \<Longrightarrow> runningCountLocked (rebalanceEntries cap act es) \<le> max cap (runningCountLocked es)"
  by (simp add: runningCount_rebalance)

lemma rebalance_keeps_running:
  "entries_wf es \<Longrightarrow> runningCountLocked es \<le> runningCountLocked (rebalanceEntries cap act es)"
  by (simp add: runningCount_rebalance)

lemma admit_exhausts:
  assumes "entries_wf es" "runningCountLocked (admitEntries cap act es) < cap"
  shows "eligibleWaitingEntriesLocked act (admitEntries cap act es) = []"
proof -
  let ?el = "eligibleWaitingEntriesLocked act es"
  have "take (nat (cap - runningCountLocked es)) ?el = ?el"
    using assms(2) by (simp add: runningCount_admit [OF assms(1)])
  then have A: "admittedIDs cap act es = JobID ` set ?el"
    by (simp add: admittedIDs_def)
  have "w \<notin> set (eligibleWaitingEntriesLocked act (admitEntries cap act es))" for w
  proof
    assume w: "w \<in> set (eligibleWaitingEntriesLocked act (admitEntries cap act es))"
    then obtain e where e: "e \<in> snd ` set es" "w = onIDs (admittedIDs cap act es) startEntry e"
      by (force simp: set_eligible admitEntries_map [OF assms(1)] set_gm_map)
    with w have "JobID e \<notin> admittedIDs cap act es"
      by (auto simp: set_eligible onIDs_def startEntry_def)
    moreover from this e w have "e \<in> set ?el" by (auto simp: set_eligible onIDs_def)
    ultimately show False by (auto simp: A)
  qed
  then show ?thesis by (metis list.set_intros(1) neq_Nil_conv)
qed

lemma eligible_rebalance:
  assumes "entries_wf es"
  shows "eligibleWaitingEntriesLocked act (rebalanceEntries cap act es)
    = map (\<lambda>e. onIDs (victimsOf cap act (settledEntries cap act es)) markVictim
        (annotateEntry act (admitEntries cap act es) e))
        (eligibleWaitingEntriesLocked act (admitEntries cap act es))"
  by (simp add: rebalance_settled [OF assms] settledEntries_def annotateEntries_def eligible_gm_map)

lemma rebalance_work_conserving:
  assumes "entries_wf es" "runningCountLocked (rebalanceEntries cap act es) < cap"
  shows "eligibleWaitingEntriesLocked act (rebalanceEntries cap act es) = []"
proof -
  have "runningCountLocked (admitEntries cap act es) < cap"
    using assms(2) by (simp add: runningCount_rebalance [OF assms(1)] runningCount_admit [OF assms(1)])
  then show ?thesis by (simp add: eligible_rebalance [OF assms(1)] admit_exhausts [OF assms(1)])
qed

section \<open>Priority order\<close>

lemma admitted_before_waiting:
  assumes wf: "entries_wf es"
    and a: "map_of es a = Some ea" "State ea = EntryWaiting"
      "map_of (rebalanceEntries cap act es) a = Some ea'" "State ea' = EntryRunning"
    and b: "map_of es b = Some eb" "State eb = EntryWaiting"
      "quietBlockingReasonLocked act (Policy eb) = ''''"
      "map_of (rebalanceEntries cap act es) b = Some eb'" "State eb' = EntryWaiting"
  shows "waitingBefore ea eb"
proof -
  let ?el = "eligibleWaitingEntriesLocked act es" and ?n = "nat (cap - runningCountLocked es)"
  have "a \<in> admittedIDs cap act es"
    using rebalance_state [OF wf a(1,3)] a by (simp split: if_splits)
  then obtain wa where wa: "wa \<in> set (take ?n ?el)" "JobID wa = a"
    by (auto simp: admittedIDs_def)
  then have "wa = ea" using eligible_get [OF wf] a(1) by (metis in_set_takeD option.inject)
  have nb: "b \<notin> admittedIDs cap act es"
    using rebalance_state [OF wf b(1,4)] b by (simp split: if_splits)
  have "eb \<in> set ?el" using b by (force simp: set_eligible dest: map_of_SomeD)
  moreover have "eb \<notin> set (take ?n ?el)"
    using nb entries_wf_get [OF wf b(1)] by (auto simp: admittedIDs_def)
  ultimately have "eb \<in> set (drop ?n ?el)"
    by (metis Un_iff append_take_drop_id set_append)
  moreover have "sorted_wrt waitingBefore (take ?n ?el @ drop ?n ?el)"
    using sorted_eligible [OF wf] by simp
  ultimately show ?thesis
    using wa \<open>wa = ea\<close> unfolding sorted_wrt_append by blast
qed

lemma victimIDs_sound:
  "k \<in> set (victimIDs free sel ws es) \<Longrightarrow>
   \<exists>w \<in> set ws. \<exists>v \<in> snd ` set es. JobID v = k \<and> State v = EntryRunning \<and> k \<notin> set sel
      \<and> entryRank w < entryRank v"
proof (induction ws arbitrary: free sel)
  case Nil
  then show ?case by simp
next
  case (Cons w ws)
  show ?case
  proof (cases "free > 0")
    case True
    with Cons show ?thesis by fastforce
  next
    case False
    show ?thesis
    proof (cases "selectVictimLocked es (Priority (Policy w)) sel")
      case None
      with Cons False show ?thesis by fastforce
    next
      case (Some v)
      with Cons.prems False consider "k = JobID v" | "k \<in> set (victimIDs free (JobID v # sel) ws es)"
        by auto
      then show ?thesis
      proof cases
        case 1
        then show ?thesis
          using selectVictim_Some [OF Some] by (auto simp: victimCandidate_def)
      next
        case 2
        from Cons.IH [OF this] show ?thesis by auto
      qed
    qed
  qed
qed

text \<open>How a rebalanced entry relates to the settled one.\<close>

lemma rebalance_get_core:
  assumes "entries_wf es" "map_of (rebalanceEntries cap act es) k = Some e'"
  obtains f where "map_of (settledEntries cap act es) k = Some f" "Policy f = Policy e'"
    "State f = State e'" "JobID f = JobID e'"
    "e' = onIDs (victimsOf cap act (settledEntries cap act es)) markVictim f"
proof -
  obtain f where f: "map_of (settledEntries cap act es) k = Some f"
    "e' = onIDs (victimsOf cap act (settledEntries cap act es)) markVictim f"
    using assms(2) by (auto simp: rebalance_settled [OF assms(1)])
  show ?thesis by (rule that [OF f(1)]) (simp_all add: f(2) keeps_coreD)
qed

lemma settled_running:
  assumes "entries_wf es" "map_of (settledEntries cap act es) k = Some e" "State e = EntryRunning"
  shows "PauseRequested e \<longleftrightarrow> quietBlockingReasonLocked act (Policy e) \<noteq> ''''"
    and "Reason e = quietBlockingReasonLocked act (Policy e)"
proof -
  let ?ad = "admitEntries cap act es"
  obtain f where f: "e = annotateEntry act ?ad f"
    using assms(2) by (auto simp: settledEntries_def annotateEntries_def)
  then have "State f = EntryRunning" using assms(3) by (simp add: keeps_coreD)
  then have e: "e = f\<lparr>PauseRequested := quietBlockingReasonLocked act (Policy f) \<noteq> '''',
      Reason := quietBlockingReasonLocked act (Policy f)\<rparr>"
    using f by (simp add: annotateEntry_def Let_def)
  show "PauseRequested e \<longleftrightarrow> quietBlockingReasonLocked act (Policy e) \<noteq> ''''"
    and "Reason e = quietBlockingReasonLocked act (Policy e)"
    by (simp_all add: e)
qed

lemma preemption_justified:
  assumes wf: "entries_wf es"
    and v: "map_of (rebalanceEntries cap act es) k = Some v" "State v = EntryRunning"
      "PauseRequested v" "quietBlockingReasonLocked act (Policy v) = ''''"
  shows "Reason v = ReasonHigherPriorityWork"
    and "\<exists>w \<in> set (eligibleWaitingEntriesLocked act (rebalanceEntries cap act es)).
           entryRank w < entryRank v"
proof -
  let ?st = "settledEntries cap act es"
  obtain f where f: "map_of ?st k = Some f" "Policy f = Policy v" "State f = State v"
    "JobID f = JobID v" "v = onIDs (victimsOf cap act ?st) markVictim f"
    by (rule rebalance_get_core [OF wf v(1)])
  have "\<not> PauseRequested f" using settled_running(1) [OF wf f(1)] f v by simp
  then have mem: "JobID f \<in> victimsOf cap act ?st" using f(5) v(3) by (auto simp: onIDs_def split: if_splits)
  then show "Reason v = ReasonHigherPriorityWork" using f(5) by (simp add: onIDs_def markVictim_def)
  from mem obtain w u where w: "w \<in> set (eligibleWaitingEntriesLocked act ?st)"
    and u: "u \<in> snd ` set ?st" "JobID u = JobID f" "entryRank w < entryRank u"
    using victimIDs_sound [OF mem [unfolded victimsOf_def]] by blast
  have wfs: "entries_wf ?st" by (rule entries_wf_settled [OF wf])
  have "u = f"
    using u entries_wf_mem [OF wfs] entries_wf_get [OF wfs f(1)] f(1) by (metis option.inject)
  have "eligibleWaitingEntriesLocked act (rebalanceEntries cap act es)
        = map (onIDs (victimsOf cap act ?st) markVictim) (eligibleWaitingEntriesLocked act ?st)"
    by (simp add: rebalance_settled [OF wf] eligible_gm_map)
  with w u \<open>u = f\<close> f(2) show "\<exists>w \<in> set (eligibleWaitingEntriesLocked act (rebalanceEntries cap act es)).
           entryRank w < entryRank v"
    by (force simp: keeps_coreD)
qed

lemma victimIDs_complete:
  assumes "w \<in> set ws" "v \<in> snd ` set es" "victimCandidate (Priority (Policy w)) sel v" "free \<le> 0"
  shows "victimIDs free sel ws es \<noteq> []"
  using assms
proof (induction ws)
  case Nil
  then show ?case by simp
next
  case (Cons x ws)
  show ?case
  proof (cases "selectVictimLocked es (Priority (Policy x)) sel")
    case None
    with Cons.prems have "w \<noteq> x" by (auto simp: selectVictim_None)
    with Cons None show ?thesis by simp
  next
    case (Some y)
    with Cons.prems show ?thesis by simp
  qed
qed

lemma settled_pause_kept:
  assumes wf: "entries_wf es" and u: "u \<in> snd ` set (settledEntries cap act es)"
    and run: "State u = EntryRunning"
    and pr: "PauseRequested u \<or> JobID u \<in> victimsOf cap act (settledEntries cap act es)"
  shows "\<exists>k u. map_of (rebalanceEntries cap act es) k = Some u \<and> State u = EntryRunning
           \<and> PauseRequested u"
proof -
  let ?f = "onIDs (victimsOf cap act (settledEntries cap act es)) markVictim"
  have "map_of (settledEntries cap act es) (JobID u) = Some u"
    using entries_wf_mem [OF entries_wf_settled [OF wf]] u by blast
  then have "map_of (rebalanceEntries cap act es) (JobID u) = Some (?f u)"
    by (simp add: rebalance_settled [OF wf])
  moreover have "State (?f u) = EntryRunning" "PauseRequested (?f u)"
    using run pr by (auto simp: onIDs_def markVictim_def)
  ultimately show ?thesis by blast
qed

lemma preemption_requested:
  assumes wf: "entries_wf es"
    and w: "w \<in> set (eligibleWaitingEntriesLocked act (rebalanceEntries cap act es))"
    and v: "map_of (rebalanceEntries cap act es) k = Some v" "State v = EntryRunning"
      "entryRank w < entryRank v"
  shows "\<exists>k' u. map_of (rebalanceEntries cap act es) k' = Some u \<and> State u = EntryRunning
           \<and> PauseRequested u"
proof (cases "pausedVictims (settledEntries cap act es) = []")
  case False
  then obtain u where "u \<in> snd ` set (settledEntries cap act es)" "State u = EntryRunning"
    "PauseRequested u"
    by (fastforce simp: pausedVictims_def filter_empty_conv)
  then show ?thesis using settled_pause_kept [OF wf] by blast
next
  case True
  let ?st = "settledEntries cap act es"
  let ?free = "cap - runningCountLocked ?st + int (length (pausedVictims ?st))"
  obtain f where f: "map_of ?st k = Some f" "Policy f = Policy v" "State f = State v" "JobID f = JobID v"
    by (rule rebalance_get_core [OF wf v(1)])
  have run: "runningCountLocked (rebalanceEntries cap act es) = runningCountLocked ?st"
    by (simp add: rebalance_settled [OF wf] runningCount_cong keeps_coreD)
  have "eligibleWaitingEntriesLocked act (rebalanceEntries cap act es) \<noteq> []" using w by force
  then have "\<not> runningCountLocked ?st < cap"
    using rebalance_work_conserving [OF wf, of cap act] run by auto
  then have free: "?free \<le> 0" using True by simp
  obtain w' where w': "w' \<in> set (eligibleWaitingEntriesLocked act ?st)" "Policy w' = Policy w"
    using w by (auto simp: rebalance_settled [OF wf] eligible_gm_map keeps_coreD)
  have "f \<in> snd ` set ?st" using f(1) by (force dest: map_of_SomeD)
  moreover have "victimCandidate (Priority (Policy w')) (pausedVictims ?st) f"
    using f v w' True by (simp add: victimCandidate_def)
  ultimately have "victimIDs ?free (pausedVictims ?st) (eligibleWaitingEntriesLocked act ?st) ?st \<noteq> []"
    using victimIDs_complete [OF w'(1) _ _ free] by blast
  then obtain j where j: "j \<in> victimsOf cap act ?st"
    unfolding victimsOf_def by (metis list.set_intros(1) neq_Nil_conv)
  then obtain u where "u \<in> snd ` set ?st" "JobID u = j" "State u = EntryRunning"
    using victimIDs_sound [OF j [unfolded victimsOf_def]] by blast
  with j show ?thesis using settled_pause_kept [OF wf] by blast
qed

section \<open>Quiet work\<close>

lemma quiet_running_paused:
  assumes wf: "entries_wf es" and k: "map_of (rebalanceEntries cap act es) k = Some e"
    and run: "State e = EntryRunning" and q: "quietBlockingReasonLocked act (Policy e) \<noteq> ''''"
  shows "PauseRequested e"
proof -
  obtain f where f: "map_of (settledEntries cap act es) k = Some f" "Policy f = Policy e"
    "State f = State e" "e = onIDs (victimsOf cap act (settledEntries cap act es)) markVictim f"
    by (rule rebalance_get_core [OF wf k])
  then show ?thesis
    using settled_running(1) [OF wf f(1)] run q by (auto simp: onIDs_def markVictim_def)
qed

section \<open>Idempotence\<close>

lemma admit_no_room:
  assumes "entries_wf es" "cap \<le> runningCountLocked es \<or> eligibleWaitingEntriesLocked act es = []"
  shows "admitEntries cap act es = es"
proof -
  have "admittedIDs cap act es = {}" using assms(2) by (auto simp: admittedIDs_def)
  then show ?thesis by (simp add: admitEntries_map [OF assms(1)] gm_map_onIDs_empty)
qed

lemma annotate_victims:
  assumes "entries_wf es" "\<And>e. e \<in> snd ` set es \<Longrightarrow> JobID e \<in> V \<Longrightarrow> State e = EntryRunning"
  shows "annotateEntries act (gm_map (onIDs V markVictim) es) = annotateEntries act es"
proof -
  let ?f = "\<lambda>e. if State e = EntryRunning then onIDs V markVictim e else e"
  have "gm_map (onIDs V markVictim) es = gm_map ?f es"
    using assms(2) by (intro gm_map_cong) (force simp: onIDs_def)
  also have "annotateEntries act \<dots> = annotateEntries act es"
    by (rule annotate_gm_map) (auto simp: keeps_core_def onIDs_def markVictim_def)
  finally show ?thesis .
qed

lemma annotate_idem: "annotateEntries act (annotateEntries act es) = annotateEntries act es"
proof -
  have "annotateEntry act (gm_map (annotateEntry act es) es) (annotateEntry act es e)
        = annotateEntry act es e" for e
    using waitingReason_gm_map [OF keeps_core_annotate, of _ _ act act es es]
    by (cases "State e") (simp_all add: annotateEntry_def Let_def)
  then show ?thesis by (simp add: annotateEntries_def gm_map_gm_map)
qed

lemma rebalance_idempotent:
  assumes wf: "entries_wf es"
  shows "rebalanceEntries cap act (rebalanceEntries cap act es) = rebalanceEntries cap act es"
proof -
  let ?st = "settledEntries cap act es" and ?rb = "rebalanceEntries cap act es"
  have "cap \<le> runningCountLocked ?rb \<or> eligibleWaitingEntriesLocked act ?rb = []"
    using rebalance_work_conserving [OF wf, of cap act] by linarith
  then have "admitEntries cap act ?rb = ?rb" using wf by (simp add: admit_no_room)
  moreover have "annotateEntries act ?rb = ?st"
  proof -
    have "annotateEntries act ?rb = annotateEntries act ?st"
      unfolding rebalance_settled [OF wf]
    proof (rule annotate_victims [OF entries_wf_settled [OF wf]])
      fix e assume "e \<in> snd ` set ?st" "JobID e \<in> victimsOf cap act ?st"
      then show "State e = EntryRunning"
        unfolding victimsOf_def
        using victimIDs_sound entries_wf_inj [OF entries_wf_settled [OF wf]] by metis
    qed
    then show ?thesis by (simp add: settledEntries_def annotate_idem)
  qed
  ultimately show ?thesis by (simp add: rebalanceEntries_def settledEntries_def)
qed

section \<open>Iteration order\<close>

lemma eligible_perm:
  assumes "entries_wf es" "mset es = mset es'"
  shows "eligibleWaitingEntriesLocked act es = eligibleWaitingEntriesLocked act es'"
proof -
  have "mset (filter P (map snd es)) = mset (filter P (map snd es'))" for P
    using assms(2) by (metis mset_filter mset_map)
  then show ?thesis
    unfolding eligibleWaitingEntriesLocked_def waitingEntriesLocked_def
    using waiting.sort_by_perm [OF _ distinct_waiting_filter [OF assms(1)]] by metis
qed

lemma runningCount_perm: "mset es = mset es' \<Longrightarrow> runningCountLocked es = runningCountLocked es'"
  unfolding runningCountLocked_def by (metis mset_filter size_mset)

lemma gm_map_perm: "mset es = mset es' \<Longrightarrow> mset (gm_map f es) = mset (gm_map f es')"
  by (simp add: gm_map_def)

lemma entries_wf_perm: "entries_wf es \<Longrightarrow> mset es = mset es' \<Longrightarrow> entries_wf es'"
  unfolding entries_wf_def gm_wf_def
  by (metis mset_eq_imp_distinct_iff mset_eq_setD mset_map)

lemma settled_perm:
  assumes wf: "entries_wf es" and p: "mset es = mset es'"
  shows "mset (settledEntries cap act es) = mset (settledEntries cap act es')"
proof -
  have ids: "admittedIDs cap act es = admittedIDs cap act es'"
    by (simp add: admittedIDs_def eligible_perm [OF wf p] runningCount_perm [OF p])
  have adm: "mset (admitEntries cap act es) = mset (admitEntries cap act es')"
    using gm_map_perm [OF p] ids admitEntries_map wf entries_wf_perm [OF wf p] by metis
  have "waitingReasonLocked act (admitEntries cap act es)
        = waitingReasonLocked act (admitEntries cap act es')"
    using mset_eq_setD [OF adm] by (simp add: fun_eq_iff waitingReasonLocked_def list_ex_iff)
  then have "annotateEntry act (admitEntries cap act es) = annotateEntry act (admitEntries cap act es')"
    by (intro ext) (simp add: annotateEntry_def split: entry_state.split)
  with gm_map_perm [OF adm] show ?thesis
    by (simp add: settledEntries_def annotateEntries_def)
qed

lemma rebalance_perm:
  assumes wf: "entries_wf es" and p: "mset es = mset es'"
  shows "mset (rebalanceEntries cap act es) = mset (rebalanceEntries cap act es')"
proof -
  let ?st = "settledEntries cap act es" and ?st' = "settledEntries cap act es'"
  have q: "mset ?st = mset ?st'" by (rule settled_perm [OF assms])
  have wfs: "entries_wf ?st" by (rule entries_wf_settled [OF wf])
  have pv: "mset (pausedVictims ?st) = mset (pausedVictims ?st')"
    by (simp add: pausedVictims_def q)
  then have "victimsOf cap act ?st = victimsOf cap act ?st'"
    unfolding victimsOf_def
    using victimIDs_cong [OF wfs mset_eq_setD [OF q] mset_eq_setD [OF pv]] eligible_perm [OF wfs q]
      runningCount_perm [OF q] mset_eq_length [OF pv] by simp
  then show ?thesis
    using gm_map_perm [OF q] by (simp add: rebalance_settled wf entries_wf_perm [OF wf p])
qed

end
