(* ===== verification/SchedulerInvariant.thy ===== *)
theory SchedulerInvariant
  imports SchedulerFairness
begin

text \<open>
  The invariant of the scheduler and its preservation by every locked section. The central part
  is that the entries are a fixed point of \<open>rebalanceEntries\<close> whenever the mutex is free: all
  consequences of one rebalancing call then hold in every reachable state.
\<close>

section \<open>The invariant\<close>

definition runningKeys :: "entry_map \<Rightarrow> string set" where
  "runningKeys es = {k. \<exists>e. map_of es k = Some e \<and> State e = EntryRunning}"

definition maps_wf :: "scheduler \<Rightarrow> bool" where
  "maps_wf s \<longleftrightarrow> entries_wf (entries s) \<and> gm_wf (registrationPolicies s)
     \<and> gm_wf (registrationPolicyGenerations s) \<and> gm_wf (pauseGenerations s)
     \<and> gm_wf (pauseClaims s) \<and> gm_wf (retryWaiting s) \<and> gm_wf (retryShared s)"

text \<open>Only a running entry is claimed for a pause or asked to pause; only a paused one retries.\<close>

definition claims_running :: "scheduler \<Rightarrow> bool" where
  "claims_running s \<longleftrightarrow> (\<forall>k. map_of (pauseClaims s) k \<noteq> None \<longrightarrow> k \<in> runningKeys (entries s))"

definition retries_paused :: "scheduler \<Rightarrow> bool" where
  "retries_paused s \<longleftrightarrow> (\<forall>k. map_of (retryWaiting s) k \<noteq> None \<longrightarrow>
     (\<exists>e. map_of (entries s) k = Some e \<and> State e = EntryPaused))"

definition requests_running :: "scheduler \<Rightarrow> bool" where
  "requests_running s \<longleftrightarrow> (\<forall>k e. map_of (entries s) k = Some e \<longrightarrow> PauseRequested e \<longrightarrow>
     State e = EntryRunning)"

definition within_capacity :: "scheduler \<Rightarrow> bool" where
  "within_capacity s \<longleftrightarrow> runningCountLocked (entries s) \<le> max 0 (capacity s)"

definition jobs_inv :: "scheduler \<Rightarrow> bool" where
  "jobs_inv s \<longleftrightarrow> maps_wf s \<and> claims_running s \<and> retries_paused s \<and> requests_running s
     \<and> within_capacity s"

text \<open>While a job waits for a retry round, a timer is armed for the current round.\<close>

definition timer_current :: "scheduler \<Rightarrow> bool" where
  "timer_current s \<longleftrightarrow> (\<forall>g. retryTimer s = Some g \<longrightarrow> g = retryGeneration s)"

definition timer_armed :: "scheduler \<Rightarrow> bool" where
  "timer_armed s \<longleftrightarrow> (retryWaiting s \<noteq> [] \<longrightarrow> retryTimer s \<noteq> None)"

definition balanced :: "scheduler \<Rightarrow> bool" where
  "balanced s \<longleftrightarrow> rebalanceEntries (capacity s) (activity s) (entries s) = entries s"

definition sched_inv :: "scheduler \<Rightarrow> bool" where
  "sched_inv s \<longleftrightarrow> jobs_inv s \<and> timer_current s \<and> timer_armed s \<and> balanced s"

lemmas jobs_inv_defs =
  jobs_inv_def maps_wf_def claims_running_def retries_paused_def requests_running_def
  within_capacity_def

lemmas timer_defs = timer_current_def timer_armed_def

section \<open>Running keys\<close>

lemma runningCount_keys:
  assumes "entries_wf es"
  shows "runningCountLocked es = int (card (runningKeys es))" and "finite (runningKeys es)"
proof -
  have "JobID ` {e \<in> snd ` set es. State e = EntryRunning} = runningKeys es"
  proof (intro equalityI subsetI)
    fix k assume "k \<in> JobID ` {e \<in> snd ` set es. State e = EntryRunning}"
    then obtain e where "e \<in> snd ` set es" "State e = EntryRunning" "k = JobID e" by blast
    then show "k \<in> runningKeys es" by (auto simp: runningKeys_def entries_wf_mem [OF assms])
  next
    fix k assume "k \<in> runningKeys es"
    then obtain e where "map_of es k = Some e" "State e = EntryRunning" by (auto simp: runningKeys_def)
    then show "k \<in> JobID ` {e \<in> snd ` set es. State e = EntryRunning}"
      using entries_wf_get [OF assms] by (force dest: map_of_SomeD)
  qed
  then show "runningCountLocked es = int (card (runningKeys es))"
    by (simp add: runningCount_card [OF assms])
  have "runningKeys es \<subseteq> dom (map_of es)" by (auto simp: runningKeys_def)
  then show "finite (runningKeys es)" by (rule finite_subset) (rule finite_dom_map_of)
qed

lemma runningCount_mono:
  assumes "entries_wf es" "entries_wf es'" "runningKeys es \<subseteq> runningKeys es'"
  shows "runningCountLocked es \<le> runningCountLocked es'"
  using assms by (simp add: runningCount_keys card_mono)

lemma runningKeys_put:
  "runningKeys (gm_put k e es)
   = (if State e = EntryRunning then insert k (runningKeys es) else runningKeys es - {k})"
  by (auto simp: runningKeys_def)

lemma runningKeys_del: "runningKeys (gm_del k es) = runningKeys es - {k}"
  by (auto simp: runningKeys_def)

text \<open>Putting an entry that does not start running, or removing one, frees slots only.\<close>

lemma runningCount_put_le:
  assumes "entries_wf es" "JobID e = k" "State e = EntryRunning \<Longrightarrow> k \<in> runningKeys es"
  shows "runningCountLocked (gm_put k e es) \<le> runningCountLocked es"
  using assms by (intro runningCount_mono) (auto simp: runningKeys_put)

lemma runningCount_del_le:
  "entries_wf es \<Longrightarrow> runningCountLocked (gm_del k es) \<le> runningCountLocked es"
  by (intro runningCount_mono) (auto simp: runningKeys_del)

section \<open>Rebalancing establishes the invariant\<close>

lemma rebalance_get_None:
  "entries_wf es \<Longrightarrow> map_of (rebalanceEntries cap act es) k = None \<longleftrightarrow> map_of es k = None"
  by (simp add: rebalance_get)

lemma rebalance_get_Some:
  assumes "entries_wf es" "map_of es k = Some e"
  obtains e' where "map_of (rebalanceEntries cap act es) k = Some e'"
    "State e' = (if k \<in> admittedIDs cap act es then EntryRunning else State e)"
    "generation e' = generation e" "Policy e' = Policy e" "policyGeneration e' = policyGeneration e"
    "QueueSequence e' = QueueSequence e"
proof -
  obtain e' where e': "map_of (rebalanceEntries cap act es) k = Some e'"
    using assms by (auto simp: rebalance_get)
  then obtain f where "map_of es k = Some f" "Policy e' = Policy f" "generation e' = generation f"
    "policyGeneration e' = policyGeneration f" "QueueSequence e' = QueueSequence f"
    by (rule rebalance_entry [OF assms(1)])
  with assms(2) show ?thesis
    using that [OF e' rebalance_state [OF assms e']] by simp
qed

lemma runningKeys_rebalance:
  "entries_wf es \<Longrightarrow> runningKeys es \<subseteq> runningKeys (rebalanceEntries cap act es)"
  by (auto simp: runningKeys_def elim!: rebalance_get_Some [where cap = cap and act = act])

lemma rebalance_paused:
  assumes "entries_wf es" "map_of es k = Some e" "State e = EntryPaused"
  shows "\<exists>e'. map_of (rebalanceEntries cap act es) k = Some e' \<and> State e' = EntryPaused"
proof -
  have "k \<notin> admittedIDs cap act es"
    using admitted_eligible(1) [OF assms(1,2)] assms(3) by auto
  then show ?thesis
    using rebalance_get_Some [OF assms(1,2), of cap act] assms(3) by metis
qed

lemma rebalance_requests:
  assumes wf: "entries_wf es" and k: "map_of (rebalanceEntries cap act es) k = Some e"
    and pr: "PauseRequested e"
    and old: "\<And>e. map_of es k = Some e \<Longrightarrow> PauseRequested e \<Longrightarrow> State e = EntryRunning"
  shows "State e = EntryRunning"
proof -
  let ?A = "admittedIDs cap act es" and ?V = "victimsOf cap act (settledEntries cap act es)"
  let ?ad = "admitEntries cap act es"
  obtain f where f: "map_of es k = Some f"
    "e = onIDs ?V markVictim (annotateEntry act ?ad (onIDs ?A startEntry f))"
    using k by (auto simp: rebalance_get [OF wf])
  let ?g = "annotateEntry act ?ad (onIDs ?A startEntry f)"
  show ?thesis
  proof (cases "JobID ?g \<in> ?V")
    case True
    have wfs: "entries_wf (settledEntries cap act es)" by (rule entries_wf_settled [OF wf])
    have "map_of (settledEntries cap act es) k = Some ?g"
      using f(1) by (simp add: settledEntries_def annotateEntries_def admitEntries_map [OF wf])
    then have g: "?g \<in> snd ` set (settledEntries cap act es)" by (force dest: map_of_SomeD)
    obtain v where "v \<in> snd ` set (settledEntries cap act es)" "JobID v = JobID ?g"
      "State v = EntryRunning"
      using victimIDs_sound [OF True [unfolded victimsOf_def]] by blast
    then have "State ?g = EntryRunning" using entries_wf_inj [OF wfs _ g] by metis
    with f(2) show ?thesis by (simp add: keeps_coreD)
  next
    case False
    with f(2) have e: "e = ?g" by (simp add: onIDs_def)
    show ?thesis
    proof (rule ccontr)
      assume "State e \<noteq> EntryRunning"
      with e have ns: "State (onIDs ?A startEntry f) \<noteq> EntryRunning" by (simp add: keeps_coreD)
      then have "onIDs ?A startEntry f = f" by (auto simp: onIDs_def startEntry_def)
      with e ns pr have "PauseRequested f"
        by (auto simp: annotateEntry_def Let_def split: entry_state.splits)
      with old [OF f(1)] ns \<open>onIDs ?A startEntry f = f\<close> show False by simp
    qed
  qed
qed

lemma jobs_inv_rebalance:
  assumes "jobs_inv s"
  shows "jobs_inv (rebalanceLocked s)"
proof -
  have wf: "entries_wf (entries s)" using assms by (simp add: jobs_inv_defs)
  have "claims_running (rebalanceLocked s)"
    using assms runningKeys_rebalance [OF wf, of "capacity s" "activity s"]
    by (auto simp: jobs_inv_def claims_running_def rebalanceLocked_def)
  moreover have "retries_paused (rebalanceLocked s)"
    using assms rebalance_paused [OF wf]
    by (fastforce simp: jobs_inv_def retries_paused_def rebalanceLocked_def)
  moreover have "requests_running (rebalanceLocked s)"
    using assms rebalance_requests [OF wf]
    by (fastforce simp: jobs_inv_def requests_running_def rebalanceLocked_def)
  moreover have "within_capacity (rebalanceLocked s)"
    using assms rebalance_slot_bound [OF wf, of "capacity s" "activity s"]
    by (auto simp: jobs_inv_def within_capacity_def rebalanceLocked_def max_def split: if_splits)
  ultimately show ?thesis
    using assms wf by (simp add: jobs_inv_def maps_wf_def rebalanceLocked_def)
qed

lemma jobs_inv_notify [simp]: "jobs_inv (notifyLocked s) = jobs_inv s"
  by (simp add: jobs_inv_defs notifyLocked_def)

lemma sched_inv_notify [simp]: "sched_inv (notifyLocked s) = sched_inv s"
  by (simp add: sched_inv_def timer_defs balanced_def) (simp add: notifyLocked_def)

lemma sched_inv_settle:
  assumes "jobs_inv s" "timer_current s" "timer_armed s"
  shows "sched_inv (rebalanceLocked s)"
proof -
  have "entries_wf (entries s)" using assms(1) by (simp add: jobs_inv_defs)
  then have "balanced (rebalanceLocked s)"
    by (simp add: balanced_def rebalanceLocked_def rebalance_idempotent)
  moreover have "timer_current (rebalanceLocked s)" "timer_armed (rebalanceLocked s)"
    using assms(2,3) by (simp_all add: timer_defs rebalanceLocked_def)
  ultimately show ?thesis
    using jobs_inv_rebalance [OF assms(1)] by (simp add: sched_inv_def)
qed

section \<open>Changing one entry\<close>

lemma jobs_inv_put:
  assumes inv: "jobs_inv s" and wf: "maps_wf t"
    and es: "entries t = gm_put k e (entries s)" and id: "JobID e = k"
    and cap: "capacity t = capacity s"
    and claims: "\<And>j. map_of (pauseClaims t) j \<noteq> None \<Longrightarrow> map_of (pauseClaims s) j \<noteq> None"
    and claimk: "map_of (pauseClaims t) k \<noteq> None \<Longrightarrow> State e = EntryRunning"
    and retries: "\<And>j. j \<noteq> k \<Longrightarrow> map_of (retryWaiting t) j \<noteq> None \<Longrightarrow> map_of (retryWaiting s) j \<noteq> None"
    and retryk: "map_of (retryWaiting t) k \<noteq> None \<Longrightarrow> State e = EntryPaused"
    and req: "PauseRequested e \<Longrightarrow> State e = EntryRunning"
    and run: "State e = EntryRunning \<Longrightarrow> k \<in> runningKeys (entries s)"
  shows "jobs_inv t"
proof -
  have wfs: "entries_wf (entries s)" using inv by (simp add: jobs_inv_defs)
  have c: "j \<in> runningKeys (entries s)" if "map_of (pauseClaims t) j \<noteq> None" for j
    using inv claims [OF that] unfolding jobs_inv_def claims_running_def by blast
  have "claims_running t"
    unfolding claims_running_def es runningKeys_put using c claimk by auto
  moreover have "retries_paused t"
  proof (unfold retries_paused_def, intro allI impI)
    fix j assume j: "map_of (retryWaiting t) j \<noteq> None"
    show "\<exists>e. map_of (entries t) j = Some e \<and> State e = EntryPaused"
      using inv retries [OF _ j] retryk j
      by (cases "j = k") (auto simp: es jobs_inv_def retries_paused_def)
  qed
  moreover have "requests_running t"
    using inv req by (auto simp: jobs_inv_def requests_running_def es split: if_splits)
  moreover have "within_capacity t"
    using inv runningCount_put_le [OF wfs id run]
    by (simp add: jobs_inv_def within_capacity_def es cap)
  ultimately show ?thesis using wf by (simp add: jobs_inv_def)
qed

lemma jobs_inv_del:
  assumes inv: "jobs_inv s" and wf: "maps_wf t"
    and es: "entries t = gm_del k (entries s)" and cap: "capacity t = capacity s"
    and claims: "pauseClaims t = gm_del k (pauseClaims s)"
    and retries: "retryWaiting t = gm_del k (retryWaiting s)"
  shows "jobs_inv t"
proof -
  have wfs: "entries_wf (entries s)" using inv by (simp add: jobs_inv_defs)
  have "within_capacity t"
    using inv runningCount_del_le [OF wfs, of k]
    by (simp add: jobs_inv_def within_capacity_def es cap)
  then show ?thesis
    using inv wf
    by (auto simp: jobs_inv_def claims_running_def retries_paused_def requests_running_def
        runningKeys_del es claims retries split: if_splits)
qed

lemma jobs_inv_frame:
  assumes "jobs_inv s" "maps_wf t" "entries t = entries s" "capacity t = capacity s"
    "pauseClaims t = pauseClaims s" "retryWaiting t = retryWaiting s"
  shows "jobs_inv t"
  using assms by (simp add: jobs_inv_defs)

lemma jobs_inv_claims:
  assumes "jobs_inv s" "map_of (entries s) k = Some e" "State e \<noteq> EntryRunning"
  shows "map_of (pauseClaims s) k = None"
  using assms by (force simp: jobs_inv_def claims_running_def runningKeys_def)

lemma jobs_inv_not_retrying:
  assumes "jobs_inv s" "\<And>e. map_of (entries s) k = Some e \<Longrightarrow> State e \<noteq> EntryPaused"
  shows "map_of (retryWaiting s) k = None"
  using assms by (force simp: jobs_inv_def retries_paused_def)

lemma sched_inv_parts:
  assumes "sched_inv s"
  shows "jobs_inv s" "maps_wf s" "entries_wf (entries s)" "timer_current s" "timer_armed s" "balanced s"
  using assms by (simp_all add: sched_inv_def jobs_inv_def maps_wf_def)

lemma leaseEntry_Some:
  "leaseEntry l s = Some e \<longleftrightarrow> map_of (entries s) (leaseJobID l) = Some e \<and> generation e = leaseGeneration l"
  by (auto simp: leaseEntry_def split: option.splits)

lemmas maps_wf_simps = maps_wf_def notifyLocked_def

section \<open>Operations that leave the entries alone\<close>

lemma sched_inv_frame:
  assumes "sched_inv s" "maps_wf t" "entries t = entries s" "capacity t = capacity s"
    "activity t = activity s" "retryWaiting t = retryWaiting s" "retryTimer t = retryTimer s"
    "retryGeneration t = retryGeneration s" "claims_running t"
  shows "sched_inv t"
  using assms by (simp add: sched_inv_def jobs_inv_def timer_defs balanced_def retries_paused_def
      requests_running_def within_capacity_def)

lemma sched_inv_discard:
  assumes "sched_inv s"
  shows "sched_inv (DiscardStagedPolicyUpdate jobID s)"
  by (rule sched_inv_frame [OF assms])
     (use sched_inv_parts(1) [OF assms] in \<open>simp_all add: jobs_inv_defs DiscardStagedPolicyUpdate_def\<close>)

lemma sched_inv_set_claims:
  assumes "sched_inv s" "gm_wf c" "gm_wf g" "\<And>k. map_of c k \<noteq> None \<Longrightarrow> k \<in> runningKeys (entries s)"
  shows "sched_inv (s\<lparr>pauseGenerations := g, pauseClaims := c\<rparr>)"
  by (rule sched_inv_frame [OF assms(1)])
     (use assms(2-4) sched_inv_parts(2) [OF assms(1)] in \<open>auto simp: maps_wf_def claims_running_def\<close>)

lemma sched_inv_claim:
  assumes "sched_inv s"
  shows "sched_inv (snd (claimPause reason req l s))"
proof -
  note wf = sched_inv_parts(2) [OF assms, unfolded maps_wf_def]
  have claims: "map_of (pauseClaims s) k \<noteq> None \<Longrightarrow> k \<in> runningKeys (entries s)" for k
    using sched_inv_parts(1) [OF assms] by (simp add: jobs_inv_def claims_running_def)
  show ?thesis
    using claims wf
    by (auto simp: claimPause_def Let_def leaseEntry_Some runningKeys_def assms
        intro!: sched_inv_set_claims [OF assms] split: option.split if_splits)
qed

lemma sched_inv_cancel:
  assumes "sched_inv s"
  shows "sched_inv (CancelClaim c s)"
proof -
  let ?k = "leaseJobID (claimLease c)"
  have "sched_inv (s\<lparr>pauseClaims := gm_del ?k (pauseClaims s)\<rparr>)"
    by (rule sched_inv_frame [OF assms])
       (use sched_inv_parts(1) [OF assms] in \<open>auto simp: jobs_inv_defs split: if_splits\<close>)
  with assms show ?thesis by (simp add: CancelClaim_def Let_def split: option.split)
qed

section \<open>Operations that replace one entry\<close>

lemma put_entry_settles:
  assumes inv: "sched_inv s" and e: "map_of (entries s) k = Some e"
    and e': "JobID e' = JobID e" "State e' = State e" "PauseRequested e' = PauseRequested e"
  shows "sched_inv (rebalanceLocked (s\<lparr>entries := gm_put k e' (entries s)\<rparr>))"
proof -
  have id: "JobID e = k" using entries_wf_get [OF sched_inv_parts(3) [OF inv] e] .
  have "jobs_inv (s\<lparr>entries := gm_put k e' (entries s)\<rparr>)"
  proof (rule jobs_inv_put [OF sched_inv_parts(1) [OF inv]])
    show "maps_wf (s\<lparr>entries := gm_put k e' (entries s)\<rparr>)"
      using sched_inv_parts(2) [OF inv] id e' by (simp add: maps_wf_def)
  next
    assume "map_of (pauseClaims (s\<lparr>entries := gm_put k e' (entries s)\<rparr>)) k \<noteq> None"
    then show "State e' = EntryRunning"
      using jobs_inv_claims [OF sched_inv_parts(1) [OF inv] e] e' by fastforce
  next
    assume "map_of (retryWaiting (s\<lparr>entries := gm_put k e' (entries s)\<rparr>)) k \<noteq> None"
    then show "State e' = EntryPaused"
      using jobs_inv_not_retrying [OF sched_inv_parts(1) [OF inv], of k] e e' by fastforce
  next
    assume "PauseRequested e'"
    then show "State e' = EntryRunning"
      using sched_inv_parts(1) [OF inv] e e' by (auto simp: jobs_inv_def requests_running_def)
  next
    assume "State e' = EntryRunning"
    then show "k \<in> runningKeys (entries s)" using e e' by (auto simp: runningKeys_def)
  qed (use id e' in auto)
  then show ?thesis
    using sched_inv_parts(4,5) [OF inv] by (intro sched_inv_settle) (simp_all add: timer_defs)
qed

lemma sched_inv_updatePolicyLocked:
  "sched_inv s \<Longrightarrow> map_of (entries s) k = Some e \<Longrightarrow> sched_inv (snd (updatePolicyLocked k e patch s))"
  by (auto simp: updatePolicyLocked_def Let_def intro!: put_entry_settles split: sum.split)

lemma sched_inv_update: "sched_inv s \<Longrightarrow> sched_inv (snd (UpdatePolicy jobID patch s))"
  by (auto simp: UpdatePolicy_def sched_inv_updatePolicyLocked split: option.split)

lemma sched_inv_update_lease: "sched_inv s \<Longrightarrow> sched_inv (snd (UpdatePolicyLease patch l s))"
  by (auto simp: UpdatePolicyLease_def leaseEntry_Some sched_inv_updatePolicyLocked split: option.split)

lemma sched_inv_registration:
  assumes "sched_inv s" "gm_wf m" "gm_wf g"
  shows "sched_inv (s\<lparr>registrationPolicies := m, registrationPolicyGenerations := g\<rparr>)"
  by (rule sched_inv_frame [OF assms(1)])
     (use assms in \<open>auto simp: sched_inv_def jobs_inv_defs\<close>)

lemma sched_inv_stage: "sched_inv s \<Longrightarrow> sched_inv (snd (StagePolicyUpdate jobID patch s))"
  using sched_inv_updatePolicyLocked [of s jobID]
  by (auto simp: StagePolicyUpdate_def Let_def case_prod_unfold
      dest: sched_inv_parts(2) intro!: sched_inv_registration
      split: option.split sum.split simp: maps_wf_def)

lemma sched_inv_rollback: "sched_inv s \<Longrightarrow> sched_inv (snd (RollbackPolicyUpdate receipt policy s))"
  by (auto simp: RollbackPolicyUpdate_def Let_def sched_inv_discard
      dest: sched_inv_parts(2) intro!: sched_inv_registration put_entry_settles
      split: option.split simp: maps_wf_def)

section \<open>Operations that suspend, resume, add or remove an entry\<close>

text \<open>
  Replacing an entry by one that is not running: claims on it are dropped, and a retry deadline
  for it exists only when it is paused.
\<close>

lemma suspend_settles:
  assumes inv: "sched_inv s" and id: "JobID e = k" and st: "State e \<noteq> EntryRunning"
    and req: "\<not> PauseRequested e" and wf: "maps_wf t"
    and t: "entries t = gm_put k e (entries s)" "capacity t = capacity s"
      "\<And>j. map_of (pauseClaims t) j \<noteq> None \<Longrightarrow> map_of (pauseClaims s) j \<noteq> None"
      "map_of (pauseClaims t) k = None"
      "\<And>j. j \<noteq> k \<Longrightarrow> map_of (retryWaiting t) j \<noteq> None \<Longrightarrow> map_of (retryWaiting s) j \<noteq> None"
      "map_of (retryWaiting t) k \<noteq> None \<Longrightarrow> State e = EntryPaused"
    and tm: "timer_current t" "timer_armed t"
  shows "sched_inv (rebalanceLocked t)"
proof (rule sched_inv_settle [OF _ tm])
  show "jobs_inv t"
    by (rule jobs_inv_put [OF sched_inv_parts(1) [OF inv] wf t(1) id t(2)])
       (use st req t in auto)
qed

lemma timer_armed_del: "timer_armed s \<Longrightarrow> retryWaiting t = gm_del k (retryWaiting s) \<Longrightarrow>
    retryTimer t = retryTimer s \<Longrightarrow> timer_armed t"
  by (auto simp: timer_armed_def)

lemma sched_inv_yield:
  assumes inv: "sched_inv s"
  shows "sched_inv (snd (YieldClaim c s))"
proof -
  note wf = sched_inv_parts(2) [OF inv]
  let ?k = "leaseJobID (claimLease c)"
  have "sched_inv (rebalanceLocked
           (s\<lparr>pauseClaims := gm_del ?k (pauseClaims s), retryWaiting := gm_del ?k (retryWaiting s),
              retryShared := gm_del ?k (retryShared s),
              entries := gm_put ?k (e\<lparr>State := EntryPaused, Reason := r, PauseRequested := False\<rparr>) (entries s),
              yields := y\<rparr>))"
    if e: "map_of (entries s) ?k = Some e" for e r y
    using entries_wf_get [OF sched_inv_parts(3) [OF inv] e] wf sched_inv_parts(4,5) [OF inv]
    by (intro suspend_settles [OF inv, of "e\<lparr>State := EntryPaused, Reason := r, PauseRequested := False\<rparr>" ?k])
       (auto simp: maps_wf_def timer_current_def split: if_splits elim: timer_armed_del)
  then show ?thesis
    by (auto simp: YieldClaim_def Let_def leaseEntry_Some inv split: option.split)
qed

lemma sched_inv_reacquire:
  assumes inv: "sched_inv s"
  shows "sched_inv (snd (reacquireLocked ctx l s))"
proof -
  note wf = sched_inv_parts(2) [OF inv]
  let ?k = "leaseJobID l"
  have "sched_inv (rebalanceLocked
           (s\<lparr>retryWaiting := gm_del ?k (retryWaiting s), retryShared := gm_del ?k (retryShared s),
              entries := gm_put ?k (e\<lparr>State := EntryWaiting, PauseRequested := False\<rparr>) (entries s)\<rparr>))"
    if e: "map_of (entries s) ?k = Some e" "State e = EntryPaused" for e
    using entries_wf_get [OF sched_inv_parts(3) [OF inv] e(1)] wf sched_inv_parts(4,5) [OF inv]
      jobs_inv_claims [OF sched_inv_parts(1) [OF inv] e(1)] e(2)
    by (intro suspend_settles [OF inv, of "e\<lparr>State := EntryWaiting, PauseRequested := False\<rparr>" ?k])
       (auto simp: maps_wf_def timer_current_def split: if_splits elim: timer_armed_del)
  then show ?thesis
    by (auto simp: reacquireLocked_def Let_def leaseEntry_Some inv split: option.split)
qed

lemma sched_inv_register:
  assumes inv: "sched_inv s" and fresh: "map_of (entries s) (JobID e) = None"
  shows "sched_inv (registerEntry e policy s)"
proof -
  note wf = sched_inv_parts(2) [OF inv]
  have "map_of (pauseClaims s) (JobID e) = None"
    using sched_inv_parts(1) [OF inv] fresh
    by (force simp: jobs_inv_def claims_running_def runningKeys_def)
  moreover have "map_of (retryWaiting s) (JobID e) = None"
    using fresh by (intro jobs_inv_not_retrying [OF sched_inv_parts(1) [OF inv]]) simp
  ultimately show ?thesis
    using wf sched_inv_parts(4,5) [OF inv]
    unfolding registerEntry_def Let_def
    by (simp only: sched_inv_notify, intro suspend_settles [OF inv, where k = "JobID e"
          and e = "e\<lparr>Policy := policy, generation := nextEntryGeneration s + 1, State := EntryWaiting,
                   Reason := ReasonWaitingForCapacity, PauseRequested := False\<rparr>"])
       (auto simp: maps_wf_def timer_defs)
qed

lemma sched_inv_acquireRegister:
  assumes "sched_inv s"
  shows "sched_inv (snd (acquireRegister ctx e s))"
proof -
  have "entries (DiscardStagedPolicyUpdate j s) = entries s" for j
    by (simp add: DiscardStagedPolicyUpdate_def)
  then show ?thesis
    using assms sched_inv_discard [OF assms]
    by (auto simp: acquireRegister_def Let_def intro: sched_inv_register split: option.split sum.split)
qed

lemma remove_settles:
  assumes inv: "sched_inv s" and wf: "maps_wf t"
    and t: "entries t = gm_del k (entries s)" "capacity t = capacity s"
      "pauseClaims t = gm_del k (pauseClaims s)" "retryWaiting t = gm_del k (retryWaiting s)"
      "retryTimer t = retryTimer s" "retryGeneration t = retryGeneration s"
  shows "sched_inv (rebalanceLocked t)"
proof (rule sched_inv_settle)
  show "jobs_inv t" by (rule jobs_inv_del [OF sched_inv_parts(1) [OF inv] wf t(1-4)])
  show "timer_current t" using sched_inv_parts(4) [OF inv] t by (simp add: timer_current_def)
  show "timer_armed t" using sched_inv_parts(5) [OF inv] t by (auto elim: timer_armed_del)
qed

lemma sched_inv_release:
  assumes inv: "sched_inv s"
  shows "sched_inv (Release l s)"
  using sched_inv_parts(2) [OF inv]
  by (auto simp: Release_def Let_def inv maps_wf_def
      intro!: remove_settles [OF inv, where k = "leaseJobID l"] split: option.split)

lemma sched_inv_cancelWait:
  assumes inv: "sched_inv s" and e: "map_of (entries s) k = Some e"
  shows "sched_inv (cancelWaitLocked k e rem s)"
proof (cases rem)
  case True
  with sched_inv_parts(2) [OF inv] show ?thesis
    by (auto simp: cancelWaitLocked_def maps_wf_def intro!: remove_settles [OF inv, where k = k])
next
  case False
  let ?e = "e\<lparr>State := EntryPaused, PauseRequested := False,
              Reason := if Reason e = '''' then ReasonWaitingForCapacity else Reason e\<rparr>"
  have "sched_inv (rebalanceLocked (s\<lparr>entries := gm_put k ?e (entries s),
          pauseClaims := gm_del k (pauseClaims s), retryWaiting := gm_del k (retryWaiting s)\<rparr>))"
    using entries_wf_get [OF sched_inv_parts(3) [OF inv] e] sched_inv_parts(2,4,5) [OF inv]
    by (intro suspend_settles [OF inv, of ?e k])
       (auto simp: maps_wf_def timer_current_def split: if_splits elim: timer_armed_del)
  with False show ?thesis by (simp add: cancelWaitLocked_def)
qed

lemma sched_inv_wait: "sched_inv s \<Longrightarrow> sched_inv (snd (waitIteration ctx jobID gen rem s))"
  by (auto simp: waitIteration_def sched_inv_cancelWait split: option.split)

lemma sched_inv_sample:
  assumes inv: "sched_inv s"
  shows "sched_inv (sampleActivity sampled s)"
proof -
  have "sched_inv (rebalanceLocked (s\<lparr>activity := a\<rparr>))" for a
    using sched_inv_parts(1,2,4,5) [OF inv]
    by (intro sched_inv_settle) (auto simp: timer_defs jobs_inv_defs)
  with inv show ?thesis by (simp add: sampleActivity_def Let_def)
qed

section \<open>Retry rounds\<close>

lemma scheduleNextRetry_frame:
  "entries (scheduleNextRetryLocked now clk s) = entries s"
  "capacity (scheduleNextRetryLocked now clk s) = capacity s"
  "pauseClaims (scheduleNextRetryLocked now clk s) = pauseClaims s"
  "retryWaiting (scheduleNextRetryLocked now clk s) = retryWaiting s"
  "maps_wf (scheduleNextRetryLocked now clk s) = maps_wf s"
  by (auto simp: scheduleNextRetryLocked_def startRetryRoundLocked_def Let_def maps_wf_def
      split: option.split)

lemma scheduleNextRetry_timer:
  assumes "timer_current s"
  shows "timer_current (scheduleNextRetryLocked now clk s)" "timer_armed (scheduleNextRetryLocked now clk s)"
  using assms
  by (auto simp: scheduleNextRetryLocked_def startRetryRoundLocked_def Let_def timer_defs
      split: option.split)

lemma jobs_inv_scheduleNextRetry:
  "jobs_inv s \<Longrightarrow> jobs_inv (scheduleNextRetryLocked now clk s)"
  by (rule jobs_inv_frame [of s])
     (simp_all add: scheduleNextRetry_frame jobs_inv_def)

lemma sched_inv_retryAfter:
  assumes inv: "sched_inv s"
  shows "sched_inv (snd (retryAfterLocked ctx delay reason shared now clk l s))"
proof -
  let ?k = "leaseJobID l"
  let ?t = "\<lambda>e. s\<lparr>pauseClaims := gm_del ?k (pauseClaims s),
              entries := gm_put ?k (e\<lparr>State := EntryPaused, Reason := reason, PauseRequested := False\<rparr>) (entries s),
              retryWaiting := gm_put ?k (now + delay) (retryWaiting s),
              retryShared := gm_put ?k shared (retryShared s), yields := yields s + 1\<rparr>"
  have "sched_inv (rebalanceLocked (scheduleNextRetryLocked now clk (?t e)))"
    if e: "map_of (entries s) ?k = Some e" for e
  proof (rule sched_inv_settle)
    have "jobs_inv (?t e)"
      by (rule jobs_inv_put [OF sched_inv_parts(1) [OF inv], where k = ?k
            and e = "e\<lparr>State := EntryPaused, Reason := reason, PauseRequested := False\<rparr>"])
         (use entries_wf_get [OF sched_inv_parts(3) [OF inv] e] sched_inv_parts(2) [OF inv]
          in \<open>auto simp: maps_wf_def split: if_splits\<close>)
    then show "jobs_inv (scheduleNextRetryLocked now clk (?t e))"
      by (rule jobs_inv_scheduleNextRetry)
    have "timer_current (?t e)" using sched_inv_parts(4) [OF inv] by (simp add: timer_current_def)
    then show "timer_current (scheduleNextRetryLocked now clk (?t e))"
      "timer_armed (scheduleNextRetryLocked now clk (?t e))"
      by (rule scheduleNextRetry_timer)+
  qed
  with inv show ?thesis
    by (auto simp: retryAfterLocked_def Let_def leaseEntry_Some split: option.split)
qed

lemma jobs_inv_openRetryJob:
  assumes inv: "jobs_inv s"
  shows "jobs_inv (openRetryJob now shared k d s)"
proof -
  have wf: "maps_wf s" using inv by (simp add: jobs_inv_def)
  have dropped: "jobs_inv (s\<lparr>retryWaiting := gm_del k (retryWaiting s), retryShared := gm_del k (retryShared s)\<rparr>)"
    using inv by (auto simp: jobs_inv_defs split: if_splits)
  have "jobs_inv (s\<lparr>entries := gm_put k (e\<lparr>State := EntryWaiting, PauseRequested := False\<rparr>) (entries s),
          retryWaiting := gm_del k (retryWaiting s), retryShared := gm_del k (retryShared s)\<rparr>)"
    if e: "map_of (entries s) k = Some e" "State e = EntryPaused" for e
    by (rule jobs_inv_put [OF inv, where k = k
          and e = "e\<lparr>State := EntryWaiting, PauseRequested := False\<rparr>"])
       (use entries_wf_get [OF _ e(1)] wf jobs_inv_claims [OF inv e(1)] e(2)
        in \<open>auto simp: maps_wf_def split: if_splits\<close>)
  with inv dropped show ?thesis
    by (auto simp: openRetryJob_def Let_def split: option.split)
qed

lemma openRetryJob_timer:
  "retryTimer (openRetryJob now shared k d s) = retryTimer s"
  "retryGeneration (openRetryJob now shared k d s) = retryGeneration s"
  by (auto simp: openRetryJob_def Let_def split: option.split)

lemma openRetry_loop_inv:
  "jobs_inv s \<Longrightarrow> jobs_inv (openRetry_loop now shared ws s)
   \<and> retryTimer (openRetry_loop now shared ws s) = retryTimer s"
  by (induction now shared ws s rule: openRetry_loop.induct)
     (auto simp: jobs_inv_openRetryJob openRetryJob_timer)

lemma sched_inv_openRetryRound:
  assumes inv: "sched_inv s"
  shows "sched_inv (openRetryRound gen now clk s)"
proof (cases "gen = retryGeneration s")
  case False
  with inv show ?thesis by (simp add: openRetryRound_def)
next
  case True
  let ?s1 = "s\<lparr>retryTimer := None, retryTimerDeadline := 0\<rparr>"
  let ?s2 = "openRetry_loop now (dueSharedReasons now ?s1) (retryWaiting ?s1) ?s1"
  have "jobs_inv ?s1" using sched_inv_parts(1) [OF inv] by (simp add: jobs_inv_defs)
  then have s2: "jobs_inv ?s2" "retryTimer ?s2 = None" using openRetry_loop_inv by auto
  then have "timer_current ?s2" by (simp add: timer_current_def)
  then have "sched_inv (rebalanceLocked (scheduleNextRetryLocked now clk ?s2))"
    by (intro sched_inv_settle jobs_inv_scheduleNextRetry s2 scheduleNextRetry_timer)
  with True show ?thesis by (simp add: openRetryRound_def Let_def)
qed

section \<open>Every reachable state\<close>

lemma sched_inv_init: "sched_init s \<Longrightarrow> sched_inv s"
  by (auto simp: sched_init_def NewScheduler_def sched_inv_def jobs_inv_defs timer_defs balanced_def
      rebalanceEntries_def selectVictims_def annotateEntries_def admitEntries_def pausedVictims_def
      eligibleWaitingEntriesLocked_def waitingEntriesLocked_def gm_map_def runningCountLocked_def)

lemmas sched_inv_ops =
  sched_inv_acquireRegister sched_inv_wait sched_inv_update sched_inv_update_lease sched_inv_stage
  sched_inv_rollback sched_inv_discard sched_inv_claim sched_inv_cancel sched_inv_yield
  sched_inv_retryAfter sched_inv_reacquire sched_inv_release sched_inv_openRetryRound sched_inv_sample

lemma sched_inv_step: "sched_step s t \<Longrightarrow> sched_inv s \<Longrightarrow> sched_inv t"
  by (induction rule: sched_step.induct) (auto intro: sched_inv_ops)

interpretation sched: invariant_machine sched_init sched_step sched_inv
  by unfold_locales (auto intro: sched_inv_init sched_inv_step)

abbreviation sched_reachable :: "scheduler \<Rightarrow> bool" where
  "sched_reachable \<equiv> reach sched_init sched_step"

end
