(* ===== verification/SchedulerProperties.thy ===== *)
theory SchedulerProperties
  imports SchedulerInvariant
begin

text \<open>
  The properties of the scheduler that its clients rely on, each with a witness on a concrete
  run: a scheduler with one slot, a low-priority job that owns it, and a high-priority job that
  queues behind it.
\<close>

section \<open>A concrete run\<close>

definition demoPolicy :: "job_priority \<Rightarrow> bool \<Rightarrow> scheduling_policy" where
  "demoPolicy p q = \<lparr>Priority = p, Quiet = q, IdleAfterSeconds = 300\<rparr>"

definition demoEntry :: "string \<Rightarrow> job_priority \<Rightarrow> bool \<Rightarrow> uint64 \<Rightarrow> entry" where
  "demoEntry j p q n = \<lparr>JobID = j, Policy = demoPolicy p q, QueueSequence = n, State = EntryWaiting,
     Reason = '''', PauseRequested = False, generation = 0, policyGeneration = 0\<rparr>"

definition demoLease :: "string \<Rightarrow> uint64 \<Rightarrow> lease" where
  "demoLease j g = \<lparr>leaseJobID = j, leaseGeneration = g\<rparr>"

definition demoLow :: scheduler where
  "demoLow = snd (acquireRegister False (demoEntry ''a'' ''low'' False 1) (NewScheduler 1 None))"

definition demoHigh :: scheduler where
  "demoHigh = snd (acquireRegister False (demoEntry ''b'' ''high'' False 2) demoLow)"

lemma demo_reachable:
  "sched_reachable (NewScheduler 1 None)" "sched_reachable demoLow" "sched_reachable demoHigh"
proof -
  show a: "sched_reachable (NewScheduler 1 None)"
    by (rule reach_init) (auto simp: sched_init_def)
  show b: "sched_reachable demoLow"
    unfolding demoLow_def by (rule reach_step [OF a step_register])
  show "sched_reachable demoHigh"
    unfolding demoHigh_def by (rule reach_step [OF b step_register])
qed

lemma demoHigh_entries:
  "entries demoHigh =
     [(''a'', (demoEntry ''a'' ''low'' False 1)\<lparr>State := EntryRunning, generation := 1,
         PauseRequested := True, Reason := ''higher-priority work''\<rparr>),
      (''b'', (demoEntry ''b'' ''high'' False 2)\<lparr>generation := 2\<rparr>)]"
  by code_simp

section \<open>Slots and order of admission\<close>

lemma reachable_inv: "sched_reachable s \<Longrightarrow> sched_inv s"
  by (rule sched.reach_inv)

text \<open>
  C1: in every reachable state of the scheduler, whatever order the operations, wake-ups, timer
  callbacks and activity samples ran in, no more jobs run than there are slots.
\<close>

theorem scheduler_within_capacity:
  "sched_reachable s \<Longrightarrow> 0 \<le> capacity s \<Longrightarrow> runningCountLocked (entries s) \<le> capacity s"
  using reachable_inv by (force simp: sched_inv_def jobs_inv_def within_capacity_def)

theorem scheduler_within_capacity_witness:
  "sched_reachable demoHigh \<and> runningCountLocked (entries demoHigh) \<le> capacity demoHigh"
proof -
  have "0 \<le> capacity demoHigh" by code_simp
  then show ?thesis using scheduler_within_capacity [OF demo_reachable(3)] demo_reachable(3) by blast
qed

text \<open>
  C2: no slot is left unused: while a slot is free in a reachable state, no job that the quiet
  rules allow to run is waiting.
\<close>

theorem scheduler_work_conserving:
  assumes "sched_reachable s" "runningCountLocked (entries s) < capacity s"
  shows "eligibleWaitingEntriesLocked (activity s) (entries s) = []"
  using rebalance_work_conserving [of "entries s" "capacity s" "activity s"] assms(2)
    sched_inv_parts(3,6) [OF reachable_inv [OF assms(1)]]
  by (simp add: balanced_def)

theorem scheduler_work_conserving_witness:
  "eligibleWaitingEntriesLocked (activity (NewScheduler 1 None)) (entries (NewScheduler 1 None)) = []"
proof -
  have "runningCountLocked (entries (NewScheduler 1 None)) < capacity (NewScheduler 1 None)" by code_simp
  then show ?thesis by (rule scheduler_work_conserving [OF demo_reachable(1)])
qed

text \<open>
  C3: admission follows the queue order. When one rebalancing starts job \<open>a\<close> and leaves an
  eligible job \<open>b\<close> waiting, \<open>a\<close> precedes \<open>b\<close> by priority, then queue sequence, then job id.
\<close>

theorem rebalance_admits_in_order:
  assumes "entries_wf (entries s)"
    and "map_of (entries s) a = Some ea" "State ea = EntryWaiting"
    and "map_of (entries (rebalanceLocked s)) a = Some ea'" "State ea' = EntryRunning"
    and "map_of (entries s) b = Some eb" "State eb = EntryWaiting"
    and "quietBlockingReasonLocked (activity s) (Policy eb) = ''''"
    and "map_of (entries (rebalanceLocked s)) b = Some eb'" "State eb' = EntryWaiting"
  shows "waitingBefore ea eb"
  using assms admitted_before_waiting [of "entries s" a ea "capacity s" "activity s" ea' b eb eb']
  by (simp add: rebalanceLocked_def)

definition demoQueue :: scheduler where
  "demoQueue = (NewScheduler 1 None)\<lparr>entries :=
     [(''a'', demoEntry ''a'' ''low'' False 1), (''b'', demoEntry ''b'' ''high'' False 2)]\<rparr>"

theorem rebalance_admits_in_order_witness:
  "waitingBefore (demoEntry ''b'' ''high'' False 2) (demoEntry ''a'' ''low'' False 1)"
proof (rule rebalance_admits_in_order [of demoQueue "''b''" _ "startEntry (demoEntry ''b'' ''high'' False 2)"
      "''a''" _ "(demoEntry ''a'' ''low'' False 1)\<lparr>Reason := ''higher-priority work''\<rparr>"])
  show "entries_wf (entries demoQueue)" by code_simp
  show "map_of (entries demoQueue) ''b'' = Some (demoEntry ''b'' ''high'' False 2)" by code_simp
  show "State (demoEntry ''b'' ''high'' False 2) = EntryWaiting" by code_simp
  show "map_of (entries (rebalanceLocked demoQueue)) ''b''
        = Some (startEntry (demoEntry ''b'' ''high'' False 2))" by code_simp
  show "State (startEntry (demoEntry ''b'' ''high'' False 2)) = EntryRunning" by code_simp
  show "map_of (entries demoQueue) ''a'' = Some (demoEntry ''a'' ''low'' False 1)" by code_simp
  show "State (demoEntry ''a'' ''low'' False 1) = EntryWaiting" by code_simp
  show "quietBlockingReasonLocked (activity demoQueue) (Policy (demoEntry ''a'' ''low'' False 1)) = ''''"
    by code_simp
  show "map_of (entries (rebalanceLocked demoQueue)) ''a''
        = Some ((demoEntry ''a'' ''low'' False 1)\<lparr>Reason := ''higher-priority work''\<rparr>)" by code_simp
  show "State ((demoEntry ''a'' ''low'' False 1)\<lparr>Reason := ''higher-priority work''\<rparr>) = EntryWaiting"
    by code_simp
qed

text \<open>
  C4: preemption makes progress and is justified. In a reachable state in which an eligible job
  waits behind a running job of lower priority, some running job has been asked to pause; and
  every running job asked to pause that the quiet rules do not block carries the
  higher-priority reason and really has an eligible job of higher priority waiting for it.
\<close>

theorem scheduler_preemption:
  assumes "sched_reachable s"
  shows "((\<exists>w \<in> set (eligibleWaitingEntriesLocked (activity s) (entries s)). \<exists>k v.
            map_of (entries s) k = Some v \<and> State v = EntryRunning \<and> entryRank w < entryRank v)
         \<longrightarrow> (\<exists>k u. map_of (entries s) k = Some u \<and> State u = EntryRunning \<and> PauseRequested u))
     \<and> (\<forall>k v. map_of (entries s) k = Some v \<longrightarrow> State v = EntryRunning \<longrightarrow> PauseRequested v
         \<longrightarrow> quietBlockingReasonLocked (activity s) (Policy v) = ''''
         \<longrightarrow> Reason v = ReasonHigherPriorityWork
             \<and> (\<exists>w \<in> set (eligibleWaitingEntriesLocked (activity s) (entries s)). entryRank w < entryRank v))"
proof -
  have bal: "rebalanceEntries (capacity s) (activity s) (entries s) = entries s"
    and wf: "entries_wf (entries s)"
    using sched_inv_parts(3,6) [OF reachable_inv [OF assms]] by (simp_all add: balanced_def)
  note requested = preemption_requested [OF wf, of _ "activity s" "capacity s", unfolded bal]
  note justified = preemption_justified [OF wf, of "capacity s" "activity s", unfolded bal]
  show ?thesis
  proof (intro conjI allI impI)
    assume "\<exists>w \<in> set (eligibleWaitingEntriesLocked (activity s) (entries s)). \<exists>k v.
            map_of (entries s) k = Some v \<and> State v = EntryRunning \<and> entryRank w < entryRank v"
    then show "\<exists>k u. map_of (entries s) k = Some u \<and> State u = EntryRunning \<and> PauseRequested u"
      using requested by blast
  qed (use justified in blast)+
qed

theorem scheduler_preemption_witness:
  "\<exists>k u. map_of (entries demoHigh) k = Some u \<and> State u = EntryRunning \<and> PauseRequested u"
proof -
  have "\<exists>w \<in> set (eligibleWaitingEntriesLocked (activity demoHigh) (entries demoHigh)).
          entryRank w < 2" by code_simp
  moreover have "map_of (entries demoHigh) ''a'' \<noteq> None
      \<and> State (the (map_of (entries demoHigh) ''a'')) = EntryRunning
      \<and> entryRank (the (map_of (entries demoHigh) ''a'')) = 2" by code_simp
  ultimately show ?thesis using scheduler_preemption [OF demo_reachable(3)] by fastforce
qed

text \<open>
  rebalancing is idempotent: a second call with no change in between alters nothing, so
  operations may rebalance defensively without disturbing running or waiting jobs.
\<close>

theorem rebalance_idem:
  "entries_wf (entries s) \<Longrightarrow> rebalanceLocked (rebalanceLocked s) = rebalanceLocked s"
  by (simp add: rebalanceLocked_def rebalance_idempotent)

theorem rebalance_idem_witness:
  "rebalanceLocked (rebalanceLocked demoQueue) = rebalanceLocked demoQueue"
proof -
  have "entries_wf (entries demoQueue)" by code_simp
  then show ?thesis by (rule rebalance_idem)
qed

text \<open>
  C5: Go iterates a map in an unspecified order, and \<open>rebalanceLocked\<close> iterates the entries several
  times. The outcome does not depend on it: from two listings of the same map it computes the
  same map.
\<close>

theorem rebalance_order_independent:
  assumes "entries_wf es" "entries_wf es'" "map_of es = map_of es'"
  shows "map_of (rebalanceEntries cap act es) = map_of (rebalanceEntries cap act es')"
proof -
  have p: "mset es = mset es'" using assms gm_perm_iff by (metis entries_wf_def)
  have "gm_wf (rebalanceEntries cap act es)" "gm_wf (rebalanceEntries cap act es')"
    using entries_wf_rebalance assms by (metis entries_wf_def)+
  then show ?thesis using rebalance_perm [OF assms(1) p] gm_perm_iff by metis
qed

theorem rebalance_order_independent_witness:
  "map_of (rebalanceEntries 1 unavailableActivitySnapshot
      [(''a'', demoEntry ''a'' ''low'' False 1), (''b'', demoEntry ''b'' ''high'' False 2)])
   = map_of (rebalanceEntries 1 unavailableActivitySnapshot
      [(''b'', demoEntry ''b'' ''high'' False 2), (''a'', demoEntry ''a'' ''low'' False 1)])"
proof (rule rebalance_order_independent)
  show "entries_wf [(''a'', demoEntry ''a'' ''low'' False 1), (''b'', demoEntry ''b'' ''high'' False 2)]"
    by code_simp
  show "entries_wf [(''b'', demoEntry ''b'' ''high'' False 2), (''a'', demoEntry ''a'' ''low'' False 1)]"
    by code_simp
  show "map_of [(''a'', demoEntry ''a'' ''low'' False 1), (''b'', demoEntry ''b'' ''high'' False 2)]
        = map_of [(''b'', demoEntry ''b'' ''high'' False 2), (''a'', demoEntry ''a'' ''low'' False 1)]"
    by (rule ext) simp
qed

text \<open>
  quiet work yields to an unsafe host. In a reachable state with an unsafe thermal reading,
  a running job with the quiet flag has been asked to pause, whatever its priority, and no
  waiting job with the quiet flag is eligible to start.
\<close>

theorem scheduler_thermal_safety:
  assumes "sched_reachable s" "ThermalAvailable (activity s)" "ThermalUnsafe (activity s)"
    and "map_of (entries s) k = Some e" "Quiet (Policy e)"
  shows "(State e = EntryRunning \<longrightarrow> PauseRequested e)
         \<and> e \<notin> set (eligibleWaitingEntriesLocked (activity s) (entries s))"
proof -
  have bal: "rebalanceEntries (capacity s) (activity s) (entries s) = entries s"
    and wf: "entries_wf (entries s)"
    using sched_inv_parts(3,6) [OF reachable_inv [OF assms(1)]] by (simp_all add: balanced_def)
  have "quietBlockingReasonLocked (activity s) (Policy e) \<noteq> ''''"
    using assms by (simp add: quietBlockingReasonLocked_def reason_defs)
  then show ?thesis
    using quiet_running_paused [OF wf, of "capacity s" "activity s" k e, unfolded bal] assms(4)
    by (auto simp: set_eligible)
qed

definition demoHot :: activity_snapshot where
  "demoHot = unavailableActivitySnapshot\<lparr>ThermalAvailable := True, ThermalUnsafe := True\<rparr>"

definition demoQuiet :: scheduler where
  "demoQuiet = sampleActivity (Some demoHot)
     (snd (acquireRegister False (demoEntry ''q'' ''high'' True 1) (NewScheduler 1 None)))"

theorem scheduler_thermal_safety_witness:
  "State (the (map_of (entries demoQuiet) ''q'')) = EntryRunning
   \<and> PauseRequested (the (map_of (entries demoQuiet) ''q''))"
proof -
  have "sched_reachable demoQuiet"
    unfolding demoQuiet_def by (rule reach_step [OF reach_step [OF demo_reachable(1) step_register] step_sample])
  moreover have "ThermalAvailable (activity demoQuiet)" "ThermalUnsafe (activity demoQuiet)" by code_simp+
  moreover have "map_of (entries demoQuiet) ''q'' = Some (the (map_of (entries demoQuiet) ''q''))"
    by code_simp
  moreover have "Quiet (Policy (the (map_of (entries demoQuiet) ''q'')))"
    and run: "State (the (map_of (entries demoQuiet) ''q'')) = EntryRunning" by code_simp+
  ultimately show ?thesis using scheduler_thermal_safety by blast
qed

end
