(* ===== verification/SchedulerLeases.thy ===== *)
theory SchedulerLeases
  imports SchedulerProperties
begin

text \<open>
  The contracts of leases, pause claims, staged policies and retry rounds, operation by
  operation: what a caller may assume after each call, in success and in failure.
\<close>

section \<open>One locked section\<close>

lemma entries_notify [simp]: "entries (notifyLocked s) = entries s"
  by (simp add: notifyLocked_def)

lemma pauseClaims_settle [simp]:
  "pauseClaims (notifyLocked (rebalanceLocked s)) = pauseClaims s"
  "pauseGenerations (notifyLocked (rebalanceLocked s)) = pauseGenerations s"
  "retryWaiting (notifyLocked (rebalanceLocked s)) = retryWaiting s"
  "registrationPolicies (notifyLocked (rebalanceLocked s)) = registrationPolicies s"
  by (simp_all add: notifyLocked_def rebalanceLocked_def)

lemma entries_rebalanceLocked:
  "entries (rebalanceLocked s) = rebalanceEntries (capacity s) (activity s) (entries s)"
  by (simp add: rebalanceLocked_def)

lemma settle_paused:
  assumes "entries_wf (entries s)" "map_of (entries s) k = Some e" "State e = EntryPaused"
  shows "\<exists>e'. map_of (entries (notifyLocked (rebalanceLocked s))) k = Some e' \<and> State e' = EntryPaused"
  using rebalance_paused [OF assms] by (simp add: entries_rebalanceLocked)

lemma settle_lookup_None:
  "entries_wf (entries s) \<Longrightarrow>
   map_of (entries (notifyLocked (rebalanceLocked s))) k = None \<longleftrightarrow> map_of (entries s) k = None"
  by (simp add: entries_rebalanceLocked rebalance_get_None)

section \<open>Pause claims\<close>

text \<open>
  a pause claim is exclusive. Once a claim on a running lease succeeds, every further claim
  on that lease fails and \<open>Checkpoint\<close> reports no pending pause, until the claim is cancelled or
  used. (A claim number is nonzero unless the per-job counter wraps around after \<open>2^64\<close> claims.)
\<close>

theorem claim_exclusive:
  assumes "claimPause reason req l s = (Some c, s')" "claimGeneration c \<noteq> 0"
  shows "claimPause reason' req' l s' = (None, s') \<and> Checkpoint l s' = (False, '''')"
proof -
  have "gm_get0 0 (pauseClaims s') (leaseJobID l) = claimGeneration c"
    using assms(1) by (auto simp: claimPause_def Let_def split: option.splits if_splits)
  then show ?thesis
    using assms(2) by (auto simp: claimPause_def Checkpoint_def split: option.split)
qed

theorem claim_exclusive_witness:
  "fst (ClaimPauseRequest (demoLease ''a'' 1) demoHigh) \<noteq> None
   \<and> fst (claimPause ''x'' False (demoLease ''a'' 1)
             (snd (ClaimPauseRequest (demoLease ''a'' 1) demoHigh))) = None"
proof -
  let ?r = "ClaimPauseRequest (demoLease ''a'' 1) demoHigh"
  have some: "fst ?r \<noteq> None" and "claimGeneration (the (fst ?r)) \<noteq> 0" by code_simp+
  moreover from some have "claimPause '''' True (demoLease ''a'' 1) demoHigh = (Some (the (fst ?r)), snd ?r)"
    by (cases ?r) (auto simp: ClaimPauseRequest_def)
  ultimately show ?thesis using claim_exclusive by (metis fst_conv)
qed

text \<open>
  a claim releases its slot at most once. After \<open>Yield\<close> on a claim returned true the entry is
  paused without a pause request and the same claim cannot yield again.
\<close>

theorem yield_once:
  assumes "entries_wf (entries s)" "YieldClaim c s = (True, s')"
  shows "(\<exists>e. map_of (entries s') (leaseJobID (claimLease c)) = Some e \<and> State e = EntryPaused)
         \<and> YieldClaim c s' = (False, s')"
proof -
  let ?k = "leaseJobID (claimLease c)"
  let ?t = "\<lambda>e. s\<lparr>pauseClaims := gm_del ?k (pauseClaims s), retryWaiting := gm_del ?k (retryWaiting s),
      retryShared := gm_del ?k (retryShared s),
      entries := gm_put ?k (e\<lparr>State := EntryPaused, Reason := claimReason c, PauseRequested := False\<rparr>) (entries s),
      yields := yields s + 1\<rparr>"
  obtain e where e: "map_of (entries s) ?k = Some e" and s': "s' = notifyLocked (rebalanceLocked (?t e))"
    using assms(2) by (auto simp: YieldClaim_def Let_def leaseEntry_Some split: option.splits if_splits)
  have "entries_wf (entries (?t e))"
    using assms(1) entries_wf_get [OF assms(1) e] by simp
  then have "\<exists>e. map_of (entries s') ?k = Some e \<and> State e = EntryPaused"
    unfolding s' by (rule settle_paused) (simp, simp)
  then show ?thesis
    by (auto simp: YieldClaim_def Let_def leaseEntry_Some split: option.split)
qed

theorem yield_once_witness:
  "let r = ClaimPauseRequest (demoLease ''a'' 1) demoHigh;
       y = YieldClaim (the (fst r)) (snd r)
   in fst y \<and> \<not> fst (YieldClaim (the (fst r)) (snd y))"
proof -
  let ?r = "ClaimPauseRequest (demoLease ''a'' 1) demoHigh"
  let ?y = "YieldClaim (the (fst ?r)) (snd ?r)"
  have wf: "entries_wf (entries (snd ?r))" by code_simp
  have fst: "fst ?y" by code_simp
  then have "YieldClaim (the (fst ?r)) (snd ?r) = (True, snd ?y)" by (cases ?y) simp
  from yield_once [OF wf this] fst show ?thesis by (simp add: Let_def)
qed

section \<open>Stale and released leases\<close>

text \<open>
  a lease whose entry was replaced is powerless. If the job's current entry has another
  generation, or there is none, then checkpoint, claims, release, policy update, retry and
  reacquire leave the scheduler unchanged and report no success.
\<close>

theorem stale_lease_inert:
  assumes "\<And>e. map_of (entries s) (leaseJobID l) = Some e \<Longrightarrow> generation e \<noteq> leaseGeneration l"
  shows "Checkpoint l s = (False, '''') \<and> claimPause reason req l s = (None, s) \<and> Release l s = s
     \<and> YieldLease reason l s = (False, s)
     \<and> UpdatePolicyLease patch l s = (Some (LeaseNotOwner (leaseJobID l)), s)
     \<and> snd (retryAfterLocked ctx delay reason shared now clk l s) = s
     \<and> fst (retryAfterLocked ctx delay reason shared now clk l s) \<noteq> None
     \<and> reacquireLocked ctx l s = (ReacquireFailed (JobMissing (leaseJobID l)), s)"
proof -
  have "leaseEntry l s = None" using assms by (auto simp: leaseEntry_def split: option.split)
  then show ?thesis
    by (simp add: Checkpoint_def claimPause_def Release_def YieldLease_def ClaimYield_def
        UpdatePolicyLease_def retryAfterLocked_def reacquireLocked_def Let_def)
qed

theorem stale_lease_inert_witness:
  "Release (demoLease ''a'' 7) demoHigh = demoHigh"
proof -
  have "generation e \<noteq> leaseGeneration (demoLease ''a'' 7)"
    if "map_of (entries demoHigh) (leaseJobID (demoLease ''a'' 7)) = Some e" for e
    using that by (auto simp: demoHigh_entries demoLease_def)
  then show ?thesis using stale_lease_inert by blast
qed

text \<open>
  releasing a lease removes its job from every table of the scheduler except the staged
  policies, and a second release of the same lease does nothing.
\<close>

theorem release_removes:
  assumes "entries_wf (entries s)" "leaseEntry l s \<noteq> None"
  shows "map_of (entries (Release l s)) (leaseJobID l) = None
     \<and> map_of (pauseClaims (Release l s)) (leaseJobID l) = None
     \<and> map_of (pauseGenerations (Release l s)) (leaseJobID l) = None
     \<and> map_of (retryWaiting (Release l s)) (leaseJobID l) = None
     \<and> map_of (retryShared (Release l s)) (leaseJobID l) = None
     \<and> Release l (Release l s) = Release l s"
proof -
  let ?t = "s\<lparr>entries := gm_del (leaseJobID l) (entries s),
      pauseClaims := gm_del (leaseJobID l) (pauseClaims s),
      pauseGenerations := gm_del (leaseJobID l) (pauseGenerations s),
      retryWaiting := gm_del (leaseJobID l) (retryWaiting s),
      retryShared := gm_del (leaseJobID l) (retryShared s)\<rparr>"
  have rel: "Release l s = notifyLocked (rebalanceLocked ?t)"
    using assms(2) by (auto simp: Release_def Let_def)
  have gone: "map_of (entries (Release l s)) (leaseJobID l) = None"
    unfolding rel using assms(1) by (subst settle_lookup_None) simp_all
  then have "Release l (Release l s) = Release l s"
    by (simp add: Release_def [of l "Release l s"] leaseEntry_def Let_def)
  with gone show ?thesis
    by (simp add: rel) (simp add: notifyLocked_def rebalanceLocked_def)
qed

theorem release_removes_witness:
  "map_of (entries (Release (demoLease ''a'' 1) demoHigh)) ''a'' = None
   \<and> State (the (map_of (entries (Release (demoLease ''a'' 1) demoHigh)) ''b'')) = EntryRunning"
proof -
  have wf: "entries_wf (entries demoHigh)" by code_simp
  have own: "leaseEntry (demoLease ''a'' 1) demoHigh \<noteq> None" by code_simp
  have "State (the (map_of (entries (Release (demoLease ''a'' 1) demoHigh)) ''b'')) = EntryRunning"
    by code_simp
  with release_removes [OF wf own] show ?thesis by (simp add: demoLease_def)
qed

section \<open>Staged policies\<close>

lemma acquireRegister_staged:
  assumes "JobID e \<noteq> ''''" "ValidateSchedulingPolicy (Policy e) = None"
    "map_of (entries s) (JobID e) = None" "map_of (registrationPolicies s) (JobID e) = Some patch"
    "ApplySchedulingPolicyPatch (Policy e) patch = Inr policy"
  shows "acquireRegister False e s
    = (Inr \<lparr>leaseJobID = JobID e, leaseGeneration = nextEntryGeneration s + 1\<rparr>,
       registerEntry e policy (DiscardStagedPolicyUpdate (JobID e) s))"
  using assms by (simp add: acquireRegister_def)

lemma registerEntry_get:
  assumes "entries_wf (entries s)"
  obtains e' where "map_of (entries (registerEntry e policy s)) (JobID e) = Some e'"
    "Policy e' = policy" "generation e' = nextEntryGeneration s + 1"
proof -
  let ?e = "e\<lparr>Policy := policy, generation := nextEntryGeneration s + 1, State := EntryWaiting,
      Reason := ReasonWaitingForCapacity, PauseRequested := False\<rparr>"
  let ?es = "gm_put (JobID e) ?e (entries s)"
  have "entries_wf ?es" "map_of ?es (JobID e) = Some ?e" using assms by simp_all
  then obtain e' where "map_of (rebalanceEntries (capacity s) (activity s) ?es) (JobID e) = Some e'"
    "generation e' = generation ?e" "Policy e' = Policy ?e"
    by (rule rebalance_get_Some)
  then show ?thesis
    by (intro that [of e']) (simp_all add: registerEntry_def Let_def entries_rebalanceLocked)
qed

lemma stage_unregistered:
  assumes "StagePolicyUpdate j patch s = (Inr receipt, s')" "map_of (entries s) j = None"
  shows "j \<noteq> ''''"
    "map_of (registrationPolicies s') j
     = Some (mergeSchedulingPolicyPatch (gm_get0 emptyPatch (registrationPolicies s) j) patch)"
    "entries s' = entries s" "nextEntryGeneration s' = nextEntryGeneration s"
    "receiptJobID receipt = j" "staged receipt" "entryGeneration receipt = 0"
    "hadPreviousStaged receipt \<longleftrightarrow> map_of (registrationPolicies s) j \<noteq> None"
    "previousStaged receipt = gm_get0 emptyPatch (registrationPolicies s) j"
    "gm_get0 0 (registrationPolicyGenerations s') j = receiptPolicyGeneration receipt"
    "registrationPolicies s' = gm_put j
       (mergeSchedulingPolicyPatch (gm_get0 emptyPatch (registrationPolicies s) j) patch)
       (registrationPolicies s)"
  using assms by (auto simp: StagePolicyUpdate_def Let_def split: if_splits sum.splits)

text \<open>
  a policy staged before registration takes effect at registration, on top of whatever was
  staged earlier: \<open>Acquire\<close> registers the job with the earlier staged patch and then this patch
  applied to its policy, and the staged patch is consumed.
\<close>

theorem staged_policy_applied:
  assumes "entries_wf (entries s)" "map_of (entries s) (JobID e) = None"
    and "StagePolicyUpdate (JobID e) patch s = (Inr receipt, s')"
    and "ValidateSchedulingPolicy (Policy e) = None"
    and "ApplySchedulingPolicyPatch (Policy e) (gm_get0 emptyPatch (registrationPolicies s) (JobID e)) = Inr mid"
    and "ApplySchedulingPolicyPatch mid patch = Inr policy"
  shows "\<exists>l s'' e'. acquireRegister False e s' = (Inr l, s'')
     \<and> map_of (entries s'') (JobID e) = Some e' \<and> Policy e' = policy \<and> generation e' = leaseGeneration l
     \<and> map_of (registrationPolicies s'') (JobID e) = None"
proof -
  note st = stage_unregistered [OF assms(3,2)]
  let ?d = "DiscardStagedPolicyUpdate (JobID e) s'"
  have "ApplySchedulingPolicyPatch (Policy e)
      (mergeSchedulingPolicyPatch (gm_get0 emptyPatch (registrationPolicies s) (JobID e)) patch) = Inr policy"
    using apply_merged_patch [OF assms(5)] assms(6) by simp
  then have reg: "acquireRegister False e s'
      = (Inr \<lparr>leaseJobID = JobID e, leaseGeneration = nextEntryGeneration s' + 1\<rparr>, registerEntry e policy ?d)"
    using st assms by (intro acquireRegister_staged) simp_all
  have "entries_wf (entries ?d)" using assms(1) st(3) by (simp add: DiscardStagedPolicyUpdate_def)
  then obtain e' where "map_of (entries (registerEntry e policy ?d)) (JobID e) = Some e'"
    "Policy e' = policy" "generation e' = nextEntryGeneration ?d + 1"
    by (rule registerEntry_get)
  moreover have "map_of (registrationPolicies (registerEntry e policy ?d)) (JobID e) = None"
    by (simp add: registerEntry_def Let_def) (simp add: DiscardStagedPolicyUpdate_def)
  ultimately show ?thesis
    using reg by (simp add: DiscardStagedPolicyUpdate_def)
qed

definition demoPatch :: scheduling_policy_patch where
  "demoPatch = emptyPatch\<lparr>patchPriority := Some ''high''\<rparr>"

theorem staged_policy_applied_witness:
  "\<exists>l s'' e'. acquireRegister False (demoEntry ''c'' ''low'' False 3) (snd (StagePolicyUpdate ''c'' demoPatch demoHigh)) = (Inr l, s'')
     \<and> map_of (entries s'') ''c'' = Some e' \<and> Policy e' = demoPolicy ''high'' False"
proof -
  let ?e = "demoEntry ''c'' ''low'' False 3"
  let ?r = "StagePolicyUpdate (JobID ?e) demoPatch demoHigh"
  have "?r = (Inr (projr (fst ?r)), snd ?r)" by code_simp
  moreover have "entries_wf (entries demoHigh)" "map_of (entries demoHigh) (JobID ?e) = None"
    "ValidateSchedulingPolicy (Policy ?e) = None"
    "ApplySchedulingPolicyPatch (Policy ?e) (gm_get0 emptyPatch (registrationPolicies demoHigh) (JobID ?e))
       = Inr (demoPolicy ''low'' False)"
    "ApplySchedulingPolicyPatch (demoPolicy ''low'' False) demoPatch = Inr (demoPolicy ''high'' False)"
    by code_simp+
  ultimately have "\<exists>l s'' e'. acquireRegister False ?e (snd ?r) = (Inr l, s'')
     \<and> map_of (entries s'') (JobID ?e) = Some e' \<and> Policy e' = demoPolicy ''high'' False \<and> generation e' = leaseGeneration l
     \<and> map_of (registrationPolicies s'') (JobID ?e) = None"
    using staged_policy_applied by blast
  then show ?thesis by (auto simp: demoEntry_def)
qed

text \<open>
  rolling back a staged update restores the staged policies exactly, whether or not another
  patch had been staged before, and touches no entry.
\<close>

theorem stage_rollback_roundtrip:
  assumes "map_of (entries s) j = None"
    and "StagePolicyUpdate j patch s = (Inr receipt, s')"
    and "ValidateSchedulingPolicy previous = None"
  shows "fst (RollbackPolicyUpdate receipt previous s') = None
     \<and> map_of (registrationPolicies (snd (RollbackPolicyUpdate receipt previous s')))
       = map_of (registrationPolicies s)
     \<and> entries (snd (RollbackPolicyUpdate receipt previous s')) = entries s"
proof -
  note st = stage_unregistered [OF assms(2,1)]
  show ?thesis
  proof (cases "map_of (registrationPolicies s) j")
    case None
    then have "RollbackPolicyUpdate receipt previous s' = (None, DiscardStagedPolicyUpdate j s')"
      using st assms by (simp add: RollbackPolicyUpdate_def)
    with None st show ?thesis by (simp add: DiscardStagedPolicyUpdate_def fun_eq_iff)
  next
    case (Some p)
    then have "previousStaged receipt = p" using st(9) by (simp add: gm_get0_def)
    then show ?thesis
      using st assms Some by (simp add: RollbackPolicyUpdate_def fun_eq_iff)
  qed
qed

theorem stage_rollback_roundtrip_witness:
  "let r = StagePolicyUpdate ''c'' demoPatch demoHigh
   in map_of (registrationPolicies (snd (RollbackPolicyUpdate (projr (fst r)) (demoPolicy ''low'' False) (snd r))))
      = map_of (registrationPolicies demoHigh)"
proof -
  let ?r = "StagePolicyUpdate ''c'' demoPatch demoHigh"
  have "?r = (Inr (projr (fst ?r)), snd ?r)" "map_of (entries demoHigh) ''c'' = None"
    "ValidateSchedulingPolicy (demoPolicy ''low'' False) = None" by code_simp+
  then show ?thesis using stage_rollback_roundtrip by (simp add: Let_def)
qed

text \<open>
  a staged update that registration has consumed can no longer be rolled back. If \<open>Acquire\<close>
  registers the job between \<open>StagePolicyUpdate\<close> and \<open>RollbackPolicyUpdate\<close>, the rollback reports
  success and changes nothing, because the receipt of a staged update carries entry generation
  0; the entry keeps the patched policy.
\<close>

theorem rollback_after_registration_noop:
  assumes "entries_wf (entries s)" "map_of (entries s) (JobID e) = None"
    and "StagePolicyUpdate (JobID e) patch s = (Inr receipt, s1)"
    and "acquireRegister False e s1 = (Inr l, s2)" "leaseGeneration l \<noteq> 0"
    and "ValidateSchedulingPolicy previous = None"
  shows "RollbackPolicyUpdate receipt previous s2 = (None, s2)"
proof -
  note st = stage_unregistered [OF assms(3,2)]
  obtain policy where policy: "s2 = registerEntry e policy (DiscardStagedPolicyUpdate (JobID e) s1)"
    and l: "leaseGeneration l = nextEntryGeneration s1 + 1"
    using assms(4) st(2) by (auto simp: acquireRegister_def Let_def split: if_splits option.splits sum.splits)
  have "entries_wf (entries (DiscardStagedPolicyUpdate (JobID e) s1))"
    using assms(1) st(3) by (simp add: DiscardStagedPolicyUpdate_def)
  then obtain e' where "map_of (entries s2) (JobID e) = Some e'" "generation e' = leaseGeneration l"
    unfolding policy l by (rule registerEntry_get) (simp add: DiscardStagedPolicyUpdate_def)
  then show ?thesis
    using st assms by (simp add: RollbackPolicyUpdate_def)
qed

theorem rollback_after_registration_noop_witness:
  "let r = StagePolicyUpdate ''c'' demoPatch demoHigh;
       a = acquireRegister False (demoEntry ''c'' ''low'' False 3) (snd r)
   in RollbackPolicyUpdate (projr (fst r)) (demoPolicy ''low'' False) (snd a) = (None, snd a)
      \<and> Policy (the (map_of (entries (snd a)) ''c'')) = demoPolicy ''high'' False"
proof -
  let ?e = "demoEntry ''c'' ''low'' False 3"
  let ?r = "StagePolicyUpdate (JobID ?e) demoPatch demoHigh"
  let ?a = "acquireRegister False ?e (snd ?r)"
  have "?r = (Inr (projr (fst ?r)), snd ?r)" "?a = (Inr (projr (fst ?a)), snd ?a)"
    "leaseGeneration (projr (fst ?a)) \<noteq> 0"
    "entries_wf (entries demoHigh)" "map_of (entries demoHigh) (JobID ?e) = None"
    "ValidateSchedulingPolicy (demoPolicy ''low'' False) = None" by code_simp+
  then have "RollbackPolicyUpdate (projr (fst ?r)) (demoPolicy ''low'' False) (snd ?a) = (None, snd ?a)"
    using rollback_after_registration_noop by blast
  moreover have "Policy (the (map_of (entries (snd ?a)) ''c'')) = demoPolicy ''high'' False" by code_simp
  ultimately show ?thesis by (simp add: Let_def demoEntry_def)
qed

end
