(* ===== verification/SchedulerRetry.thy ===== *)
theory SchedulerRetry
  imports SchedulerLeases
begin

text \<open>
  Retry rounds (who is released when the timer fires, and that a timer is always armed for a
  waiting job) and the contract of the blocking calls \<open>Acquire\<close> and \<open>waitForRunning\<close> under an
  arbitrary interleaving with other goroutines.
\<close>

section \<open>One retry round\<close>

definition retryReleased :: "int \<Rightarrow> scheduling_reason list \<Rightarrow> int \<Rightarrow> entry \<Rightarrow> bool" where
  "retryReleased now shared d e \<longleftrightarrow> d \<le> now \<or> Reason e \<in> set shared"

lemma openRetryJob_other:
  "j \<noteq> k \<Longrightarrow> map_of (entries (openRetryJob now shared k d s)) j = map_of (entries s) j
    \<and> map_of (retryWaiting (openRetryJob now shared k d s)) j = map_of (retryWaiting s) j"
  by (auto simp: openRetryJob_def Let_def split: option.split)

lemma openRetry_loop_other:
  "j \<notin> fst ` set ws \<Longrightarrow> map_of (entries (openRetry_loop now shared ws s)) j = map_of (entries s) j
    \<and> map_of (retryWaiting (openRetry_loop now shared ws s)) j = map_of (retryWaiting s) j"
  by (induction now shared ws s rule: openRetry_loop.induct) (auto simp: openRetryJob_other)

lemma openRetry_loop_job:
  assumes "distinct (map fst ws)" "(j, d) \<in> set ws" "map_of (entries s) j = Some e"
    "State e = EntryPaused"
  shows "if retryReleased now shared d e
    then map_of (entries (openRetry_loop now shared ws s)) j
           = Some (e\<lparr>State := EntryWaiting, PauseRequested := False\<rparr>)
         \<and> map_of (retryWaiting (openRetry_loop now shared ws s)) j = None
    else map_of (entries (openRetry_loop now shared ws s)) j = Some e
         \<and> map_of (retryWaiting (openRetry_loop now shared ws s)) j = map_of (retryWaiting s) j"
  using assms
proof (induction now shared ws s rule: openRetry_loop.induct)
  case (1 now shared s)
  then show ?case by simp
next
  case (2 now shared k dk rest s)
  show ?case
  proof (cases "k = j")
    case True
    with 2 have "dk = d" and notin: "j \<notin> fst ` set rest" by force+
    with True 2 show ?thesis
      using openRetry_loop_other [OF notin, of now shared "openRetryJob now shared j d s"]
      by (auto simp: openRetryJob_def retryReleased_def Let_def)
  next
    case False
    with 2 have "(j, d) \<in> set rest" "distinct (map fst rest)" by auto
    with 2 False show ?thesis by (simp add: openRetryJob_other)
  qed
qed

lemma dueSharedReasons_timer:
  "dueSharedReasons now (s\<lparr>retryTimer := t, retryTimerDeadline := d\<rparr>) = dueSharedReasons now s"
  by (simp add: dueSharedReasons_def cong: if_cong)

lemma openRetryRound_entries:
  assumes "gen = retryGeneration s"
  shows "entries (openRetryRound gen now clk s) = rebalanceEntries (capacity s) (activity s)
           (entries (openRetry_loop now (dueSharedReasons now s) (retryWaiting s)
              (s\<lparr>retryTimer := None, retryTimerDeadline := 0\<rparr>)))" (is ?es)
    and "retryWaiting (openRetryRound gen now clk s)
         = retryWaiting (openRetry_loop now (dueSharedReasons now s) (retryWaiting s)
             (s\<lparr>retryTimer := None, retryTimerDeadline := 0\<rparr>))" (is ?rw)
proof -
  have frame: "capacity (openRetry_loop n sh ws t) = capacity t \<and> activity (openRetry_loop n sh ws t) = activity t"
    for n sh ws t
    by (induction n sh ws t rule: openRetry_loop.induct)
       (auto simp: openRetryJob_def Let_def split: option.split)
  have act: "activity (scheduleNextRetryLocked n c t) = activity t" for n c t
    by (auto simp: scheduleNextRetryLocked_def startRetryRoundLocked_def Let_def split: option.split)
  show ?es ?rw
    using assms
    by (simp_all add: openRetryRound_def Let_def entries_rebalanceLocked scheduleNextRetry_frame
        dueSharedReasons_timer frame act)
qed

text \<open>
  what happens to a job that waits for a retry when the current round opens. If its deadline
  has passed, or it gives the same reason as a due job that probes a shared resource, it leaves
  the retry table and competes for a slot again (it is waiting or already running); otherwise it
  stays paused with its deadline.
\<close>

theorem retry_round_releases:
  assumes "sched_inv s" "map_of (retryWaiting s) j = Some d" "map_of (entries s) j = Some e"
  shows "if d \<le> now \<or> Reason e \<in> set (dueSharedReasons now s)
     then map_of (retryWaiting (openRetryRound (retryGeneration s) now clk s)) j = None
          \<and> (\<exists>e'. map_of (entries (openRetryRound (retryGeneration s) now clk s)) j = Some e'
                \<and> State e' \<noteq> EntryPaused \<and> generation e' = generation e)
     else map_of (retryWaiting (openRetryRound (retryGeneration s) now clk s)) j = Some d
          \<and> (\<exists>e'. map_of (entries (openRetryRound (retryGeneration s) now clk s)) j = Some e'
                \<and> State e' = EntryPaused)"
proof -
  let ?s1 = "s\<lparr>retryTimer := None, retryTimerDeadline := 0\<rparr>"
  let ?sh = "dueSharedReasons now s"
  let ?s2 = "openRetry_loop now ?sh (retryWaiting s) ?s1"
  let ?r = "openRetryRound (retryGeneration s) now clk s"
  note inv = sched_inv_parts(1,2) [OF assms(1)]
  have paused: "State e = EntryPaused"
    using inv(1) assms(2,3) by (force simp: jobs_inv_def retries_paused_def)
  have "distinct (map fst (retryWaiting s))" using inv(2) by (simp add: maps_wf_def gm_wf_def)
  then have job: "if retryReleased now ?sh d e
      then map_of (entries ?s2) j = Some (e\<lparr>State := EntryWaiting, PauseRequested := False\<rparr>)
           \<and> map_of (retryWaiting ?s2) j = None
      else map_of (entries ?s2) j = Some e \<and> map_of (retryWaiting ?s2) j = map_of (retryWaiting ?s1) j"
    using openRetry_loop_job [OF _ map_of_SomeD [OF assms(2)], of ?s1 e now ?sh] assms(3) paused by simp
  have "jobs_inv ?s1" using inv(1) by (simp add: jobs_inv_defs)
  then have wf2: "entries_wf (entries ?s2)" using openRetry_loop_inv by (metis jobs_inv_def maps_wf_def)
  note round = openRetryRound_entries [OF refl, of s now clk]
  show ?thesis
  proof (cases "retryReleased now ?sh d e")
    case True
    with job have "map_of (entries ?s2) j = Some (e\<lparr>State := EntryWaiting, PauseRequested := False\<rparr>)" by simp
    then obtain e' where "map_of (entries ?r) j = Some e'"
      "State e' = (if j \<in> admittedIDs (capacity s) (activity s) (entries ?s2) then EntryRunning else EntryWaiting)"
      "generation e' = generation e"
      unfolding round(1)
      by (rule rebalance_get_Some [OF wf2, of _ _ "capacity s" "activity s"]) simp
    with True job show ?thesis by (auto simp: retryReleased_def round(2))
  next
    case False
    with job have "map_of (entries ?s2) j = Some e" by simp
    from rebalance_paused [OF wf2 this paused] False job assms(2) show ?thesis
      by (simp add: retryReleased_def round)
  qed
qed

definition demoRetry :: scheduler where
  "demoRetry = snd (retryAfterLocked False 5 ''stalled read'' True 10 10 (demoLease ''a'' 1) demoHigh)"

lemma demoRetry_reachable: "sched_reachable demoRetry"
  unfolding demoRetry_def by (rule reach_step [OF demo_reachable(3) step_retry])

theorem retry_round_releases_witness:
  "map_of (retryWaiting demoRetry) ''a'' = Some 15
   \<and> map_of (retryWaiting (openRetryRound (retryGeneration demoRetry) 15 15 demoRetry)) ''a'' = None
   \<and> map_of (retryWaiting (openRetryRound (retryGeneration demoRetry) 14 14 demoRetry)) ''a'' = Some 15"
proof -
  have d: "map_of (retryWaiting demoRetry) ''a'' = Some 15"
    and e: "map_of (entries demoRetry) ''a'' = Some (the (map_of (entries demoRetry) ''a''))"
    and n: "Reason (the (map_of (entries demoRetry) ''a'')) \<notin> set (dueSharedReasons 14 demoRetry)"
    by code_simp+
  note r = retry_round_releases [OF reachable_inv [OF demoRetry_reachable] d e]
  show ?thesis using r [of 15 15] r [of 14 14] d n by simp
qed

text \<open>
  no retry is forgotten. In every reachable state with a job in the retry table a timer is
  armed, and its callback carries the current round number, so \<open>openRetryRound\<close> will not
  discard it as stale.
\<close>

theorem retry_timer_armed:
  assumes "sched_reachable s" "retryWaiting s \<noteq> []"
  shows "retryTimer s = Some (retryGeneration s)"
  using sched_inv_parts(4,5) [OF reachable_inv [OF assms(1)]] assms(2) by (auto simp: timer_defs)

theorem retry_timer_armed_witness:
  "retryWaiting demoRetry \<noteq> [] \<and> retryTimer demoRetry = Some (retryGeneration demoRetry)"
proof -
  have "retryWaiting demoRetry \<noteq> []" by code_simp
  then show ?thesis using retry_timer_armed [OF demoRetry_reachable] by blast
qed

section \<open>Blocking calls\<close>

text \<open>Other goroutines only run locked sections, which keep the entry map well-formed.\<close>

definition envs_ok :: "((scheduler \<Rightarrow> scheduler) \<times> bool) list \<Rightarrow> bool" where
  "envs_ok envs \<longleftrightarrow> (\<forall>(f, c) \<in> set envs. \<forall>s. entries_wf (entries s) \<longrightarrow> entries_wf (entries (f s)))"

lemma cancelWait_removes:
  assumes "entries_wf (entries s)"
  shows "map_of (entries (cancelWaitLocked k e True s)) k = None"
  using assms by (simp add: cancelWaitLocked_def entries_rebalanceLocked rebalance_get_None)

lemma waitForRunning_outcome:
  assumes "waitForRunning envs ctx k g rem s = (Some r, s')" "envs_ok envs" "entries_wf (entries s)"
  shows "case r of
      None \<Rightarrow> \<exists>e. map_of (entries s') k = Some e \<and> generation e = g \<and> State e = EntryRunning
    | Some err \<Rightarrow> (err = JobMissing k \<or> err = WaitCancelled k)
        \<and> (err = WaitCancelled k \<longrightarrow> rem \<longrightarrow> map_of (entries s') k = None)"
  using assms
proof (induction envs arbitrary: ctx s)
  case Nil
  then show ?case
    by (subst (asm) waitForRunning.simps)
       (auto simp: waitIteration_def cancelWait_removes split: option.splits if_splits)
next
  case (Cons env envs)
  obtain f c where env: "env = (f, c)" by (cases env)
  have ok: "envs_ok envs" "entries_wf (entries (f s))"
    using Cons.prems env by (auto simp: envs_ok_def)
  show ?case
  proof (cases "\<exists>n. waitIteration ctx k g rem s = (WaitOn n, s)")
    case True
    then have "waitForRunning envs c k g rem (f s) = (Some r, s')"
      using Cons.prems(1) env by (subst (asm) waitForRunning.simps) auto
    then show ?thesis using ok by (rule Cons.IH)
  next
    case False
    then show ?thesis
      using Cons.prems(1,3)
      by (subst (asm) waitForRunning.simps)
         (auto simp: waitIteration_def cancelWait_removes split: option.splits if_splits)
  qed
qed

text \<open>
  \<open>Acquire\<close> keeps its contract under every interleaving with other goroutines. If it returns
  a lease, the lease's entry is registered under the lease's generation and runs; if it returns
  because the context ended during the wait, the job is gone from the scheduler.
\<close>

theorem acquire_contract:
  assumes "entries_wf (entries s)" "envs_ok envs" "Acquire envs ctx e s = (Some r, s')"
  shows "case r of
      Inr l \<Rightarrow> leaseJobID l = JobID e \<and> (\<exists>x. leaseEntry l s' = Some x \<and> State x = EntryRunning)
    | Inl err \<Rightarrow> err = WaitCancelled (JobID e) \<longrightarrow> map_of (entries s') (JobID e) = None"
proof -
  obtain a t where reg: "acquireRegister ctx e s = (a, t)" by fastforce
  show ?thesis
  proof (cases a)
    case (Inl err)
    then show ?thesis
      using assms(3) reg
      by (auto simp: Acquire_def acquireRegister_def Let_def split: if_splits option.splits sum.splits)
  next
    case (Inr l)
    then have l: "leaseJobID l = JobID e" and wf: "entries_wf (entries t)"
      using reg assms(1)
      by (auto simp: acquireRegister_def registerEntry_def Let_def entries_rebalanceLocked
          DiscardStagedPolicyUpdate_def split: if_splits option.splits sum.splits)
    obtain w where w: "waitForRunning envs ctx (JobID e) (leaseGeneration l) True t = (Some w, s')"
      and r: "r = (case w of None \<Rightarrow> Inr l | Some err \<Rightarrow> Inl err)"
      using assms(3) reg Inr l by (auto simp: Acquire_def split: prod.splits option.splits)
    show ?thesis
      using waitForRunning_outcome [OF w assms(2) wf] r l by (auto simp: leaseEntry_Some split: option.splits)
  qed
qed

theorem acquire_contract_witness:
  "fst (Acquire [(\<lambda>s. s, True)] False (demoEntry ''b'' ''low'' False 2) demoLow)
     = Some (Inl (WaitCancelled ''b''))
   \<and> map_of (entries (snd (Acquire [(\<lambda>s. s, True)] False (demoEntry ''b'' ''low'' False 2) demoLow))) ''b''
     = None"
proof -
  let ?e = "demoEntry ''b'' ''low'' False 2"
  let ?a = "Acquire [(\<lambda>s. s, True)] False ?e demoLow"
  have wf: "entries_wf (entries demoLow)" by code_simp
  have ok: "envs_ok [(\<lambda>s. s, True)]" by (simp add: envs_ok_def)
  have f: "fst ?a = Some (Inl (WaitCancelled ''b''))"
    by code_simp
  then have a: "?a = (Some (Inl (WaitCancelled (JobID ?e))), snd ?a)"
    by (cases ?a) (simp add: demoEntry_def)
  show ?thesis using acquire_contract [OF wf ok a] f by (simp add: demoEntry_def)
qed

end
