(* ===== verification/GoUtf8.thy ===== *)
theory GoUtf8
  imports Prelude
begin

text \<open>
  The part of Go's package \<open>unicode/utf8\<close> the program uses: the test for a byte that can start
  a rune, the size of the rune a string starts with, the number of runes of a string, and
  validity. A string is a list of bytes. The acceptance table of the decoder is the one of the
  language: two bytes for \<open>C2\<close> to \<open>DF\<close>, three for \<open>E0\<close> to \<open>EF\<close> and four for \<open>F0\<close> to \<open>F4\<close>, with
  the narrower range of the second byte after \<open>E0\<close>, \<open>ED\<close>, \<open>F0\<close> and \<open>F4\<close>. Where no rune is
  encoded the decoder reports one byte.

  The lemmas show that in a valid string the positions of bytes that can start a rune are
  exactly the rune boundaries: cutting there leaves two valid strings.
\<close>

type_synonym gostring = string

definition byteVal :: "char \<Rightarrow> nat" where
  "byteVal c = of_char c"

definition inRange :: "nat \<Rightarrow> nat \<Rightarrow> char \<Rightarrow> bool" where
  "inRange lo hi c \<longleftrightarrow> lo \<le> byteVal c \<and> byteVal c \<le> hi"

definition isCont :: "char \<Rightarrow> bool" where
  "isCont c \<longleftrightarrow> inRange 128 191 c"

definition RuneStart :: "char \<Rightarrow> bool" where
  "RuneStart c \<longleftrightarrow> \<not> isCont c"

text \<open>The size of the leading rune, or \<^const>\<open>None\<close> where none is encoded.\<close>

fun secondOk :: "char \<Rightarrow> char \<Rightarrow> bool" where
  "secondOk b c =
     (if byteVal b = 224 then inRange 160 191 c
      else if byteVal b = 237 then inRange 128 159 c
      else if byteVal b = 240 then inRange 144 191 c
      else if byteVal b = 244 then inRange 128 143 c
      else isCont c)"

fun leadSize :: "gostring \<Rightarrow> nat option" where
  "leadSize [] = None"
| "leadSize (b # s) =
     (if byteVal b < 128 then Some 1
      else if inRange 194 223 b then
        (case s of c # _ \<Rightarrow> if isCont c then Some 2 else None | [] \<Rightarrow> None)
      else if inRange 224 239 b then
        (case s of c # d # _ \<Rightarrow> if secondOk b c \<and> isCont d then Some 3 else None | _ \<Rightarrow> None)
      else if inRange 240 244 b then
        (case s of c # d # e # _ \<Rightarrow> if secondOk b c \<and> isCont d \<and> isCont e then Some 4 else None
         | _ \<Rightarrow> None)
      else None)"

text \<open>\<open>utf8.DecodeRuneInString\<close>: the size it reports.\<close>

definition decodeRuneSize :: "gostring \<Rightarrow> nat" where
  "decodeRuneSize s = (if s = [] then 0 else case leadSize s of Some n \<Rightarrow> n | None \<Rightarrow> 1)"

lemma leadSize_bounds: "leadSize s = Some n \<Longrightarrow> 1 \<le> n \<and> n \<le> 4 \<and> n \<le> length s"
  by (cases s) (auto split: if_splits list.splits)

lemmas leadSize_Cons = leadSize.simps(2)

declare leadSize.simps(2) [simp del]

lemma decodeRuneSize_Some: "leadSize s = Some n \<Longrightarrow> decodeRuneSize s = n"
  by (cases s) (auto simp: decodeRuneSize_def)

lemma decodeRuneSize_bounds:
  "decodeRuneSize s \<le> 4 \<and> decodeRuneSize s \<le> length s \<and> (s \<noteq> [] \<longrightarrow> 1 \<le> decodeRuneSize s)"
proof (cases "leadSize s")
  case None
  then show ?thesis by (cases s) (auto simp: decodeRuneSize_def)
next
  case (Some n)
  then show ?thesis using leadSize_bounds [OF Some] by (auto simp: decodeRuneSize_Some)
qed

lemma decodeRuneSize_pos [simp]: "s \<noteq> [] \<Longrightarrow> 0 < decodeRuneSize s"
  using decodeRuneSize_bounds [of s] by simp

lemma decodeRuneSize_le: "decodeRuneSize s \<le> length s"
  using decodeRuneSize_bounds [of s] by simp

lemma decodeRuneSize_le4: "decodeRuneSize s \<le> 4"
  using decodeRuneSize_bounds [of s] by simp

text \<open>\<open>utf8.RuneCountInString\<close> and \<open>utf8.ValidString\<close>.\<close>

function runeCount :: "gostring \<Rightarrow> nat" where
  "runeCount s = (if s = [] then 0 else Suc (runeCount (drop (decodeRuneSize s) s)))"
  by pat_completeness auto
termination
  by (relation "measure length") (auto simp: decodeRuneSize_le)

declare runeCount.simps [simp del]

function validUtf8 :: "gostring \<Rightarrow> bool" where
  "validUtf8 s =
     (s = [] \<or> (case leadSize s of None \<Rightarrow> False | Some n \<Rightarrow> validUtf8 (drop n s)))"
  by pat_completeness auto
termination
  by (relation "measure length") (auto dest: leadSize_bounds)

declare validUtf8.simps [simp del]

lemma runeCount_Nil [simp]: "runeCount [] = 0"
  by (simp add: runeCount.simps)

lemma validUtf8_Nil [simp]: "validUtf8 []"
  by (simp add: validUtf8.simps)

lemma runeCount_pos: "s \<noteq> [] \<Longrightarrow> 1 \<le> runeCount s"
  by (simp add: runeCount.simps)

lemma runeCount_le1_iff: "runeCount s \<le> Suc 0 \<longleftrightarrow> length s \<le> decodeRuneSize s"
proof (cases "s = []")
  case False
  then have "runeCount s \<le> Suc 0 \<longleftrightarrow> runeCount (drop (decodeRuneSize s) s) = 0"
    by (subst runeCount.simps) simp
  also have "\<dots> \<longleftrightarrow> drop (decodeRuneSize s) s = []"
    using runeCount_pos [of "drop (decodeRuneSize s) s"]
    by (metis not_one_le_zero runeCount_Nil)
  finally show ?thesis by simp
qed simp

text \<open>
  The leading rune is determined by its own bytes, and all of them but the first are
  continuation bytes.
\<close>

lemma leadSize_append: "leadSize r = Some n \<Longrightarrow> leadSize (r @ t) = Some n"
  by (cases r) (auto simp: leadSize_Cons split: if_splits list.splits)

lemma leadSize_take: "leadSize s = Some n \<Longrightarrow> leadSize (take n s) = Some n"
  by (cases s) (auto simp: leadSize_Cons numeral_eq_Suc split: if_splits list.splits)

lemma leadSize_take_ge:
  assumes "leadSize s = Some n" and "n \<le> m"
  shows "leadSize (take m s) = Some n"
  using leadSize_append [OF leadSize_take [OF assms(1)], of "take (m - n) (drop n s)"] assms(2)
  by (metis take_add le_add_diff_inverse)

lemma leadSize_cont:
  assumes "leadSize s = Some n" and "0 < i" and "i < n"
  shows "isCont (s ! i)"
proof (cases s)
  case Nil
  with assms show ?thesis by simp
next
  case (Cons b t)
  have "i = 1 \<or> i = 2 \<or> i = 3" using assms leadSize_bounds [OF assms(1)] by arith
  with assms Cons show ?thesis
    by (auto simp: leadSize_Cons isCont_def inRange_def split: if_splits list.splits)
qed

lemma validUtf8_cases:
  assumes "validUtf8 s"
  obtains "s = []" | n where "leadSize s = Some n" "validUtf8 (drop n s)" "s \<noteq> []"
  using assms by (subst (asm) validUtf8.simps) (auto split: option.splits)

lemma validUtf8_rune: "leadSize s = Some n \<Longrightarrow> validUtf8 (drop n s) \<Longrightarrow> validUtf8 s"
  by (subst validUtf8.simps) simp

lemma validUtf8_boundary:
  assumes "validUtf8 s" and "i < length s \<Longrightarrow> RuneStart (s ! i)"
  shows "validUtf8 (take i s) \<and> validUtf8 (drop i s)"
  using assms
proof (induction s arbitrary: i rule: length_induct)
  case (1 s)
  from \<open>validUtf8 s\<close> show ?case
  proof (cases rule: validUtf8_cases)
    case 1
    then show ?thesis by simp
  next
    case (2 n)
    note b = leadSize_bounds [OF 2(1)]
    show ?thesis
    proof (cases "n \<le> i")
      case True
      have "validUtf8 (take (i - n) (drop n s)) \<and> validUtf8 (drop (i - n) (drop n s))"
        using "1.IH" [rule_format, of "drop n s" "i - n"] "1.prems" 2 b True by simp
      moreover have "drop n (take i s) = take (i - n) (drop n s)"
        using True by (simp add: drop_take)
      ultimately show ?thesis
        using True leadSize_take_ge [OF 2(1) True] by (auto intro: validUtf8_rune)
    next
      case False
      with 1(3) b leadSize_cont [OF 2(1), of i] have "i = 0" by (auto simp: RuneStart_def)
      with \<open>validUtf8 s\<close> show ?thesis by simp
    qed
  qed
qed

lemma validUtf8_decode:
  assumes "validUtf8 s"
  shows "validUtf8 (take (decodeRuneSize s) s) \<and> validUtf8 (drop (decodeRuneSize s) s)"
  using assms
proof (cases rule: validUtf8_cases)
  case (2 n)
  have "validUtf8 (take n s)"
    using leadSize_take [OF 2(1)] by (auto intro: validUtf8_rune)
  with 2 show ?thesis by (simp add: decodeRuneSize_Some)
qed simp

lemma runeCount_short: "length s \<le> 1 \<Longrightarrow> runeCount s \<le> 1"
  using decodeRuneSize_bounds [of s] by (cases "s = []") (auto simp: runeCount_le1_iff)

text \<open>A whole rune that was cut out at its size is one rune.\<close>

lemma runeCount_decoded: "runeCount (take (decodeRuneSize s) s) \<le> 1"
proof (cases "leadSize s")
  case None
  then have "length (take (decodeRuneSize s) s) \<le> 1"
    by (cases s) (auto simp: decodeRuneSize_def)
  then show ?thesis by (rule runeCount_short)
next
  case (Some n)
  then show ?thesis
    using leadSize_take [OF Some] by (simp add: runeCount_le1_iff decodeRuneSize_Some)
qed

end
