(* ===== verification/CollectionValues.thy ===== *)
theory CollectionValues
  imports Prelude
begin

text \<open>
  The declared scalar schema of a searchable collection (\<open>collection/declaration.go\<close>): the
  column types, the columns and the typed values. A \<open>ScalarType\<close> is a Go string with three
  declared constants, so every other string is an unsupported type.
\<close>

type_synonym scalar_type = string

definition ScalarTypeString :: scalar_type where "ScalarTypeString = ''string''"
definition ScalarTypeBool :: scalar_type where "ScalarTypeBool = ''bool''"
definition ScalarTypeInt64 :: scalar_type where "ScalarTypeInt64 = ''int64''"

record scalar_column =
  ColName :: string
  ColType :: scalar_type
  ColNullable :: bool
  ColMaxLength :: int

record scalar_value =
  SvType :: scalar_type
  SvNull :: bool
  SvString :: string
  SvBool :: bool
  SvInt64 :: int

definition StringScalar :: "string \<Rightarrow> scalar_value" where
  "StringScalar value =
     \<lparr>SvType = ScalarTypeString, SvNull = False, SvString = value, SvBool = False, SvInt64 = 0\<rparr>"

definition BoolScalar :: "bool \<Rightarrow> scalar_value" where
  "BoolScalar value =
     \<lparr>SvType = ScalarTypeBool, SvNull = False, SvString = [], SvBool = value, SvInt64 = 0\<rparr>"

definition Int64Scalar :: "int \<Rightarrow> scalar_value" where
  "Int64Scalar value =
     \<lparr>SvType = ScalarTypeInt64, SvNull = False, SvString = [], SvBool = False, SvInt64 = value\<rparr>"

definition EmptyScalar :: scalar_value where
  "EmptyScalar = \<lparr>SvType = [], SvNull = False, SvString = [], SvBool = False, SvInt64 = 0\<rparr>"

lemmas scalar_type_defs = ScalarTypeString_def ScalarTypeBool_def ScalarTypeInt64_def

lemma scalar_types_distinct [simp]:
  "ScalarTypeString \<noteq> ScalarTypeBool" "ScalarTypeBool \<noteq> ScalarTypeString"
  "ScalarTypeString \<noteq> ScalarTypeInt64" "ScalarTypeInt64 \<noteq> ScalarTypeString"
  "ScalarTypeBool \<noteq> ScalarTypeInt64" "ScalarTypeInt64 \<noteq> ScalarTypeBool"
  by (simp_all add: scalar_type_defs)

end
