(* ===== verification/ChunkSplit.thy ===== *)
theory ChunkSplit
  imports GoUtf8 CollectionValues
begin

text \<open>
  Splitting of oversized chunks (\<open>internal/semantic/token_guard.go\<close>, \<open>varchar_guard.go\<close> and
  \<open>safeInt32FromInt\<close> of \<open>service.go\<close>). A chunk over a byte budget becomes children that end on
  rune boundaries; each child records its byte offset in the original content in \<open>SplitPart\<close>,
  which goes into the primary key. The lemmas show that a split loses no byte, respects the
  budget, keeps valid UTF-8 valid, makes progress, and gives positions that stay relative to
  the original content under repeated splits.

  A Go \<open>float64\<close> is only carried along, so its type is a parameter. Lengths and offsets of
  strings in memory stay below \<open>2 ^ 63\<close>; the narrowing to \<open>int32\<close> is modelled.
\<close>

section \<open>Chunks\<close>

record 'f stored_chunk =
  Content :: gostring
  RelativePath :: gostring
  StartLine :: int
  EndLine :: int
  Language :: gostring
  FileExtension :: gostring
  SplitPart :: int
  SplitPartRecorded :: bool
  Scalars :: "(gostring, scalar_value) gomap"
  Score :: 'f

definition safeInt32FromInt :: "int \<Rightarrow> int" where
  "safeInt32FromInt value =
     (if value > 2 ^ 31 - 1 then 2 ^ 31 - 1
      else if value < - (2 ^ 31) then - (2 ^ 31)
      else value)"

section \<open>Cutting a string\<close>

text \<open>The inner loop: step back from \<open>end\<close> until a byte can start a rune.\<close>

fun backtrackEnd :: "gostring \<Rightarrow> nat \<Rightarrow> nat \<Rightarrow> nat" where
  "backtrackEnd value start 0 = 0"
| "backtrackEnd value start (Suc e) =
     (if start < Suc e \<and> \<not> RuneStart (value ! Suc e) then backtrackEnd value start e else Suc e)"

definition pieceEnd :: "gostring \<Rightarrow> nat \<Rightarrow> nat \<Rightarrow> nat" where
  "pieceEnd value maxBytes start =
     (let e = backtrackEnd value start (start + maxBytes)
      in if e = start then start + decodeRuneSize (drop start value) else e)"

lemma backtrackEnd_bounds: "start \<le> e \<Longrightarrow> start \<le> backtrackEnd v start e \<and> backtrackEnd v start e \<le> e"
  by (induction e) (auto simp: le_Suc_eq)

lemma backtrackEnd_start: "start < backtrackEnd v start e \<Longrightarrow> RuneStart (v ! backtrackEnd v start e)"
  by (induction e) (auto split: if_splits)

lemma pieceEnd_gt: "start < length v \<Longrightarrow> start < pieceEnd v m start"
  using backtrackEnd_bounds [of start "start + m" v] by (auto simp: pieceEnd_def Let_def)

text \<open>
  The outer loop, from byte \<open>start\<close> on, as the pairs of a piece and its offset.
\<close>

function split_loop :: "gostring \<Rightarrow> nat \<Rightarrow> nat \<Rightarrow> (gostring \<times> nat) list" where
  "split_loop value maxBytes start =
     (if \<not> start < length value then []
      else if start + maxBytes \<ge> length value then [(drop start value, start)]
      else let e = pieceEnd value maxBytes start
           in (take (e - start) (drop start value), start) # split_loop value maxBytes e)"
  by pat_completeness auto
termination
  by (relation "measure (\<lambda>(v, m, start). length v - start)")
     (auto simp: pieceEnd_gt intro: diff_less_mono2)

declare split_loop.simps [simp del]

definition splitBytesWithOffsets :: "gostring \<Rightarrow> int \<Rightarrow> gostring list \<times> nat list" where
  "splitBytesWithOffsets value maxBytes =
     (if maxBytes \<le> 0 then ([value], [0])
      else let ps = split_loop value (nat maxBytes) 0 in (map fst ps, map snd ps))"

definition splitChild :: "'f stored_chunk \<Rightarrow> int \<Rightarrow> gostring \<times> nat \<Rightarrow> 'f stored_chunk" where
  "splitChild chunk baseOffset p =
     chunk\<lparr>Content := fst p,
           SplitPart := safeInt32FromInt (baseOffset + int (snd p) + 1),
           SplitPartRecorded := True\<rparr>"

definition baseOffsetOf :: "'f stored_chunk \<Rightarrow> int" where
  "baseOffsetOf chunk = (if SplitPart chunk > 0 then SplitPart chunk - 1 else 0)"

definition splitChunkAtBudget :: "'f stored_chunk \<Rightarrow> int \<Rightarrow> 'f stored_chunk list" where
  "splitChunkAtBudget chunk budget =
     (let (pieces, offsets) = splitBytesWithOffsets (Content chunk) budget
      in map (splitChild chunk (baseOffsetOf chunk)) (zip pieces offsets))"

definition splitChunkInHalf :: "'f stored_chunk \<Rightarrow> 'f stored_chunk list" where
  "splitChunkInHalf chunk =
     splitChunkAtBudget chunk (max (int (length (Content chunk)) div 2) 1)"

definition isIndivisibleContent :: "gostring \<Rightarrow> bool" where
  "isIndivisibleContent content \<longleftrightarrow> runeCount content \<le> 1"

section \<open>Splitting a list of chunks\<close>

fun splitOver_loop :: "int \<Rightarrow> 'f stored_chunk list \<Rightarrow> 'f stored_chunk list \<times> nat" where
  "splitOver_loop byteBudget [] = ([], 0)"
| "splitOver_loop byteBudget (c # cs) =
     (let (out, splitCount) = splitOver_loop byteBudget cs
      in if int (length (Content c)) \<le> byteBudget then (c # out, splitCount)
         else (splitChunkAtBudget c byteBudget @ out, Suc splitCount))"

definition SplitChunksToByteBudget :: "'f stored_chunk list \<Rightarrow> int \<Rightarrow> 'f stored_chunk list \<times> nat" where
  "SplitChunksToByteBudget chunks byteBudget =
     (if byteBudget \<le> 0 then (chunks, 0)
      else if \<not> list_ex (\<lambda>c. int (length (Content c)) > byteBudget) chunks then (chunks, 0)
      else splitOver_loop byteBudget chunks)"

definition expandOverTokenBudget :: "int \<Rightarrow> 'f stored_chunk list \<Rightarrow> 'f stored_chunk list" where
  "expandOverTokenBudget byteBudget chunks =
     (let (out, splitCount) = SplitChunksToByteBudget chunks byteBudget
      in if splitCount = 0 then chunks else out)"

definition milvusVarcharMaxBytes :: int where
  "milvusVarcharMaxBytes = 65000"

definition expandOversizeChunks :: "'f stored_chunk list \<Rightarrow> 'f stored_chunk list \<times> bool" where
  "expandOversizeChunks chunks =
     (if \<not> list_ex (\<lambda>c. int (length (Content c)) > milvusVarcharMaxBytes) chunks
      then (chunks, False)
      else (concat (map (\<lambda>c. if int (length (Content c)) \<le> milvusVarcharMaxBytes then [c]
                             else splitChunkAtBudget c milvusVarcharMaxBytes) chunks), True))"

definition guardrailExpand :: "int \<Rightarrow> 'f stored_chunk list \<Rightarrow> 'f stored_chunk list" where
  "guardrailExpand byteBudget chunks =
     (let chunks' = expandOverTokenBudget byteBudget chunks;
          (expanded, changed) = expandOversizeChunks chunks'
      in if \<not> changed then chunks' else expanded)"

section \<open>What a cut keeps\<close>

lemma split_loop_empty [simp]: "length v \<le> start \<Longrightarrow> split_loop v m start = []"
  by (simp add: split_loop.simps)

text \<open>One step of the loop, with what is known of the end of the piece.\<close>

lemma pieceEnd_bounds:
  assumes "start + m < length v"
  shows "start < pieceEnd v m start \<and> pieceEnd v m start \<le> length v
    \<and> (pieceEnd v m start \<le> start + m \<and> RuneStart (v ! pieceEnd v m start)
       \<or> pieceEnd v m start = start + decodeRuneSize (drop start v))"
proof -
  let ?b = "backtrackEnd v start (start + m)"
  have b: "start \<le> ?b" "?b \<le> start + m" "start < ?b \<Longrightarrow> RuneStart (v ! ?b)"
    using backtrackEnd_bounds [of start "start + m" v] backtrackEnd_start [of start v] by auto
  have "start < pieceEnd v m start"
    using pieceEnd_gt [of start v m] assms by simp
  moreover have "start + decodeRuneSize (drop start v) \<le> length v"
    using decodeRuneSize_le [of "drop start v"] assms by simp
  ultimately show ?thesis
    using b assms by (auto simp: pieceEnd_def Let_def split: if_splits)
qed

lemma split_loop_step:
  "start + m < length v \<Longrightarrow>
    split_loop v m start =
      (take (pieceEnd v m start - start) (drop start v), start)
        # split_loop v m (pieceEnd v m start)"
  by (subst split_loop.simps) (simp add: Let_def)

lemma split_loop_last:
  "start < length v \<Longrightarrow> length v \<le> start + m \<Longrightarrow> split_loop v m start = [(drop start v, start)]"
  by (subst split_loop.simps) simp

lemma split_loop_induct [consumes 1, case_names last step]:
  assumes "start < length v"
    and last: "\<And>start. start < length v \<Longrightarrow> length v \<le> start + m \<Longrightarrow> P start [(drop start v, start)]"
    and step: "\<And>start e. start + m < length v \<Longrightarrow> start < e \<Longrightarrow> e \<le> length v \<Longrightarrow>
      e \<le> start + m \<and> RuneStart (v ! e) \<or> e = start + decodeRuneSize (drop start v) \<Longrightarrow>
      (e < length v \<Longrightarrow> P e (split_loop v m e)) \<Longrightarrow>
      P start ((take (e - start) (drop start v), start) # split_loop v m e)"
  shows "P start (split_loop v m start)"
  using assms(1)
proof (induction "length v - start" arbitrary: start rule: less_induct)
  case less
  show ?case
  proof (cases "start + m < length v")
    case True
    let ?e = "pieceEnd v m start"
    have "?e < length v \<Longrightarrow> P ?e (split_loop v m ?e)"
      using less(1) [of ?e] pieceEnd_bounds [OF True] by linarith
    with step [OF True] pieceEnd_bounds [OF True] show ?thesis
      by (simp add: split_loop_step [OF True])
  next
    case False
    with less show ?thesis by (simp add: split_loop_last last)
  qed
qed

text \<open>The pieces are consecutive slices of the value.\<close>

fun contiguous :: "gostring \<Rightarrow> nat \<Rightarrow> (gostring \<times> nat) list \<Rightarrow> bool" where
  "contiguous v start [] \<longleftrightarrow> start = length v"
| "contiguous v start ((p, off) # ps) \<longleftrightarrow>
     p \<noteq> [] \<and> off = start \<and> p = take (length p) (drop start v) \<and> start + length p \<le> length v
     \<and> contiguous v (start + length p) ps"

lemma split_loop_contiguous: "start \<le> length v \<Longrightarrow> contiguous v start (split_loop v m start)"
proof (cases "start < length v")
  case True
  then show ?thesis
  proof (induction rule: split_loop_induct [where m = m])
    case (last start)
    then show ?case by simp
  next
    case (step start e)
    then show ?case by (cases "e < length v") auto
  qed
next
  case False
  then show "start \<le> length v \<Longrightarrow> ?thesis" by simp
qed

lemma contiguous_concat: "contiguous v start ps \<Longrightarrow> concat (map fst ps) = drop start v"
proof (induction ps arbitrary: start)
  case (Cons q ps)
  then show ?case
    by (cases q) (auto, metis append_take_drop_id drop_drop add.commute)
qed auto

lemma contiguous_nth:
  "contiguous v start ps \<Longrightarrow> i < length ps \<Longrightarrow>
    snd (ps ! i) = start + length (concat (take i (map fst ps)))"
proof (induction ps arbitrary: start i)
  case (Cons q ps)
  then show ?case by (cases q; cases i) auto
qed simp

lemma contiguous_mem:
  "contiguous v start ps \<Longrightarrow> (p, off) \<in> set ps \<Longrightarrow>
    p \<noteq> [] \<and> start \<le> off \<and> off + length p \<le> length v \<and> p = take (length p) (drop off v)"
proof (induction ps arbitrary: start)
  case (Cons q ps)
  then show ?case by (cases q) (fastforce dest: Cons.IH)
qed simp

text \<open>Each piece respects the budget or is a single rune.\<close>

lemma split_loop_budget:
  "start < length v \<Longrightarrow> (p, off) \<in> set (split_loop v m start) \<Longrightarrow>
    length p \<le> m \<or> (runeCount p \<le> 1 \<and> length p \<le> 4)"
proof (induction rule: split_loop_induct [where m = m])
  case (last start)
  then show ?case by auto
next
  case (step start e)
  show ?case
  proof (cases "(p, off) \<in> set (split_loop v m e)")
    case True
    with step show ?thesis by (cases "e < length v") auto
  next
    case False
    with step.prems have p: "p = take (e - start) (drop start v)" by auto
    then show ?thesis
      using step.hyps decodeRuneSize_le4 [of "drop start v"] runeCount_decoded [of "drop start v"]
      by auto
  qed
qed

lemma split_loop_valid:
  "start < length v \<Longrightarrow> validUtf8 (drop start v) \<Longrightarrow> (p, off) \<in> set (split_loop v m start) \<Longrightarrow>
    validUtf8 p"
proof (induction rule: split_loop_induct [where m = m])
  case (last start)
  then show ?case by auto
next
  case (step start e)
  have cut: "validUtf8 (take (e - start) (drop start v)) \<and> validUtf8 (drop (e - start) (drop start v))"
    using step.hyps(4)
  proof
    assume "e \<le> start + m \<and> RuneStart (v ! e)"
    with step show ?thesis by (intro validUtf8_boundary) auto
  next
    assume "e = start + decodeRuneSize (drop start v)"
    then have "e - start = decodeRuneSize (drop start v)" by simp
    with step.prems(1) show ?thesis by (simp only: validUtf8_decode)
  qed
  with step show ?case by (cases "e < length v") auto
qed

section \<open>Splitting one chunk\<close>

lemma splitBytes_pos:
  "0 < k \<Longrightarrow> splitBytesWithOffsets v k =
    (map fst (split_loop v (nat k) 0), map snd (split_loop v (nat k) 0))"
  by (simp add: splitBytesWithOffsets_def Let_def)

lemma splitChunkAtBudget_pos:
  "0 < k \<Longrightarrow> splitChunkAtBudget c k =
    map (splitChild c (baseOffsetOf c)) (split_loop (Content c) (nat k) 0)"
  by (simp add: splitChunkAtBudget_def splitBytes_pos zip_map_fst_snd)

lemma Content_splitChild [simp]: "Content (splitChild c b p) = fst p"
  by (simp add: splitChild_def)

lemma splitChild_pieces [simp]: "Content \<circ> splitChild c b = fst"
  by (simp add: fun_eq_iff)

lemma splitChunk_content:
  assumes "0 < k"
  shows "concat (map Content (splitChunkAtBudget c k)) = Content c"
  using contiguous_concat [OF split_loop_contiguous [of 0 "Content c" "nat k"]] assms
  by (simp add: splitChunkAtBudget_pos)

lemma splitChunk_mem:
  assumes "0 < k" and "d \<in> set (splitChunkAtBudget c k)"
  obtains p off where "(p, off) \<in> set (split_loop (Content c) (nat k) 0)"
    and "d = splitChild c (baseOffsetOf c) (p, off)" and "p \<noteq> []"
    and "off + length p \<le> length (Content c)" and "p = take (length p) (drop off (Content c))"
    and "0 < length (Content c)"
proof -
  from assms obtain p off where m: "(p, off) \<in> set (split_loop (Content c) (nat k) 0)"
    and d: "d = splitChild c (baseOffsetOf c) (p, off)"
    by (auto simp: splitChunkAtBudget_pos)
  from contiguous_mem [OF split_loop_contiguous m] have
    "p \<noteq> []" "off + length p \<le> length (Content c)" "p = take (length p) (drop off (Content c))"
    by auto
  with m d that show thesis by force
qed

text \<open>
  C28: A chunk split at a positive byte budget loses nothing: the contents of the children, in
  order, are the content of the chunk. No child is empty, every child is within the budget
  unless it is one single rune (of at most four bytes), and the children of valid UTF-8 are
  valid UTF-8. Every other field of the chunk, apart from the recorded position, is kept.
\<close>

theorem split_chunk_lossless:
  assumes "0 < k"
  shows "concat (map Content (splitChunkAtBudget c k)) = Content c \<and>
    (\<forall>d \<in> set (splitChunkAtBudget c k).
       Content d \<noteq> [] \<and>
       (int (length (Content d)) \<le> k \<or> isIndivisibleContent (Content d) \<and> length (Content d) \<le> 4) \<and>
       (validUtf8 (Content c) \<longrightarrow> validUtf8 (Content d)) \<and>
       SplitPartRecorded d \<and>
       d\<lparr>Content := Content c, SplitPart := SplitPart c, SplitPartRecorded := SplitPartRecorded c\<rparr> = c)"
proof (intro conjI ballI)
  show "concat (map Content (splitChunkAtBudget c k)) = Content c"
    using assms by (rule splitChunk_content)
next
  fix d assume "d \<in> set (splitChunkAtBudget c k)"
  with assms obtain p off where p: "(p, off) \<in> set (split_loop (Content c) (nat k) 0)"
    "d = splitChild c (baseOffsetOf c) (p, off)" "p \<noteq> []" "0 < length (Content c)"
    by (rule splitChunk_mem)
  show "Content d \<noteq> []" using p by simp
  show "int (length (Content d)) \<le> k \<or> isIndivisibleContent (Content d) \<and> length (Content d) \<le> 4"
    using split_loop_budget [OF p(4,1)] p assms by (auto simp: isIndivisibleContent_def)
  show "validUtf8 (Content c) \<longrightarrow> validUtf8 (Content d)"
    using split_loop_valid [OF p(4) _ p(1)] p by auto
  show "SplitPartRecorded d"
    using p by (simp add: splitChild_def)
  show "d\<lparr>Content := Content c, SplitPart := SplitPart c,
      SplitPartRecorded := SplitPartRecorded c\<rparr> = c"
    using p by (simp add: splitChild_def)
qed

definition sampleChunk :: "gostring \<Rightarrow> int \<Rightarrow> unit stored_chunk" where
  "sampleChunk s part =
     \<lparr>Content = s, RelativePath = ''a.go'', StartLine = 1, EndLine = 9, Language = ''go'',
      FileExtension = ''.go'', SplitPart = part, SplitPartRecorded = False, Scalars = [], Score = ()\<rparr>"

theorem split_chunk_lossless_witness:
  "(0::int) < 3 \<and> map Content (splitChunkAtBudget (sampleChunk ''abcdefgh'' 0) 3)
      = [''abc'', ''def'', ''gh'']
   \<and> concat (map Content (splitChunkAtBudget (sampleChunk ''abcdefgh'' 0) 3)) = ''abcdefgh''"
  using split_chunk_lossless [of 3 "sampleChunk ''abcdefgh'' 0"]
  by (intro conjI; code_simp)

section \<open>Positions under repeated splits\<close>

text \<open>
  A list of chunks tiles the bytes \<open>a\<close> to \<open>b\<close> of an original content when the chunks cover the
  range one after the other, each at the offset its \<open>SplitPart\<close> records.
\<close>

fun tiles :: "gostring \<Rightarrow> int \<Rightarrow> 'f stored_chunk list \<Rightarrow> int \<Rightarrow> bool" where
  "tiles orig a [] b \<longleftrightarrow> a = b"
| "tiles orig a (c # cs) b \<longleftrightarrow>
     0 \<le> a \<and> baseOffsetOf c = a \<and> a + int (length (Content c)) \<le> int (length orig) \<and>
     Content c = take (length (Content c)) (drop (nat a) orig) \<and>
     tiles orig (a + int (length (Content c))) cs b"

lemma tiles_append:
  "tiles orig a (xs @ ys) b \<longleftrightarrow> (\<exists>m. tiles orig a xs m \<and> tiles orig m ys b)"
  by (induction xs arbitrary: a) auto

lemma tiles_le: "tiles orig a cs b \<Longrightarrow> a \<le> b"
  by (induction cs arbitrary: a) force+

lemma safeInt32_id: "- (2 ^ 31) \<le> x \<Longrightarrow> x \<le> 2 ^ 31 - 1 \<Longrightarrow> safeInt32FromInt x = x"
  by (simp add: safeInt32FromInt_def)

lemma baseOffset_splitChild:
  assumes "0 \<le> a" and "a + int off < 2 ^ 31 - 1"
  shows "baseOffsetOf (splitChild c a (p, off)) = a + int off
    \<and> SplitPart (splitChild c a (p, off)) = a + int off + 1"
  using assms by (simp add: baseOffsetOf_def splitChild_def safeInt32_id)

lemma tiles_children:
  assumes "contiguous (Content c) start ps" and "0 \<le> a"
    and "a + int (length (Content c)) \<le> int (length orig)" and "length orig < 2 ^ 31"
    and "Content c = take (length (Content c)) (drop (nat a) orig)"
  shows "tiles orig (a + int start) (map (splitChild c a) ps) (a + int (length (Content c)))"
  using assms
proof (induction ps arbitrary: start)
  case Nil
  then show ?case by simp
next
  case (Cons q ps)
  obtain p off where q: "q = (p, off)" by force
  with Cons.prems have h: "p \<noteq> []" "off = start" "p = take (length p) (drop start (Content c))"
    "start + length p \<le> length (Content c)" "contiguous (Content c) (start + length p) ps" by auto
  then have lt: "a + int off < 2 ^ 31 - 1"
  proof -
    have "1 \<le> length p" using h(1) by (cases p) auto
    with h(2,4) Cons.prems(3,4) show ?thesis by simp
  qed
  have "p = take (length p) (drop start (take (length (Content c)) (drop (nat a) orig)))"
    using h(3) Cons.prems(5) by metis
  also have "\<dots> = take (length p) (drop (nat (a + int start)) orig)"
    using h(4) Cons.prems(2) by (simp add: drop_take min_def nat_add_distrib add.commute)
  finally have "p = take (length p) (drop (nat (a + int start)) orig)" .
  moreover have "tiles orig (a + int (start + length p)) (map (splitChild c a) ps)
      (a + int (length (Content c)))"
    using Cons.IH [OF h(5)] Cons.prems by simp
  ultimately show ?case
    using q h Cons.prems baseOffset_splitChild [OF Cons.prems(2) lt, of c p]
    by (simp add: algebra_simps)
qed

lemma tiles_split_one:
  assumes "tiles orig a [c] b" and "length orig < 2 ^ 31" and "0 < k"
  shows "tiles orig a (splitChunkAtBudget c k) b"
  using tiles_children [OF split_loop_contiguous [of 0 "Content c" "nat k"], of a orig] assms
  by (simp add: splitChunkAtBudget_pos)

text \<open>Non-empty split chunks that tile a range have increasing positions.\<close>

lemma tiles_positions:
  assumes "tiles orig a cs b" and "\<forall>c \<in> set cs. Content c \<noteq> [] \<and> 0 < SplitPart c"
  shows "distinct (map SplitPart cs) \<and> (\<forall>c \<in> set cs. a < SplitPart c)"
  using assms
proof (induction cs arbitrary: a)
  case Nil
  then show ?case by simp
next
  case (Cons c cs)
  have a: "SplitPart c = a + 1" using Cons.prems by (auto simp: baseOffsetOf_def)
  have "distinct (map SplitPart cs) \<and> (\<forall>d \<in> set cs. a + int (length (Content c)) < SplitPart d)"
    using Cons by auto
  moreover from Cons.prems have "1 \<le> int (length (Content c))"
    by (cases "Content c") auto
  ultimately have "distinct (map SplitPart cs)" "\<forall>d \<in> set cs. a + 1 < SplitPart d" by fastforce+
  with a show ?case by fastforce
qed

text \<open>
  Positions survive repeated splits. If chunks tile a stretch of an original content shorter
  than \<open>2 ^ 31\<close> bytes, replacing any one of them by its split at any positive budget tiles the
  same stretch again, every child standing at the byte its \<open>SplitPart\<close> records; and as long as
  the chunks are non-empty pieces, no two of them share a \<open>SplitPart\<close>, so identical pieces of
  repeated content get different primary keys.
\<close>

theorem nested_split_positions:
  assumes "tiles orig a (xs @ c # ys) b" and "length orig < 2 ^ 31" and "0 < k"
    and "\<forall>d \<in> set xs \<union> set ys. Content d \<noteq> [] \<and> 0 < SplitPart d"
  shows "tiles orig a (xs @ splitChunkAtBudget c k @ ys) b \<and>
    distinct (map SplitPart (xs @ splitChunkAtBudget c k @ ys))"
proof -
  from assms(1) obtain m m' where t: "tiles orig a xs m" "tiles orig m [c] m'" "tiles orig m' ys b"
    by (auto simp: tiles_append)
  then have *: "tiles orig a (xs @ splitChunkAtBudget c k @ ys) b"
    using tiles_split_one [OF t(2) assms(2,3)] by (auto simp: tiles_append)
  have "0 \<le> baseOffsetOf c" by (simp add: baseOffsetOf_def)
  have "Content d \<noteq> [] \<and> 0 < SplitPart d" if "d \<in> set (splitChunkAtBudget c k)" for d
    using assms(3) that
  proof (rule splitChunk_mem)
    fix p off
    assume d: "d = splitChild c (baseOffsetOf c) (p, off)" "p \<noteq> []"
    have "0 < safeInt32FromInt (baseOffsetOf c + int off + 1)"
      using \<open>0 \<le> baseOffsetOf c\<close> by (simp add: safeInt32FromInt_def)
    with d show ?thesis by (simp add: splitChild_def)
  qed
  with assms(4) have "\<forall>d \<in> set (xs @ splitChunkAtBudget c k @ ys). Content d \<noteq> [] \<and> 0 < SplitPart d"
    by auto
  with * tiles_positions [OF *] show ?thesis by blast
qed

theorem nested_split_positions_witness:
  "tiles ''abababab'' 0 (splitChunkAtBudget (sampleChunk ''abababab'' 0) 4) 8 \<and>
   map SplitPart (concat (map (\<lambda>c. splitChunkAtBudget c 2)
     (splitChunkAtBudget (sampleChunk ''abababab'' 0) 4))) = [1, 3, 5, 7] \<and>
   distinct (map SplitPart ([] @ splitChunkAtBudget (sampleChunk ''abababab'' 0) 4 @ []))"
proof (intro conjI)
  have "tiles ''abababab'' 0 ([] @ splitChunkAtBudget (sampleChunk ''abababab'' 0) 4 @ []) 8 \<and>
    distinct (map SplitPart ([] @ splitChunkAtBudget (sampleChunk ''abababab'' 0) 4 @ []))"
  proof (rule nested_split_positions)
    show "tiles ''abababab'' 0 ([] @ sampleChunk ''abababab'' 0 # []) 8" by code_simp
  qed simp_all
  then show "tiles ''abababab'' 0 (splitChunkAtBudget (sampleChunk ''abababab'' 0) 4) 8"
    "distinct (map SplitPart ([] @ splitChunkAtBudget (sampleChunk ''abababab'' 0) 4 @ []))"
    by simp_all
qed code_simp

section \<open>Progress of halving\<close>

lemma splitChunk_shorter:
  assumes "d \<in> set (splitChunkAtBudget c k)" and "0 < k" and "k < int (length (Content c))"
    and "\<not> isIndivisibleContent (Content c)"
  shows "length (Content d) < length (Content c)"
  using assms(2,1)
proof (rule splitChunk_mem)
  fix p off
  assume p: "(p, off) \<in> set (split_loop (Content c) (nat k) 0)"
    "d = splitChild c (baseOffsetOf c) (p, off)" "off + length p \<le> length (Content c)"
    "p = take (length p) (drop off (Content c))" "0 < length (Content c)"
  from split_loop_budget [OF p(5,1)] consider "int (length p) \<le> k" | "runeCount p \<le> 1"
    using assms(2) by linarith
  then show ?thesis
  proof cases
    case 1
    with p assms(3) show ?thesis by simp
  next
    case 2
    show ?thesis
    proof (rule ccontr)
      assume "\<not> ?thesis"
      with p have "off = 0" "length p = length (Content c)" by auto
      with p(4) have "p = Content c" by simp
      with 2 assms(4) show False by (simp add: isIndivisibleContent_def)
    qed
  qed
qed

lemma halfBudget:
  assumes "\<not> isIndivisibleContent (Content c)"
  shows "0 < max (int (length (Content c)) div 2) 1"
    and "max (int (length (Content c)) div 2) 1 < int (length (Content c))"
    and "2 \<le> length (Content c)"
proof -
  show "2 \<le> length (Content c)"
    using assms runeCount_short [of "Content c"] by (force simp: isIndivisibleContent_def)
  then show "0 < max (int (length (Content c)) div 2) 1"
    "max (int (length (Content c)) div 2) 1 < int (length (Content c))" by auto
qed

lemma splitInHalf_shorter:
  "\<not> isIndivisibleContent (Content c) \<Longrightarrow> d \<in> set (splitChunkInHalf c) \<Longrightarrow>
    length (Content d) < length (Content c)"
  using splitChunk_shorter halfBudget(1,2) by (metis splitChunkInHalf_def)

lemma splitInHalf_content: "concat (map Content (splitChunkInHalf c)) = Content c"
  by (simp add: splitChunkInHalf_def splitChunk_content)

text \<open>
  Halving a chunk that is more than one rune makes progress: at least two children come out,
  every child is strictly shorter than the chunk, and together they are its whole content.
\<close>

theorem halving_progress:
  assumes "\<not> isIndivisibleContent (Content c)"
  shows "2 \<le> length (splitChunkInHalf c) \<and>
    (\<forall>d \<in> set (splitChunkInHalf c). Content d \<noteq> [] \<and> length (Content d) < length (Content c)) \<and>
    concat (map Content (splitChunkInHalf c)) = Content c"
proof -
  have "2 \<le> length (splitChunkInHalf c)"
  proof (rule ccontr)
    assume "\<not> ?thesis"
    then consider "splitChunkInHalf c = []" | d where "splitChunkInHalf c = [d]"
      by (cases "splitChunkInHalf c"; cases "tl (splitChunkInHalf c)") auto
    then show False
      using splitInHalf_content [of c] splitInHalf_shorter [OF assms] halfBudget(3) [OF assms]
      by cases auto
  qed
  moreover have "\<forall>d \<in> set (splitChunkInHalf c). Content d \<noteq> []"
    using halfBudget(1) [OF assms] by (auto simp: splitChunkInHalf_def elim: splitChunk_mem)
  ultimately show ?thesis
    using splitInHalf_shorter [OF assms] splitInHalf_content by blast
qed

theorem halving_progress_witness:
  "\<not> isIndivisibleContent (Content (sampleChunk ''abcde'' 0)) \<and>
   map Content (splitChunkInHalf (sampleChunk ''abcde'' 0)) = [''ab'', ''cd'', ''e''] \<and>
   2 \<le> length (splitChunkInHalf (sampleChunk ''abcde'' 0))"
proof (intro conjI)
  show "\<not> isIndivisibleContent (Content (sampleChunk ''abcde'' 0))" by code_simp
  then show "2 \<le> length (splitChunkInHalf (sampleChunk ''abcde'' 0))"
    using halving_progress by blast
qed code_simp

section \<open>The guards before an embedding request\<close>

lemma splitOver_loop_content:
  "0 < k \<Longrightarrow> concat (map Content (fst (splitOver_loop k cs))) = concat (map Content cs)"
  by (induction cs) (auto simp: Let_def split_beta splitChunk_content)

lemma splitOver_loop_budget:
  assumes "0 < k" and "d \<in> set (fst (splitOver_loop k cs))"
  shows "int (length (Content d)) \<le> k \<or> isIndivisibleContent (Content d) \<and> length (Content d) \<le> 4"
  using assms
proof (induction cs)
  case (Cons c cs)
  show ?case
  proof (cases "d \<in> set (splitChunkAtBudget c k)")
    case True
    with Cons.prems(1) obtain p off where p: "(p, off) \<in> set (split_loop (Content c) (nat k) 0)"
      "d = splitChild c (baseOffsetOf c) (p, off)" "0 < length (Content c)"
      by (rule splitChunk_mem)
    then show ?thesis
      using split_loop_budget [OF p(3,1)] Cons.prems(1) by (auto simp: isIndivisibleContent_def)
  next
    case False
    with Cons show ?thesis by (auto simp: Let_def split_beta split: if_splits)
  qed
qed simp

lemma splitOver_loop_count:
  "snd (splitOver_loop k cs) = length (filter (\<lambda>c. int (length (Content c)) > k) cs)"
  by (induction cs) (auto simp: Let_def split_beta)

lemma SplitChunks_spec:
  assumes "0 < k"
  shows "concat (map Content (fst (SplitChunksToByteBudget cs k))) = concat (map Content cs)"
    and "snd (SplitChunksToByteBudget cs k) = length (filter (\<lambda>c. int (length (Content c)) > k) cs)"
    and "d \<in> set (fst (SplitChunksToByteBudget cs k)) \<Longrightarrow>
      int (length (Content d)) \<le> k \<or> isIndivisibleContent (Content d) \<and> length (Content d) \<le> 4"
proof -
  have none: "filter (\<lambda>c. int (length (Content c)) > k) cs = []"
    if "\<not> list_ex (\<lambda>c. int (length (Content c)) > k) cs"
    using that by (auto simp: list_ex_iff filter_empty_conv)
  show "concat (map Content (fst (SplitChunksToByteBudget cs k))) = concat (map Content cs)"
    "snd (SplitChunksToByteBudget cs k) = length (filter (\<lambda>c. int (length (Content c)) > k) cs)"
    using assms none
    by (auto simp: SplitChunksToByteBudget_def splitOver_loop_content splitOver_loop_count)
  show "d \<in> set (fst (SplitChunksToByteBudget cs k)) \<Longrightarrow>
      int (length (Content d)) \<le> k \<or> isIndivisibleContent (Content d) \<and> length (Content d) \<le> 4"
    using assms splitOver_loop_budget [OF assms, of d cs]
    by (force simp: SplitChunksToByteBudget_def list_ex_iff split: if_splits)
qed

lemma expandOverTokenBudget_spec:
  "concat (map Content (expandOverTokenBudget k cs)) = concat (map Content cs)"
  "0 < k \<Longrightarrow> d \<in> set (expandOverTokenBudget k cs) \<Longrightarrow>
    int (length (Content d)) \<le> k \<or> isIndivisibleContent (Content d) \<and> length (Content d) \<le> 4"
proof -
  show "concat (map Content (expandOverTokenBudget k cs)) = concat (map Content cs)"
    using SplitChunks_spec(1) [of k cs]
    by (cases "0 < k") (auto simp: expandOverTokenBudget_def SplitChunksToByteBudget_def split_beta)
  show "int (length (Content d)) \<le> k \<or> isIndivisibleContent (Content d) \<and> length (Content d) \<le> 4"
    if "0 < k" "d \<in> set (expandOverTokenBudget k cs)"
  proof (cases "snd (SplitChunksToByteBudget cs k) = 0")
    case True
    with that SplitChunks_spec(2) [OF that(1), of cs] show ?thesis
      by (force simp: expandOverTokenBudget_def split_beta filter_empty_conv)
  next
    case False
    with that SplitChunks_spec(3) [OF that(1), of d cs] show ?thesis
      by (auto simp: expandOverTokenBudget_def split_beta)
  qed
qed

lemma varchar_pos [simp]: "0 < milvusVarcharMaxBytes"
  by (simp add: milvusVarcharMaxBytes_def)

lemma expandOversize_content:
  "concat (map Content (fst (expandOversizeChunks cs))) = concat (map Content cs)"
proof -
  have "concat (map Content (concat (map (\<lambda>c. if int (length (Content c)) \<le> milvusVarcharMaxBytes
      then [c] else splitChunkAtBudget c milvusVarcharMaxBytes) cs))) = concat (map Content cs)"
    by (induction cs) (auto simp: splitChunk_content)
  then show ?thesis by (simp add: expandOversizeChunks_def)
qed

lemma splitChunk_varchar:
  assumes "d \<in> set (splitChunkAtBudget c milvusVarcharMaxBytes)"
  shows "int (length (Content d)) \<le> milvusVarcharMaxBytes"
  using varchar_pos assms
proof (rule splitChunk_mem)
  fix p off
  assume p: "(p, off) \<in> set (split_loop (Content c) (nat milvusVarcharMaxBytes) 0)"
    "d = splitChild c (baseOffsetOf c) (p, off)" "0 < length (Content c)"
  show ?thesis
    using split_loop_budget [OF p(3,1)] p(2) by (auto simp: milvusVarcharMaxBytes_def)
qed

lemma expandOversize_mem:
  assumes "d \<in> set (fst (expandOversizeChunks cs))"
  shows "int (length (Content d)) \<le> milvusVarcharMaxBytes \<and>
    (d \<in> set cs \<or> (\<exists>c \<in> set cs. milvusVarcharMaxBytes < int (length (Content c))))"
  using assms splitChunk_varchar
  by (auto simp: expandOversizeChunks_def list_ex_iff not_less split: if_splits)

lemma guardrailExpand_eq:
  "guardrailExpand k cs = fst (expandOversizeChunks (expandOverTokenBudget k cs))"
  by (simp add: guardrailExpand_def expandOversizeChunks_def Let_def)

text \<open>
  What reaches the embedder and the store. After both guards the contents of the chunks, in
  order, are those of the input, no chunk exceeds the store's VARCHAR limit, and under a
  positive token budget every chunk is within that budget or is a single rune.
\<close>

theorem guardrail_bounds:
  shows "concat (map Content (guardrailExpand k cs)) = concat (map Content cs) \<and>
    (\<forall>d \<in> set (guardrailExpand k cs).
       int (length (Content d)) \<le> milvusVarcharMaxBytes \<and>
       (0 < k \<longrightarrow> int (length (Content d)) \<le> k \<or> isIndivisibleContent (Content d)))"
proof (intro conjI ballI impI)
  show "concat (map Content (guardrailExpand k cs)) = concat (map Content cs)"
    by (simp add: guardrailExpand_eq expandOversize_content expandOverTokenBudget_spec)
next
  fix d assume "d \<in> set (guardrailExpand k cs)"
  then have d: "d \<in> set (fst (expandOversizeChunks (expandOverTokenBudget k cs)))"
    by (simp add: guardrailExpand_eq)
  note m = expandOversize_mem [OF this]
  from m show "int (length (Content d)) \<le> milvusVarcharMaxBytes" ..
  assume k: "0 < k"
  from m consider "d \<in> set (expandOverTokenBudget k cs)"
    | c where "c \<in> set (expandOverTokenBudget k cs)" "milvusVarcharMaxBytes < int (length (Content c))"
    by blast
  then show "int (length (Content d)) \<le> k \<or> isIndivisibleContent (Content d)"
  proof cases
    case 1
    with expandOverTokenBudget_spec(2) [OF k] show ?thesis by blast
  next
    case (2 c)
    then have "milvusVarcharMaxBytes < k"
      using expandOverTokenBudget_spec(2) [OF k 2(1)] by (auto simp: milvusVarcharMaxBytes_def)
    with m show ?thesis by linarith
  qed
qed

theorem guardrail_bounds_witness:
  "map Content (guardrailExpand 3 [sampleChunk ''abcde'' 0]) = [''abc'', ''de''] \<and>
   concat (map Content (guardrailExpand 3 [sampleChunk ''abcde'' 0])) = ''abcde''"
  using guardrail_bounds [of 3 "[sampleChunk ''abcde'' 0]"]
  by (intro conjI) (code_simp, simp add: sampleChunk_def)

end
