(* ===== verification/GoStrings.thy ===== *)
theory GoStrings
  imports Prelude
begin

text \<open>
  The parts of Go's \<open>strconv\<close> and \<open>strings\<close> the modelled code uses: decimal rendering of
  integers (\<open>strconv.Itoa\<close>, \<open>strconv.FormatInt\<close> base ten, the verb \<open>%d\<close>), \<open>strings.Join\<close>,
  \<open>strings.HasPrefix\<close> and \<open>strings.HasSuffix\<close>. The lemmas show that decimal rendering is
  injective and produces digits and a leading minus sign only.
\<close>

fun digitChar :: "nat \<Rightarrow> char" where
  "digitChar d = char_of (48 + d)"

function fmtNat :: "nat \<Rightarrow> string" where
  "fmtNat n = (if n < 10 then [digitChar n] else fmtNat (n div 10) @ [digitChar (n mod 10)])"
  by pat_completeness auto
termination
  by (relation "measure id") auto

declare fmtNat.simps [simp del]

definition fmtInt :: "int \<Rightarrow> string" where
  "fmtInt i = (if i < 0 then CHR ''-'' # fmtNat (nat (- i)) else fmtNat (nat i))"

fun joinStrings :: "string list \<Rightarrow> string \<Rightarrow> string" where
  "joinStrings [] sep = []"
| "joinStrings [x] sep = x"
| "joinStrings (x # y # ys) sep = x @ sep @ joinStrings (y # ys) sep"

definition hasPrefix :: "string \<Rightarrow> string \<Rightarrow> bool" where
  "hasPrefix s p \<longleftrightarrow> take (length p) s = p"

definition hasSuffix :: "string \<Rightarrow> string \<Rightarrow> bool" where
  "hasSuffix s p \<longleftrightarrow> length p \<le> length s \<and> drop (length s - length p) s = p"

definition isDigit :: "char \<Rightarrow> bool" where
  "isDigit c \<longleftrightarrow> (\<exists>d<10. c = digitChar d)"

lemma digitChar_inj: "a < 10 \<Longrightarrow> b < 10 \<Longrightarrow> digitChar a = digitChar b \<longleftrightarrow> a = b"
  by (auto dest!: arg_cong [where f = "of_char :: char \<Rightarrow> nat"])

lemma isDigit_digitChar [simp, intro]: "d < 10 \<Longrightarrow> isDigit (digitChar d)"
  unfolding isDigit_def by blast

lemma isDigit_code: "isDigit c \<Longrightarrow> 48 \<le> (of_char c :: nat) \<and> (of_char c :: nat) < 58"
  by (auto simp: isDigit_def)

lemma not_isDigit_sep [simp]: "\<not> isDigit CHR '':''" "\<not> isDigit CHR ''-''" "\<not> isDigit CHR '' ''"
  using isDigit_code by fastforce+

lemma fmtNat_digits: "c \<in> set (fmtNat n) \<Longrightarrow> isDigit c"
proof (induction n rule: fmtNat.induct)
  case (1 n)
  then show ?case by (subst (asm) (2) fmtNat.simps) (auto split: if_splits simp del: digitChar.simps)
qed

lemma fmtNat_ne [simp]: "fmtNat n \<noteq> []"
  by (subst fmtNat.simps) simp

text \<open>Reading the digits back.\<close>

definition digitsVal :: "string \<Rightarrow> nat" where
  "digitsVal s = foldl (\<lambda>n c. 10 * n + ((of_char c :: nat) - 48)) 0 s"

lemma digitsVal_fmtNat: "digitsVal (fmtNat n) = n"
proof (induction n rule: fmtNat.induct)
  case (1 n)
  show ?case
  proof (cases "n < 10")
    case True
    then show ?thesis by (subst fmtNat.simps) (simp add: digitsVal_def)
  next
    case False
    with 1 show ?thesis by (subst fmtNat.simps) (simp add: digitsVal_def)
  qed
qed

lemma fmtNat_inj [simp]: "fmtNat a = fmtNat b \<longleftrightarrow> a = b"
  by (metis digitsVal_fmtNat)

lemma fmtInt_chars: "c \<in> set (fmtInt i) \<Longrightarrow> isDigit c \<or> c = CHR ''-''"
  using fmtNat_digits by (auto simp: fmtInt_def split: if_splits)

lemma fmtInt_inj [simp]: "fmtInt a = fmtInt b \<longleftrightarrow> a = b"
proof
  have m: "CHR ''-'' # x \<noteq> fmtNat n" for x n
    using fmtNat_digits [of "CHR ''-''" n] by (metis list.set_intros(1) not_isDigit_sep(2))
  assume "fmtInt a = fmtInt b"
  then show "a = b"
    using m m [symmetric] by (auto simp: fmtInt_def split: if_splits)
qed simp

text \<open>A text without the separator is determined by what precedes the first separator.\<close>

lemma sep_split_unique:
  assumes "x @ s # u = y @ s # v" and "s \<notin> set x" and "s \<notin> set y"
  shows "x = y \<and> u = v"
  using assms
proof (induction x arbitrary: y)
  case Nil
  then show ?case by (cases y) auto
next
  case (Cons a x)
  then show ?case by (cases y) auto
qed

text \<open>
  A string that \<open>strings.TrimSpace\<close> trims to the empty one: a sequence of the code points of the
  Unicode property \<open>White_Space\<close>, here by their UTF-8 bytes.
\<close>

definition spaceRunes :: "string list" where
  "spaceRunes = map (map char_of)
     ([[9], [10], [11], [12], [13], [32], [194, 133], [194, 160], [225, 154, 128], [226, 128, 168], [226, 128, 169],
       [226, 128, 175], [226, 129, 159], [227, 128, 128]] @ map (\<lambda>b. [226, 128, b]) [128 ..< 139 :: nat])"

function isBlank :: "string \<Rightarrow> bool" where
  "isBlank s =
     (if s = [] then True
      else case find (\<lambda>p. hasPrefix s p) spaceRunes of
        None \<Rightarrow> False
      | Some p \<Rightarrow> if p = [] then False else isBlank (drop (length p) s))"
  by pat_completeness auto
termination
  by (relation "measure length") (auto simp: neq_Nil_conv)

declare isBlank.simps [simp del]

end
