(* ===== verification/ChunkRows.thy ===== *)
theory ChunkRows
  imports ChunkSplit GoStrings
begin

text \<open>
  What a chunk becomes in a store row: the primary key (\<open>generateID\<close> of
  \<open>internal/semantic/service.go\<close>), the repaired strings (\<open>SanitizeUTF8\<close> of
  \<open>collection/milvus/results.go\<close>), the metadata document
  (\<open>internal/semantic/chunk_metadata.go\<close>) and the estimated size of the row
  (\<open>estimatedInsertRowBytes\<close> of \<open>internal/semantic/batching.go\<close>, \<open>ScalarRowBytes\<close> of
  \<open>collection/milvus/rows.go\<close>). The hash is a parameter \<open>sha256Hex\<close>: the lower-case hexadecimal
  SHA-256 of a byte string, 64 characters long.
\<close>

section \<open>Repair of invalid UTF-8\<close>

definition replacementRune :: gostring where
  "replacementRune = [char_of (239::nat), char_of (191::nat), char_of (189::nat)]"

text \<open>\<open>strings.ToValidUTF8\<close>: one replacement for every run of invalid bytes.\<close>

function toValidUTF8 :: "bool \<Rightarrow> gostring \<Rightarrow> gostring" where
  "toValidUTF8 invalid s =
     (if s = [] then []
      else case leadSize s of
        Some n \<Rightarrow> take n s @ toValidUTF8 False (drop n s)
      | None \<Rightarrow> (if invalid then [] else replacementRune) @ toValidUTF8 True (tl s))"
  by pat_completeness auto
termination
  by (relation "measure (length \<circ> snd)") (auto dest: leadSize_bounds)

declare toValidUTF8.simps [simp del]

definition SanitizeUTF8 :: "gostring \<Rightarrow> gostring \<times> bool" where
  "SanitizeUTF8 value =
     (if validUtf8 value then (value, False) else (toValidUTF8 False value, True))"

lemma validUtf8_append: "validUtf8 s \<Longrightarrow> validUtf8 t \<Longrightarrow> validUtf8 (s @ t)"
proof (induction s rule: length_induct)
  case (1 s)
  from 1(2) show ?case
  proof (cases rule: validUtf8_cases)
    case (2 n)
    then have "validUtf8 (drop n s @ t)"
      using 1 leadSize_bounds [OF 2(1)] by simp
    then show ?thesis
      using leadSize_bounds [OF 2(1)]
      by (intro validUtf8_rune [OF leadSize_append [OF 2(1)]]) simp
  qed (use 1 in simp)
qed

lemma leadSize_replacement: "leadSize replacementRune = Some 3"
  by code_simp

lemma validUtf8_replacement [simp]: "validUtf8 replacementRune"
  by code_simp

lemma validUtf8_toValid: "validUtf8 (toValidUTF8 invalid s)"
proof (induction invalid s rule: toValidUTF8.induct)
  case (1 invalid s)
  show ?case
  proof (cases "s = []")
    case True
    then show ?thesis by (simp add: toValidUTF8.simps)
  next
    case False
    show ?thesis
    proof (cases "leadSize s")
      case None
      with False 1 show ?thesis
        by (subst toValidUTF8.simps) (auto intro: validUtf8_append)
    next
      case (Some n)
      have "validUtf8 (take n s)"
        by (rule validUtf8_rune [OF leadSize_take [OF Some]]) simp
      with Some False 1 show ?thesis
        by (subst toValidUTF8.simps) (auto intro: validUtf8_append)
    qed
  qed
qed

lemma toValid_id: "validUtf8 s \<Longrightarrow> toValidUTF8 invalid s = s"
proof (induction s arbitrary: invalid rule: length_induct)
  case (1 s)
  from 1(2) show ?case
  proof (cases rule: validUtf8_cases)
    case (2 n)
    then have "toValidUTF8 False (drop n s) = drop n s"
      using 1 leadSize_bounds [OF 2(1)] by simp
    with 2 show ?thesis by (subst toValidUTF8.simps) simp
  qed (simp add: toValidUTF8.simps)
qed

section \<open>The metadata document\<close>

definition hexDigit :: "nat \<Rightarrow> char" where
  "hexDigit d = (if d < 10 then char_of (48 + d) else char_of (87 + d))"

definition jsonByte :: "char \<Rightarrow> gostring" where
  "jsonByte c =
     (let v = byteVal c in
      if v = 34 \<or> v = 92 then [CHR 0x5C, c]
      else if v = 8 then [CHR 0x5C, CHR ''b'']
      else if v = 12 then [CHR 0x5C, CHR ''f'']
      else if v = 10 then [CHR 0x5C, CHR ''n'']
      else if v = 13 then [CHR 0x5C, CHR ''r'']
      else if v = 9 then [CHR 0x5C, CHR ''t'']
      else if v < 32 \<or> v = 60 \<or> v = 62 \<or> v = 38
        then [CHR 0x5C, CHR ''u'', CHR ''0'', CHR ''0'', hexDigit (v div 16), hexDigit (v mod 16)]
      else [c])"

text \<open>The body of a JSON string as \<open>encoding/json\<close> writes it, with HTML escaping.\<close>

function jsonEscape :: "gostring \<Rightarrow> gostring" where
  "jsonEscape s =
     (if s = [] then []
      else if byteVal (hd s) < 128 then jsonByte (hd s) @ jsonEscape (tl s)
      else case leadSize s of
        None \<Rightarrow> CHR 0x5C # ''ufffd'' @ jsonEscape (tl s)
      | Some n \<Rightarrow>
          (if map byteVal (take n s) = [226, 128, 168] then CHR 0x5C # ''u2028''
           else if map byteVal (take n s) = [226, 128, 169] then CHR 0x5C # ''u2029''
           else take n s) @ jsonEscape (drop n s))"
  by pat_completeness auto
termination
  by (relation "measure length") (auto dest: leadSize_bounds)

declare jsonEscape.simps [simp del]

definition encodeMetadata :: "'f stored_chunk \<Rightarrow> gostring" where
  "encodeMetadata chunk =
     (if Language chunk = [] then ''{}''
      else [CHR ''{'', CHR 0x22] @ ''language'' @ [CHR 0x22, CHR '':'', CHR 0x22]
             @ jsonEscape (Language chunk) @ [CHR 0x22, CHR ''}''])"

section \<open>The primary key\<close>

definition idHashInput :: "'f stored_chunk \<Rightarrow> gostring" where
  "idHashInput chunk =
     (if SplitPart chunk > 0
      then RelativePath chunk @ '':'' @ fmtInt (StartLine chunk) @ '':'' @ fmtInt (EndLine chunk)
             @ '':'' @ fmtInt (SplitPart chunk) @ '':'' @ Content chunk
      else RelativePath chunk @ '':'' @ fmtInt (StartLine chunk) @ '':'' @ fmtInt (EndLine chunk)
             @ '':'' @ Content chunk)"

definition generateID :: "(gostring \<Rightarrow> gostring) \<Rightarrow> 'f stored_chunk \<Rightarrow> gostring" where
  "generateID sha256Hex chunk = ''chunk_'' @ take 16 (sha256Hex (idHashInput chunk))"

section \<open>The estimated size of a row\<close>

datatype store_column_kind = storeColumnKindCode | storeColumnKindDeclared

record store_column_set =
  CsKind :: store_column_kind
  CsScalars :: "scalar_column list"

definition CodeColumns :: store_column_set where
  "CodeColumns = \<lparr>CsKind = storeColumnKindCode, CsScalars = []\<rparr>"

definition ColumnsForDeclaration :: "scalar_column list \<Rightarrow> store_column_set" where
  "ColumnsForDeclaration scalars = \<lparr>CsKind = storeColumnKindDeclared, CsScalars = scalars\<rparr>"

definition DeclaredScalars :: "store_column_set \<Rightarrow> scalar_column list" where
  "DeclaredScalars cs = (if CsKind cs \<noteq> storeColumnKindDeclared then [] else CsScalars cs)"

definition boolBytes :: int where "boolBytes = 1"
definition int64Bytes :: int where "int64Bytes = 8"
definition float32Bytes :: int where "float32Bytes = 4"
definition insertRowProtobufFramingAllowance :: int where "insertRowProtobufFramingAllowance = 48"

definition scalarColumnBytes :: "(gostring, scalar_value) gomap \<Rightarrow> scalar_column \<Rightarrow> int" where
  "scalarColumnBytes scalars d =
     6 + (if ColType d = ScalarTypeString
          then int (length (SvString (gm_get0 EmptyScalar scalars (ColName d))))
          else if ColType d = ScalarTypeBool then boolBytes
          else if ColType d = ScalarTypeInt64 then int64Bytes
          else 0)"

definition ScalarRowBytes :: "scalar_column list \<Rightarrow> (gostring, scalar_value) gomap \<Rightarrow> int" where
  "ScalarRowBytes declared scalars = foldl (\<lambda>total d. total + scalarColumnBytes scalars d) 0 declared"

definition estimatedInsertRowBytes ::
  "(gostring \<Rightarrow> gostring) \<Rightarrow> 'f stored_chunk \<Rightarrow> int \<Rightarrow> store_column_set \<Rightarrow> gostring \<Rightarrow> int" where
  "estimatedInsertRowBytes sha256Hex chunk vectorDimension columnSet embeddingModel =
     int (length (generateID sha256Hex chunk))
     + int (length (fst (SanitizeUTF8 (Content chunk)))) + 64
     + int (length (fst (SanitizeUTF8 embeddingModel)))
     + int (length (fst (SanitizeUTF8 (RelativePath chunk))))
     + int64Bytes + int64Bytes
     + int (length (fst (SanitizeUTF8 (FileExtension chunk))))
     + int (length (fst (SanitizeUTF8 (encodeMetadata chunk))))
     + vectorDimension * float32Bytes
     + insertRowProtobufFramingAllowance
     + ScalarRowBytes (DeclaredScalars columnSet) (Scalars chunk)"

text \<open>
  Every string repaired before an insert is valid UTF-8, the repair is flagged exactly when
  the value was invalid, and a valid value is stored unchanged; in particular repairing twice is
  repairing once.
\<close>

theorem sanitize_valid:
  "validUtf8 (fst (SanitizeUTF8 s)) \<and>
   (snd (SanitizeUTF8 s) \<longleftrightarrow> \<not> validUtf8 s) \<and>
   (fst (SanitizeUTF8 s) = s \<longleftrightarrow> validUtf8 s) \<and>
   SanitizeUTF8 (fst (SanitizeUTF8 s)) = (fst (SanitizeUTF8 s), False)"
  using validUtf8_toValid [of False s] by (auto simp: SanitizeUTF8_def)

text \<open>
  Two pieces of one file and line range that record different split positions never have the
  same hash input, whatever their contents, so their primary keys differ as long as the hash
  prefix does not collide.
\<close>

theorem split_pieces_hash_inputs_differ:
  assumes "RelativePath c = RelativePath d" and "StartLine c = StartLine d" and "EndLine c = EndLine d"
    and "0 < SplitPart c" and "0 < SplitPart d" and "SplitPart c \<noteq> SplitPart d"
  shows "idHashInput c \<noteq> idHashInput d"
proof
  assume "idHashInput c = idHashInput d"
  with assms have "fmtInt (SplitPart c) @ CHR '':'' # Content c = fmtInt (SplitPart d) @ CHR '':'' # Content d"
    by (simp add: idHashInput_def)
  moreover have "CHR '':'' \<notin> set (fmtInt i)" for i
    using fmtInt_chars [of "CHR '':''" i] by auto
  ultimately have "fmtInt (SplitPart c) = fmtInt (SplitPart d)"
    by (blast dest: sep_split_unique)
  with assms(6) show False by simp
qed

theorem split_pieces_hash_inputs_differ_witness:
  "idHashInput (sampleChunk ''ab'' 1) \<noteq> idHashInput (sampleChunk ''ab'' 3)"
  by (rule split_pieces_hash_inputs_differ) (simp_all add: sampleChunk_def)

end
