(* ===== verification/Batching.thy ===== *)
theory Batching
  imports ChunkRows
begin

text \<open>
  Grouping of chunks into requests (\<open>internal/semantic/batching.go\<close>): one packer bounds the
  estimated tokens and the rows of an embedding request, the other bounds the estimated bytes of
  an insert. The locale \<open>chunk_packer\<close> is the contract the retry loop of the embedder relies on:
  a packer only inserts group boundaries. Both packers of the code are interpreted in it.

  The hash of a content (\<open>contentVectorKey\<close>, the hexadecimal SHA-256) is the parameter
  \<open>sha256Hex\<close>. Only the keys of the reuse map matter here.
\<close>

section \<open>The contract of a packer\<close>

locale chunk_packer =
  fixes pack :: "'c list \<Rightarrow> 'c list list"
  assumes pack_concat: "concat (pack cs) = cs"
    and pack_nonempty: "[] \<notin> set (pack cs)"
begin

lemma pack_length: "sum_list (map length (pack cs)) = length cs"
  by (metis length_concat pack_concat)

lemma pack_set: "(\<Union>g \<in> set (pack cs). set g) = set cs"
  by (metis set_concat pack_concat)

lemma pack_Nil [simp]: "pack [] = []"
proof -
  have "\<forall>g \<in> set (pack []). g = []" using pack_concat [of "[]"] by simp
  with pack_nonempty [of "[]"] show ?thesis by (metis list.set_intros(1) neq_Nil_conv)
qed

lemma pack_group_size: "g \<in> set (pack cs) \<Longrightarrow> 1 \<le> length g \<and> length g \<le> length cs"
proof -
  assume g: "g \<in> set (pack cs)"
  then have "length g \<le> length (concat (pack cs))"
    by (auto simp: in_set_conv_decomp)
  with g pack_nonempty [of cs] show ?thesis
    by (auto simp: pack_concat Suc_le_eq)
qed

end

section \<open>Embedding requests\<close>

definition estimatedTokenCount :: "gostring \<Rightarrow> int" where
  "estimatedTokenCount content =
     (let count = (int (length content) + 3) div 4 in if count < 1 then 1 else count)"

definition embeddedTokenCount ::
  "(gostring \<Rightarrow> gostring) \<Rightarrow> (gostring, 'v) gomap \<Rightarrow> 'f stored_chunk \<Rightarrow> int" where
  "embeddedTokenCount sha256Hex reuse chunk =
     (if length reuse > 0 \<and> map_of reuse (sha256Hex (Content chunk)) \<noteq> None then 0
      else estimatedTokenCount (Content chunk))"

fun packTokens_loop ::
  "(gostring \<Rightarrow> gostring) \<Rightarrow> (gostring, 'v) gomap \<Rightarrow> int \<Rightarrow> int \<Rightarrow> 'f stored_chunk list \<Rightarrow> int
     \<Rightarrow> 'f stored_chunk list \<Rightarrow> 'f stored_chunk list list" where
  "packTokens_loop h reuse maxRows tokenBudget current currentTokens [] =
     (if current \<noteq> [] then [current] else [])"
| "packTokens_loop h reuse maxRows tokenBudget current currentTokens (chunk # chunks) =
     (let tokens = embeddedTokenCount h reuse chunk;
          overBudget = currentTokens + tokens > tokenBudget;
          overRows = int (length current) \<ge> maxRows
      in if current \<noteq> [] \<and> (overBudget \<or> overRows)
         then current # packTokens_loop h reuse maxRows tokenBudget [chunk] tokens chunks
         else packTokens_loop h reuse maxRows tokenBudget (current @ [chunk])
                (currentTokens + tokens) chunks)"

definition packChunksByEstimatedTokens ::
  "(gostring \<Rightarrow> gostring) \<Rightarrow> (gostring, 'v) gomap \<Rightarrow> int \<Rightarrow> int \<Rightarrow> 'f stored_chunk list
     \<Rightarrow> 'f stored_chunk list list" where
  "packChunksByEstimatedTokens h reuse maxRows tokenBudget chunks =
     (let maxRows = (if maxRows < 1 then 1 else maxRows);
          tokenBudget = (if tokenBudget < 1 then 1 else tokenBudget)
      in packTokens_loop h reuse maxRows tokenBudget [] 0 chunks)"

section \<open>Inserts\<close>

definition insertBatchEstimatedByteBudget :: int where
  "insertBatchEstimatedByteBudget = push_bit 20 192"

fun packBytes_loop ::
  "('f stored_chunk \<Rightarrow> int) \<Rightarrow> int \<Rightarrow> 'f stored_chunk list \<Rightarrow> int \<Rightarrow> 'f stored_chunk list
     \<Rightarrow> 'f stored_chunk list list" where
  "packBytes_loop rowBytesOf byteBudget current currentBytes [] =
     (if current \<noteq> [] then [current] else [])"
| "packBytes_loop rowBytesOf byteBudget current currentBytes (chunk # chunks) =
     (let rowBytes = rowBytesOf chunk
      in if current \<noteq> [] \<and> currentBytes + rowBytes > byteBudget
         then current # packBytes_loop rowBytesOf byteBudget [chunk] rowBytes chunks
         else packBytes_loop rowBytesOf byteBudget (current @ [chunk]) (currentBytes + rowBytes) chunks)"

definition packChunksByEstimatedInsertBytes ::
  "(gostring \<Rightarrow> gostring) \<Rightarrow> int \<Rightarrow> int \<Rightarrow> store_column_set \<Rightarrow> gostring \<Rightarrow> 'f stored_chunk list
     \<Rightarrow> 'f stored_chunk list list" where
  "packChunksByEstimatedInsertBytes h vectorDimension byteBudget columnSet embeddingModel chunks =
     (let vectorDimension = (if vectorDimension < 0 then 0 else vectorDimension);
          byteBudget = (if byteBudget < 1 then 1 else byteBudget)
      in packBytes_loop
           (\<lambda>c. estimatedInsertRowBytes h c vectorDimension columnSet embeddingModel)
           byteBudget [] 0 chunks)"

section \<open>Both packers meet the contract\<close>

lemma packTokens_loop_concat:
  "concat (packTokens_loop h reuse mr tb cur ct cs) = cur @ cs"
  by (induction cs arbitrary: cur ct) (auto simp: Let_def)

lemma packTokens_loop_nonempty: "[] \<notin> set (packTokens_loop h reuse mr tb cur ct cs)"
  by (induction cs arbitrary: cur ct) (auto simp: Let_def)

lemma packBytes_loop_concat: "concat (packBytes_loop f bb cur cb cs) = cur @ cs"
  by (induction cs arbitrary: cur cb) (auto simp: Let_def)

lemma packBytes_loop_nonempty: "[] \<notin> set (packBytes_loop f bb cur cb cs)"
  by (induction cs arbitrary: cur cb) (auto simp: Let_def)

interpretation tokens: chunk_packer "packChunksByEstimatedTokens h reuse maxRows tokenBudget"
  by unfold_locales
     (simp_all add: packChunksByEstimatedTokens_def Let_def packTokens_loop_concat packTokens_loop_nonempty)

interpretation insertBytes: chunk_packer
  "packChunksByEstimatedInsertBytes h vectorDimension byteBudget columnSet embeddingModel"
  by unfold_locales
     (simp_all add: packChunksByEstimatedInsertBytes_def Let_def packBytes_loop_concat packBytes_loop_nonempty)

section \<open>Budgets\<close>

lemma embeddedTokenCount_nonneg: "0 \<le> embeddedTokenCount h reuse c"
  by (simp add: embeddedTokenCount_def estimatedTokenCount_def Let_def)

abbreviation groupTokens where
  "groupTokens h reuse g \<equiv> sum_list (map (embeddedTokenCount h reuse) g)"

lemma packTokens_loop_budget:
  assumes "g \<in> set (packTokens_loop h reuse mr tb cur ct cs)" and "1 \<le> mr"
    and "ct = groupTokens h reuse cur" and "ct \<le> tb \<or> length cur \<le> 1" and "int (length cur) \<le> mr"
  shows "(groupTokens h reuse g \<le> tb \<or> length g = 1) \<and> int (length g) \<le> mr"
  using assms
proof (induction cs arbitrary: cur ct)
  case Nil
  then show ?case by (auto split: if_splits simp: le_Suc_eq)
next
  case (Cons c cs)
  show ?case
  proof (cases "cur \<noteq> [] \<and> (ct + embeddedTokenCount h reuse c > tb \<or> int (length cur) \<ge> mr)")
    case True
    then consider "g = cur"
      | "g \<in> set (packTokens_loop h reuse mr tb [c] (embeddedTokenCount h reuse c) cs)"
      using Cons.prems(1) by (auto simp: Let_def)
    then show ?thesis
    proof cases
      case 1
      with True Cons.prems show ?thesis by (cases cur) (auto simp: le_Suc_eq)
    next
      case 2
      then show ?thesis by (rule Cons.IH) (use Cons.prems in auto)
    qed
  next
    case False
    then have "g \<in> set (packTokens_loop h reuse mr tb (cur @ [c])
        (ct + embeddedTokenCount h reuse c) cs)"
      using Cons.prems(1) by (simp add: Let_def split: if_splits)
    then show ?thesis
      by (rule Cons.IH) (use False Cons.prems in auto)
  qed
qed

text \<open>Groups are maximal: the chunk that opens a group did not fit into the group before it.\<close>

fun maximalGroups :: "('c \<Rightarrow> int) \<Rightarrow> int \<Rightarrow> int \<Rightarrow> 'c list list \<Rightarrow> bool" where
  "maximalGroups cost budget rows (g # g' # gs) \<longleftrightarrow>
     (sum_list (map cost g) + cost (hd g') > budget \<or> int (length g) \<ge> rows)
     \<and> maximalGroups cost budget rows (g' # gs)"
| "maximalGroups cost budget rows gs \<longleftrightarrow> True"

lemma packTokens_loop_hd:
  "cur \<noteq> [] \<Longrightarrow> \<exists>g gs. packTokens_loop h reuse mr tb cur ct cs = g # gs \<and> hd g = hd cur"
proof (induction cs arbitrary: cur ct)
  case (Cons c cs)
  from Cons.IH [of "cur @ [c]" "ct + embeddedTokenCount h reuse c"] Cons.prems show ?case
    by (auto simp: Let_def)
qed auto

lemma packTokens_loop_maximal:
  assumes "ct = groupTokens h reuse cur"
  shows "maximalGroups (embeddedTokenCount h reuse) tb mr (packTokens_loop h reuse mr tb cur ct cs)"
  using assms
proof (induction cs arbitrary: cur ct)
  case Nil
  then show ?case by simp
next
  case (Cons c cs)
  show ?case
  proof (cases "cur \<noteq> [] \<and> (ct + embeddedTokenCount h reuse c > tb \<or> int (length cur) \<ge> mr)")
    case True
    obtain g gs where g: "packTokens_loop h reuse mr tb [c] (embeddedTokenCount h reuse c) cs = g # gs"
      "hd g = c"
      using packTokens_loop_hd [of "[c]"] by fastforce
    have "maximalGroups (embeddedTokenCount h reuse) tb mr (g # gs)"
      using Cons.IH [of "embeddedTokenCount h reuse c" "[c]"] g by simp
    with True g Cons.prems show ?thesis by (auto simp: Let_def)
  next
    case False
    have "maximalGroups (embeddedTokenCount h reuse) tb mr
        (packTokens_loop h reuse mr tb (cur @ [c]) (ct + embeddedTokenCount h reuse c) cs)"
      by (rule Cons.IH) (use Cons.prems in simp)
    with False show ?thesis by (auto simp: Let_def split: if_splits)
  qed
qed

text \<open>
  The packer of embedding requests keeps every chunk exactly once and in order, makes no empty
  group, keeps every group within the row ceiling and, unless the group is a single chunk, within
  the token budget (charging only chunks without a reusable vector), and closes a group only when
  the next chunk would not have fitted. Non-positive limits act as one.
\<close>

theorem pack_tokens_spec:
  "concat (packChunksByEstimatedTokens h reuse maxRows tokenBudget cs) = cs \<and>
   (\<forall>g \<in> set (packChunksByEstimatedTokens h reuse maxRows tokenBudget cs).
      g \<noteq> [] \<and> int (length g) \<le> max 1 maxRows \<and>
      (length g = 1 \<or> groupTokens h reuse g \<le> max 1 tokenBudget)) \<and>
   maximalGroups (embeddedTokenCount h reuse) (max 1 tokenBudget) (max 1 maxRows)
     (packChunksByEstimatedTokens h reuse maxRows tokenBudget cs)"
proof -
  let ?mr = "max 1 maxRows" and ?tb = "max 1 tokenBudget"
  have eq: "packChunksByEstimatedTokens h reuse maxRows tokenBudget cs
      = packTokens_loop h reuse ?mr ?tb [] 0 cs"
    by (simp add: packChunksByEstimatedTokens_def Let_def max_def not_less)
  have "(groupTokens h reuse g \<le> ?tb \<or> length g = 1) \<and> int (length g) \<le> ?mr"
    if "g \<in> set (packTokens_loop h reuse ?mr ?tb [] 0 cs)" for g
    using packTokens_loop_budget [OF that] by simp
  moreover have "[] \<notin> set (packTokens_loop h reuse ?mr ?tb [] 0 cs)"
    by (rule packTokens_loop_nonempty)
  ultimately show ?thesis
    unfolding eq using packTokens_loop_maximal [of 0 h reuse "[]" ?tb ?mr cs]
    by (auto simp: packTokens_loop_concat)
qed

theorem pack_tokens_spec_witness:
  "map (map Content) (packChunksByEstimatedTokens id ([] :: (gostring, unit) gomap) 2 3
      [sampleChunk ''abcd'' 0, sampleChunk ''efghijkl'' 0, sampleChunk ''mn'' 0])
     = [[''abcd'', ''efghijkl''], [''mn'']] \<and>
   concat (packChunksByEstimatedTokens id ([] :: (gostring, unit) gomap) 2 3
      [sampleChunk ''abcd'' 0, sampleChunk ''efghijkl'' 0, sampleChunk ''mn'' 0])
     = [sampleChunk ''abcd'' 0, sampleChunk ''efghijkl'' 0, sampleChunk ''mn'' 0]"
  using pack_tokens_spec [of id "[] :: (gostring, unit) gomap" 2 3
    "[sampleChunk ''abcd'' 0, sampleChunk ''efghijkl'' 0, sampleChunk ''mn'' 0]"]
  by (intro conjI) (code_simp, blast)

lemma packBytes_loop_budget:
  assumes "g \<in> set (packBytes_loop f bb cur cb cs)"
    and "cb = sum_list (map f cur)" and "cb \<le> bb \<or> length cur \<le> 1"
  shows "sum_list (map f g) \<le> bb \<or> length g = 1"
  using assms
proof (induction cs arbitrary: cur cb)
  case Nil
  then show ?case by (auto split: if_splits simp: le_Suc_eq)
next
  case (Cons c cs)
  show ?case
  proof (cases "cur \<noteq> [] \<and> cb + f c > bb")
    case True
    then consider "g = cur" | "g \<in> set (packBytes_loop f bb [c] (f c) cs)"
      using Cons.prems(1) by (auto simp: Let_def)
    then show ?thesis
    proof cases
      case 1
      with True Cons.prems show ?thesis by (cases cur) (auto simp: le_Suc_eq)
    next
      case 2
      then show ?thesis by (rule Cons.IH) auto
    qed
  next
    case False
    then have "g \<in> set (packBytes_loop f bb (cur @ [c]) (cb + f c) cs)"
      using Cons.prems(1) by (simp add: Let_def split: if_splits)
    then show ?thesis by (rule Cons.IH) (use False Cons.prems in auto)
  qed
qed

text \<open>
  The packer of store inserts keeps every chunk exactly once and in order and keeps the
  estimated bytes of every group within the budget, unless the group is a single row.
\<close>

theorem pack_insert_bytes_spec:
  "concat (packChunksByEstimatedInsertBytes h dim budget cols embeddingModel cs) = cs \<and>
   (\<forall>g \<in> set (packChunksByEstimatedInsertBytes h dim budget cols embeddingModel cs).
      length g = 1 \<or>
      sum_list (map (\<lambda>c. estimatedInsertRowBytes h c (max 0 dim) cols embeddingModel) g) \<le> max 1 budget)"
proof (intro conjI ballI)
  show "concat (packChunksByEstimatedInsertBytes h dim budget cols embeddingModel cs) = cs"
    by (rule insertBytes.pack_concat)
next
  fix g assume "g \<in> set (packChunksByEstimatedInsertBytes h dim budget cols embeddingModel cs)"
  then have "g \<in> set (packBytes_loop
      (\<lambda>c. estimatedInsertRowBytes h c (max 0 dim) cols embeddingModel) (max 1 budget) [] 0 cs)"
    by (auto simp: packChunksByEstimatedInsertBytes_def Let_def max_def not_less split: if_splits)
  from packBytes_loop_budget [OF this]
  show "length g = 1 \<or>
      sum_list (map (\<lambda>c. estimatedInsertRowBytes h c (max 0 dim) cols embeddingModel) g) \<le> max 1 budget"
    by auto
qed

theorem pack_insert_bytes_spec_witness:
  "map (map Content) (packChunksByEstimatedInsertBytes id 1 400 CodeColumns ''m''
      [sampleChunk ''abcd'' 0, sampleChunk ''efgh'' 0, sampleChunk ''mn'' 0])
     = [[''abcd'', ''efgh''], [''mn'']] \<and>
   concat (packChunksByEstimatedInsertBytes id 1 400 CodeColumns ''m''
      [sampleChunk ''abcd'' 0, sampleChunk ''efgh'' 0, sampleChunk ''mn'' 0])
     = [sampleChunk ''abcd'' 0, sampleChunk ''efgh'' 0, sampleChunk ''mn'' 0]"
  using pack_insert_bytes_spec [of id 1 400 CodeColumns "''m''"
    "[sampleChunk ''abcd'' 0, sampleChunk ''efgh'' 0, sampleChunk ''mn'' 0]"]
  by (intro conjI) (code_simp, blast)

end
