(* ===== verification/SplitRetry.thy ===== *)
theory SplitRetry
  imports Batching
begin

text \<open>
  The retry loop around the embedding endpoint (\<open>internal/semantic/split_retry.go\<close>). A batch is
  embedded; an input the endpoint rejects as too long is cut in halves and queued for the next
  round, every other rejected input is dropped and counted. The endpoint is an argument \<open>embedFn\<close>,
  a function of the number of calls made so far and the texts, so that it may answer the same
  texts differently over time; a nil vector is \<^const>\<open>None\<close>. The packer is an argument as in the
  code, under the contract \<open>chunk_packer\<close>. The loop has no round cap, so it is a partial function;
  it is shown to return for every endpoint.
\<close>

section \<open>What the endpoint reports\<close>

record embed_figure =
  FigValue :: int
  FigReported :: bool

record skipped_input =
  SkIndex :: int
  SkReason :: gostring
  SkReportedTokens :: embed_figure
  SkMaxTokens :: embed_figure

record 'v batch_result =
  Vectors :: "'v option list"
  Skipped :: "skipped_input list"

datatype 'e split_retry_error =
    EmbedFailed 'e
  | VectorCountMismatch nat nat
  | ErrNilEmbeddingVector nat

definition contextLengthExceededReason :: gostring where
  "contextLengthExceededReason = ''context_length_exceeded''"

definition splitRetrySpecialTokenMargin :: int where
  "splitRetrySpecialTokenMargin = 2"

definition MinimumKnownEmbedModelInputTokenLimit :: int where
  "MinimumKnownEmbedModelInputTokenLimit = 512"

section \<open>Split or drop\<close>

definition splitRetryModelMaxTokens :: "embed_figure \<Rightarrow> int \<Rightarrow> int" where
  "splitRetryModelMaxTokens reported activeModelMaxTokens =
     (if FigReported reported \<and> FigValue reported \<ge> 0 then FigValue reported
      else if activeModelMaxTokens > 0 then activeModelMaxTokens
      else MinimumKnownEmbedModelInputTokenLimit)"

definition splitRetryContentByteFloor :: "embed_figure \<Rightarrow> int \<Rightarrow> int \<times> bool" where
  "splitRetryContentByteFloor reported activeModelMaxTokens =
     (let modelMaxTokens = splitRetryModelMaxTokens reported activeModelMaxTokens
      in if modelMaxTokens \<le> splitRetrySpecialTokenMargin then (0, False)
         else (modelMaxTokens - splitRetrySpecialTokenMargin, True))"

definition shouldSplitRejectedChunk :: "'f stored_chunk \<Rightarrow> skipped_input \<Rightarrow> int \<Rightarrow> bool" where
  "shouldSplitRejectedChunk chunk skip activeModelMaxTokens =
     (if SkReason skip \<noteq> contextLengthExceededReason then False
      else if isIndivisibleContent (Content chunk) then False
      else let (byteFloor, hasContentCapacity) =
             splitRetryContentByteFloor (SkMaxTokens skip) activeModelMaxTokens
           in if \<not> hasContentCapacity then False
              else if int (length (Content chunk)) \<le> byteFloor then False
              else True)"

definition rejectedDropKind :: "'f stored_chunk \<Rightarrow> skipped_input \<Rightarrow> int \<Rightarrow> gostring" where
  "rejectedDropKind chunk skip activeModelMaxTokens =
     (if SkReason skip \<noteq> contextLengthExceededReason then ''unexpected_reason''
      else if isIndivisibleContent (Content chunk) then ''indivisible''
      else let (byteFloor, hasContentCapacity) =
             splitRetryContentByteFloor (SkMaxTokens skip) activeModelMaxTokens
           in if \<not> hasContentCapacity then ''no_content_capacity''
              else if int (length (Content chunk)) \<le> byteFloor then ''below_token_floor''
              else ''unknown'')"

section \<open>One request\<close>

record ('f, 'v) split_retry_pack_result =
  keptChunks :: "'f stored_chunk list"
  keptVectors :: "'v list"
  retryChunks :: "'f stored_chunk list"
  droppedInput :: nat

definition emptyPackResult :: "('f, 'v) split_retry_pack_result" where
  "emptyPackResult = \<lparr>keptChunks = [], keptVectors = [], retryChunks = [], droppedInput = 0\<rparr>"

definition skippedByIndex :: "skipped_input list \<Rightarrow> (int, skipped_input) gomap" where
  "skippedByIndex skips = foldl (\<lambda>m s. gm_put (SkIndex s) s m) [] skips"

fun packItems_loop ::
  "int \<Rightarrow> (int, skipped_input) gomap \<Rightarrow> 'v option list \<Rightarrow> nat \<Rightarrow> 'f stored_chunk list
     \<Rightarrow> ('f, 'v) split_retry_pack_result
     \<Rightarrow> 'e split_retry_error + ('f, 'v) split_retry_pack_result" where
  "packItems_loop active skips vecs index [] r = Inr r"
| "packItems_loop active skips vecs index (c # cs) r =
     (case map_of skips (int index) of
        None \<Rightarrow>
          (case vecs ! index of
             None \<Rightarrow> Inl (ErrNilEmbeddingVector index)
           | Some v \<Rightarrow> packItems_loop active skips vecs (Suc index) cs
               (r\<lparr>keptChunks := keptChunks r @ [c], keptVectors := keptVectors r @ [v]\<rparr>))
      | Some skip \<Rightarrow>
          if shouldSplitRejectedChunk c skip active
          then packItems_loop active skips vecs (Suc index) cs
                 (r\<lparr>retryChunks := retryChunks r @ splitChunkInHalf c\<rparr>)
          else packItems_loop active skips vecs (Suc index) cs
                 (r\<lparr>droppedInput := droppedInput r + 1\<rparr>))"

definition embedSplitRetryPack ::
  "'f stored_chunk list \<Rightarrow> int \<Rightarrow> (gostring list \<Rightarrow> 'e + 'v batch_result)
     \<Rightarrow> 'e split_retry_error + ('f, 'v) split_retry_pack_result" where
  "embedSplitRetryPack chunkPack activeModelMaxTokens embedFn =
     (case embedFn (map Content chunkPack) of
        Inl err \<Rightarrow> Inl (EmbedFailed err)
      | Inr result \<Rightarrow>
          if length (Vectors result) \<noteq> length chunkPack
          then Inl (VectorCountMismatch (length (Vectors result)) (length chunkPack))
          else packItems_loop activeModelMaxTokens (skippedByIndex (Skipped result)) (Vectors result)
                 0 chunkPack emptyPackResult)"

section \<open>The loop\<close>

text \<open>
  The packs of one round. The accumulator collects what the outer loop keeps, with the next queue
  in \<open>retryChunks\<close>; \<open>calls\<close> counts the requests made.
\<close>

fun round_loop ::
  "int \<Rightarrow> (nat \<Rightarrow> gostring list \<Rightarrow> 'e + 'v batch_result) \<Rightarrow> nat \<Rightarrow> 'f stored_chunk list list
     \<Rightarrow> ('f, 'v) split_retry_pack_result
     \<Rightarrow> 'e split_retry_error + nat \<times> ('f, 'v) split_retry_pack_result" where
  "round_loop active embedFn calls [] acc = Inr (calls, acc)"
| "round_loop active embedFn calls (p # ps) acc =
     (case embedSplitRetryPack p active (embedFn calls) of
        Inl e \<Rightarrow> Inl e
      | Inr r \<Rightarrow> round_loop active embedFn (Suc calls) ps
          \<lparr>keptChunks = keptChunks acc @ keptChunks r,
           keptVectors = keptVectors acc @ keptVectors r,
           retryChunks = retryChunks acc @ retryChunks r,
           droppedInput = droppedInput acc + droppedInput r\<rparr>)"

partial_function (option) retry_loop ::
  "('f stored_chunk list \<Rightarrow> 'f stored_chunk list list) \<Rightarrow> int
     \<Rightarrow> (nat \<Rightarrow> gostring list \<Rightarrow> 'e + 'v batch_result) \<Rightarrow> nat \<Rightarrow> ('f, 'v) split_retry_pack_result
     \<Rightarrow> ('e split_retry_error + 'f stored_chunk list \<times> 'v list \<times> nat) option" where
  "retry_loop pack active embedFn calls acc =
     (if retryChunks acc = [] then Some (Inr (keptChunks acc, keptVectors acc, droppedInput acc))
      else case round_loop active embedFn calls (pack (retryChunks acc)) (acc\<lparr>retryChunks := []\<rparr>) of
        Inl e \<Rightarrow> Some (Inl e)
      | Inr (calls', acc') \<Rightarrow> retry_loop pack active embedFn calls' acc')"

declare retry_loop.simps [code]

definition EmbedChunksSplittingOversize ::
  "'f stored_chunk list \<Rightarrow> int \<Rightarrow> ('f stored_chunk list \<Rightarrow> 'f stored_chunk list list)
     \<Rightarrow> (nat \<Rightarrow> gostring list \<Rightarrow> 'e + 'v batch_result)
     \<Rightarrow> ('e split_retry_error + 'f stored_chunk list \<times> 'v list \<times> nat) option" where
  "EmbedChunksSplittingOversize chunks activeModelMaxTokens pack embedFn =
     retry_loop pack activeModelMaxTokens embedFn 0
       \<lparr>keptChunks = [], keptVectors = [], retryChunks = chunks, droppedInput = 0\<rparr>"

section \<open>Every endpoint lets the loop return\<close>

lemma shouldSplit_divisible:
  "shouldSplitRejectedChunk c skip a \<Longrightarrow> \<not> isIndivisibleContent (Content c)"
  by (auto simp: shouldSplitRejectedChunk_def split: if_splits)

text \<open>
  A halving replaces one chunk by its halves. The items of a pack are kept, halved or dropped.
\<close>

inductive halve :: "'f stored_chunk multiset \<Rightarrow> 'f stored_chunk multiset \<Rightarrow> bool" where
  halve_step: "\<not> isIndivisibleContent (Content c) \<Longrightarrow>
    halve (add_mset c M) (M + mset (splitChunkInHalf c))"

abbreviation halves :: "'f stored_chunk multiset \<Rightarrow> 'f stored_chunk multiset \<Rightarrow> bool" where
  "halves \<equiv> halve\<^sup>*\<^sup>*"

lemma halve_frame: "halve M N \<Longrightarrow> halve (M + K) (N + K)"
proof (induction rule: halve.induct)
  case (halve_step c M)
  from halve.halve_step [OF this, of "M + K"] show ?case by (simp add: ac_simps)
qed

lemma halves_frame: "halves M N \<Longrightarrow> halves (M + K) (N + K)"
  by (induction rule: rtranclp_induct) (auto intro: rtranclp.rtrancl_into_rtrancl halve_frame)

text \<open>An arrangement of the pieces in their original order always exists.\<close>

lemma halves_arranged:
  assumes "halves M N" and "M = mset cs"
  shows "\<exists>ls. mset ls = N \<and> concat (map Content ls) = concat (map Content cs)"
  using assms(1)
proof (induction rule: rtranclp_induct)
  case base
  with assms(2) show ?case by blast
next
  case (step N N')
  then obtain ls where ls: "mset ls = N" "concat (map Content ls) = concat (map Content cs)" by blast
  from step(2) show ?case
  proof (cases rule: halve.cases)
    case (halve_step c M)
    then have "c \<in> set ls" using ls(1) by (metis set_mset_mset union_single_eq_member)
    then obtain xs ys where split: "ls = xs @ c # ys" by (meson split_list)
    let ?ls = "xs @ splitChunkInHalf c @ ys"
    have "mset ?ls = N'" using halve_step ls split by auto
    moreover have "concat (map Content ?ls) = concat (map Content ls)"
      using splitInHalf_content [of c] split by simp
    ultimately show ?thesis using ls(2) by metis
  qed
qed

text \<open>
  Progress of the accumulator over a multiset of inputs: the inputs, after halvings, are the newly
  kept chunks, the newly queued ones and as many others as the drop count grew by.
\<close>

definition advances ::
  "('f stored_chunk \<Rightarrow> 'v \<Rightarrow> bool) \<Rightarrow> 'f stored_chunk multiset \<Rightarrow> ('f, 'v) split_retry_pack_result
     \<Rightarrow> ('f, 'v) split_retry_pack_result \<Rightarrow> bool" where
  "advances ok M r r' \<longleftrightarrow> (\<exists>K V R D.
     keptChunks r' = keptChunks r @ K \<and> keptVectors r' = keptVectors r @ V \<and> list_all2 ok K V \<and>
     retryChunks r' = retryChunks r @ R \<and> droppedInput r' = droppedInput r + size D \<and>
     halves M (mset K + mset R + D) \<and>
     (\<forall>d \<in> set R. \<exists>c \<in># M. length (Content d) < length (Content c)))"

lemma advances_refl [intro]: "advances ok {#} r r"
  unfolding advances_def
  by (intro exI [of _ "[]"] exI [of _ "{#}"]) simp

lemma advances_trans:
  assumes "advances ok M r r'" and "advances ok N r' r''"
  shows "advances ok (M + N) r r''"
proof -
  from assms(1) obtain K V R D where a: "keptChunks r' = keptChunks r @ K"
    "keptVectors r' = keptVectors r @ V" "list_all2 ok K V" "retryChunks r' = retryChunks r @ R"
    "droppedInput r' = droppedInput r + size D" "halves M (mset K + mset R + D)"
    "\<forall>d \<in> set R. \<exists>c \<in># M. length (Content d) < length (Content c)"
    unfolding advances_def by blast
  from assms(2) obtain K' V' R' D' where b: "keptChunks r'' = keptChunks r' @ K'"
    "keptVectors r'' = keptVectors r' @ V'" "list_all2 ok K' V'" "retryChunks r'' = retryChunks r' @ R'"
    "droppedInput r'' = droppedInput r' + size D'" "halves N (mset K' + mset R' + D')"
    "\<forall>d \<in> set R'. \<exists>c \<in># N. length (Content d) < length (Content c)"
    unfolding advances_def by blast
  have "halves (M + N) ((mset K + mset R + D) + N)"
    using halves_frame [OF a(6)] .
  moreover have "halves ((mset K + mset R + D) + N) ((mset K + mset R + D) + (mset K' + mset R' + D'))"
    using halves_frame [OF b(6), of "mset K + mset R + D"] by (simp only: add.commute)
  ultimately have "halves (M + N) (mset (K @ K') + mset (R @ R') + (D + D'))"
    by (simp add: ac_simps)
  with a b show ?thesis
    unfolding advances_def
    by (intro exI [of _ "K @ K'"] exI [of _ "V @ V'"] exI [of _ "R @ R'"] exI [of _ "D + D'"])
       (auto intro: list_all2_appendI)
qed

lemma advances_keep:
  "ok c v \<Longrightarrow> advances ok {#c#} r (r\<lparr>keptChunks := keptChunks r @ [c], keptVectors := keptVectors r @ [v]\<rparr>)"
  unfolding advances_def
  by (intro exI [of _ "[c]"] exI [of _ "[v]"] exI [of _ "[]"] exI [of _ "{#}"]) simp

lemma advances_split:
  assumes "\<not> isIndivisibleContent (Content c)"
  shows "advances ok {#c#} r (r\<lparr>retryChunks := retryChunks r @ splitChunkInHalf c\<rparr>)"
  unfolding advances_def
  using halve_step [OF assms, of "{#}"] splitInHalf_shorter [OF assms]
  by (intro exI [of _ "[]"] exI [of _ "splitChunkInHalf c"] exI [of _ "{#}"]) auto

lemma advances_drop: "advances ok {#c#} r (r\<lparr>droppedInput := droppedInput r + 1\<rparr>)"
  unfolding advances_def
  by (intro exI [of _ "[]"] exI [of _ "{#c#}"]) simp

lemma packItems_advances:
  assumes "packItems_loop a skips vecs i cs r
      = (Inr r' :: 'e split_retry_error + ('f, 'v) split_retry_pack_result)"
    and "\<And>j v. j < length cs \<Longrightarrow> vecs ! (i + j) = Some v \<Longrightarrow> ok (cs ! j) v"
  shows "advances ok (mset cs) r r'"
  using assms
proof (induction cs arbitrary: i r)
  case Nil
  then show ?case by auto
next
  case (Cons c cs)
  have ok: "ok (cs ! j) v" if "j < length cs" "vecs ! (Suc i + j) = Some v" for j v
    using Cons.prems(2) [of "Suc j" v] that by simp
  have next_: "advances ok (mset (c # cs)) r r'"
    if "advances ok {#c#} r q" "packItems_loop a skips vecs (Suc i) cs q
      = (Inr r' :: 'e split_retry_error + ('f, 'v) split_retry_pack_result)" for q
    using advances_trans [OF that(1) Cons.IH [OF that(2) ok]] by (simp add: union_commute)
  show ?case
  proof (cases "map_of skips (int i)")
    case None
    with Cons.prems(1) obtain v where v: "vecs ! i = Some v"
      by (auto split: option.splits)
    then have "ok c v" using Cons.prems(2) [of 0 v] by simp
    with None v Cons.prems(1) show ?thesis
      by (intro next_ [OF advances_keep]) auto
  next
    case (Some skip)
    show ?thesis
    proof (cases "shouldSplitRejectedChunk c skip a")
      case True
      with Some Cons.prems show ?thesis
        using advances_split [OF shouldSplit_divisible [OF True]] by (intro next_) auto
    next
      case False
      with Some Cons.prems show ?thesis
        using advances_drop by (intro next_) auto
    qed
  qed
qed

text \<open>A vector that is the endpoint's answer to exactly the content of a chunk.\<close>

definition answered ::
  "(nat \<Rightarrow> gostring list \<Rightarrow> 'e + 'v batch_result) \<Rightarrow> 'f stored_chunk \<Rightarrow> 'v \<Rightarrow> bool" where
  "answered embedFn c v \<longleftrightarrow> (\<exists>n texts result j.
     embedFn n texts = Inr result \<and> j < length texts \<and> texts ! j = Content c \<and>
     length (Vectors result) = length texts \<and> Vectors result ! j = Some v)"

lemma embedPack_advances:
  fixes embedFn :: "nat \<Rightarrow> gostring list \<Rightarrow> 'e + 'v batch_result"
    and r :: "('f, 'v) split_retry_pack_result"
  assumes "embedSplitRetryPack p a (embedFn n) = Inr r"
  shows "advances (answered embedFn) (mset p) emptyPackResult r"
proof -
  from assms obtain result where res: "embedFn n (map Content p) = Inr result"
    "length (Vectors result) = length p"
    "packItems_loop a (skippedByIndex (Skipped result)) (Vectors result) 0 p emptyPackResult
      = (Inr r :: 'e split_retry_error + ('f, 'v) split_retry_pack_result)"
    by (auto simp: embedSplitRetryPack_def split: sum.splits if_splits)
  show ?thesis
  proof (rule packItems_advances [OF res(3)])
    fix j v assume "j < length p" "Vectors result ! (0 + j) = Some v"
    with res show "answered embedFn (p ! j) v"
      unfolding answered_def by (intro exI [of _ n] exI [of _ "map Content p"] exI [of _ result] exI [of _ j]) simp
  qed
qed

lemma advances_merge:
  assumes "advances ok M emptyPackResult r"
  shows "advances ok M acc
    \<lparr>keptChunks = keptChunks acc @ keptChunks r, keptVectors = keptVectors acc @ keptVectors r,
     retryChunks = retryChunks acc @ retryChunks r, droppedInput = droppedInput acc + droppedInput r\<rparr>"
  using assms unfolding advances_def emptyPackResult_def by simp

lemma round_advances:
  assumes "round_loop a embedFn n ps acc = Inr (n', acc')"
  shows "advances (answered embedFn) (mset (concat ps)) acc acc'"
  using assms
proof (induction ps arbitrary: n acc)
  case Nil
  then show ?case by auto
next
  case (Cons p ps)
  then obtain r where r: "embedSplitRetryPack p a (embedFn n) = Inr r"
    by (auto split: sum.splits)
  from advances_trans [OF advances_merge [OF embedPack_advances [of p a embedFn n, OF r], of acc] Cons.IH] Cons.prems r
  show ?case by simp
qed

section \<open>The loop under the contract of the packer\<close>

text \<open>What the caller gets: an error, or chunks that account for all of the input.\<close>

definition accounted ::
  "(nat \<Rightarrow> gostring list \<Rightarrow> 'e + 'v batch_result) \<Rightarrow> 'f stored_chunk list
     \<Rightarrow> 'e split_retry_error + 'f stored_chunk list \<times> 'v list \<times> nat \<Rightarrow> bool" where
  "accounted embedFn chunks res = (case res of
     Inl e \<Rightarrow> True
   | Inr (ks, vs, n) \<Rightarrow> list_all2 (answered embedFn) ks vs \<and>
       (\<exists>D. size D = n \<and> halves (mset chunks) (mset ks + D)))"

locale retry_packer = chunk_packer pack
  for pack :: "'f stored_chunk list \<Rightarrow> 'f stored_chunk list list"
begin

lemma retry_loop_returns:
  fixes embedFn :: "nat \<Rightarrow> gostring list \<Rightarrow> 'e + 'v batch_result"
  assumes "\<forall>c \<in> set (retryChunks acc). length (Content c) < b"
    and "list_all2 (answered embedFn) (keptChunks acc) (keptVectors acc)"
    and "size D = droppedInput acc"
    and "halves (mset chunks) (mset (keptChunks acc) + mset (retryChunks acc) + D)"
  shows "\<exists>res. retry_loop pack a embedFn n acc = Some res \<and> accounted embedFn chunks res"
  using assms
proof (induction b arbitrary: acc n D rule: less_induct)
  case (less b)
  show ?case
  proof (cases "retryChunks acc = []")
    case True
    with less.prems show ?thesis
      by (subst retry_loop.simps) (auto simp: accounted_def)
  next
    case False
    let ?acc0 = "acc\<lparr>retryChunks := []\<rparr>"
    show ?thesis
    proof (cases "round_loop a embedFn n (pack (retryChunks acc)) ?acc0")
      case (Inl e)
      with False show ?thesis by (subst retry_loop.simps) (simp add: accounted_def)
    next
      case (Inr q)
      obtain n' acc' where q: "q = (n', acc')" by force
      have "advances (answered embedFn) (mset (retryChunks acc)) ?acc0 acc'"
        using round_advances [of a embedFn n "pack (retryChunks acc)" ?acc0 n' acc'] Inr q
        by (simp add: pack_concat)
      then obtain K V R E where kv: "keptChunks acc' = keptChunks acc @ K"
        "keptVectors acc' = keptVectors acc @ V" "list_all2 (answered embedFn) K V"
        "retryChunks acc' = R" "droppedInput acc' = droppedInput acc + size E"
        "halves (mset (retryChunks acc)) (mset K + mset R + E)"
        "\<forall>d \<in> set R. \<exists>c \<in># mset (retryChunks acc). length (Content d) < length (Content c)"
        unfolding advances_def by auto
      have "halves (mset chunks) (mset (keptChunks acc') + mset (retryChunks acc') + (D + E))"
        using less.prems(4) halves_frame [OF kv(6), of "mset (keptChunks acc) + D"] kv(1,4)
        by (auto simp: ac_simps intro: rtranclp_trans)
      moreover have "\<exists>b'<b. \<forall>c \<in> set (retryChunks acc'). length (Content c) < b'"
      proof (cases b)
        case 0
        with less.prems(1) False show ?thesis by (cases "retryChunks acc") auto
      next
        case (Suc b')
        have "length (Content d) < b'" if "d \<in> set (retryChunks acc')" for d
          using that kv(4,7) less.prems(1) Suc by fastforce
        with Suc show ?thesis by blast
      qed
      moreover have "list_all2 (answered embedFn) (keptChunks acc') (keptVectors acc')"
        using less.prems(2) kv(1-3) by (simp add: list_all2_appendI)
      moreover have "size (D + E) = droppedInput acc'"
        using less.prems(3) kv(5) by simp
      ultimately have "\<exists>res. retry_loop pack a embedFn n' acc' = Some res \<and> accounted embedFn chunks res"
        using less.IH by blast
      with False Inr q show ?thesis by (subst retry_loop.simps) simp
    qed
  qed
qed

lemma embed_returns:
  fixes embedFn :: "nat \<Rightarrow> gostring list \<Rightarrow> 'e + 'v batch_result"
  shows "\<exists>res. EmbedChunksSplittingOversize chunks a pack embedFn = Some res
    \<and> accounted embedFn chunks res"
proof -
  let ?b = "Suc (foldr max (map (length \<circ> Content) chunks) 0)"
  have "length (Content c) \<le> foldr max (map (length \<circ> Content) chunks) 0" if "c \<in> set chunks" for c
    using that by (induction chunks) auto
  then have "\<forall>c \<in> set chunks. length (Content c) < ?b" by (simp add: less_Suc_eq_le)
  then show ?thesis
    unfolding EmbedChunksSplittingOversize_def
    by (intro retry_loop_returns [where b = ?b and D = "{#}"]) auto
qed

end

section \<open>The packer of the code\<close>

definition defaultEmbeddingBatchRows :: int where "defaultEmbeddingBatchRows = 32"
definition defaultEmbeddingBatchTokenBudget :: int where "defaultEmbeddingBatchTokenBudget = 6000"

definition NewChunkPacker ::
  "(gostring \<Rightarrow> gostring) \<Rightarrow> int \<Rightarrow> int \<Rightarrow> 'f stored_chunk list \<Rightarrow> 'f stored_chunk list list" where
  "NewChunkPacker sha256Hex batchRows tokenBudget =
     (let batchRows = (if batchRows \<le> 0 then defaultEmbeddingBatchRows else batchRows);
          tokenBudget = (if tokenBudget \<le> 0 then defaultEmbeddingBatchTokenBudget else tokenBudget)
      in packChunksByEstimatedTokens sha256Hex ([] :: (gostring, unit) gomap) batchRows tokenBudget)"

interpretation retry: retry_packer "NewChunkPacker sha256Hex batchRows tokenBudget"
  by unfold_locales (simp_all add: NewChunkPacker_def Let_def tokens.pack_concat tokens.pack_nonempty)

text \<open>
  C26: The retry loop has no round cap, yet it returns for every endpoint, every list of chunks and
  every limit, however the endpoint changes its answers from call to call.
\<close>

theorem split_retry_terminates:
  "\<exists>res. EmbedChunksSplittingOversize chunks activeModelMaxTokens
      (NewChunkPacker sha256Hex batchRows tokenBudget) embedFn = Some res"
  using retry.embed_returns by blast

lemma split_retry_accounted:
  assumes "EmbedChunksSplittingOversize chunks activeModelMaxTokens
      (NewChunkPacker sha256Hex batchRows tokenBudget) embedFn = Some (Inr (ks, vs, n))"
  shows "list_all2 (answered embedFn) ks vs"
    and "\<exists>D. size D = n \<and> halves (mset chunks) (mset ks + D)"
  using retry.embed_returns [of chunks activeModelMaxTokens sha256Hex batchRows tokenBudget embedFn] assms
  by (auto simp: accounted_def)

text \<open>
  C27: No byte is lost or embedded twice. When the retry loop succeeds, the kept chunks together
  with exactly as many further pieces as it reports dropped can be arranged into a list whose
  contents, concatenated, are the contents of the input; with no drops the kept chunks alone are
  the input cut up.
\<close>

theorem split_retry_no_loss:
  assumes "EmbedChunksSplittingOversize chunks activeModelMaxTokens
      (NewChunkPacker sha256Hex batchRows tokenBudget) embedFn = Some (Inr (ks, vs, dropped))"
  shows "\<exists>ls. mset ks \<subseteq># mset ls \<and> length ls = length ks + dropped \<and>
    concat (map Content ls) = concat (map Content chunks)"
proof -
  from split_retry_accounted(2) [OF assms] obtain D
    where D: "size D = dropped" "halves (mset chunks) (mset ks + D)" by blast
  from halves_arranged [OF D(2) refl] obtain ls
    where "mset ls = mset ks + D" "concat (map Content ls) = concat (map Content chunks)" by blast
  moreover from this(1) have "length ls = length ks + dropped"
    using D(1) by (metis size_mset size_union)
  ultimately show ?thesis by (metis mset_subset_eq_add_left)
qed

text \<open>
  The kept chunks and vectors are aligned: there are as many of one as of the other, and the
  vector at each index is what the endpoint returned for exactly the content of the chunk at that
  index.
\<close>

theorem split_retry_vectors_aligned:
  assumes "EmbedChunksSplittingOversize chunks activeModelMaxTokens
      (NewChunkPacker sha256Hex batchRows tokenBudget) embedFn = Some (Inr (ks, vs, dropped))"
  shows "length ks = length vs \<and> (\<forall>i < length ks. answered embedFn (ks ! i) (vs ! i))"
  using split_retry_accounted(1) [OF assms] by (simp add: list_all2_conv_all_nth)

text \<open>
  Every rejected input is either split or dropped for a reason the code can name, never both:
  the drop kind is \<open>unknown\<close> exactly when the input is split, and an input is split only for a
  context-length rejection of more than one rune that is longer than the byte floor, which is
  positive.
\<close>

theorem drop_kind_complete:
  "(rejectedDropKind c skip active = ''unknown'' \<longleftrightarrow> shouldSplitRejectedChunk c skip active) \<and>
   (shouldSplitRejectedChunk c skip active \<longleftrightarrow>
      SkReason skip = contextLengthExceededReason \<and> 2 \<le> runeCount (Content c) \<and>
      2 < splitRetryModelMaxTokens (SkMaxTokens skip) active \<and>
      splitRetryModelMaxTokens (SkMaxTokens skip) active < int (length (Content c)) + 2)"
  by (auto simp: rejectedDropKind_def shouldSplitRejectedChunk_def splitRetryContentByteFloor_def
      isIndivisibleContent_def splitRetrySpecialTokenMargin_def Let_def)

text \<open>An endpoint that rejects inputs over two bytes, reporting a limit of four tokens.\<close>

definition sampleEndpoint :: "nat \<Rightarrow> gostring list \<Rightarrow> unit + gostring batch_result" where
  "sampleEndpoint n texts = Inr
     \<lparr>Vectors = map (\<lambda>t. if 2 < length t then None else Some t) texts,
      Skipped = map (\<lambda>(i, t). \<lparr>SkIndex = int i, SkReason = contextLengthExceededReason,
          SkReportedTokens = \<lparr>FigValue = 0, FigReported = False\<rparr>,
          SkMaxTokens = \<lparr>FigValue = 4, FigReported = True\<rparr>\<rparr>)
        (filter (\<lambda>(i, t). 2 < length t) (zip [0..<length texts] texts))\<rparr>"

definition sampleRetry where
  "sampleRetry = EmbedChunksSplittingOversize [sampleChunk ''abcde'' 0, sampleChunk ''f'' 0] 512
     (NewChunkPacker id 32 6000) sampleEndpoint"

lemma sampleRetry_result:
  "sampleRetry = Some (Inr ([sampleChunk ''f'' 0, (sampleChunk ''ab'' 1)\<lparr>SplitPartRecorded := True\<rparr>,
      (sampleChunk ''cd'' 3)\<lparr>SplitPartRecorded := True\<rparr>,
      (sampleChunk ''e'' 5)\<lparr>SplitPartRecorded := True\<rparr>], [''f'', ''ab'', ''cd'', ''e''], 0))"
  by code_simp

theorem split_retry_no_loss_witness:
  "\<exists>ks vs ls. sampleRetry = Some (Inr (ks, vs, 0)) \<and> length ls = length ks + 0 \<and>
     mset ks \<subseteq># mset ls \<and> concat (map Content ls) = ''abcdef''"
proof -
  have "concat (map Content [sampleChunk ''abcde'' 0, sampleChunk ''f'' 0]) = ''abcdef''"
    by code_simp
  with split_retry_no_loss [OF sampleRetry_result [unfolded sampleRetry_def]] sampleRetry_result
  show ?thesis by metis
qed

theorem split_retry_vectors_aligned_witness:
  "\<exists>ks vs. sampleRetry = Some (Inr (ks, vs, 0)) \<and> length ks = 4 \<and> length vs = 4 \<and>
     answered sampleEndpoint (ks ! 0) (vs ! 0)"
  using split_retry_vectors_aligned [OF sampleRetry_result [unfolded sampleRetry_def]]
  by (auto simp: sampleRetry_result)

end
