(* ===== verification/EmbedPipeline.thy ===== *)
theory EmbedPipeline
  imports SplitRetry
begin

text \<open>
  From chunks to store rows (\<open>insertChunksBatched\<close>, \<open>embedChunkBatch\<close>, \<open>writeEmbeddedChunkBatch\<close>
  and their helpers in \<open>internal/semantic/staging.go\<close>, \<open>insertBatch\<close> and \<open>insertRowsFromChunks\<close> in
  \<open>internal/semantic/insert_batch.go\<close>). The embedding endpoint answers by batch and by call within
  the batch; the Milvus requests are the functions of \<open>store_env\<close>, numbered by the requests made
  before, each of which may fail. The state keeps the rows the store acknowledged and the progress
  counters; counters are sums of values narrowed with \<open>safeInt32FromInt\<close>, as in the code.

  The theorems show that every acknowledged row pairs a content with a vector of that content,
  also when the run fails later, and that a successful run accounts for every byte of its input.
\<close>

section \<open>Data\<close>

record 'x reuse_vector =
  RvVector :: "'x list option"
  RvSourceModelKnown :: bool

record 'x chunk_batch_embedding =
  CbeVectors :: "'x list option list"
  CbeModels :: "gostring list"
  CbeReused :: nat
  CbeRefusedEmpty :: "bool list"

record 'x collection_row =
  RowID :: gostring
  RowContent :: gostring
  RowRelativePath :: gostring
  RowStartLine :: int
  RowEndLine :: int
  RowFileExtension :: gostring
  RowMetadata :: gostring
  RowSplitPart :: int
  RowSplitPartRecorded :: bool
  RowVector :: "'x list"
  RowScalars :: "(gostring, scalar_value) gomap"

record pipe_config =
  CfgEmbeddingModel :: gostring
  CfgActiveTokenLimit :: int
  CfgBatchSize :: int
  CfgBatchTokenBudget :: int

record ('x, 'e) store_env =
  EnvAppendCatalog :: "nat \<Rightarrow> (gostring, 'x list) gomap \<Rightarrow> 'e option"
  EnvCreateCollection :: "nat \<Rightarrow> nat \<Rightarrow> 'e option"
  EnvEnsureColumns :: "nat \<Rightarrow> 'e option"
  EnvExecuteInsert :: "nat \<Rightarrow> ('x collection_row \<times> gostring) list \<Rightarrow> 'e + nat"

record 'x pipe_state =
  StoreCalls :: nat
  Acknowledged :: "('x collection_row \<times> gostring) list"
  CollectionReady :: bool
  InsertBatches :: nat
  EmbeddingBatchesCompleted :: int
  CollectionRowsWritten :: int
  ChunksReused :: int
  ChunksEmbedded :: int
  ChunksDropped :: int
  RefusedEmptyInputs :: int

datatype 'e pipe_error =
    PipeEmbed 'e
  | PipeVectorCount nat nat
  | PipeRetry "'e split_retry_error"
  | PipeStore 'e
  | PipeInsertCount nat nat

definition EmbedRejectionEmptyContent :: gostring where
  "EmbedRejectionEmptyContent = ''empty_content''"

section \<open>Embedding one batch\<close>

definition reuseHit ::
  "(gostring \<Rightarrow> gostring) \<Rightarrow> (gostring, 'x reuse_vector) gomap \<Rightarrow> 'f stored_chunk \<Rightarrow> 'x reuse_vector option" where
  "reuseHit h reuse chunk = (if length reuse > 0 then map_of reuse (h (Content chunk)) else None)"

definition embedMissedTexts ::
  "(gostring list \<Rightarrow> 'e + 'x list batch_result) \<Rightarrow> gostring list \<Rightarrow> 'e pipe_error + 'x list batch_result" where
  "embedMissedTexts embedCall missTexts =
     (case embedCall missTexts of
        Inl e \<Rightarrow> Inl (PipeEmbed e)
      | Inr result \<Rightarrow>
          if length (Vectors result) \<noteq> length missTexts
          then Inl (PipeVectorCount (length (Vectors result)) (length missTexts))
          else Inr result)"

fun placeVectors :: "'v list \<Rightarrow> nat list \<Rightarrow> nat \<Rightarrow> 'v list \<Rightarrow> 'v list" where
  "placeVectors answers [] position vs = vs"
| "placeVectors answers (i # is) position vs =
     placeVectors answers is (Suc position) (vs[i := answers ! position])"

fun markRefused :: "nat list \<Rightarrow> skipped_input list \<Rightarrow> bool list \<Rightarrow> bool list" where
  "markRefused missIndexes [] flags = flags"
| "markRefused missIndexes (s # ss) flags =
     (if SkReason s \<noteq> EmbedRejectionEmptyContent then markRefused missIndexes ss flags
      else if SkIndex s < 0 \<or> SkIndex s \<ge> int (length missIndexes) then markRefused missIndexes ss flags
      else markRefused missIndexes ss (flags[missIndexes ! nat (SkIndex s) := True]))"

definition embedChunkBatch ::
  "(gostring \<Rightarrow> gostring) \<Rightarrow> gostring \<Rightarrow> (gostring list \<Rightarrow> 'e + 'x list batch_result)
     \<Rightarrow> (gostring, 'x reuse_vector) gomap \<Rightarrow> 'f stored_chunk list
     \<Rightarrow> 'e pipe_error + 'x chunk_batch_embedding" where
  "embedChunkBatch h embeddingModel embedCall reuse chunkBatch =
     (let vectors = map (\<lambda>c. case reuseHit h reuse c of Some r \<Rightarrow> RvVector r | None \<Rightarrow> None) chunkBatch;
          models = map (\<lambda>c. case reuseHit h reuse c of
              Some r \<Rightarrow> if RvSourceModelKnown r then embeddingModel else []
            | None \<Rightarrow> embeddingModel) chunkBatch;
          missIndexes = filter (\<lambda>i. reuseHit h reuse (chunkBatch ! i) = None) [0..<length chunkBatch];
          missTexts = map (\<lambda>i. Content (chunkBatch ! i)) missIndexes;
          reused = length chunkBatch - length missTexts;
          refusedEmpty = replicate (length chunkBatch) False
      in if missTexts = []
         then Inr \<lparr>CbeVectors = vectors, CbeModels = models, CbeReused = reused,
                   CbeRefusedEmpty = refusedEmpty\<rparr>
         else case embedMissedTexts embedCall missTexts of
           Inl e \<Rightarrow> Inl e
         | Inr result \<Rightarrow>
             Inr \<lparr>CbeVectors = placeVectors (Vectors result) missIndexes 0 vectors,
                  CbeModels = models, CbeReused = reused,
                  CbeRefusedEmpty = markRefused missIndexes (Skipped result) refusedEmpty\<rparr>)"

definition filterEmbeddedChunks ::
  "'f stored_chunk list \<Rightarrow> 'x list option list \<Rightarrow> 'f stored_chunk list \<times> 'x list list" where
  "filterEmbeddedChunks chunks vectors =
     (let kept = filter (\<lambda>i. vectors ! i \<noteq> None) [0..<length vectors]
      in (map (\<lambda>i. chunks ! i) kept, map (\<lambda>i. the (vectors ! i)) kept))"

definition embeddedRowModels :: "'x chunk_batch_embedding \<Rightarrow> gostring list" where
  "embeddedRowModels embedded =
     map (\<lambda>i. CbeModels embedded ! i)
       (filter (\<lambda>i. CbeVectors embedded ! i \<noteq> None) [0..<length (CbeVectors embedded)])"

definition collectOversizedChunks ::
  "'f stored_chunk list \<Rightarrow> 'x chunk_batch_embedding \<Rightarrow> 'f stored_chunk list" where
  "collectOversizedChunks chunks embedded =
     map (\<lambda>i. chunks ! i)
       (filter (\<lambda>i. CbeVectors embedded ! i = None \<and> \<not> CbeRefusedEmpty embedded ! i)
         [0..<length (CbeVectors embedded)])"

definition collectEmptyRefusedChunks ::
  "'f stored_chunk list \<Rightarrow> 'x chunk_batch_embedding \<Rightarrow> 'f stored_chunk list" where
  "collectEmptyRefusedChunks chunks embedded =
     map (\<lambda>i. chunks ! i)
       (filter (\<lambda>i. CbeRefusedEmpty embedded ! i) [0..<length (CbeRefusedEmpty embedded)])"

definition newlyEmbeddedReuseCatalog ::
  "(gostring \<Rightarrow> gostring) \<Rightarrow> (gostring, 'x reuse_vector) gomap \<Rightarrow> 'f stored_chunk list \<Rightarrow> 'x list list
     \<Rightarrow> (gostring, 'x list) gomap" where
  "newlyEmbeddedReuseCatalog h reuse chunks vectors =
     foldl (\<lambda>m (c, v). if map_of reuse (h (Content c)) \<noteq> None then m else gm_put (Content c) v m)
       [] (zip chunks vectors)"

definition addReuseCatalogVectors ::
  "(gostring, 'x list) gomap \<Rightarrow> 'f stored_chunk list \<Rightarrow> 'x list list \<Rightarrow> (gostring, 'x list) gomap" where
  "addReuseCatalogVectors catalog chunks vectors =
     foldl (\<lambda>m (c, v). gm_put (Content c) v m) catalog (zip chunks vectors)"

section \<open>Writing one batch\<close>

definition rowScalars :: "store_column_set \<Rightarrow> 'f stored_chunk \<Rightarrow> (gostring, scalar_value) gomap" where
  "rowScalars columnSet chunk = (if CsKind columnSet = storeColumnKindDeclared then Scalars chunk else [])"

definition insertRow ::
  "(gostring \<Rightarrow> gostring) \<Rightarrow> store_column_set \<Rightarrow> 'f stored_chunk \<Rightarrow> 'x list \<Rightarrow> 'x collection_row" where
  "insertRow h columnSet chunk vector =
     \<lparr>RowID = generateID h chunk, RowContent = Content chunk, RowRelativePath = RelativePath chunk,
      RowStartLine = StartLine chunk, RowEndLine = EndLine chunk,
      RowFileExtension = FileExtension chunk, RowMetadata = encodeMetadata chunk,
      RowSplitPart = SplitPart chunk, RowSplitPartRecorded = True, RowVector = vector,
      RowScalars = rowScalars columnSet chunk\<rparr>"

definition insertRowsFromChunks ::
  "(gostring \<Rightarrow> gostring) \<Rightarrow> store_column_set \<Rightarrow> 'f stored_chunk list \<Rightarrow> 'x list list \<Rightarrow> 'x collection_row list" where
  "insertRowsFromChunks h columnSet chunks vectors =
     map (\<lambda>i. insertRow h columnSet (chunks ! i) (vectors ! i)) [0..<length chunks]"

definition insertBatch ::
  "('x, 'e) store_env \<Rightarrow> (gostring \<Rightarrow> gostring) \<Rightarrow> store_column_set \<Rightarrow> 'x pipe_state
     \<Rightarrow> 'f stored_chunk list \<Rightarrow> 'x list list \<Rightarrow> gostring list \<Rightarrow> 'x pipe_state \<times> 'e pipe_error option" where
  "insertBatch env h columnSet st chunks vectors models =
     (case EnvEnsureColumns env (StoreCalls st) of
        Some e \<Rightarrow> (st\<lparr>StoreCalls := StoreCalls st + 1\<rparr>, Some (PipeStore e))
      | None \<Rightarrow>
          let rows = zip (insertRowsFromChunks h columnSet chunks vectors) models;
              st = st\<lparr>StoreCalls := StoreCalls st + 2\<rparr>
          in case EnvExecuteInsert env (StoreCalls st) rows of
               Inl e \<Rightarrow> (st, Some (PipeStore e))
             | Inr insertCount \<Rightarrow>
                 if insertCount \<noteq> length chunks
                 then (st, Some (PipeInsertCount insertCount (length chunks)))
                 else (st\<lparr>Acknowledged := Acknowledged st @ rows\<rparr>, None))"

fun insertPacks_loop ::
  "('x, 'e) store_env \<Rightarrow> (gostring \<Rightarrow> gostring) \<Rightarrow> store_column_set \<Rightarrow> 'x list list \<Rightarrow> gostring list
     \<Rightarrow> nat \<Rightarrow> int \<Rightarrow> 'x pipe_state \<Rightarrow> 'f stored_chunk list list
     \<Rightarrow> 'x pipe_state \<times> int \<times> 'e pipe_error option" where
  "insertPacks_loop env h columnSet vectors models vectorStart writtenRows st [] = (st, writtenRows, None)"
| "insertPacks_loop env h columnSet vectors models vectorStart writtenRows st (b # bs) =
     (case insertBatch env h columnSet st b
             (take (length b) (drop vectorStart vectors)) (take (length b) (drop vectorStart models)) of
        (st, Some e) \<Rightarrow> (st, writtenRows, Some e)
      | (st, None) \<Rightarrow>
          insertPacks_loop env h columnSet vectors models (vectorStart + length b)
            (writtenRows + safeInt32FromInt (int (length b)))
            (st\<lparr>InsertBatches := InsertBatches st + 1\<rparr>) bs)"

definition createIfNeeded ::
  "('x, 'e) store_env \<Rightarrow> 'x pipe_state \<Rightarrow> nat \<Rightarrow> 'x pipe_state \<times> 'e pipe_error option" where
  "createIfNeeded env st dimension =
     (if CollectionReady st then (st, None)
      else case EnvCreateCollection env (StoreCalls st) dimension of
        Some e \<Rightarrow> (st\<lparr>StoreCalls := StoreCalls st + 1\<rparr>, Some (PipeStore e))
      | None \<Rightarrow> (st\<lparr>StoreCalls := StoreCalls st + 1, CollectionReady := True\<rparr>, None))"

definition writeEmbeddedChunkBatch ::
  "('x, 'e) store_env \<Rightarrow> (gostring \<Rightarrow> gostring) \<Rightarrow> gostring \<Rightarrow> store_column_set \<Rightarrow> 'x pipe_state
     \<Rightarrow> 'f stored_chunk list \<Rightarrow> 'x list list \<Rightarrow> gostring list \<Rightarrow> (gostring, 'x list) gomap
     \<Rightarrow> 'x pipe_state \<times> int \<times> 'e pipe_error option" where
  "writeEmbeddedChunkBatch env h embeddingModel columnSet st chunks vectors models catalog =
     (if chunks = [] then (st, 0, None)
      else case EnvAppendCatalog env (StoreCalls st) catalog of
        Some e \<Rightarrow> (st\<lparr>StoreCalls := StoreCalls st + 1\<rparr>, 0, Some (PipeStore e))
      | None \<Rightarrow>
          let dimension = length (vectors ! 0)
          in case createIfNeeded env (st\<lparr>StoreCalls := StoreCalls st + 1\<rparr>) dimension of
               (st, Some e) \<Rightarrow> (st, 0, Some e)
             | (st, None) \<Rightarrow>
                 insertPacks_loop env h columnSet vectors models 0 0 st
                   (packChunksByEstimatedInsertBytes h (int dimension) insertBatchEstimatedByteBudget
                      columnSet embeddingModel chunks))"

section \<open>The whole run\<close>

text \<open>The retry of the inputs rejected as too long, when there are any.\<close>

definition retryOversized ::
  "pipe_config \<Rightarrow> (gostring \<Rightarrow> gostring) \<Rightarrow> (nat \<Rightarrow> gostring list \<Rightarrow> 'e + 'x list batch_result)
     \<Rightarrow> 'f stored_chunk list
     \<Rightarrow> ('e split_retry_error + 'f stored_chunk list \<times> 'x list list \<times> nat) option" where
  "retryOversized cfg h embedFn oversized =
     (if oversized = [] then Some (Inr ([], [], 0))
      else EmbedChunksSplittingOversize oversized (CfgActiveTokenLimit cfg)
             (NewChunkPacker h (CfgBatchSize cfg) (CfgBatchTokenBudget cfg)) embedFn)"

definition noteWritten :: "'x pipe_state \<Rightarrow> nat \<Rightarrow> int \<Rightarrow> nat \<Rightarrow> nat \<Rightarrow> 'x pipe_state" where
  "noteWritten st batchIndex writtenRows reused kept =
     (let st = st\<lparr>EmbeddingBatchesCompleted := safeInt32FromInt (int batchIndex + 1)\<rparr>
      in if writtenRows > 0
         then st\<lparr>ChunksReused := ChunksReused st + safeInt32FromInt (int reused),
                 ChunksEmbedded := ChunksEmbedded st + safeInt32FromInt (int kept - int reused)\<rparr>
         else st)"

text \<open>The body of the loop over the embedding batches.\<close>

definition processBatch ::
  "pipe_config \<Rightarrow> ('x, 'e) store_env \<Rightarrow> (gostring \<Rightarrow> gostring)
     \<Rightarrow> (nat \<Rightarrow> nat \<Rightarrow> gostring list \<Rightarrow> 'e + 'x list batch_result)
     \<Rightarrow> (gostring, 'x reuse_vector) gomap \<Rightarrow> store_column_set \<Rightarrow> nat \<Rightarrow> 'x pipe_state
     \<Rightarrow> 'f stored_chunk list \<Rightarrow> ('x pipe_state \<times> 'e pipe_error option) option" where
  "processBatch cfg env h embedFn reuse columnSet batchIndex st b =
     (case embedChunkBatch h (CfgEmbeddingModel cfg) (embedFn batchIndex 0) reuse b of
        Inl e \<Rightarrow> Some (st, Some e)
      | Inr embedded \<Rightarrow>
          let (keptC, keptV) = filterEmbeddedChunks b (CbeVectors embedded);
              keptM = embeddedRowModels embedded;
              catalog = newlyEmbeddedReuseCatalog h reuse keptC keptV;
              st = st\<lparr>RefusedEmptyInputs := RefusedEmptyInputs st
                     + safeInt32FromInt (int (length (collectEmptyRefusedChunks b embedded)))\<rparr>
          in case retryOversized cfg h (\<lambda>n. embedFn batchIndex (Suc n)) (collectOversizedChunks b embedded) of
               None \<Rightarrow> None
             | Some (Inl e) \<Rightarrow> Some (st, Some (PipeRetry e))
             | Some (Inr (retryC, retryV, dropped)) \<Rightarrow>
                 let st = st\<lparr>ChunksDropped := ChunksDropped st + safeInt32FromInt (int dropped)\<rparr>
                 in case writeEmbeddedChunkBatch env h (CfgEmbeddingModel cfg) columnSet st
                         (keptC @ retryC) (keptV @ retryV)
                         (keptM @ replicate (length retryC) (CfgEmbeddingModel cfg))
                         (addReuseCatalogVectors catalog retryC retryV) of
                      (st, writtenRows, err) \<Rightarrow>
                        let st = st\<lparr>CollectionRowsWritten := CollectionRowsWritten st + writtenRows\<rparr>
                        in case err of
                             Some e \<Rightarrow> Some (st, Some e)
                           | None \<Rightarrow> Some (noteWritten st batchIndex writtenRows (CbeReused embedded)
                                            (length (keptC @ retryC)), None))"

fun batches_loop ::
  "pipe_config \<Rightarrow> ('x, 'e) store_env \<Rightarrow> (gostring \<Rightarrow> gostring)
     \<Rightarrow> (nat \<Rightarrow> nat \<Rightarrow> gostring list \<Rightarrow> 'e + 'x list batch_result)
     \<Rightarrow> (gostring, 'x reuse_vector) gomap \<Rightarrow> store_column_set \<Rightarrow> nat \<Rightarrow> 'x pipe_state
     \<Rightarrow> 'f stored_chunk list list \<Rightarrow> ('x pipe_state \<times> 'e pipe_error option) option" where
  "batches_loop cfg env h embedFn reuse columnSet batchIndex st [] = Some (st, None)"
| "batches_loop cfg env h embedFn reuse columnSet batchIndex st (b # bs) =
     (case processBatch cfg env h embedFn reuse columnSet batchIndex st b of
        None \<Rightarrow> None
      | Some (st, Some e) \<Rightarrow> Some (st, Some e)
      | Some (st, None) \<Rightarrow> batches_loop cfg env h embedFn reuse columnSet (Suc batchIndex) st bs)"

definition packForEmbedding ::
  "pipe_config \<Rightarrow> (gostring \<Rightarrow> gostring) \<Rightarrow> (gostring, 'x reuse_vector) gomap \<Rightarrow> 'f stored_chunk list
     \<Rightarrow> 'f stored_chunk list list" where
  "packForEmbedding cfg h reuse chunks =
     (let batchRows = (if CfgBatchSize cfg \<le> 0 then defaultEmbeddingBatchRows else CfgBatchSize cfg);
          tokenBudget = (if CfgBatchTokenBudget cfg \<le> 0 then defaultEmbeddingBatchTokenBudget
                         else CfgBatchTokenBudget cfg)
      in packChunksByEstimatedTokens h reuse batchRows tokenBudget chunks)"

definition initialPipeState :: "bool \<Rightarrow> 'x pipe_state" where
  "initialPipeState ready =
     \<lparr>StoreCalls = 0, Acknowledged = [], CollectionReady = ready, InsertBatches = 0,
      EmbeddingBatchesCompleted = 0, CollectionRowsWritten = 0, ChunksReused = 0,
      ChunksEmbedded = 0, ChunksDropped = 0, RefusedEmptyInputs = 0\<rparr>"

definition insertChunksBatched ::
  "pipe_config \<Rightarrow> ('x, 'e) store_env \<Rightarrow> (gostring \<Rightarrow> gostring)
     \<Rightarrow> (nat \<Rightarrow> nat \<Rightarrow> gostring list \<Rightarrow> 'e + 'x list batch_result)
     \<Rightarrow> (gostring, 'x reuse_vector) gomap \<Rightarrow> store_column_set \<Rightarrow> bool \<Rightarrow> 'f stored_chunk list
     \<Rightarrow> ('x pipe_state \<times> 'e pipe_error option) option" where
  "insertChunksBatched cfg env h embedFn reuse columnSet collectionReady chunks =
     batches_loop cfg env h embedFn reuse columnSet 0 (initialPipeState collectionReady)
       (packForEmbedding cfg h reuse chunks)"

section \<open>Vectors belong to their contents\<close>

text \<open>A vector is the stored vector of the chunk's content or an answer to exactly that content.\<close>

definition sourced ::
  "(gostring \<Rightarrow> gostring) \<Rightarrow> (gostring, 'x reuse_vector) gomap
     \<Rightarrow> (nat \<Rightarrow> nat \<Rightarrow> gostring list \<Rightarrow> 'e + 'x list batch_result) \<Rightarrow> 'f stored_chunk \<Rightarrow> 'x list \<Rightarrow> bool" where
  "sourced h reuse embedFn c v \<longleftrightarrow>
     (\<exists>r. map_of reuse (h (Content c)) = Some r \<and> RvVector r = Some v) \<or>
     (\<exists>b. answered (embedFn b) c v)"

lemma length_placeVectors [simp]: "length (placeVectors a is p vs) = length vs"
  by (induction "is" arbitrary: p vs) auto

lemma placeVectors_other: "k \<notin> set is \<Longrightarrow> placeVectors a is p vs ! k = vs ! k"
  by (induction "is" arbitrary: p vs) auto

lemma placeVectors_nth:
  "distinct is \<Longrightarrow> j < length is \<Longrightarrow> is ! j < length vs \<Longrightarrow> placeVectors a is p vs ! (is ! j) = a ! (p + j)"
proof (induction "is" arbitrary: p vs j)
  case (Cons i "is")
  then show ?case by (cases j) (auto simp: placeVectors_other)
qed simp

lemma length_markRefused [simp]: "length (markRefused ms ss fs) = length fs"
  by (induction ss arbitrary: fs) auto

lemma embedChunkBatch_lengths:
  assumes "embedChunkBatch h m call reuse b = Inr emb"
  shows "length (CbeVectors emb) = length b" "length (CbeModels emb) = length b"
    "length (CbeRefusedEmpty emb) = length b"
  using assms by (auto simp: embedChunkBatch_def Let_def split: if_splits sum.splits)

lemma embedChunkBatch_sourced:
  assumes "embedChunkBatch h m (embedFn k 0) reuse b = Inr emb"
    and i: "i < length b" and v: "CbeVectors emb ! i = Some v"
  shows "sourced h reuse embedFn (b ! i) v"
proof (cases "reuseHit h reuse (b ! i)")
  case (Some r)
  let ?miss = "filter (\<lambda>i. reuseHit h reuse (b ! i) = None) [0..<length b]"
  have "i \<notin> set ?miss" using Some by simp
  then have "RvVector r = Some v"
    using assms Some
    by (auto simp: embedChunkBatch_def Let_def placeVectors_other split: if_splits sum.splits)
  then show ?thesis
    using Some by (auto simp: sourced_def reuseHit_def split: if_splits)
next
  case None
  let ?miss = "filter (\<lambda>i. reuseHit h reuse (b ! i) = None) [0..<length b]"
  let ?texts = "map (\<lambda>i. Content (b ! i)) ?miss"
  from None i have "i \<in> set ?miss" by simp
  then obtain j where j: "j < length ?miss" "?miss ! j = i" by (metis in_set_conv_nth)
  then have "?texts \<noteq> []" by force
  with assms(1) obtain result where res: "embedFn k 0 ?texts = Inr result"
    "length (Vectors result) = length ?texts"
    "CbeVectors emb = placeVectors (Vectors result) ?miss 0
       (map (\<lambda>c. case reuseHit h reuse c of Some r \<Rightarrow> RvVector r | None \<Rightarrow> None) b)"
    by (auto simp: embedChunkBatch_def Let_def embedMissedTexts_def split: if_splits sum.splits)
  have "CbeVectors emb ! (?miss ! j) = Vectors result ! (0 + j)"
    unfolding res(3) using j i by (intro placeVectors_nth) auto
  with j v have "Vectors result ! j = Some v" by simp
  moreover have "j < length ?texts" "?texts ! j = Content (b ! i)" using j by auto
  ultimately have "answered (embedFn k) (b ! i) v"
    unfolding answered_def using res(1,2) by blast
  then show ?thesis by (auto simp: sourced_def)
qed

lemma filterEmbedded_aligned:
  assumes "filterEmbeddedChunks b (CbeVectors emb) = (kc, kv)"
    and "\<And>i v. i < length (CbeVectors emb) \<Longrightarrow> CbeVectors emb ! i = Some v \<Longrightarrow> ok (b ! i) v"
  shows "list_all2 ok kc kv" "length (embeddedRowModels emb) = length kc"
  using assms
  by (auto simp: filterEmbeddedChunks_def Let_def embeddedRowModels_def list_all2_map1 list_all2_map2
      list_all2_same)

text \<open>The chunks of a batch are kept, retried or refused as empty.\<close>

lemma mset_map_filter_split:
  "mset (map f xs) = mset (map f (filter P xs)) + mset (map f (filter (\<lambda>x. \<not> P x) xs))"
  by (induction xs) auto

lemma batch_partition:
  assumes "length (CbeVectors emb) = length b" and "length (CbeRefusedEmpty emb) = length b"
  obtains N where "mset b = mset (fst (filterEmbeddedChunks b (CbeVectors emb)))
      + mset (collectOversizedChunks b emb) + N"
    and "size N \<le> length (collectEmptyRefusedChunks b emb)"
proof -
  let ?n = "[0..<length b]" and ?V = "\<lambda>i. CbeVectors emb ! i" and ?R = "\<lambda>i. CbeRefusedEmpty emb ! i"
  let ?nil = "filter (\<lambda>i. \<not> ?V i \<noteq> None) ?n"
  let ?N = "mset (map (\<lambda>i. b ! i) (filter (\<lambda>i. \<not> (\<not> ?R i)) ?nil))"
  have "mset b = mset (map (\<lambda>i. b ! i) ?n)" by (simp add: map_nth)
  also have "\<dots> = mset (map (\<lambda>i. b ! i) (filter (\<lambda>i. ?V i \<noteq> None) ?n)) + mset (map (\<lambda>i. b ! i) ?nil)"
    by (rule mset_map_filter_split)
  also have "mset (map (\<lambda>i. b ! i) ?nil)
      = mset (map (\<lambda>i. b ! i) (filter (\<lambda>i. \<not> ?R i) ?nil)) + ?N"
    by (rule mset_map_filter_split)
  finally have "mset b = mset (fst (filterEmbeddedChunks b (CbeVectors emb)))
      + mset (collectOversizedChunks b emb) + ?N"
    using assms by (simp add: filterEmbeddedChunks_def collectOversizedChunks_def Let_def conj_commute)
  moreover have "size ?N \<le> length (collectEmptyRefusedChunks b emb)"
  proof -
    have "size ?N = length (filter (\<lambda>i. \<not> \<not> ?R i \<and> \<not> ?V i \<noteq> None) ?n)"
      by (simp only: size_mset length_map filter_filter conj_commute)
    also have "\<dots> \<le> length (filter ?R ?n)" by (rule length_filter_mono) simp
    finally show ?thesis using assms by (simp add: collectEmptyRefusedChunks_def)
  qed
  ultimately show thesis by (rule that)
qed

section \<open>Rows that were acknowledged\<close>

definition rowsOk ::
  "(gostring \<Rightarrow> gostring) \<Rightarrow> store_column_set \<Rightarrow> ('f stored_chunk \<Rightarrow> 'x list \<Rightarrow> bool)
     \<Rightarrow> ('x collection_row \<times> gostring) list \<Rightarrow> bool" where
  "rowsOk h cols ok rows \<longleftrightarrow> (\<forall>p \<in> set rows. \<exists>c v. fst p = insertRow h cols c v \<and> ok c v)"

lemma rowsOk_append [simp]: "rowsOk h cols ok (xs @ ys) \<longleftrightarrow> rowsOk h cols ok xs \<and> rowsOk h cols ok ys"
  by (auto simp: rowsOk_def)

lemma rowsOk_Nil [simp]: "rowsOk h cols ok []"
  by (simp add: rowsOk_def)

text \<open>A write only appends acknowledged rows, and a write without error appends all of them.\<close>

definition wrote ::
  "(gostring \<Rightarrow> gostring) \<Rightarrow> store_column_set \<Rightarrow> ('f stored_chunk \<Rightarrow> 'x list \<Rightarrow> bool)
     \<Rightarrow> 'f stored_chunk list \<Rightarrow> 'x pipe_state \<Rightarrow> 'x pipe_state \<Rightarrow> 'e pipe_error option \<Rightarrow> bool" where
  "wrote h cols ok chunks st st' err \<longleftrightarrow> (\<exists>rows.
     Acknowledged st' = Acknowledged st @ rows \<and> rowsOk h cols ok rows \<and>
     (err = None \<longrightarrow> map (RowContent \<circ> fst) rows = map Content chunks) \<and>
     ChunksDropped st' = ChunksDropped st \<and> RefusedEmptyInputs st' = RefusedEmptyInputs st)"

lemma insertRows_zip:
  assumes "list_all2 ok chunks vectors" and "length models = length chunks"
  shows "rowsOk h cols ok (zip (insertRowsFromChunks h cols chunks vectors) models)"
    and "map (RowContent \<circ> fst) (zip (insertRowsFromChunks h cols chunks vectors) models) = map Content chunks"
proof -
  let ?rows = "insertRowsFromChunks h cols chunks vectors"
  have len: "length ?rows = length chunks" by (simp add: insertRowsFromChunks_def)
  have "\<exists>c v. row = insertRow h cols c v \<and> ok c v" if "row \<in> set ?rows" for row
    using that assms(1) unfolding insertRowsFromChunks_def list_all2_conv_all_nth by fastforce
  then show "rowsOk h cols ok (zip ?rows models)"
    by (auto simp: rowsOk_def dest!: set_zip_leftD)
  have "map RowContent ?rows = map Content chunks"
    by (auto simp: insertRowsFromChunks_def insertRow_def intro: nth_equalityI)
  then show "map (RowContent \<circ> fst) (zip ?rows models) = map Content chunks"
    using assms(2) len by (simp add: map_map [symmetric] del: map_map)
qed

lemma insertBatch_wrote:
  assumes "insertBatch env h cols st chunks vectors models = (st', err)"
    and "list_all2 ok chunks vectors" and "length models = length chunks"
  shows "wrote h cols ok chunks st st' err"
  using assms(1) insertRows_zip [OF assms(2,3), of h cols]
  by (auto simp: insertBatch_def wrote_def Let_def split: option.splits sum.splits if_splits)

lemma insertPacks_wrote:
  assumes "insertPacks_loop env h cols vectors models start w st packs = (st', w', err)"
    and "list_all2 ok (concat packs) (drop start vectors)" and "length models = length vectors"
  shows "wrote h cols ok (concat packs) st st' err"
  using assms
proof (induction packs arbitrary: start w st)
  case Nil
  then show ?case by (simp add: wrote_def)
next
  case (Cons b bs)
  let ?vs = "take (length b) (drop start vectors)" and ?ms = "take (length b) (drop start models)"
  from Cons.prems(2) obtain us ws where uw: "drop start vectors = us @ ws" "list_all2 ok b us"
    "list_all2 ok (concat bs) ws" by (auto simp: list_all2_append1)
  moreover from this(1) have "drop (start + length us) vectors = ws"
    by (metis append_eq_conv_conj drop_drop add.commute)
  ultimately have al: "list_all2 ok b ?vs"
    "list_all2 ok (concat bs) (drop (start + length b) vectors)"
    by (auto simp: list_all2_lengthD)
  from al(1) Cons.prems(3) have "length ?ms = length b"
    by (auto dest: list_all2_lengthD)
  obtain st1 err1 where i: "insertBatch env h cols st b ?vs ?ms = (st1, err1)" by force
  note w1 = insertBatch_wrote [OF i al(1) \<open>length ?ms = length b\<close>]
  show ?case
  proof (cases err1)
    case (Some e)
    with i Cons.prems(1) w1 show ?thesis by (auto simp: wrote_def)
  next
    case None
    let ?st2 = "st1\<lparr>InsertBatches := InsertBatches st1 + 1\<rparr>"
    from None i Cons.prems(1) have
      "insertPacks_loop env h cols vectors models (start + length b)
        (w + safeInt32FromInt (int (length b))) ?st2 bs = (st', w', err)"
      by simp
    from Cons.IH [OF this al(2) Cons.prems(3)] w1 None show ?thesis
      by (auto simp: wrote_def)
  qed
qed

lemma writeEmbedded_wrote:
  assumes "writeEmbeddedChunkBatch env h m cols st chunks vectors models catalog = (st', w, err)"
    and "list_all2 ok chunks vectors" and "length models = length chunks"
  shows "wrote h cols ok chunks st st' err"
proof (cases "chunks = []")
  case True
  with assms(1) show ?thesis by (auto simp: writeEmbeddedChunkBatch_def wrote_def)
next
  case False
  show ?thesis
  proof (cases "EnvAppendCatalog env (StoreCalls st) catalog")
    case (Some e)
    with False assms(1) show ?thesis by (auto simp: writeEmbeddedChunkBatch_def wrote_def)
  next
    case None
    obtain st1 err1 where c: "createIfNeeded env (st\<lparr>StoreCalls := StoreCalls st + 1\<rparr>) (length (vectors ! 0))
        = (st1, err1)" by force
    then have keep: "Acknowledged st1 = Acknowledged st" "ChunksDropped st1 = ChunksDropped st"
      "RefusedEmptyInputs st1 = RefusedEmptyInputs st"
      by (auto simp: createIfNeeded_def split: if_splits option.splits)
    show ?thesis
    proof (cases err1)
      case (Some e)
      with False None c keep assms(1) show ?thesis
        by (auto simp: writeEmbeddedChunkBatch_def wrote_def)
    next
      case None': None
      let ?packs = "packChunksByEstimatedInsertBytes h (int (length (vectors ! 0)))
          insertBatchEstimatedByteBudget cols m chunks"
      have "insertPacks_loop env h cols vectors models 0 0 st1 ?packs = (st', w, err)"
        using False None None' c assms(1) by (simp add: writeEmbeddedChunkBatch_def Let_def)
      from insertPacks_wrote [OF this, of ok] assms(2,3) keep show ?thesis
        by (auto simp: insertBytes.pack_concat wrote_def dest: list_all2_lengthD)
    qed
  qed
qed

section \<open>The whole run accounts for its input\<close>

lemma safeInt32_nonneg: "0 \<le> safeInt32FromInt (int n)"
  by (simp add: safeInt32FromInt_def)

lemma safeInt32_exact: "safeInt32FromInt (int n) < 2 ^ 31 - 1 \<Longrightarrow> safeInt32FromInt (int n) = int n"
  by (auto simp: safeInt32FromInt_def split: if_splits)

lemma answered_shift: "answered (\<lambda>n. f (Suc n)) c v \<Longrightarrow> answered f c v"
  by (auto simp: answered_def)

text \<open>The retry of a batch always returns, with answers and without losing bytes.\<close>

lemma retryOversized_returns:
  fixes embedFn :: "nat \<Rightarrow> gostring list \<Rightarrow> 'e + 'x list batch_result"
  shows "\<exists>res. retryOversized cfg h embedFn cs = Some res \<and> accounted embedFn cs res"
proof (cases "cs = []")
  case True
  then show ?thesis by (auto simp: retryOversized_def accounted_def)
next
  case False
  then show ?thesis using retry.embed_returns by (auto simp: retryOversized_def)
qed

text \<open>What holds of the accumulated state while batches are processed.\<close>

definition accounts ::
  "'f stored_chunk list \<Rightarrow> 'x pipe_state \<Rightarrow> bool" where
  "accounts done st \<longleftrightarrow> 0 \<le> ChunksDropped st \<and> 0 \<le> RefusedEmptyInputs st \<and>
     (ChunksDropped st < 2 ^ 31 - 1 \<longrightarrow> RefusedEmptyInputs st < 2 ^ 31 - 1 \<longrightarrow>
       (\<exists>W L. halves (mset done) (mset W + L) \<and> map (RowContent \<circ> fst) (Acknowledged st) = map Content W \<and>
         int (size L) \<le> ChunksDropped st + RefusedEmptyInputs st))"

lemma accounts_batch:
  assumes acc: "accounts done st"
    and part: "mset b = mset kc + mset ov + N" "size N \<le> refused"
    and retry: "halves (mset ov) (mset rc + D)" "size D = dropped"
    and st': "ChunksDropped st' = ChunksDropped st + safeInt32FromInt (int dropped)"
      "RefusedEmptyInputs st' = RefusedEmptyInputs st + safeInt32FromInt (int refused)"
      "map (RowContent \<circ> fst) (Acknowledged st')
         = map (RowContent \<circ> fst) (Acknowledged st) @ map Content (kc @ rc)"
  shows "accounts (done @ b) st'"
proof -
  have nn: "0 \<le> ChunksDropped st'" "0 \<le> RefusedEmptyInputs st'"
    using acc st' safeInt32_nonneg [of dropped] safeInt32_nonneg [of refused]
    by (auto simp: accounts_def)
  have "\<exists>W L. halves (mset (done @ b)) (mset W + L) \<and>
      map (RowContent \<circ> fst) (Acknowledged st') = map Content W \<and>
      int (size L) \<le> ChunksDropped st' + RefusedEmptyInputs st'"
    if lt: "ChunksDropped st' < 2 ^ 31 - 1" "RefusedEmptyInputs st' < 2 ^ 31 - 1"
  proof -
    have sat: "safeInt32FromInt (int dropped) = int dropped" "safeInt32FromInt (int refused) = int refused"
      using lt st' acc by (auto simp: accounts_def intro!: safeInt32_exact)
    with lt st' acc obtain W L where W: "halves (mset done) (mset W + L)"
      "map (RowContent \<circ> fst) (Acknowledged st) = map Content W"
      "int (size L) \<le> ChunksDropped st + RefusedEmptyInputs st"
      by (auto simp: accounts_def)
    have "halves (mset done + mset b) (mset W + L + mset b)"
      using halves_frame [OF W(1)] .
    moreover have "halves (mset W + L + mset b) (mset (W @ kc @ rc) + (L + N + D))"
      using halves_frame [OF retry(1), of "mset W + L + mset kc + N"] part(1) by (simp add: ac_simps)
    ultimately have "halves (mset (done @ b)) (mset (W @ kc @ rc) + (L + N + D))"
      by (simp add: rtranclp_trans)
    moreover have "int (size (L + N + D)) \<le> ChunksDropped st' + RefusedEmptyInputs st'"
      using W(3) part(2) retry(2) st' sat by simp
    ultimately show ?thesis using W(2) st'(3) by (metis map_append)
  qed
  with nn show ?thesis by (auto simp: accounts_def)
qed

lemma accounts_noteWritten [simp]: "accounts d (noteWritten st i w r k) \<longleftrightarrow> accounts d st"
  by (simp add: accounts_def noteWritten_def Let_def)

lemma ack_noteWritten [simp]: "Acknowledged (noteWritten st i w r k) = Acknowledged st"
  by (simp add: noteWritten_def Let_def)

lemma accounts_rowsWritten [simp]: "accounts d (st\<lparr>CollectionRowsWritten := x\<rparr>) \<longleftrightarrow> accounts d st"
  by (simp add: accounts_def)

text \<open>The pieces of chunks keep their paths.\<close>

definition sourcedIn ::
  "gostring set \<Rightarrow> (gostring \<Rightarrow> gostring) \<Rightarrow> (gostring, 'x reuse_vector) gomap
     \<Rightarrow> (nat \<Rightarrow> nat \<Rightarrow> gostring list \<Rightarrow> 'e + 'x list batch_result) \<Rightarrow> 'f stored_chunk \<Rightarrow> 'x list \<Rightarrow> bool" where
  "sourcedIn paths h reuse embedFn c v \<longleftrightarrow> sourced h reuse embedFn c v \<and> RelativePath c \<in> paths"

lemma splitChunk_path: "d \<in> set (splitChunkAtBudget c k) \<Longrightarrow> RelativePath d = RelativePath c"
  by (auto simp: splitChunkAtBudget_def splitChild_def split: prod.splits)

lemma halves_path:
  "halves M N \<Longrightarrow> (\<forall>c. c \<in># M \<longrightarrow> RelativePath c \<in> paths) \<Longrightarrow> (\<forall>c. c \<in># N \<longrightarrow> RelativePath c \<in> paths)"
proof (induction rule: rtranclp_induct)
  case (step N N')
  from step(2) step.IH [OF step.prems] show ?case
    by (cases rule: halve.cases) (auto simp: splitChunkInHalf_def dest: splitChunk_path)
qed

text \<open>One batch, from the answers for its misses to the acknowledged rows.\<close>

lemma retried_chunks:
  fixes embedFn :: "nat \<Rightarrow> nat \<Rightarrow> gostring list \<Rightarrow> 'e + 'x list batch_result"
  assumes "accounted (\<lambda>n. embedFn k (Suc n)) ov (Inr (rc, rv, dr))"
  shows "list_all2 (sourced h reuse embedFn) rc rv"
    and "\<exists>D. size D = dr \<and> halves (mset ov) (mset rc + D)"
proof -
  from assms have "list_all2 (answered (\<lambda>n. embedFn k (Suc n))) rc rv"
    by (simp add: accounted_def)
  then show "list_all2 (sourced h reuse embedFn) rc rv"
    by (rule list_all2_mono) (auto simp: sourced_def dest: answered_shift)
qed (use assms in \<open>simp add: accounted_def\<close>)

lemma processBatch_result:
  fixes embedFn :: "nat \<Rightarrow> nat \<Rightarrow> gostring list \<Rightarrow> 'e + 'x list batch_result"
    and b :: "'f stored_chunk list"
  assumes "rowsOk h cols (sourcedIn paths h reuse embedFn :: 'f stored_chunk \<Rightarrow> 'x list \<Rightarrow> bool) (Acknowledged st)"
    and "accounts done st" and paths: "\<forall>c\<in>set b. RelativePath c \<in> paths"
  shows "\<exists>st' err. processBatch cfg env h embedFn reuse cols k st b = Some (st', err) \<and>
    rowsOk h cols (sourcedIn paths h reuse embedFn :: 'f stored_chunk \<Rightarrow> 'x list \<Rightarrow> bool) (Acknowledged st') \<and>
    (err = None \<longrightarrow> accounts (done @ b) st')"
proof (cases "embedChunkBatch h (CfgEmbeddingModel cfg) (embedFn k 0) reuse b")
  case (Inl e)
  with assms show ?thesis by (simp add: processBatch_def)
next
  case (Inr emb)
  let ?ok = "sourcedIn paths h reuse embedFn :: 'f stored_chunk \<Rightarrow> 'x list \<Rightarrow> bool"
  let ?ov = "collectOversizedChunks b emb" and ?ref = "length (collectEmptyRefusedChunks b emb)"
  note len = embedChunkBatch_lengths [OF Inr]
  obtain kc kv where f: "filterEmbeddedChunks b (CbeVectors emb) = (kc, kv)" by force
  have "i < length (CbeVectors emb) \<Longrightarrow> CbeVectors emb ! i = Some v \<Longrightarrow> ?ok (b ! i) v" for i v
    using embedChunkBatch_sourced [of h _ embedFn k, OF Inr] len paths by (auto simp: sourcedIn_def)
  then have al: "list_all2 ?ok kc kv" "length (embeddedRowModels emb) = length kc"
    using filterEmbedded_aligned [OF f, of ?ok] by auto
  obtain N where N: "mset b = mset kc + mset ?ov + N" "size N \<le> ?ref"
    using batch_partition [OF len(1,3)] f by auto
  obtain res where res: "retryOversized cfg h (\<lambda>n. embedFn k (Suc n)) ?ov = Some res"
    "accounted (\<lambda>n. embedFn k (Suc n)) ?ov res" using retryOversized_returns by blast
  show ?thesis
  proof (cases res)
    case (Inl e)
    with Inr f res(1) assms show ?thesis by (simp add: processBatch_def Let_def)
  next
    case res': (Inr t)
    obtain rc rv dr where t: "t = (rc, rv, dr)" by (cases t)
    note r = retried_chunks [of embedFn k, OF res(2) [unfolded res' t]]
    from r(2) obtain D where D: "size D = dr" "halves (mset ?ov) (mset rc + D)" by blast
    have "\<forall>c. c \<in># mset ?ov \<longrightarrow> RelativePath c \<in> paths"
      using paths arg_cong [OF N(1), of set_mset] by auto
    from halves_path [OF D(2) this] have "\<forall>c\<in>set rc. RelativePath c \<in> paths" by simp
    with r(1) [of h reuse] have "list_all2 ?ok rc rv" by (auto simp: sourcedIn_def list_all2_conv_all_nth)
    with al(1) have al': "list_all2 ?ok (kc @ rc) (kv @ rv)" by (rule list_all2_appendI)
    let ?st2 = "st\<lparr>RefusedEmptyInputs := RefusedEmptyInputs st + safeInt32FromInt (int ?ref),
      ChunksDropped := ChunksDropped st + safeInt32FromInt (int dr)\<rparr>"
    obtain st3 w err where wr: "writeEmbeddedChunkBatch env h (CfgEmbeddingModel cfg) cols ?st2
        (kc @ rc) (kv @ rv) (embeddedRowModels emb @ replicate (length rc) (CfgEmbeddingModel cfg))
        (addReuseCatalogVectors (newlyEmbeddedReuseCatalog h reuse kc kv) rc rv) = (st3, w, err)"
      by (metis surj_pair)
    from writeEmbedded_wrote [OF wr al'] al(2)
    obtain rows where rows: "Acknowledged st3 = Acknowledged st @ rows" "rowsOk h cols ?ok rows"
      "err = None \<longrightarrow> map (RowContent \<circ> fst) rows = map Content (kc @ rc)"
      "ChunksDropped st3 = ChunksDropped st + safeInt32FromInt (int dr)"
      "RefusedEmptyInputs st3 = RefusedEmptyInputs st + safeInt32FromInt (int ?ref)"
      by (auto simp: wrote_def)
    have "err = None \<Longrightarrow> accounts (done @ b) st3"
      by (rule accounts_batch [OF assms(2) N D(2,1) rows(4,5)]) (use rows in simp)
    with Inr f res(1) res' t wr assms rows(1,2) show ?thesis
      by (cases err) (simp_all add: processBatch_def Let_def)
  qed
qed

lemma batches_loop_result:
  fixes embedFn :: "nat \<Rightarrow> nat \<Rightarrow> gostring list \<Rightarrow> 'e + 'x list batch_result"
    and bs :: "'f stored_chunk list list"
  assumes "rowsOk h cols (sourcedIn paths h reuse embedFn :: 'f stored_chunk \<Rightarrow> 'x list \<Rightarrow> bool) (Acknowledged st)"
    and "accounts done st" and "\<forall>b\<in>set bs. \<forall>c\<in>set b. RelativePath c \<in> paths"
  shows "\<exists>st' err. batches_loop cfg env h embedFn reuse cols k st bs = Some (st', err) \<and>
    rowsOk h cols (sourcedIn paths h reuse embedFn :: 'f stored_chunk \<Rightarrow> 'x list \<Rightarrow> bool) (Acknowledged st') \<and>
    (err = None \<longrightarrow> accounts (done @ concat bs) st')"
  using assms
proof (induction bs arbitrary: k st "done")
  case Nil
  then show ?case by simp
next
  case (Cons b bs)
  from Cons.prems(3) have b: "\<forall>c\<in>set b. RelativePath c \<in> paths" and bs: "\<forall>b\<in>set bs. \<forall>c\<in>set b. RelativePath c \<in> paths" by simp_all
  from processBatch_result [OF Cons.prems(1,2) b, of cfg env k] obtain st1 err1 where
    p: "processBatch cfg env h embedFn reuse cols k st b = Some (st1, err1)"
    "rowsOk h cols (sourcedIn paths h reuse embedFn :: 'f stored_chunk \<Rightarrow> 'x list \<Rightarrow> bool) (Acknowledged st1)"
    "err1 = None \<longrightarrow> accounts (done @ b) st1" by blast
  show ?case
  proof (cases err1)
    case None
    with Cons.IH [OF p(2) _ bs, of "done @ b" "Suc k"] p show ?thesis by simp
  qed (use p in simp)
qed

lemma accounts_initial: "accounts [] (initialPipeState ready)"
  unfolding accounts_def initialPipeState_def
  by (auto intro!: exI [of _ "[]"] exI [of _ "{#}"])

lemma pack_concat_embedding: "concat (packForEmbedding cfg h reuse chunks) = chunks"
  by (simp add: packForEmbedding_def Let_def tokens.pack_concat)

lemma insertChunksBatched_result:
  fixes embedFn :: "nat \<Rightarrow> nat \<Rightarrow> gostring list \<Rightarrow> 'e + 'x list batch_result"
    and chunks :: "'f stored_chunk list"
  shows "\<exists>st' err. insertChunksBatched cfg env h embedFn reuse cols ready chunks = Some (st', err) \<and>
    rowsOk h cols (sourcedIn (RelativePath ` set chunks) h reuse embedFn :: 'f stored_chunk \<Rightarrow> 'x list \<Rightarrow> bool) (Acknowledged st') \<and>
    (err = None \<longrightarrow> accounts chunks st')"
proof -
  have "\<forall>b\<in>set (packForEmbedding cfg h reuse chunks). \<forall>c\<in>set b. RelativePath c \<in> RelativePath ` set chunks"
    using arg_cong [OF pack_concat_embedding [of cfg h reuse chunks], of set] by auto
  from batches_loop_result [of h cols "RelativePath ` set chunks" reuse embedFn "initialPipeState ready" "[]", OF _ _ this] accounts_initial [of ready]
  show ?thesis by (simp add: insertChunksBatched_def pack_concat_embedding initialPipeState_def)
qed

text \<open>
  C25: A run of the embed-and-insert loop always ends, with success or an error, and whatever the
  endpoint and the store do: every row the store acknowledged, also before a later failure, is the
  row of a chunk under its own primary key with a vector that is the reusable vector of exactly
  that content or the endpoint's answer to exactly that content.
\<close>

theorem pipeline_rows_sound:
  fixes chunks :: "'f stored_chunk list"
  shows "\<exists>st err. insertChunksBatched cfg env h embedFn reuse columnSet ready chunks = Some (st, err) \<and>
    (\<forall>p \<in> set (Acknowledged st). \<exists>(c :: 'f stored_chunk) v.
       fst p = insertRow h columnSet c v \<and> sourced h reuse embedFn c v)"
  using insertChunksBatched_result [of cfg env h embedFn reuse columnSet ready chunks]
  unfolding rowsOk_def sourcedIn_def by blast


section \<open>Witnesses\<close>

definition sampleEnv :: "(char, unit) store_env" where
  "sampleEnv = \<lparr>EnvAppendCatalog = (\<lambda>_ _. None), EnvCreateCollection = (\<lambda>_ _. None),
     EnvEnsureColumns = (\<lambda>_. None), EnvExecuteInsert = (\<lambda>_ rows. Inr (length rows))\<rparr>"

definition sampleConfig :: pipe_config where
  "sampleConfig = \<lparr>CfgEmbeddingModel = ''m'', CfgActiveTokenLimit = 512, CfgBatchSize = 2,
     CfgBatchTokenBudget = 6000\<rparr>"

definition sampleRun where
  "sampleRun = insertChunksBatched sampleConfig sampleEnv id (\<lambda>_. sampleEndpoint) [] CodeColumns False
     [sampleChunk ''abcde'' 0, sampleChunk ''f'' 0]"

lemma sampleRun_result:
  "map_option (\<lambda>(st, err). (map (RowContent \<circ> fst) (Acknowledged st), ChunksDropped st,
       RefusedEmptyInputs st, CollectionRowsWritten st, err)) sampleRun
    = Some ([''f'', ''ab'', ''cd'', ''e''], 0, 0, 4, None)"
  by code_simp

theorem pipeline_rows_sound_witness:
  "\<exists>st (c :: unit stored_chunk) v. sampleRun = Some (st, None) \<and> length (Acknowledged st) = 4 \<and>
     fst (Acknowledged st ! 0) = insertRow id CodeColumns c v \<and> sourced id [] (\<lambda>_. sampleEndpoint) c v"
proof -
  obtain st where st: "sampleRun = Some (st, None)"
    "map (RowContent \<circ> fst) (Acknowledged st) = [''f'', ''ab'', ''cd'', ''e'']"
    using sampleRun_result by auto
  have "length (Acknowledged st) = 4"
    using arg_cong [OF st(2), where f = length] by simp
  moreover from this have "Acknowledged st ! 0 \<in> set (Acknowledged st)" by simp
  ultimately show ?thesis using st(1) pipeline_rows_sound [of sampleConfig sampleEnv id "\<lambda>_. sampleEndpoint" "[]" CodeColumns False
      "[sampleChunk ''abcde'' 0, sampleChunk ''f'' 0]"]
    unfolding sampleRun_def by fastforce
qed


end
