(* ===== verification/Residency.thy ===== *)
theory Residency
  imports GoStrings
begin

text \<open>
  The residency controller of the Milvus backend (\<open>internal/semantic/residency_controller.go\<close>,
  \<open>residency_timers.go\<close>, \<open>residency_resident.go\<close>, \<open>residency_refresh.go\<close>): which collections are
  loaded, who uses them, and when an idle one is unloaded.

  Entries are shared by pointer (a pin keeps its entry across a rename), so they live in a heap, a
  list indexed by address, and the map \<open>entries\<close> holds addresses. A channel that is closed to wake
  waiters is a counter of the times it was replaced. Every function is one section under the
  controller's mutex; an operation that has to wait reports it, and the caller runs its next
  attempt after the entry changed. Goroutines of loads and unloads in flight are the lists
  \<open>RcLoads\<close> and \<open>RcUnloads\<close>; idle timers are the callbacks \<open>(name, generation, due)\<close>, and a step may
  run any callback, also one that was stopped too late. The clock reading is an argument \<open>now\<close>; the
  zero time is \<^const>\<open>None\<close>.
\<close>

section \<open>State\<close>

datatype residency_state =
    collectionResidencyUnknown
  | collectionResidencyCold
  | collectionResidencyLoading
  | collectionResidencyReady

record res_entry =
  EntName :: string
  EntState :: residency_state
  EntLeases :: nat
  EntIdleResetPending :: bool
  EntObservations :: nat
  EntPins :: nat
  EntLoad :: "nat option"
  EntIdleTimer :: "(string \<times> uint64 \<times> int) option"
  EntIdleGeneration :: uint64
  EntIdleDeadline :: "int option"
  EntActiveTransition :: bool
  EntMaintenance :: bool
  EntReconciliation :: uint64
  EntChanged :: nat

record res_config =
  CfgIdleTimeout :: int
  CfgHasUnload :: bool

record res_ctrl =
  RcEntries :: "(string, nat) gomap"
  RcHeap :: "res_entry list"
  RcGeneration :: uint64
  RcActivity :: "(string, uint64) gomap"
  RcClosed :: bool
  RcNextFlight :: nat
  RcFlightErrs :: "(nat, bool) gomap"
  RcLoads :: "(nat \<times> nat) list"
  RcUnloads :: "nat list"

definition newCollectionResidencyController :: res_ctrl where
  "newCollectionResidencyController =
     \<lparr>RcEntries = [], RcHeap = [], RcGeneration = 0, RcActivity = [], RcClosed = False,
      RcNextFlight = 0, RcFlightErrs = [], RcLoads = [], RcUnloads = []\<rparr>"

definition recoveryCollectionSuffix :: string where
  "recoveryCollectionSuffix = ''_swap_previous''"

definition isRecoveryCollection :: "string \<Rightarrow> bool" where
  "isRecoveryCollection name = hasSuffix name recoveryCollectionSuffix"

definition lookupEntry :: "res_ctrl \<Rightarrow> string \<Rightarrow> nat option" where
  "lookupEntry c name = map_of (RcEntries c) name"

definition updEntry :: "nat \<Rightarrow> (res_entry \<Rightarrow> res_entry) \<Rightarrow> res_ctrl \<Rightarrow> res_ctrl" where
  "updEntry a f c = c\<lparr>RcHeap := (RcHeap c)[a := f (RcHeap c ! a)]\<rparr>"

section \<open>Timers of an entry\<close>

definition stopIdleTimerLocked :: "res_entry \<Rightarrow> res_entry" where
  "stopIdleTimerLocked e = e\<lparr>EntIdleTimer := None, EntIdleGeneration := EntIdleGeneration e + 1\<rparr>"

definition cancelIdleTimerLocked :: "res_entry \<Rightarrow> res_entry" where
  "cancelIdleTimerLocked e = (stopIdleTimerLocked e)\<lparr>EntIdleDeadline := None\<rparr>"

definition pauseIdleTimerLocked :: "res_entry \<Rightarrow> res_entry" where
  "pauseIdleTimerLocked e = stopIdleTimerLocked e"

definition armIdleTimerLocked :: "res_config \<Rightarrow> int \<Rightarrow> string \<Rightarrow> res_entry \<Rightarrow> res_entry" where
  "armIdleTimerLocked cfg now name e0 =
     (let e = cancelIdleTimerLocked e0
      in if isRecoveryCollection name \<or> CfgIdleTimeout cfg \<le> 0 \<or> \<not> CfgHasUnload cfg
            \<or> EntLeases e \<noteq> 0 \<or> EntPins e \<noteq> 0 \<or> EntActiveTransition e \<or> EntMaintenance e
         then e
         else let e = e\<lparr>EntIdleDeadline := Some (now + CfgIdleTimeout cfg)\<rparr>
              in if EntObservations e \<noteq> 0 then e
                 else e\<lparr>EntIdleTimer := Some (name, EntIdleGeneration e, now + CfgIdleTimeout cfg)\<rparr>)"

definition resumeIdleTimerLocked :: "res_config \<Rightarrow> int \<Rightarrow> string \<Rightarrow> res_entry \<Rightarrow> res_entry" where
  "resumeIdleTimerLocked cfg now name e0 =
     (if isRecoveryCollection name then cancelIdleTimerLocked e0
      else let e = stopIdleTimerLocked e0
           in if CfgIdleTimeout cfg \<le> 0 \<or> \<not> CfgHasUnload cfg then e
              else case EntIdleDeadline e of
                None \<Rightarrow> e
              | Some deadline \<Rightarrow>
                  e\<lparr>EntIdleTimer := Some (name, EntIdleGeneration e, now + max (deadline - now) 0)\<rparr>)"

definition notifyEntry :: "res_entry \<Rightarrow> res_entry" where
  "notifyEntry e = e\<lparr>EntChanged := EntChanged e + 1\<rparr>"

definition entryHasActivityLocked :: "res_entry \<Rightarrow> bool" where
  "entryHasActivityLocked e \<longleftrightarrow>
     EntLeases e \<noteq> 0 \<or> EntObservations e \<noteq> 0 \<or> EntPins e \<noteq> 0 \<or> EntLoad e \<noteq> None
     \<or> EntActiveTransition e \<or> EntMaintenance e"

text \<open>An entry being unloaded, or under maintenance, makes a caller wait.\<close>

definition unloading :: "res_entry \<Rightarrow> bool" where
  "unloading e \<longleftrightarrow> EntActiveTransition e \<and> EntLoad e = None"

definition mustWait :: "res_entry \<Rightarrow> bool" where
  "mustWait e \<longleftrightarrow> EntMaintenance e \<or> unloading e"

section \<open>Entries\<close>

definition freshEntry :: "string \<Rightarrow> uint64 \<Rightarrow> res_entry" where
  "freshEntry name generation =
     \<lparr>EntName = name, EntState = collectionResidencyUnknown, EntLeases = 0,
      EntIdleResetPending = False, EntObservations = 0, EntPins = 0, EntLoad = None,
      EntIdleTimer = None, EntIdleGeneration = 0, EntIdleDeadline = None,
      EntActiveTransition = False, EntMaintenance = False, EntReconciliation = generation,
      EntChanged = 0\<rparr>"

definition entryLocked :: "string \<Rightarrow> res_ctrl \<Rightarrow> res_ctrl \<times> nat" where
  "entryLocked name c =
     (case lookupEntry c name of
        Some a \<Rightarrow> (c, a)
      | None \<Rightarrow>
          (c\<lparr>RcEntries := gm_put name (length (RcHeap c)) (RcEntries c),
             RcHeap := RcHeap c @ [freshEntry name (RcGeneration c)]\<rparr>, length (RcHeap c)))"

definition markReconciliationActivityLocked :: "string \<Rightarrow> nat \<Rightarrow> res_ctrl \<Rightarrow> res_ctrl" where
  "markReconciliationActivityLocked name a c =
     (updEntry a (\<lambda>e. e\<lparr>EntReconciliation := 0\<rparr>) c)
       \<lparr>RcActivity := gm_put name (RcGeneration c) (RcActivity c)\<rparr>"

section \<open>Loads\<close>

definition startLoadLocked :: "nat \<Rightarrow> res_ctrl \<Rightarrow> res_ctrl \<times> nat" where
  "startLoadLocked a c =
     (let flight = RcNextFlight c;
          c = updEntry a (\<lambda>e. e\<lparr>EntState := collectionResidencyLoading, EntLoad := Some flight,
                                 EntActiveTransition := True\<rparr>) c
      in (c\<lparr>RcNextFlight := flight + 1, RcLoads := (a, flight) # RcLoads c\<rparr>, flight))"

text \<open>
  The end of a load: the goroutine of the flight reports its outcome. A load that the entry no
  longer waits for changes nothing.
\<close>

definition finishLoadEntry :: "res_config \<Rightarrow> int \<Rightarrow> string \<Rightarrow> bool \<Rightarrow> res_entry \<Rightarrow> res_entry" where
  "finishLoadEntry cfg now name failed e0 =
     (let e = e0\<lparr>EntLoad := None, EntActiveTransition := False\<rparr>;
          e = (if \<not> failed
               then let e = e\<lparr>EntState := collectionResidencyReady\<rparr>
                    in if EntLeases e = 0 then armIdleTimerLocked cfg now name e else e
               else e\<lparr>EntState := collectionResidencyUnknown\<rparr>)
      in notifyEntry e)"

definition finishLoad :: "res_config \<Rightarrow> int \<Rightarrow> string \<Rightarrow> nat \<Rightarrow> nat \<Rightarrow> bool \<Rightarrow> res_ctrl \<Rightarrow> res_ctrl" where
  "finishLoad cfg now name a flight failed c =
     (let c = c\<lparr>RcLoads := remove1 (a, flight) (RcLoads c)\<rparr>
      in if EntLoad (RcHeap c ! a) \<noteq> Some flight then c
         else (updEntry a (finishLoadEntry cfg now name failed) c)
                \<lparr>RcFlightErrs := gm_put flight failed (RcFlightErrs c)\<rparr>)"

section \<open>Unloads\<close>

definition startUnload :: "string \<Rightarrow> uint64 \<Rightarrow> res_ctrl \<Rightarrow> res_ctrl" where
  "startUnload name generation c =
     (case lookupEntry c name of
        None \<Rightarrow> c
      | Some a \<Rightarrow>
          let e = RcHeap c ! a
          in if RcClosed c \<or> isRecoveryCollection name then c
             else if EntLeases e \<noteq> 0 \<or> EntObservations e \<noteq> 0 \<or> EntPins e \<noteq> 0 \<or> EntMaintenance e then c
             else if EntIdleGeneration e \<noteq> generation \<or> EntState e \<noteq> collectionResidencyReady
                     \<or> EntLoad e \<noteq> None \<or> EntActiveTransition e then c
             else (updEntry a (\<lambda>e. e\<lparr>EntIdleTimer := None, EntActiveTransition := True\<rparr>) c)
                    \<lparr>RcUnloads := a # RcUnloads c\<rparr>)"

definition finishUnloadEntry :: "bool \<Rightarrow> res_entry \<Rightarrow> res_entry" where
  "finishUnloadEntry failed e =
     (let e = notifyEntry (e\<lparr>EntActiveTransition := False\<rparr>)
      in e\<lparr>EntState := (if failed then collectionResidencyUnknown else collectionResidencyCold),
           EntIdleDeadline := None\<rparr>)"

definition finishUnload :: "nat \<Rightarrow> bool \<Rightarrow> res_ctrl \<Rightarrow> res_ctrl" where
  "finishUnload a failed c =
     (let c = c\<lparr>RcUnloads := remove1 a (RcUnloads c)\<rparr>
      in if \<not> EntActiveTransition (RcHeap c ! a) then c
         else updEntry a (finishUnloadEntry failed) c)"

section \<open>Leases, observations, pins\<close>

datatype acquire_outcome =
    AcquireClosed
  | AcquireWait nat
  | AcquireReady
  | AcquireLoad nat

text \<open>One attempt of \<open>Acquire\<close>, up to the point where it returns, waits or waits for a load.\<close>

definition acquireAttempt :: "string \<Rightarrow> res_ctrl \<Rightarrow> res_ctrl \<times> acquire_outcome" where
  "acquireAttempt name c =
     (if RcClosed c then (c, AcquireClosed)
      else let (c, a) = entryLocked name c;
               c = markReconciliationActivityLocked name a c
           in if mustWait (RcHeap c ! a) then (c, AcquireWait (EntChanged (RcHeap c ! a)))
              else let c = updEntry a (\<lambda>e. cancelIdleTimerLocked
                         (e\<lparr>EntLeases := EntLeases e + 1, EntIdleResetPending := True\<rparr>)) c
                   in if EntState (RcHeap c ! a) = collectionResidencyReady then (c, AcquireReady)
                      else case EntLoad (RcHeap c ! a) of
                        Some flight \<Rightarrow> (c, AcquireLoad flight)
                      | None \<Rightarrow> let (c, flight) = startLoadLocked a c in (c, AcquireLoad flight))"

definition releaseLeaseEntry :: "res_config \<Rightarrow> int \<Rightarrow> string \<Rightarrow> res_entry \<Rightarrow> res_entry" where
  "releaseLeaseEntry cfg now name e0 =
     (let e = notifyEntry (e0\<lparr>EntLeases := EntLeases e0 - 1\<rparr>)
      in if EntLeases e \<noteq> 0 then e
         else let resetsIdle = EntIdleResetPending e;
                  e = e\<lparr>EntIdleResetPending := False\<rparr>
              in if EntState e \<noteq> collectionResidencyReady then e
                 else if resetsIdle then armIdleTimerLocked cfg now name e
                 else resumeIdleTimerLocked cfg now name e)"

definition releaseLease :: "res_config \<Rightarrow> int \<Rightarrow> string \<Rightarrow> res_ctrl \<Rightarrow> res_ctrl" where
  "releaseLease cfg now name c =
     (case lookupEntry c name of
        None \<Rightarrow> c
      | Some a \<Rightarrow>
          if EntLeases (RcHeap c ! a) = 0 then c
          else updEntry a (releaseLeaseEntry cfg now name) c)"

text \<open>The rest of \<open>Acquire\<close> after waiting for a load: a failed wait gives the lease back.\<close>

definition acquireFinish :: "res_config \<Rightarrow> int \<Rightarrow> string \<Rightarrow> bool \<Rightarrow> res_ctrl \<Rightarrow> res_ctrl \<times> bool" where
  "acquireFinish cfg now name waitFailed c =
     (if waitFailed then (releaseLease cfg now name c, False) else (c, True))"

datatype resident_outcome = ResidentClosed | ResidentWait nat | ResidentCold | ResidentLease

definition acquireResidentAttempt :: "string \<Rightarrow> res_ctrl \<Rightarrow> res_ctrl \<times> resident_outcome" where
  "acquireResidentAttempt name c =
     (if RcClosed c then (c, ResidentClosed)
      else let (c, a) = entryLocked name c
           in if mustWait (RcHeap c ! a) then (c, ResidentWait (EntChanged (RcHeap c ! a)))
              else if EntState (RcHeap c ! a) \<noteq> collectionResidencyReady then (c, ResidentCold)
              else let c = markReconciliationActivityLocked name a c;
                       c = updEntry a (\<lambda>e. pauseIdleTimerLocked (e\<lparr>EntLeases := EntLeases e + 1\<rparr>)) c
                   in (c, ResidentLease))"

datatype observe_outcome = ObserveClosed | ObserveWait nat | Observed residency_state

definition observeAttempt :: "string \<Rightarrow> res_ctrl \<Rightarrow> res_ctrl \<times> observe_outcome" where
  "observeAttempt name c =
     (if RcClosed c then (c, ObserveClosed)
      else let (c, a) = entryLocked name c
           in if mustWait (RcHeap c ! a) then (c, ObserveWait (EntChanged (RcHeap c ! a)))
              else let c = updEntry a (\<lambda>e. pauseIdleTimerLocked
                         (e\<lparr>EntObservations := EntObservations e + 1\<rparr>)) c
                   in (c, Observed (EntState (RcHeap c ! a))))"

definition releaseObservationEntry :: "res_config \<Rightarrow> int \<Rightarrow> string \<Rightarrow> res_entry \<Rightarrow> res_entry" where
  "releaseObservationEntry cfg now name e0 =
     (let e = notifyEntry (e0\<lparr>EntObservations := EntObservations e0 - 1\<rparr>)
      in if EntObservations e = 0 \<and> EntState e = collectionResidencyReady
         then resumeIdleTimerLocked cfg now name e else e)"

definition releaseObservation :: "res_config \<Rightarrow> int \<Rightarrow> string \<Rightarrow> res_ctrl \<Rightarrow> res_ctrl" where
  "releaseObservation cfg now name c =
     (case lookupEntry c name of
        None \<Rightarrow> c
      | Some a \<Rightarrow>
          if EntObservations (RcHeap c ! a) = 0 then c
          else updEntry a (releaseObservationEntry cfg now name) c)"

datatype pin_outcome = PinClosed | PinWait nat | Pinned nat

definition pinAttempt :: "string \<Rightarrow> res_ctrl \<Rightarrow> res_ctrl \<times> pin_outcome" where
  "pinAttempt name c =
     (if RcClosed c then (c, PinClosed)
      else let (c, a) = entryLocked name c;
               c = markReconciliationActivityLocked name a c
           in if mustWait (RcHeap c ! a) then (c, PinWait (EntChanged (RcHeap c ! a)))
              else (updEntry a (\<lambda>e. cancelIdleTimerLocked (e\<lparr>EntPins := EntPins e + 1\<rparr>)) c, Pinned a))"

definition releasePinEntry :: "res_config \<Rightarrow> int \<Rightarrow> res_entry \<Rightarrow> res_entry" where
  "releasePinEntry cfg now e0 =
     (let e = notifyEntry (e0\<lparr>EntPins := EntPins e0 - 1\<rparr>)
      in if EntPins e = 0 \<and> EntState e = collectionResidencyReady
         then armIdleTimerLocked cfg now (EntName e) e else e)"

text \<open>A pin is released through its pointer, whatever the entry is called by then.\<close>

definition releasePin :: "res_config \<Rightarrow> int \<Rightarrow> nat \<Rightarrow> res_ctrl \<Rightarrow> res_ctrl" where
  "releasePin cfg now a c =
     (if EntPins (RcHeap c ! a) = 0 then c else updEntry a (releasePinEntry cfg now) c)"

section \<open>Names\<close>

definition Rename :: "string \<Rightarrow> string \<Rightarrow> res_ctrl \<Rightarrow> res_ctrl" where
  "Rename oldName newName c0 =
     (let c = c0\<lparr>RcActivity := gm_put newName (RcGeneration c0)
                   (gm_put oldName (RcGeneration c0) (RcActivity c0))\<rparr>
      in case lookupEntry c oldName of
           None \<Rightarrow> c
         | Some a \<Rightarrow>
             if oldName = newName then c
             else let c = updEntry a (\<lambda>e. e\<lparr>EntReconciliation := 0\<rparr>) c;
                      c = (case lookupEntry c newName of
                             Some b \<Rightarrow> if b \<noteq> a
                                      then updEntry b (\<lambda>e. notifyEntry (cancelIdleTimerLocked
                                             (e\<lparr>EntReconciliation := 0\<rparr>))) c
                                      else c
                           | None \<Rightarrow> c);
                      c = updEntry a (\<lambda>e. (notifyEntry (cancelIdleTimerLocked e))\<lparr>EntName := newName\<rparr>) c
                  in c\<lparr>RcEntries := gm_put newName a (gm_del oldName (RcEntries c))\<rparr>)"

definition Forget :: "string \<Rightarrow> res_ctrl \<Rightarrow> res_ctrl" where
  "Forget name c0 =
     (let c = c0\<lparr>RcActivity := gm_put name (RcGeneration c0) (RcActivity c0)\<rparr>
      in case lookupEntry c name of
           None \<Rightarrow> c
         | Some a \<Rightarrow>
             let c = updEntry a cancelIdleTimerLocked c; e = RcHeap c ! a
             in if EntLeases e \<noteq> 0 \<or> EntObservations e \<noteq> 0 \<or> EntPins e \<noteq> 0
                then updEntry a (\<lambda>e. notifyEntry (e\<lparr>EntState := collectionResidencyUnknown,
                                                     EntReconciliation := 0\<rparr>)) c
                else (updEntry a notifyEntry c)\<lparr>RcEntries := gm_del name (RcEntries c)\<rparr>)"

section \<open>Maintenance\<close>

definition sortedUniqueCollectionNames :: "string list \<Rightarrow> string list" where
  "sortedUniqueCollectionNames names = remdups_adj (sort names)"

datatype maintain_outcome = MaintainClosed | MaintainWait nat | MaintainAcquired

definition maintainAttempt :: "string \<Rightarrow> res_ctrl \<Rightarrow> res_ctrl \<times> maintain_outcome" where
  "maintainAttempt name c =
     (if RcClosed c then (c, MaintainClosed)
      else let (c, a) = entryLocked name c;
               c = markReconciliationActivityLocked name a c
           in if EntMaintenance (RcHeap c ! a) then (c, MaintainWait (EntChanged (RcHeap c ! a)))
              else (updEntry a (\<lambda>e. notifyEntry (cancelIdleTimerLocked (e\<lparr>EntMaintenance := True\<rparr>))) c,
                    MaintainAcquired))"

text \<open>Waiting for the users of a collection to drain. A missing entry is a nil dereference.\<close>

datatype drain_outcome = Drained | DrainWait nat | DrainPanic

definition drainAttempt :: "string \<Rightarrow> res_ctrl \<Rightarrow> drain_outcome" where
  "drainAttempt name c =
     (case lookupEntry c name of
        None \<Rightarrow> DrainPanic
      | Some a \<Rightarrow>
          let e = RcHeap c ! a
          in if EntLeases e = 0 \<and> EntObservations e = 0 \<and> \<not> EntActiveTransition e
             then Drained else DrainWait (EntChanged e))"

definition releaseMaintenanceEntry :: "res_config \<Rightarrow> int \<Rightarrow> string \<Rightarrow> res_entry \<Rightarrow> res_entry" where
  "releaseMaintenanceEntry cfg now name e0 =
     (let e = notifyEntry (e0\<lparr>EntMaintenance := False\<rparr>)
      in if EntState e = collectionResidencyReady then armIdleTimerLocked cfg now name e else e)"

fun releaseMaintenanceLocked :: "res_config \<Rightarrow> int \<Rightarrow> string list \<Rightarrow> res_ctrl \<Rightarrow> res_ctrl" where
  "releaseMaintenanceLocked cfg now [] c = c"
| "releaseMaintenanceLocked cfg now (name # names) c =
     releaseMaintenanceLocked cfg now names
       (case lookupEntry c name of
          None \<Rightarrow> c
        | Some a \<Rightarrow>
            if \<not> EntMaintenance (RcHeap c ! a) then c
            else updEntry a (releaseMaintenanceEntry cfg now name) c)"

section \<open>Reconciliation with the store\<close>

definition mapEntries :: "(res_entry \<Rightarrow> res_entry) \<Rightarrow> res_ctrl \<Rightarrow> res_ctrl" where
  "mapEntries f c = foldl (\<lambda>c (name, a). updEntry a f c) c (RcEntries c)"

definition beginReconciliationEntry :: "uint64 \<Rightarrow> res_entry \<Rightarrow> res_entry" where
  "beginReconciliationEntry generation e0 =
     (let e = cancelIdleTimerLocked e0
      in if isRecoveryCollection (EntName e) then e\<lparr>EntReconciliation := 0\<rparr>
         else notifyEntry (e\<lparr>EntState := collectionResidencyUnknown,
                EntReconciliation := (if entryHasActivityLocked e then 0 else generation)\<rparr>))"

definition beginReconciliation :: "res_ctrl \<Rightarrow> res_ctrl \<times> uint64" where
  "beginReconciliation c =
     (let generation = RcGeneration c + 1;
          c = mapEntries (beginReconciliationEntry generation) (c\<lparr>RcGeneration := generation\<rparr>)
      in (c, generation))"

definition invalidateEntry :: "res_entry \<Rightarrow> res_entry" where
  "invalidateEntry e0 =
     (let e = cancelIdleTimerLocked e0
      in if isRecoveryCollection (EntName e) then e\<lparr>EntReconciliation := 0\<rparr>
         else notifyEntry (e\<lparr>EntState := collectionResidencyUnknown, EntReconciliation := 0\<rparr>))"

definition invalidateResidency :: "res_ctrl \<Rightarrow> res_ctrl" where
  "invalidateResidency c = mapEntries invalidateEntry (c\<lparr>RcGeneration := RcGeneration c + 1\<rparr>)"

definition applyReconciliationEntry ::
  "res_config \<Rightarrow> int \<Rightarrow> string \<Rightarrow> residency_state \<Rightarrow> res_entry \<Rightarrow> res_entry" where
  "applyReconciliationEntry cfg now name state e0 =
     (let e = notifyEntry ((cancelIdleTimerLocked e0)\<lparr>EntState := state, EntReconciliation := 0\<rparr>)
      in if state = collectionResidencyReady \<and> \<not> isRecoveryCollection name
         then armIdleTimerLocked cfg now name e else e)"

definition applyReconciliation ::
  "res_config \<Rightarrow> int \<Rightarrow> uint64 \<Rightarrow> string \<Rightarrow> residency_state \<Rightarrow> res_ctrl \<Rightarrow> res_ctrl" where
  "applyReconciliation cfg now generation name state c =
     (if isRecoveryCollection name
      then (case lookupEntry c name of
              Some a \<Rightarrow> updEntry a (\<lambda>e. (cancelIdleTimerLocked e)\<lparr>EntReconciliation := 0\<rparr>) c
            | None \<Rightarrow> c)
      else if RcClosed c \<or> generation \<noteq> RcGeneration c \<or> gm_get0 0 (RcActivity c) name \<ge> generation then c
      else let (c, a) = (case lookupEntry c name of
                   Some a \<Rightarrow> (c, a)
                 | None \<Rightarrow> let (c, a) = entryLocked name c
                           in (updEntry a (\<lambda>e. e\<lparr>EntReconciliation := generation\<rparr>) c, a))
           in if EntReconciliation (RcHeap c ! a) \<noteq> generation then c
              else updEntry a (applyReconciliationEntry cfg now name state) c)"

definition prepareLoadingReconciliation :: "uint64 \<Rightarrow> string \<Rightarrow> res_ctrl \<Rightarrow> res_ctrl \<times> bool \<times> bool" where
  "prepareLoadingReconciliation generation name c =
     (if RcClosed c \<or> generation \<noteq> RcGeneration c \<or> gm_get0 0 (RcActivity c) name \<ge> generation
      then (c, False, False)
      else case lookupEntry c name of
        None \<Rightarrow> (c, False, False)
      | Some a \<Rightarrow>
          let e = RcHeap c ! a
          in if EntState e \<noteq> collectionResidencyLoading \<and> EntState e \<noteq> collectionResidencyUnknown
             then (c, False, False)
             else if entryHasActivityLocked e then (c, False, True)
             else (updEntry a (\<lambda>e. e\<lparr>EntReconciliation := generation\<rparr>) c, True, True))"

section \<open>Shutdown\<close>

text \<open>
  \<open>Close\<close> also cancels the contexts of transitions in flight; they end by reporting an outcome.
\<close>

definition closeLocked :: "res_ctrl \<Rightarrow> res_ctrl" where
  "closeLocked c =
     (if RcClosed c then c
      else mapEntries (\<lambda>e. notifyEntry (cancelIdleTimerLocked e)) (c\<lparr>RcClosed := True\<rparr>))"

end
