(* ===== verification/ResidencyInvariant.thy ===== *)
theory ResidencyInvariant
  imports Residency
begin

text \<open>
  The controller as a state machine: one rule per locked section, in any order and with any
  arguments, which covers every interleaving of its clients, its goroutines and its timers. The
  invariant says that transitions in flight and entries agree and that an entry with an unload in
  flight is not in use; it holds in every reachable state.
\<close>

section \<open>Steps\<close>

inductive res_step :: "res_config \<Rightarrow> res_ctrl \<Rightarrow> res_ctrl \<Rightarrow> bool" for cfg where
  step_acquire: "res_step cfg c (fst (acquireAttempt name c))"
| step_acquireFinish: "res_step cfg c (fst (acquireFinish cfg now name failed c))"
| step_releaseLease: "res_step cfg c (releaseLease cfg now name c)"
| step_resident: "res_step cfg c (fst (acquireResidentAttempt name c))"
| step_observe: "res_step cfg c (fst (observeAttempt name c))"
| step_releaseObservation: "res_step cfg c (releaseObservation cfg now name c)"
| step_pin: "res_step cfg c (fst (pinAttempt name c))"
| step_releasePin: "a < length (RcHeap c) \<Longrightarrow> res_step cfg c (releasePin cfg now a c)"
| step_rename: "res_step cfg c (Rename oldName newName c)"
| step_forget: "res_step cfg c (Forget name c)"
| step_maintain: "res_step cfg c (fst (maintainAttempt name c))"
| step_releaseMaintenance: "res_step cfg c (releaseMaintenanceLocked cfg now names c)"
| step_begin: "res_step cfg c (fst (beginReconciliation c))"
| step_invalidate: "res_step cfg c (invalidateResidency c)"
| step_apply: "res_step cfg c (applyReconciliation cfg now generation name state c)"
| step_prepare: "res_step cfg c (fst (prepareLoadingReconciliation generation name c))"
| step_timer: "res_step cfg c (startUnload name generation c)"
| step_finishLoad: "(a, flight) \<in> set (RcLoads c) \<Longrightarrow> res_step cfg c (finishLoad cfg now name a flight failed c)"
| step_finishUnload: "a \<in> set (RcUnloads c) \<Longrightarrow> res_step cfg c (finishUnload a failed c)"
| step_close: "res_step cfg c (closeLocked c)"

section \<open>The invariant\<close>

definition inUse :: "res_entry \<Rightarrow> bool" where
  "inUse e \<longleftrightarrow> EntLeases e \<noteq> 0 \<or> EntObservations e \<noteq> 0 \<or> EntPins e \<noteq> 0"

definition ent_ok :: "res_entry \<Rightarrow> bool" where
  "ent_ok e \<longleftrightarrow> (unloading e \<longrightarrow> \<not> inUse e) \<and> (EntLoad e \<noteq> None \<longrightarrow> EntActiveTransition e) \<and>
     (\<forall>n g d. EntIdleTimer e = Some (n, g, d) \<longrightarrow> g = EntIdleGeneration e)"

definition res_inv :: "res_ctrl \<Rightarrow> bool" where
  "res_inv c \<longleftrightarrow>
     gm_wf (RcEntries c) \<and>
     (\<forall>n a. (n, a) \<in> set (RcEntries c) \<longrightarrow> a < length (RcHeap c) \<and> EntName (RcHeap c ! a) = n) \<and>
     (\<forall>a < length (RcHeap c). ent_ok (RcHeap c ! a)) \<and>
     distinct (RcUnloads c) \<and> distinct (RcLoads c) \<and>
     (\<forall>a. a \<in> set (RcUnloads c) \<longleftrightarrow> a < length (RcHeap c) \<and> unloading (RcHeap c ! a)) \<and>
     (\<forall>a f. (a, f) \<in> set (RcLoads c) \<longleftrightarrow> a < length (RcHeap c) \<and> EntLoad (RcHeap c ! a) = Some f) \<and>
     (\<forall>a f. (a, f) \<in> set (RcLoads c) \<longrightarrow> f < RcNextFlight c)"

text \<open>What an update of an entry must keep.\<close>

definition keeps :: "res_entry \<Rightarrow> res_entry \<Rightarrow> bool" where
  "keeps e e' \<longleftrightarrow> EntName e' = EntName e \<and> EntLoad e' = EntLoad e \<and>
     EntActiveTransition e' = EntActiveTransition e \<and> ent_ok e'"

lemmas res_entry_defs = stopIdleTimerLocked_def cancelIdleTimerLocked_def pauseIdleTimerLocked_def
  notifyEntry_def

lemmas res_keeps_defs = keeps_def ent_ok_def inUse_def unloading_def

lemma keeps_refl [simp]: "keeps e e \<longleftrightarrow> ent_ok e"
  by (simp add: keeps_def)

text \<open>One more update after updates that keep the entry.\<close>

lemma keeps_timers [simp]:
  "keeps e x \<Longrightarrow> keeps e (cancelIdleTimerLocked x)"
  "keeps e x \<Longrightarrow> keeps e (pauseIdleTimerLocked x)"
  "keeps e x \<Longrightarrow> keeps e (notifyEntry x)"
  by (auto simp: res_entry_defs res_keeps_defs)

lemma keeps_arm [simp]: "keeps e x \<Longrightarrow> keeps e (armIdleTimerLocked cfg now name x)"
  by (auto simp: res_entry_defs res_keeps_defs armIdleTimerLocked_def Let_def)

lemma keeps_resume [simp]: "keeps e x \<Longrightarrow> keeps e (resumeIdleTimerLocked cfg now name x)"
  by (auto simp: res_entry_defs res_keeps_defs resumeIdleTimerLocked_def Let_def split: option.splits)

lemma keeps_fields [simp]:
  "keeps e x \<Longrightarrow> keeps e (x\<lparr>EntState := st\<rparr>)"
  "keeps e x \<Longrightarrow> keeps e (x\<lparr>EntReconciliation := r\<rparr>)"
  "keeps e x \<Longrightarrow> keeps e (x\<lparr>EntState := st, EntReconciliation := r\<rparr>)"
  "keeps e x \<Longrightarrow> keeps e (x\<lparr>EntMaintenance := m\<rparr>)"
  "keeps e x \<Longrightarrow> keeps e (x\<lparr>EntIdleResetPending := m\<rparr>)"
  by (auto simp: res_keeps_defs)

lemma keeps_fewer [simp]:
  "ent_ok e \<Longrightarrow> keeps e (e\<lparr>EntLeases := EntLeases e - k\<rparr>)"
  "ent_ok e \<Longrightarrow> keeps e (e\<lparr>EntObservations := EntObservations e - k\<rparr>)"
  "ent_ok e \<Longrightarrow> keeps e (e\<lparr>EntPins := EntPins e - k\<rparr>)"
  by (auto simp: res_keeps_defs)

lemma keeps_more [simp]:
  "ent_ok e \<Longrightarrow> \<not> unloading e \<Longrightarrow> keeps e (e\<lparr>EntLeases := k, EntIdleResetPending := b\<rparr>)"
  "ent_ok e \<Longrightarrow> \<not> unloading e \<Longrightarrow> keeps e (e\<lparr>EntLeases := k\<rparr>)"
  "ent_ok e \<Longrightarrow> \<not> unloading e \<Longrightarrow> keeps e (e\<lparr>EntObservations := k\<rparr>)"
  "ent_ok e \<Longrightarrow> \<not> unloading e \<Longrightarrow> keeps e (e\<lparr>EntPins := k\<rparr>)"
  by (auto simp: res_keeps_defs)

section \<open>Preservation\<close>

lemma length_updEntry [simp]: "length (RcHeap (updEntry a f c)) = length (RcHeap c)"
  by (simp add: updEntry_def)

lemma nth_updEntry [simp]:
  "a < length (RcHeap c) \<Longrightarrow> RcHeap (updEntry a f c) ! b = (if b = a then f (RcHeap c ! a) else RcHeap c ! b)"
  by (auto simp: updEntry_def)

lemma updEntry_frame [simp]:
  "RcEntries (updEntry a f c) = RcEntries c" "RcLoads (updEntry a f c) = RcLoads c"
  "RcUnloads (updEntry a f c) = RcUnloads c" "RcNextFlight (updEntry a f c) = RcNextFlight c"
  "RcGeneration (updEntry a f c) = RcGeneration c" "RcActivity (updEntry a f c) = RcActivity c"
  "RcClosed (updEntry a f c) = RcClosed c"
  by (simp_all add: updEntry_def)

lemma lookup_updEntry [simp]: "lookupEntry (updEntry a f c) n = lookupEntry c n"
  by (simp add: lookupEntry_def)

lemma inv_ok: "res_inv c \<Longrightarrow> a < length (RcHeap c) \<Longrightarrow> ent_ok (RcHeap c ! a)"
  by (simp add: res_inv_def)

lemma inv_lookup: "res_inv c \<Longrightarrow> lookupEntry c n = Some a \<Longrightarrow> a < length (RcHeap c)"
  by (auto simp: res_inv_def lookupEntry_def dest: map_of_SomeD)

lemma inv_upd:
  assumes "res_inv c" and "a < length (RcHeap c)" and "keeps (RcHeap c ! a) (f (RcHeap c ! a))"
  shows "res_inv (updEntry a f c)"
proof -
  have "unloading (RcHeap (updEntry a f c) ! b) = unloading (RcHeap c ! b)"
    "EntLoad (RcHeap (updEntry a f c) ! b) = EntLoad (RcHeap c ! b)"
    "EntName (RcHeap (updEntry a f c) ! b) = EntName (RcHeap c ! b)" for b
    using assms(2,3) by (auto simp: keeps_def unloading_def)
  then show ?thesis
    using assms unfolding res_inv_def by (auto simp: keeps_def)
qed

text \<open>Fields outside the invariant.\<close>

lemma inv_frame [simp]:
  "res_inv (c\<lparr>RcActivity := x\<rparr>) = res_inv c" "res_inv (c\<lparr>RcGeneration := g\<rparr>) = res_inv c"
  "res_inv (c\<lparr>RcClosed := b\<rparr>) = res_inv c" "res_inv (c\<lparr>RcFlightErrs := y\<rparr>) = res_inv c"
  by (simp_all add: res_inv_def)

lemma lookup_frame [simp]:
  "lookupEntry (c\<lparr>RcActivity := x\<rparr>) n = lookupEntry c n" "lookupEntry (c\<lparr>RcGeneration := g\<rparr>) n = lookupEntry c n"
  "lookupEntry (c\<lparr>RcClosed := b\<rparr>) n = lookupEntry c n"
  by (simp_all add: lookupEntry_def)

lemma entryLocked_inv:
  assumes "res_inv c" and "entryLocked n c = (c', a)"
  shows "res_inv c'" and "a < length (RcHeap c')" and "lookupEntry c' n = Some a"
proof -
  have "res_inv c' \<and> a < length (RcHeap c') \<and> lookupEntry c' n = Some a"
  proof (cases "lookupEntry c n")
    case (Some b)
    with assms show ?thesis by (auto simp: entryLocked_def dest: inv_lookup)
  next
    case None
    have c': "c' = c\<lparr>RcEntries := gm_put n (length (RcHeap c)) (RcEntries c),
        RcHeap := RcHeap c @ [freshEntry n (RcGeneration c)]\<rparr>" "a = length (RcHeap c)"
      using assms(2) None by (auto simp: entryLocked_def)
    have old: "b < length (RcHeap c)" if "b \<in> set (RcUnloads c) \<or> (\<exists>f. (b, f) \<in> set (RcLoads c))" for b
      using assms(1) that by (auto simp: res_inv_def)
    have "ent_ok (freshEntry n (RcGeneration c))" "\<not> unloading (freshEntry n (RcGeneration c))"
      "EntLoad (freshEntry n (RcGeneration c)) = None" "EntName (freshEntry n (RcGeneration c)) = n"
      by (simp_all add: freshEntry_def res_keeps_defs)
    moreover have "gm_wf (RcEntries c)" using assms(1) by (simp add: res_inv_def)
    ultimately have "res_inv c'"
      using assms(1) old unfolding c' res_inv_def
      by (auto simp: nth_append less_Suc_eq gm_mem_put)
    then show ?thesis by (simp add: c' lookupEntry_def)
  qed
  then show "res_inv c'" "a < length (RcHeap c')" "lookupEntry c' n = Some a" by auto
qed

text \<open>A caller that does not wait finds an entry that is not being unloaded.\<close>

lemma mark_inv:
  assumes "res_inv c" and "a < length (RcHeap c)"
  shows "res_inv (markReconciliationActivityLocked n a c)"
  using inv_upd [OF assms, of "\<lambda>e. e\<lparr>EntReconciliation := 0\<rparr>"] inv_ok [OF assms]
  by (simp add: markReconciliationActivityLocked_def)

lemma mark_frame [simp]:
  "length (RcHeap (markReconciliationActivityLocked n a c)) = length (RcHeap c)"
  "lookupEntry (markReconciliationActivityLocked n a c) m = lookupEntry c m"
  by (simp_all add: markReconciliationActivityLocked_def)

lemma waitless: "\<not> mustWait e \<Longrightarrow> \<not> unloading e"
  by (simp add: mustWait_def)

lemma startLoad_inv:
  assumes inv: "res_inv c" and a: "a < length (RcHeap c)"
    and idle: "EntLoad (RcHeap c ! a) = None" "\<not> unloading (RcHeap c ! a)"
  shows "res_inv (fst (startLoadLocked a c))"
proof -
  let ?e = "(RcHeap c ! a)\<lparr>EntState := collectionResidencyLoading, EntLoad := Some (RcNextFlight c),
    EntActiveTransition := True\<rparr>"
  have ok: "ent_ok ?e" "\<not> unloading ?e"
    using inv_ok [OF inv a] idle by (auto simp: res_keeps_defs)
  have "(b, RcNextFlight c) \<notin> set (RcLoads c)" for b
    using inv unfolding res_inv_def by (metis less_irrefl)
  moreover have "a \<notin> set (RcUnloads c)" using inv idle(2) by (auto simp: res_inv_def)
  moreover have "(a, f) \<notin> set (RcLoads c)" for f using inv idle(1) by (auto simp: res_inv_def)
  ultimately show ?thesis
    using inv a ok unfolding startLoadLocked_def Let_def res_inv_def
    by (auto simp: updEntry_def nth_list_update less_Suc_eq)
qed

lemma acquire_inv: "res_inv c \<Longrightarrow> res_inv (fst (acquireAttempt n c))"
proof -
  assume inv: "res_inv c"
  obtain c1 a where e: "entryLocked n c = (c1, a)" by force
  note e' = entryLocked_inv [OF inv e]
  let ?c2 = "markReconciliationActivityLocked n a c1"
  let ?f = "\<lambda>e. cancelIdleTimerLocked (e\<lparr>EntLeases := EntLeases e + 1, EntIdleResetPending := True\<rparr>)"
  have i2: "res_inv ?c2" and a2: "a < length (RcHeap ?c2)" using e' mark_inv by auto
  show ?thesis
  proof (cases "mustWait (RcHeap ?c2 ! a)")
    case True
    with e i2 inv show ?thesis by (simp add: acquireAttempt_def Let_def)
  next
    case False
    let ?c3 = "updEntry a ?f ?c2"
    have "keeps (RcHeap ?c2 ! a) (?f (RcHeap ?c2 ! a))"
      using inv_ok [OF i2 a2] waitless [OF False] by simp
    then have i3: "res_inv ?c3" by (rule inv_upd [OF i2 a2])
    have "\<not> unloading (RcHeap ?c3 ! a)"
      using waitless [OF False] a2 by (simp add: unloading_def res_entry_defs)
    with i3 have "res_inv (fst (startLoadLocked a ?c3))" if "EntLoad (RcHeap ?c3 ! a) = None"
      using startLoad_inv [OF i3 _ that] a2 by simp
    with e i3 False inv show ?thesis
      by (auto simp: acquireAttempt_def Let_def split_beta split: option.splits)
  qed
qed

lemma releaseLeaseEntry_keeps: "ent_ok e \<Longrightarrow> keeps e (releaseLeaseEntry cfg now n e)"
  by (simp add: releaseLeaseEntry_def Let_def)

lemma releaseObservationEntry_keeps: "ent_ok e \<Longrightarrow> keeps e (releaseObservationEntry cfg now n e)"
  by (simp add: releaseObservationEntry_def Let_def)

lemma releasePinEntry_keeps: "ent_ok e \<Longrightarrow> keeps e (releasePinEntry cfg now e)"
  by (simp add: releasePinEntry_def Let_def)

lemma releaseMaintenanceEntry_keeps: "ent_ok e \<Longrightarrow> keeps e (releaseMaintenanceEntry cfg now n e)"
  by (simp add: releaseMaintenanceEntry_def Let_def)

lemma applyReconciliationEntry_keeps: "ent_ok e \<Longrightarrow> keeps e (applyReconciliationEntry cfg now n st e)"
  by (simp add: applyReconciliationEntry_def Let_def)

lemma beginReconciliationEntry_keeps: "ent_ok e \<Longrightarrow> keeps e (beginReconciliationEntry g e)"
  by (simp add: beginReconciliationEntry_def Let_def)

lemma invalidateEntry_keeps: "ent_ok e \<Longrightarrow> keeps e (invalidateEntry e)"
  by (simp add: invalidateEntry_def Let_def)

text \<open>The operations that update one entry found by its name.\<close>

lemma inv_upd_ok:
  "res_inv c \<Longrightarrow> a < length (RcHeap c) \<Longrightarrow> (\<And>e. ent_ok e \<Longrightarrow> keeps e (f e)) \<Longrightarrow> res_inv (updEntry a f c)"
  by (rule inv_upd) (auto dest: inv_ok)

lemma releaseLease_inv: "res_inv c \<Longrightarrow> res_inv (releaseLease cfg now n c)"
  by (auto simp: releaseLease_def intro!: inv_upd_ok releaseLeaseEntry_keeps dest: inv_lookup split: option.splits)

lemma releaseObservation_inv: "res_inv c \<Longrightarrow> res_inv (releaseObservation cfg now n c)"
  by (auto simp: releaseObservation_def intro!: inv_upd_ok releaseObservationEntry_keeps dest: inv_lookup
      split: option.splits)

lemma releasePin_inv: "res_inv c \<Longrightarrow> a < length (RcHeap c) \<Longrightarrow> res_inv (releasePin cfg now a c)"
  by (auto simp: releasePin_def intro!: inv_upd_ok releasePinEntry_keeps)

lemma releaseMaintenance_inv: "res_inv c \<Longrightarrow> res_inv (releaseMaintenanceLocked cfg now ns c)"
proof (induction ns arbitrary: c)
  case (Cons n ns)
  have "res_inv (case lookupEntry c n of None \<Rightarrow> c
      | Some a \<Rightarrow> if \<not> EntMaintenance (RcHeap c ! a) then c
          else updEntry a (releaseMaintenanceEntry cfg now n) c)"
    using Cons.prems
    by (auto intro!: inv_upd_ok releaseMaintenanceEntry_keeps dest: inv_lookup split: option.splits)
  then show ?case using Cons.IH by simp
qed simp

lemma mapEntries_inv:
  assumes "res_inv c" and "\<And>e. ent_ok e \<Longrightarrow> keeps e (f e)"
  shows "res_inv (mapEntries f c)"
proof -
  have "res_inv (foldl (\<lambda>c (n, a). updEntry a f c) c' xs)"
    if "res_inv c'" "\<forall>(n, a) \<in> set xs. a < length (RcHeap c')" for c' :: res_ctrl and xs :: "(string \<times> nat) list"
    using that
  proof (induction xs arbitrary: c')
    case (Cons x xs)
    then show ?case by (cases x) (fastforce intro!: Cons.IH inv_upd_ok assms(2))
  qed simp
  moreover have "\<forall>(n, a) \<in> set (RcEntries c). a < length (RcHeap c)"
    using assms(1) by (auto simp: res_inv_def)
  ultimately show ?thesis using assms(1) by (simp add: mapEntries_def)
qed

lemma resident_inv: "res_inv c \<Longrightarrow> res_inv (fst (acquireResidentAttempt n c))"
proof -
  assume inv: "res_inv c"
  obtain c1 a where e: "entryLocked n c = (c1, a)" by force
  note e' = entryLocked_inv [OF inv e]
  let ?c2 = "markReconciliationActivityLocked n a c1"
  have "res_inv (updEntry a (\<lambda>e. pauseIdleTimerLocked (e\<lparr>EntLeases := EntLeases e + 1\<rparr>)) ?c2)"
    if "\<not> mustWait (RcHeap c1 ! a)"
  proof (rule inv_upd)
    show "res_inv ?c2" "a < length (RcHeap ?c2)" using e' mark_inv by auto
    then show "keeps (RcHeap ?c2 ! a) (pauseIdleTimerLocked
        ((RcHeap ?c2 ! a)\<lparr>EntLeases := EntLeases (RcHeap ?c2 ! a) + 1\<rparr>))"
      using inv_ok [of ?c2 a] waitless [OF that] e'(2)
      by (intro keeps_timers keeps_more) (auto simp: markReconciliationActivityLocked_def unloading_def)
  qed
  with e e' inv show ?thesis by (auto simp: acquireResidentAttempt_def Let_def)
qed

lemma observe_inv: "res_inv c \<Longrightarrow> res_inv (fst (observeAttempt n c))"
proof -
  assume inv: "res_inv c"
  obtain c1 a where e: "entryLocked n c = (c1, a)" by force
  note e' = entryLocked_inv [OF inv e]
  have "res_inv (updEntry a (\<lambda>e. pauseIdleTimerLocked (e\<lparr>EntObservations := EntObservations e + 1\<rparr>)) c1)"
    if "\<not> mustWait (RcHeap c1 ! a)"
    using inv_ok [OF e'(1,2)] waitless [OF that] by (intro inv_upd [OF e'(1,2)]) simp
  with e e' inv show ?thesis by (auto simp: observeAttempt_def Let_def)
qed

lemma pin_inv: "res_inv c \<Longrightarrow> res_inv (fst (pinAttempt n c))"
proof -
  assume inv: "res_inv c"
  obtain c1 a where e: "entryLocked n c = (c1, a)" by force
  note e' = entryLocked_inv [OF inv e]
  let ?c2 = "markReconciliationActivityLocked n a c1"
  have i2: "res_inv ?c2" and a2: "a < length (RcHeap ?c2)" using e' mark_inv by auto
  have "res_inv (updEntry a (\<lambda>e. cancelIdleTimerLocked (e\<lparr>EntPins := EntPins e + 1\<rparr>)) ?c2)"
    if "\<not> mustWait (RcHeap ?c2 ! a)"
    using inv_ok [OF i2 a2] waitless [OF that] by (intro inv_upd [OF i2 a2]) simp
  with e i2 inv show ?thesis by (auto simp: pinAttempt_def Let_def)
qed

lemma maintain_inv: "res_inv c \<Longrightarrow> res_inv (fst (maintainAttempt n c))"
proof -
  assume inv: "res_inv c"
  obtain c1 a where e: "entryLocked n c = (c1, a)" by force
  note e' = entryLocked_inv [OF inv e]
  let ?c2 = "markReconciliationActivityLocked n a c1"
  have i2: "res_inv ?c2" and a2: "a < length (RcHeap ?c2)" using e' mark_inv by auto
  have "res_inv (updEntry a (\<lambda>e. notifyEntry (cancelIdleTimerLocked (e\<lparr>EntMaintenance := True\<rparr>))) ?c2)"
    by (rule inv_upd_ok [OF i2 a2]) simp
  with e i2 inv show ?thesis by (auto simp: maintainAttempt_def Let_def)
qed

text \<open>Changes of the name map.\<close>

lemma inv_entries:
  assumes "res_inv c" and "gm_wf m"
    and "\<And>n a. (n, a) \<in> set m \<Longrightarrow> a < length (RcHeap c) \<and> EntName (RcHeap c ! a) = n"
  shows "res_inv (c\<lparr>RcEntries := m\<rparr>)"
  using assms by (auto simp: res_inv_def)

lemma forget_inv: "res_inv c \<Longrightarrow> res_inv (Forget n c)"
proof -
  assume inv: "res_inv c"
  let ?c = "c\<lparr>RcActivity := gm_put n (RcGeneration c) (RcActivity c)\<rparr>"
  have i1: "res_inv ?c" using inv by simp
  show ?thesis
  proof (cases "lookupEntry c n")
    case None
    with i1 show ?thesis by (simp add: Forget_def)
  next
    case (Some a)
    then have a: "a < length (RcHeap ?c)" using inv_lookup [OF inv] by simp
    let ?c1 = "updEntry a cancelIdleTimerLocked ?c"
    have i2: "res_inv ?c1" by (rule inv_upd_ok [OF i1 a]) simp
    have a2: "a < length (RcHeap ?c1)" using a by simp
    have "res_inv (updEntry a (\<lambda>e. notifyEntry (e\<lparr>EntState := collectionResidencyUnknown,
        EntReconciliation := 0\<rparr>)) ?c1)" by (rule inv_upd_ok [OF i2 a2]) simp
    moreover have i3: "res_inv (updEntry a notifyEntry ?c1)" by (rule inv_upd_ok [OF i2 a2]) simp
    have "res_inv ((updEntry a notifyEntry ?c1)\<lparr>RcEntries := gm_del n (RcEntries ?c1)\<rparr>)"
      using i3 by (intro inv_entries) (auto simp: res_inv_def gm_mem_del)
    ultimately show ?thesis using Some by (auto simp: Forget_def Let_def)
  qed
qed

lemma rename_entry_inv:
  assumes inv: "res_inv c" and old: "lookupEntry c oldName = Some a" and "oldName \<noteq> newName"
  shows "res_inv ((updEntry a (\<lambda>e. (notifyEntry (cancelIdleTimerLocked e))\<lparr>EntName := newName\<rparr>) c)
    \<lparr>RcEntries := gm_put newName a (gm_del oldName (RcEntries c))\<rparr>)"
proof -
  have a: "a < length (RcHeap c)" using inv_lookup [OF inv old] .
  let ?e = "(notifyEntry (cancelIdleTimerLocked (RcHeap c ! a)))\<lparr>EntName := newName\<rparr>"
  have ok: "ent_ok ?e" "unloading ?e = unloading (RcHeap c ! a)" "EntLoad ?e = EntLoad (RcHeap c ! a)"
    "EntName ?e = newName"
    using inv_ok [OF inv a] by (auto simp: res_entry_defs res_keeps_defs)
  have wf: "gm_wf (RcEntries c)" using inv by (simp add: res_inv_def)
  have other: "b \<noteq> a" if "(n, b) \<in> set (RcEntries c)" "n \<noteq> oldName" for n b
  proof -
    from old have "(oldName, a) \<in> set (RcEntries c)" by (simp add: lookupEntry_def map_of_SomeD)
    with inv that show ?thesis unfolding res_inv_def by metis
  qed
  show ?thesis
    using inv a ok wf other unfolding res_inv_def
    by (auto simp: gm_mem_put gm_mem_del split: if_splits)
qed

lemma rename_inv: "res_inv c \<Longrightarrow> res_inv (Rename old new c)"
proof -
  assume inv: "res_inv c"
  let ?c0 = "c\<lparr>RcActivity := gm_put new (RcGeneration c) (gm_put old (RcGeneration c) (RcActivity c))\<rparr>"
  have i0: "res_inv ?c0" using inv by simp
  show ?thesis
  proof (cases "lookupEntry c old = None \<or> old = new")
    case True
    with i0 show ?thesis by (auto simp: Rename_def Let_def split: option.splits)
  next
    case False
    then obtain a where a: "lookupEntry c old = Some a" by auto
    then have la: "a < length (RcHeap ?c0)" using inv_lookup [OF inv] by simp
    let ?c1 = "updEntry a (\<lambda>e. e\<lparr>EntReconciliation := 0\<rparr>) ?c0"
    have i1: "res_inv ?c1" by (rule inv_upd_ok [OF i0 la]) simp
    let ?g = "\<lambda>e. notifyEntry (cancelIdleTimerLocked (e\<lparr>EntReconciliation := 0\<rparr>))"
    let ?c2 = "case lookupEntry ?c1 new of
        Some b \<Rightarrow> if b \<noteq> a then updEntry b ?g ?c1 else ?c1 | None \<Rightarrow> ?c1"
    have "res_inv (updEntry b ?g ?c1)" if "lookupEntry ?c1 new = Some b" for b
      using inv_lookup [OF i1 that] by (intro inv_upd_ok [OF i1]) simp_all
    then have i2: "res_inv ?c2" using i1 by (auto split: option.splits)
    have "lookupEntry ?c2 old = Some a" using a by (auto split: option.splits)
    from rename_entry_inv [OF i2 this] False a show ?thesis by (simp add: Rename_def Let_def)
  qed
qed

text \<open>Unloads and the ends of transitions.\<close>

lemma startUnload_cases:
  obtains "startUnload n g c = c"
  | a where "lookupEntry c n = Some a" and "\<not> RcClosed c" and "\<not> isRecoveryCollection n"
      and "\<not> inUse (RcHeap c ! a)" and "\<not> EntMaintenance (RcHeap c ! a)"
      and "EntIdleGeneration (RcHeap c ! a) = g" and "EntState (RcHeap c ! a) = collectionResidencyReady"
      and "EntLoad (RcHeap c ! a) = None" and "\<not> EntActiveTransition (RcHeap c ! a)"
      and "startUnload n g c = (updEntry a (\<lambda>e. e\<lparr>EntIdleTimer := None, EntActiveTransition := True\<rparr>) c)
             \<lparr>RcUnloads := a # RcUnloads c\<rparr>"
proof (cases "lookupEntry c n")
  case None
  then show thesis by (intro that(1)) (simp add: startUnload_def)
next
  case (Some a)
  let ?e = "RcHeap c ! a"
  show thesis
  proof (cases "RcClosed c \<or> isRecoveryCollection n \<or> inUse ?e \<or> EntMaintenance ?e
      \<or> EntIdleGeneration ?e \<noteq> g \<or> EntState ?e \<noteq> collectionResidencyReady \<or> EntLoad ?e \<noteq> None
      \<or> EntActiveTransition ?e")
    case True
    with Some show thesis by (intro that(1)) (auto simp: startUnload_def inUse_def Let_def)
  next
    case False
    with Some show thesis by (intro that(2) [of a]) (auto simp: startUnload_def inUse_def Let_def)
  qed
qed

lemma startUnload_inv: "res_inv c \<Longrightarrow> res_inv (startUnload n g c)"
proof (cases rule: startUnload_cases [of n g c])
  case (2 a)
  assume inv: "res_inv c"
  have a: "a < length (RcHeap c)" using inv_lookup [OF inv 2(1)] .
  let ?e = "(RcHeap c ! a)\<lparr>EntIdleTimer := None, EntActiveTransition := True\<rparr>"
  have ok: "ent_ok ?e" "unloading ?e" "EntLoad ?e = None"
    using 2 by (auto simp: res_keeps_defs)
  have "\<not> unloading (RcHeap c ! a)" using 2 by (simp add: unloading_def)
  then show ?thesis
    using inv a ok 2(8,10) unfolding res_inv_def
    by (auto simp: updEntry_def nth_list_update)
qed simp

lemma finishLoadEntry_result:
  assumes "ent_ok e" and "EntLoad e = Some f"
  shows "ent_ok (finishLoadEntry cfg now n failed e)"
    and "EntLoad (finishLoadEntry cfg now n failed e) = None"
    and "\<not> unloading (finishLoadEntry cfg now n failed e)"
    and "EntName (finishLoadEntry cfg now n failed e) = EntName e"
proof -
  let ?e0 = "e\<lparr>EntLoad := None, EntActiveTransition := False\<rparr>"
  have "ent_ok ?e0" using assms by (auto simp: res_keeps_defs)
  then have "keeps ?e0 (finishLoadEntry cfg now n failed e)"
    by (simp add: finishLoadEntry_def Let_def)
  then show "ent_ok (finishLoadEntry cfg now n failed e)" "EntLoad (finishLoadEntry cfg now n failed e) = None"
    "\<not> unloading (finishLoadEntry cfg now n failed e)" "EntName (finishLoadEntry cfg now n failed e) = EntName e"
    by (auto simp: keeps_def unloading_def)
qed

lemma finishLoad_inv:
  assumes inv: "res_inv c" and m: "(a, f) \<in> set (RcLoads c)"
  shows "res_inv (finishLoad cfg now n a f failed c)"
proof -
  have a: "a < length (RcHeap c)" and l: "EntLoad (RcHeap c ! a) = Some f"
    using inv m by (auto simp: res_inv_def)
  note r = finishLoadEntry_result [OF inv_ok [OF inv a] l, of cfg now n failed]
  have "\<not> unloading (RcHeap c ! a)" using l by (simp add: unloading_def)
  then show ?thesis
    using inv a l r unfolding finishLoad_def Let_def res_inv_def
    by (auto simp: updEntry_def nth_list_update)
qed

lemma finishUnload_inv:
  assumes inv: "res_inv c" and m: "a \<in> set (RcUnloads c)"
  shows "res_inv (finishUnload a failed c)"
proof -
  have a: "a < length (RcHeap c)" and u: "unloading (RcHeap c ! a)"
    using inv m by (auto simp: res_inv_def)
  let ?e = "finishUnloadEntry failed (RcHeap c ! a)"
  have r: "ent_ok ?e" "EntLoad ?e = None" "\<not> unloading ?e" "EntName ?e = EntName (RcHeap c ! a)"
    using inv_ok [OF inv a] u by (auto simp: finishUnloadEntry_def res_entry_defs res_keeps_defs Let_def)
  have "EntLoad (RcHeap c ! a) = None" "EntActiveTransition (RcHeap c ! a)" using u by (auto simp: unloading_def)
  then show ?thesis
    using inv a r unfolding finishUnload_def Let_def res_inv_def
    by (auto simp: updEntry_def nth_list_update)
qed

text \<open>Reconciliation and shutdown.\<close>

lemma apply_inv: "res_inv c \<Longrightarrow> res_inv (applyReconciliation cfg now g n st c)"
proof -
  assume inv: "res_inv c"
  obtain c1 a where e: "entryLocked n c = (c1, a)" by force
  note e' = entryLocked_inv [OF inv e]
  have i1: "res_inv (updEntry a (\<lambda>e. e\<lparr>EntReconciliation := g\<rparr>) c1)"
    by (rule inv_upd_ok [OF e'(1,2)]) simp
  have "res_inv (updEntry a (applyReconciliationEntry cfg now n st) (updEntry a (\<lambda>e. e\<lparr>EntReconciliation := g\<rparr>) c1))"
    by (rule inv_upd_ok [OF i1]) (use e'(2) applyReconciliationEntry_keeps in simp_all)
  moreover have "res_inv (updEntry b (applyReconciliationEntry cfg now n st) c)"
    "res_inv (updEntry b (\<lambda>e. (cancelIdleTimerLocked e)\<lparr>EntReconciliation := 0\<rparr>) c)"
    if "lookupEntry c n = Some b" for b
    using inv_lookup [OF inv that] applyReconciliationEntry_keeps by (auto intro!: inv_upd_ok [OF inv])
  ultimately show ?thesis
    using inv e i1 by (auto simp: applyReconciliation_def Let_def split: option.splits)
qed

lemma prepare_inv: "res_inv c \<Longrightarrow> res_inv (fst (prepareLoadingReconciliation g n c))"
  by (auto simp: prepareLoadingReconciliation_def Let_def intro!: inv_upd_ok dest: inv_lookup
      split: option.splits)

lemma begin_inv: "res_inv c \<Longrightarrow> res_inv (fst (beginReconciliation c))"
  by (simp add: beginReconciliation_def Let_def mapEntries_inv beginReconciliationEntry_keeps)

lemma invalidate_inv: "res_inv c \<Longrightarrow> res_inv (invalidateResidency c)"
  by (simp add: invalidateResidency_def mapEntries_inv invalidateEntry_keeps)

lemma close_inv: "res_inv c \<Longrightarrow> res_inv (closeLocked c)"
  by (simp add: closeLocked_def mapEntries_inv)

lemma acquireFinish_inv: "res_inv c \<Longrightarrow> res_inv (fst (acquireFinish cfg now n failed c))"
  by (simp add: acquireFinish_def releaseLease_inv)

lemma res_step_inv: "res_step cfg c c' \<Longrightarrow> res_inv c \<Longrightarrow> res_inv c'"
  by (induction rule: res_step.induct)
     (simp_all add: acquire_inv acquireFinish_inv releaseLease_inv resident_inv observe_inv
       releaseObservation_inv pin_inv releasePin_inv rename_inv forget_inv maintain_inv
       releaseMaintenance_inv begin_inv invalidate_inv apply_inv prepare_inv startUnload_inv
       finishLoad_inv finishUnload_inv close_inv)

definition res_init :: "res_ctrl \<Rightarrow> bool" where
  "res_init c \<longleftrightarrow> c = newCollectionResidencyController"

interpretation residency: invariant_machine res_init "res_step cfg" res_inv
proof unfold_locales
  show "res_init c \<Longrightarrow> res_inv c" for c
    by (simp add: res_init_def newCollectionResidencyController_def res_inv_def)
qed (rule res_step_inv)

abbreviation res_reachable :: "res_config \<Rightarrow> res_ctrl \<Rightarrow> bool" where
  "res_reachable cfg \<equiv> reach res_init (res_step cfg)"

section \<open>Properties\<close>



end
