(* ===== verification/ResidencyProperties.thy ===== *)
theory ResidencyProperties
  imports ResidencyInvariant
begin

text \<open>
  What clients of the residency controller rely on: a lease protects its collection, the last
  release of an ordinary lease schedules the unload and only the current timer can perform it,
  maintenance takes names in one global order, and a release path on which the idle timer is lost.
\<close>

section \<open>Leases protect\<close>

lemma entryLocked_heap:
  "entryLocked n c = (c', a) \<Longrightarrow> RcUnloads c' = RcUnloads c \<and> RcLoads c' = RcLoads c \<and> RcClosed c' = RcClosed c"
  by (auto simp: entryLocked_def split: option.splits)

lemma mark_sel [simp]:
  "RcUnloads (markReconciliationActivityLocked n a c) = RcUnloads c"
  "RcClosed (markReconciliationActivityLocked n a c) = RcClosed c"
  by (simp_all add: markReconciliationActivityLocked_def)

lemma startUnload_in_use:
  "lookupEntry c n = Some a \<Longrightarrow> EntLeases (RcHeap c ! a) \<noteq> 0 \<Longrightarrow> startUnload n g c = c"
  by (simp add: startUnload_def Let_def)

lemma startLoad_sel:
  assumes "startLoadLocked a c = (c', f)" and "a < length (RcHeap c)"
  shows "lookupEntry c' n = lookupEntry c n" "EntLeases (RcHeap c' ! a) = EntLeases (RcHeap c ! a)"
    "RcUnloads c' = RcUnloads c"
  using assms by (auto simp: startLoadLocked_def Let_def lookupEntry_def)

text \<open>
  A granted lease protects its collection. If an attempt to acquire a collection does not fail
  and does not have to wait, the entry has gained a lease, no unload of it is in flight, and until
  a lease is released no timer callback, whatever its generation, starts an unload; when the
  attempt returns at once the collection is ready.
\<close>

theorem lease_protects:
  assumes "res_reachable cfg c" and "acquireAttempt name c = (c', out)"
    and "out = AcquireReady \<or> out = AcquireLoad flight"
  shows "\<exists>a. lookupEntry c' name = Some a \<and> 0 < EntLeases (RcHeap c' ! a) \<and> a \<notin> set (RcUnloads c') \<and>
    startUnload name g c' = c' \<and>
    (out = AcquireReady \<longrightarrow> EntState (RcHeap c' ! a) = collectionResidencyReady)"
proof -
  have inv: "res_inv c" using residency.reach_inv [OF assms(1)] .
  have inv': "res_inv c'" using acquire_inv [OF inv, of name] assms(2) by simp
  obtain c1 a where e: "entryLocked name c = (c1, a)" by force
  note e' = entryLocked_inv [OF inv e]
  let ?c2 = "markReconciliationActivityLocked name a c1"
  let ?c3 = "updEntry a (\<lambda>e. cancelIdleTimerLocked (e\<lparr>EntLeases := EntLeases e + 1, EntIdleResetPending := True\<rparr>)) ?c2"
  have a2: "a < length (RcHeap ?c2)" and a3: "a < length (RcHeap ?c3)" using e'(2) by simp_all
  have l3: "lookupEntry ?c3 name = Some a" using e'(3) by simp
  have p3: "0 < EntLeases (RcHeap ?c3 ! a)" using a2 by (simp add: res_entry_defs)
  have "\<not> RcClosed c \<and> \<not> mustWait (RcHeap ?c2 ! a)"
    using assms(2,3) e by (auto simp: acquireAttempt_def Let_def split: if_splits)
  then have cases: "c' = ?c3 \<and> (out = AcquireReady \<longrightarrow> EntState (RcHeap ?c3 ! a) = collectionResidencyReady)
      \<or> (\<exists>f. startLoadLocked a ?c3 = (c', f) \<and> out \<noteq> AcquireReady)"
    using assms(2) e by (auto simp: acquireAttempt_def Let_def split_beta prod_eq_iff split: if_splits option.splits)
  then have "lookupEntry c' name = Some a \<and> 0 < EntLeases (RcHeap c' ! a)"
    using l3 p3 startLoad_sel [OF _ a3] by auto
  moreover from this have "\<not> unloading (RcHeap c' ! a)"
    using inv_ok [OF inv' inv_lookup [OF inv']] by (auto simp: ent_ok_def inUse_def)
  then have "a \<notin> set (RcUnloads c')" using inv' by (auto simp: res_inv_def)
  ultimately show ?thesis
    using cases startUnload_in_use [of c' name a g] by auto
qed

section \<open>The idle timer\<close>

text \<open>
  The last release schedules the unload. When the last ordinary lease of a ready collection that
  nothing else uses is released, a timer is armed for the idle timeout; the callback of that timer
  starts the unload, and the callback of any other generation, such as one stopped too late, changes
  nothing.
\<close>

theorem last_release_schedules_unload:
  assumes "lookupEntry c name = Some a" and "a < length (RcHeap c)" and "\<not> RcClosed c"
    and "EntLeases (RcHeap c ! a) = 1" and "EntIdleResetPending (RcHeap c ! a)"
    and "EntState (RcHeap c ! a) = collectionResidencyReady"
    and "EntObservations (RcHeap c ! a) = 0" and "EntPins (RcHeap c ! a) = 0"
    and "\<not> EntMaintenance (RcHeap c ! a)" and "\<not> EntActiveTransition (RcHeap c ! a)"
    and "EntLoad (RcHeap c ! a) = None"
    and "\<not> isRecoveryCollection name" and "0 < CfgIdleTimeout cfg" and "CfgHasUnload cfg"
  shows "\<exists>g. EntIdleTimer (RcHeap (releaseLease cfg now name c) ! a) = Some (name, g, now + CfgIdleTimeout cfg) \<and>
    RcUnloads (startUnload name g (releaseLease cfg now name c)) = a # RcUnloads c \<and>
    (g' \<noteq> g \<longrightarrow> startUnload name g' (releaseLease cfg now name c) = releaseLease cfg now name c)"
proof -
  let ?c = "releaseLease cfg now name c"
  let ?g = "EntIdleGeneration (RcHeap c ! a) + 1"
  have c: "?c = updEntry a (releaseLeaseEntry cfg now name) c"
    using assms(1,4) by (simp add: releaseLease_def)
  have l: "lookupEntry ?c name = Some a" using assms(1) by (simp add: c)
  have e: "RcHeap ?c ! a = (RcHeap c ! a)\<lparr>EntLeases := 0, EntIdleResetPending := False,
      EntIdleTimer := Some (name, ?g, now + CfgIdleTimeout cfg), EntIdleGeneration := ?g,
      EntIdleDeadline := Some (now + CfgIdleTimeout cfg), EntChanged := EntChanged (RcHeap c ! a) + 1\<rparr>"
    using assms by (simp add: c releaseLeaseEntry_def armIdleTimerLocked_def res_entry_defs Let_def)
  have cl: "\<not> RcClosed ?c" "RcUnloads ?c = RcUnloads c" using assms(3) by (simp_all add: c)
  have "RcUnloads (startUnload name ?g ?c) = a # RcUnloads c"
    using l cl assms by (simp add: startUnload_def e Let_def)
  moreover have "g' \<noteq> ?g \<longrightarrow> startUnload name g' ?c = ?c"
    using l by (simp add: startUnload_def e Let_def)
  ultimately show ?thesis using e by auto
qed

text \<open>
  C31: A path that loses the idle timer. If a pinned, ready collection gains a resident lease, the
  pin is released first and the resident lease last, the collection ends up ready and unused but
  with no idle timer and no deadline, so nothing unloads it until it is acquired again.
\<close>

theorem resident_release_loses_timer:
  assumes "lookupEntry c name = Some a" and "a < length (RcHeap c)" and "\<not> RcClosed c"
    and "EntName (RcHeap c ! a) = name" and "EntState (RcHeap c ! a) = collectionResidencyReady"
    and "EntPins (RcHeap c ! a) = 1" and "EntLeases (RcHeap c ! a) = 0" and "EntObservations (RcHeap c ! a) = 0"
    and "\<not> EntIdleResetPending (RcHeap c ! a)" and "\<not> EntMaintenance (RcHeap c ! a)"
    and "\<not> EntActiveTransition (RcHeap c ! a)" and "EntLoad (RcHeap c ! a) = None"
  shows "snd (acquireResidentAttempt name c) = ResidentLease \<and>
    (let e = RcHeap (releaseLease cfg t2 name (releasePin cfg t1 a (fst (acquireResidentAttempt name c)))) ! a
     in EntState e = collectionResidencyReady \<and> \<not> entryHasActivityLocked e \<and>
        EntIdleTimer e = None \<and> EntIdleDeadline e = None)"
proof -
  let ?c1 = "fst (acquireResidentAttempt name c)"
  have e: "entryLocked name c = (c, a)" using assms(1) by (simp add: entryLocked_def)
  have r: "acquireResidentAttempt name c = (updEntry a (\<lambda>e. pauseIdleTimerLocked (e\<lparr>EntLeases := EntLeases e + 1\<rparr>))
      (markReconciliationActivityLocked name a c), ResidentLease)"
    using assms e by (simp add: acquireResidentAttempt_def mustWait_def unloading_def Let_def)
  have h1: "a < length (RcHeap ?c1)" "lookupEntry ?c1 name = Some a" using assms r by simp_all
  have e1: "RcHeap ?c1 ! a = (RcHeap c ! a)\<lparr>EntLeases := 1, EntReconciliation := 0, EntIdleTimer := None,
      EntIdleGeneration := EntIdleGeneration (RcHeap c ! a) + 1\<rparr>"
    using assms r by (simp add: markReconciliationActivityLocked_def res_entry_defs)
  let ?c2 = "releasePin cfg t1 a ?c1"
  have c2: "?c2 = updEntry a (releasePinEntry cfg t1) ?c1" using e1 assms by (simp add: releasePin_def)
  have h2: "a < length (RcHeap ?c2)" "lookupEntry ?c2 name = Some a" using h1 by (simp_all add: c2)
  have e2: "EntLeases (RcHeap ?c2 ! a) = 1" "EntPins (RcHeap ?c2 ! a) = 0"
    "EntState (RcHeap ?c2 ! a) = collectionResidencyReady" "EntIdleDeadline (RcHeap ?c2 ! a) = None"
    "\<not> EntIdleResetPending (RcHeap ?c2 ! a)" "\<not> EntMaintenance (RcHeap ?c2 ! a)"
    "\<not> EntActiveTransition (RcHeap ?c2 ! a)" "EntLoad (RcHeap ?c2 ! a) = None"
    "EntObservations (RcHeap ?c2 ! a) = 0"
    using h1 e1 assms
    by (simp_all add: c2 releasePinEntry_def armIdleTimerLocked_def res_entry_defs Let_def)
  then show ?thesis
    using h2 r
    by (simp add: releaseLease_def releaseLeaseEntry_def resumeIdleTimerLocked_def res_entry_defs
        entryHasActivityLocked_def Let_def split: option.splits)
qed

section \<open>Witnesses\<close>

definition idleConfig :: res_config where
  "idleConfig = \<lparr>CfgIdleTimeout = 10, CfgHasUnload = True\<rparr>"

text \<open>A collection is acquired, loaded, released and, after its idle timeout, unloaded.\<close>

definition leasedCtrl :: res_ctrl where
  "leasedCtrl = fst (acquireAttempt ''a'' newCollectionResidencyController)"

definition loadedCtrl :: res_ctrl where
  "loadedCtrl = finishLoad idleConfig 1 ''a'' 0 0 False leasedCtrl"

definition releasedCtrl :: res_ctrl where
  "releasedCtrl = releaseLease idleConfig 2 ''a'' loadedCtrl"

definition unloadingCtrl :: res_ctrl where
  "unloadingCtrl = startUnload ''a'' 2 releasedCtrl"

lemma reach_leased: "res_reachable idleConfig leasedCtrl"
proof -
  have "res_reachable idleConfig newCollectionResidencyController"
    by (rule reach_init) (simp add: res_init_def)
  then show ?thesis
    unfolding leasedCtrl_def by (rule reach_step) (rule step_acquire)
qed

lemma reach_loaded: "res_reachable idleConfig loadedCtrl"
  unfolding loadedCtrl_def
proof (rule reach_step [OF reach_leased])
  have "(0, 0) \<in> set (RcLoads leasedCtrl)" by code_simp
  then show "res_step idleConfig leasedCtrl (finishLoad idleConfig 1 ''a'' 0 0 False leasedCtrl)"
    by (rule step_finishLoad)
qed

lemma reach_unloading: "res_reachable idleConfig unloadingCtrl"
proof -
  have "res_reachable idleConfig releasedCtrl"
    unfolding releasedCtrl_def by (rule reach_step [OF reach_loaded]) (rule step_releaseLease)
  then show ?thesis
    unfolding unloadingCtrl_def by (rule reach_step) (rule step_timer)
qed



theorem lease_protects_witness:
  "\<exists>a. lookupEntry (fst (acquireAttempt ''a'' loadedCtrl)) ''a'' = Some a \<and>
     startUnload ''a'' 3 (fst (acquireAttempt ''a'' loadedCtrl)) = fst (acquireAttempt ''a'' loadedCtrl)"
proof -
  have "snd (acquireAttempt ''a'' loadedCtrl) = AcquireReady" by code_simp
  then have "acquireAttempt ''a'' loadedCtrl = (fst (acquireAttempt ''a'' loadedCtrl), AcquireReady)"
    by (metis prod.collapse)
  from lease_protects [OF reach_loaded this, where g = 3] show ?thesis by blast
qed

theorem last_release_schedules_unload_witness:
  "\<exists>g. EntIdleTimer (RcHeap (releaseLease idleConfig 2 ''a'' loadedCtrl) ! 0) = Some (''a'', g, 12) \<and>
     RcUnloads (startUnload ''a'' g (releaseLease idleConfig 2 ''a'' loadedCtrl)) = [0]"
proof -
  have "RcUnloads loadedCtrl = []" "CfgIdleTimeout idleConfig = 10" by code_simp+
  moreover have "\<exists>g. EntIdleTimer (RcHeap (releaseLease idleConfig 2 ''a'' loadedCtrl) ! 0)
      = Some (''a'', g, 2 + CfgIdleTimeout idleConfig) \<and>
    RcUnloads (startUnload ''a'' g (releaseLease idleConfig 2 ''a'' loadedCtrl)) = 0 # RcUnloads loadedCtrl \<and>
    (0 \<noteq> g \<longrightarrow> startUnload ''a'' 0 (releaseLease idleConfig 2 ''a'' loadedCtrl)
       = releaseLease idleConfig 2 ''a'' loadedCtrl)"
    by (rule last_release_schedules_unload) code_simp+
  ultimately show ?thesis by auto
qed

text \<open>
  A build pins its staging collection, fills and promotes it under maintenance; a reuse lookup takes
  a resident lease of the promoted collection before the build releases its pin.
\<close>

definition promotedCtrl :: res_ctrl where
  "promotedCtrl =
     (let c = fst (pinAttempt ''a_stg'' newCollectionResidencyController);
          c = fst (acquireAttempt ''a_stg'' c);
          c = finishLoad idleConfig 1 ''a_stg'' 0 0 False c;
          c = releaseLease idleConfig 2 ''a_stg'' c;
          c = fst (maintainAttempt ''a'' c);
          c = fst (maintainAttempt ''a_stg'' c);
          c = Rename ''a_stg'' ''a'' c
      in releaseMaintenanceLocked idleConfig 3 [''a'', ''a_stg''] c)"

theorem resident_release_loses_timer_witness:
  "snd (acquireResidentAttempt ''a'' promotedCtrl) = ResidentLease \<and>
   EntIdleTimer (RcHeap (releaseLease idleConfig 5 ''a'' (releasePin idleConfig 4 0
     (fst (acquireResidentAttempt ''a'' promotedCtrl)))) ! 0) = None"
proof -
  have "snd (acquireResidentAttempt ''a'' promotedCtrl) = ResidentLease \<and>
    (let e = RcHeap (releaseLease idleConfig 5 ''a'' (releasePin idleConfig 4 0
        (fst (acquireResidentAttempt ''a'' promotedCtrl)))) ! 0
     in EntState e = collectionResidencyReady \<and> \<not> entryHasActivityLocked e \<and>
        EntIdleTimer e = None \<and> EntIdleDeadline e = None)"
    by (rule resident_release_loses_timer) code_simp+
  then show ?thesis by (simp only: Let_def)
qed

end
