(* ===== verification/Promotion.thy ===== *)
theory Promotion
  imports ResidencyInvariant
begin

text \<open>
  Promotion of a finished build (\<open>PromoteStaging\<close>, \<open>recoverPromotionNames\<close>, \<open>DropStaging\<close> and the name
  functions of \<open>internal/semantic/staging.go\<close> and \<open>promotion_recovery.go\<close>; \<open>renameCollection\<close>,
  \<open>dropIfExists\<close> and \<open>CollectionName\<close> of \<open>service.go\<close>). The staging collection takes the live name
  while the previous live collection is kept under the recovery name until the swap is done.

  The store is a map from names to data. Each request to it is answered by an oracle, numbered by
  the requests made before: the request succeeds, fails without effect, or fails although it took
  effect (a lost reply). A crash is the oracle that fails without effect from some request on. The
  residency controller is updated by the same calls as in the code; the section runs under
  maintenance of the three names, so no client changes the names in between. The path hash is a
  parameter.
\<close>

section \<open>Names\<close>

definition maxCollectionNameLength :: nat where "maxCollectionNameLength = 255"
definition stagingCollectionSuffix :: string where "stagingCollectionSuffix = ''_stg''"

definition recoveryCollectionName :: "string \<Rightarrow> string option" where
  "recoveryCollectionName collectionName =
     (if length collectionName > maxCollectionNameLength - length recoveryCollectionSuffix then None
      else Some (collectionName @ recoveryCollectionSuffix))"

definition stagingCollectionName :: "string \<Rightarrow> string" where
  "stagingCollectionName collectionName =
     (let maxBase = maxCollectionNameLength - length stagingCollectionSuffix
      in (if length collectionName > maxBase then take maxBase collectionName else collectionName)
           @ stagingCollectionSuffix)"

text \<open>\<open>sanitizeCollectionSuffix\<close> for ASCII overrides, the override already trimmed.\<close>

definition sanitizeChar :: "char \<Rightarrow> char" where
  "sanitizeChar ch =
     (if (CHR ''A'' \<le> ch \<and> ch \<le> CHR ''Z'') \<or> (CHR ''a'' \<le> ch \<and> ch \<le> CHR ''z'')
         \<or> (CHR ''0'' \<le> ch \<and> ch \<le> CHR ''9'') then ch else CHR ''_'')"

definition CollectionName :: "bool \<Rightarrow> string \<Rightarrow> string \<Rightarrow> string" where
  "CollectionName hybridMode override pathHash =
     (let prefix = (if hybridMode then ''hybrid_code_chunks'' else ''code_chunks'')
      in if override = [] then prefix @ ''_'' @ pathHash
         else let hashSuffix = ''_'' @ pathHash;
                  maxReadableLength = maxCollectionNameLength - length prefix - 1 - length hashSuffix;
                  sanitized = map sanitizeChar override;
                  sanitized = (if length sanitized > maxReadableLength then take maxReadableLength sanitized
                               else sanitized);
                  sanitized = (if sanitized = [] then ''custom'' else sanitized)
              in prefix @ ''_'' @ sanitized @ hashSuffix)"

section \<open>Requests\<close>

record 'd promo_state =
  PsStore :: "(string, 'd) gomap"
  PsResidency :: res_ctrl
  PsCalls :: nat

datatype promo_error = ErrStore | ErrCollectionMissing | ErrRecoveryNameTooLong | ErrRestore

definition hasCollection ::
  "call_oracle \<Rightarrow> string \<Rightarrow> 'd promo_state \<Rightarrow> 'd promo_state \<times> bool option" where
  "hasCollection orc name s =
     (let s' = s\<lparr>PsCalls := PsCalls s + 1\<rparr>
      in case orc (PsCalls s) of
           CallOk \<Rightarrow> (s', Some (map_of (PsStore s) name \<noteq> None))
         | _ \<Rightarrow> (s', None))"

text \<open>A rename takes effect when the old name exists and the new one does not.\<close>

definition applyRename :: "string \<Rightarrow> string \<Rightarrow> (string, 'd) gomap \<Rightarrow> (string, 'd) gomap option" where
  "applyRename old new m =
     (case map_of m old of
        None \<Rightarrow> None
      | Some d \<Rightarrow> if map_of m new = None then Some (gm_put new d (gm_del old m)) else None)"

definition renameCollection ::
  "call_oracle \<Rightarrow> string \<Rightarrow> string \<Rightarrow> 'd promo_state \<Rightarrow> 'd promo_state \<times> promo_error option" where
  "renameCollection orc old new s =
     (let s' = s\<lparr>PsCalls := PsCalls s + 1\<rparr>
      in case (orc (PsCalls s), applyRename old new (PsStore s)) of
           (CallOk, Some m) \<Rightarrow> (s'\<lparr>PsStore := m, PsResidency := Rename old new (PsResidency s)\<rparr>, None)
         | (CallLost, Some m) \<Rightarrow> (s'\<lparr>PsStore := m\<rparr>, Some ErrStore)
         | _ \<Rightarrow> (s', Some ErrStore))"

definition dropIfExists ::
  "call_oracle \<Rightarrow> string \<Rightarrow> 'd promo_state \<Rightarrow> 'd promo_state \<times> promo_error option" where
  "dropIfExists orc name s =
     (case hasCollection orc name s of
        (s, None) \<Rightarrow> (s, Some ErrStore)
      | (s, Some False) \<Rightarrow> (s\<lparr>PsResidency := Forget name (PsResidency s)\<rparr>, None)
      | (s, Some True) \<Rightarrow>
          let s' = s\<lparr>PsCalls := PsCalls s + 1\<rparr>
          in case orc (PsCalls s) of
               CallOk \<Rightarrow> (s'\<lparr>PsStore := gm_del name (PsStore s), PsResidency := Forget name (PsResidency s)\<rparr>, None)
             | CallLost \<Rightarrow> (s'\<lparr>PsStore := gm_del name (PsStore s)\<rparr>, Some ErrStore)
             | CallFailed \<Rightarrow> (s', Some ErrStore))"

section \<open>Promotion and recovery\<close>

definition recoverPromotionNames ::
  "call_oracle \<Rightarrow> string \<Rightarrow> string \<Rightarrow> 'd promo_state \<Rightarrow> 'd promo_state \<times> promo_error option" where
  "recoverPromotionNames orc liveName recoveryName s =
     (case hasCollection orc liveName s of
        (s, None) \<Rightarrow> (s, Some ErrStore)
      | (s, Some True) \<Rightarrow> dropIfExists orc recoveryName s
      | (s, Some False) \<Rightarrow> renameCollection orc recoveryName liveName s)"

definition recoverFirst ::
  "call_oracle \<Rightarrow> string \<Rightarrow> string \<Rightarrow> 'd promo_state \<Rightarrow> 'd promo_state \<times> promo_error option" where
  "recoverFirst orc liveName recoveryName s =
     (case hasCollection orc recoveryName s of
        (s, None) \<Rightarrow> (s, Some ErrStore)
      | (s, Some True) \<Rightarrow> recoverPromotionNames orc liveName recoveryName s
      | (s, Some False) \<Rightarrow> (s, None))"

definition swapNames ::
  "call_oracle \<Rightarrow> string \<Rightarrow> string \<Rightarrow> string \<Rightarrow> bool \<Rightarrow> 'd promo_state \<Rightarrow> 'd promo_state \<times> promo_error option" where
  "swapNames orc liveName stagingName recoveryName hasLive s =
     (case renameCollection orc stagingName liveName s of
        (s, Some e) \<Rightarrow>
          if \<not> hasLive then (s, Some e)
          else (case renameCollection orc recoveryName liveName s of
                  (s, Some _) \<Rightarrow> (s, Some ErrRestore)
                | (s, None) \<Rightarrow> (s, Some e))
      | (s, None) \<Rightarrow> if \<not> hasLive then (s, None) else dropIfExists orc recoveryName s)"

definition promoteNames ::
  "call_oracle \<Rightarrow> string \<Rightarrow> string \<Rightarrow> string \<Rightarrow> 'd promo_state \<Rightarrow> 'd promo_state \<times> promo_error option" where
  "promoteNames orc liveName stagingName recoveryName s =
     (case recoverFirst orc liveName recoveryName s of
        (s, Some e) \<Rightarrow> (s, Some e)
      | (s, None) \<Rightarrow>
          (case hasCollection orc stagingName s of
             (s, None) \<Rightarrow> (s, Some ErrStore)
           | (s, Some False) \<Rightarrow> (s, Some ErrCollectionMissing)
           | (s, Some True) \<Rightarrow>
               (case hasCollection orc liveName s of
                  (s, None) \<Rightarrow> (s, Some ErrStore)
                | (s, Some hasLive) \<Rightarrow>
                    if hasLive
                    then (case renameCollection orc liveName recoveryName s of
                            (s, Some e) \<Rightarrow> (s, Some e)
                          | (s, None) \<Rightarrow> swapNames orc liveName stagingName recoveryName True s)
                    else swapNames orc liveName stagingName recoveryName False s)))"

definition PromoteStaging ::
  "call_oracle \<Rightarrow> string \<Rightarrow> 'd promo_state \<Rightarrow> 'd promo_state \<times> promo_error option" where
  "PromoteStaging orc liveName s =
     (case recoveryCollectionName liveName of
        None \<Rightarrow> (s, Some ErrRecoveryNameTooLong)
      | Some recoveryName \<Rightarrow> promoteNames orc liveName (stagingCollectionName liveName) recoveryName s)"

definition DropStaging :: "call_oracle \<Rightarrow> string \<Rightarrow> 'd promo_state \<Rightarrow> 'd promo_state \<times> promo_error option" where
  "DropStaging orc liveName s = dropIfExists orc (stagingCollectionName liveName) s"

section \<open>What a request can do to the store\<close>

abbreviation dataAt :: "'d promo_state \<Rightarrow> string \<Rightarrow> 'd option" where
  "dataAt s n \<equiv> map_of (PsStore s) n"

lemma has_effect:
  "hasCollection orc n s = (s', r) \<Longrightarrow>
    PsStore s' = PsStore s \<and> (r = None \<or> r = Some (dataAt s n \<noteq> None))"
  by (auto simp: hasCollection_def Let_def split: call_outcome.splits)

lemma rename_effect:
  assumes "renameCollection orc old new s = (s', e)"
  obtains "PsStore s' = PsStore s" "e \<noteq> None"
  | d where "dataAt s old = Some d" "dataAt s new = None"
      "PsStore s' = gm_put new d (gm_del old (PsStore s))"
proof (cases "applyRename old new (PsStore s)")
  case None
  with assms have "PsStore s' = PsStore s" "e \<noteq> None"
    by (auto simp: renameCollection_def Let_def split: call_outcome.splits)
  then show thesis by (rule that(1))
next
  case (Some m)
  then obtain d where d: "dataAt s old = Some d" "dataAt s new = None" "m = gm_put new d (gm_del old (PsStore s))"
    by (auto simp: applyRename_def split: option.splits if_splits)
  from assms Some consider "PsStore s' = PsStore s" "e \<noteq> None" | "PsStore s' = m"
    by (auto simp: renameCollection_def Let_def split: call_outcome.splits)
  then show thesis using that d by cases auto
qed

lemma drop_effect:
  assumes "dropIfExists orc n s = (s', e)"
  obtains "PsStore s' = PsStore s" "e = None \<longrightarrow> dataAt s n = None"
  | "PsStore s' = gm_del n (PsStore s)"
proof -
  obtain s1 r where h: "hasCollection orc n s = (s1, r)" by force
  from has_effect [OF h] assms h that show thesis
    by (cases r) (auto simp: dropIfExists_def Let_def split: call_outcome.splits bool.splits)
qed

section \<open>No data is lost\<close>

text \<open>
  The data a codebase is served from: the live collection or, while a promotion was interrupted
  between its renames, the one kept for recovery.
\<close>

definition served :: "string \<Rightarrow> string \<Rightarrow> 'd promo_state \<Rightarrow> 'd option" where
  "served live recovery s = (case dataAt s live of Some d \<Rightarrow> Some d | None \<Rightarrow> dataAt s recovery)"

lemma served_cong: "PsStore s' = PsStore s \<Longrightarrow> served live recovery s' = served live recovery s"
  by (simp only: served_def)

locale promotion_names =
  fixes live staging recovery :: string
  assumes distinct_names: "live \<noteq> staging" "live \<noteq> recovery" "staging \<noteq> recovery"
begin

lemmas names_ne = distinct_names distinct_names [symmetric]

lemma recover_effect:
  assumes "recoverPromotionNames orc live recovery s = (s', e)"
  shows "served live recovery s' = served live recovery s \<and> dataAt s' staging = dataAt s staging \<and>
    (e = None \<longrightarrow> dataAt s' recovery = None)"
proof -
  obtain s1 r where h: "hasCollection orc live s = (s1, r)" by force
  note st = has_effect [OF h]
  consider "r = None" | "r = Some True" | "r = Some False" by (cases r) auto
  then show ?thesis
  proof cases
    case 1
    with h st assms served_cong [of s1 s] show ?thesis by (auto simp: recoverPromotionNames_def)
  next
    case 2
    with h assms have "dropIfExists orc recovery s1 = (s', e)" by (simp add: recoverPromotionNames_def)
    then show ?thesis
      by (cases rule: drop_effect) (use st 2 names_ne in \<open>auto simp: served_def split: option.splits\<close>)
  next
    case 3
    with h assms have "renameCollection orc recovery live s1 = (s', e)" by (simp add: recoverPromotionNames_def)
    then show ?thesis
      by (cases rule: rename_effect) (use st 3 names_ne in \<open>auto simp: served_def split: option.splits\<close>)
  qed
qed

lemma recoverFirst_effect:
  assumes "recoverFirst orc live recovery s = (s', e)"
  shows "served live recovery s' = served live recovery s \<and> dataAt s' staging = dataAt s staging \<and>
    (e = None \<longrightarrow> dataAt s' recovery = None)"
proof -
  obtain s1 r where h: "hasCollection orc recovery s = (s1, r)" by force
  note st = has_effect [OF h]
  have sv: "served live recovery s1 = served live recovery s" "dataAt s1 staging = dataAt s staging"
    by (simp_all add: st served_cong [of s1 s])
  consider "r = None" | "r = Some True" | "r = Some False" by (cases r) auto
  then show ?thesis
  proof cases
    case 1
    with h sv assms show ?thesis by (auto simp: recoverFirst_def)
  next
    case 2
    with h assms have "recoverPromotionNames orc live recovery s1 = (s', e)" by (simp add: recoverFirst_def)
    from recover_effect [OF this] sv show ?thesis by simp
  next
    case 3
    with h st assms have "s' = s1" "dataAt s1 recovery = None" by (auto simp: recoverFirst_def)
    with sv show ?thesis by simp
  qed
qed

text \<open>The swap, from a state in which the previous data, if any, stands under the recovery name.\<close>

lemma swap_effect:
  assumes "swapNames orc live staging recovery had s = (s', e)"
    and "dataAt s staging = Some new" and "dataAt s live = None" and "had = (dataAt s recovery \<noteq> None)"
  shows "(served live recovery s' = dataAt s recovery \<and> dataAt s' staging = Some new \<or> dataAt s' live = Some new) \<and>
    (e = None \<longrightarrow> dataAt s' live = Some new \<and> dataAt s' staging = None \<and> dataAt s' recovery = None)"
proof -
  obtain s1 e1 where r1: "renameCollection orc staging live s = (s1, e1)" by force
  from r1 have one: "PsStore s1 = PsStore s \<and> e1 \<noteq> None \<or>
      PsStore s1 = gm_put live new (gm_del staging (PsStore s))"
    by (cases rule: rename_effect) (use assms(2) in auto)
  show ?thesis
  proof (cases "e1 = None")
    case True
    then have st1: "PsStore s1 = gm_put live new (gm_del staging (PsStore s))" using one by simp
    show ?thesis
    proof (cases had)
      case False
      with True r1 assms st1 names_ne show ?thesis by (auto simp: swapNames_def)
    next
      case had: True
      with True r1 assms(1) have "dropIfExists orc recovery s1 = (s', e)" by (simp add: swapNames_def)
      then show ?thesis
        by (cases rule: drop_effect) (use st1 names_ne in auto)
    qed
  next
    case False
    then obtain x where x: "e1 = Some x" by auto
    show ?thesis
    proof (cases had)
      case False
      with x r1 assms one names_ne show ?thesis by (auto simp: swapNames_def served_def)
    next
      case True
      obtain s2 e2 where r2: "renameCollection orc recovery live s1 = (s2, e2)" by force
      have s': "s' = s2" "e \<noteq> None" using True x r1 r2 assms(1) by (auto simp: swapNames_def split: option.splits)
      from r2 show ?thesis
        by (cases rule: rename_effect) (use one assms s' names_ne in \<open>auto simp: served_def\<close>)
    qed
  qed
qed

lemma promote_effect:
  assumes "promoteNames orc live staging recovery s = (s', e)" and "dataAt s staging = Some new"
  shows "(served live recovery s' = served live recovery s \<and> dataAt s' staging = Some new \<or> dataAt s' live = Some new) \<and>
    (e = None \<longrightarrow> dataAt s' live = Some new \<and> dataAt s' staging = None \<and> dataAt s' recovery = None)"
proof -
  obtain s1 e1 where f: "recoverFirst orc live recovery s = (s1, e1)" by force
  note one = recoverFirst_effect [OF f]
  obtain s2 r2 where h2: "hasCollection orc staging s1 = (s2, r2)" by force
  note two = has_effect [OF h2]
  obtain s3 r3 where h3: "hasCollection orc live s2 = (s3, r3)" by force
  note three = has_effect [OF h3]
  have sv: "served live recovery s3 = served live recovery s" "dataAt s3 staging = Some new"
    using one two three assms(2) served_cong [of s3 s1] by auto
  show ?thesis
  proof (cases "e1 = None \<and> r2 = Some True \<and> r3 \<noteq> None")
    case False
    have "PsStore s' = PsStore s1 \<and> e \<noteq> None"
      using False f h2 h3 two three assms(1)
      by (auto simp: promoteNames_def split: option.splits bool.splits)
    then show ?thesis using one assms(2) served_cong [of s' s1] by auto
  next
    case True
    then have rec: "dataAt s3 recovery = None" using one two three by simp
    show ?thesis
    proof (cases "dataAt s3 live")
      case None
      with True f h2 h3 three assms(1) have "swapNames orc live staging recovery False s3 = (s', e)"
        by (auto simp: promoteNames_def)
      from swap_effect [OF this sv(2) None] rec sv(1) None show ?thesis by (auto simp: served_def)
    next
      case (Some cur)
      obtain s4 e4 where r4: "renameCollection orc live recovery s3 = (s4, e4)" by force
      from r4 have four: "PsStore s4 = PsStore s3 \<and> e4 \<noteq> None
          \<or> PsStore s4 = gm_put recovery cur (gm_del live (PsStore s3))"
        by (cases rule: rename_effect) (use Some in auto)
      show ?thesis
      proof (cases e4)
        case (Some x)
        with True f h2 h3 three r4 assms(1) \<open>dataAt s3 live = Some cur\<close> have "s' = s4" "e \<noteq> None"
          by (auto simp: promoteNames_def)
        moreover have "served live recovery s = Some cur"
          using sv(1) \<open>dataAt s3 live = Some cur\<close> by (simp add: served_def)
        moreover have "served live recovery s4 = Some cur" "dataAt s4 staging = Some new"
          using four sv(2) \<open>dataAt s3 live = Some cur\<close> names_ne by (auto simp: served_def)
        ultimately show ?thesis by simp
      next
        case None
        with True f h2 h3 three r4 assms(1) Some have "swapNames orc live staging recovery True s4 = (s', e)"
          by (auto simp: promoteNames_def)
        moreover have "dataAt s4 staging = Some new" "dataAt s4 live = None" "dataAt s4 recovery = Some cur"
          using four None sv names_ne by auto
        moreover have "served live recovery s = Some cur" using sv Some by (simp add: served_def)
        ultimately show ?thesis using swap_effect [of orc True s4 s' e new] by simp
      qed
    qed
  qed
qed

end

text \<open>
  The names of one codebase meet the contract: for names within the reversible limit they are
  distinct, and the code goes on only with such names.
\<close>

definition reversibleName :: "string \<Rightarrow> string" where
  "reversibleName n = take (maxCollectionNameLength - length recoveryCollectionSuffix) n"

lemmas name_defs = reversibleName_def recoveryCollectionName_def stagingCollectionName_def
  maxCollectionNameLength_def recoveryCollectionSuffix_def stagingCollectionSuffix_def Let_def

interpretation promotion: promotion_names "reversibleName n" "stagingCollectionName (reversibleName n)"
  "reversibleName n @ recoveryCollectionSuffix" for n
  by unfold_locales (auto simp: name_defs)

lemma reversible_live:
  "recoveryCollectionName live = Some recovery \<Longrightarrow>
    reversibleName live = live \<and> recovery = live @ recoveryCollectionSuffix"
  by (auto simp: name_defs split: if_splits)


text \<open>
  Recovery completes. Running the recovery of an interrupted promotion against a store that
  answers leaves the data the codebase was served by under its live name and removes the recovery
  collection, and it reports success.
\<close>

theorem recovery_restores_live:
  assumes "recoveryCollectionName live = Some recovery"
    and "served live recovery s = Some d"
  shows "snd (recoverPromotionNames (\<lambda>_. CallOk) live recovery s) = None \<and>
    map_of (PsStore (fst (recoverPromotionNames (\<lambda>_. CallOk) live recovery s))) live = Some d \<and>
    map_of (PsStore (fst (recoverPromotionNames (\<lambda>_. CallOk) live recovery s))) recovery = None"
proof -
  have ne: "live \<noteq> recovery"
    using promotion.distinct_names(2) [of live] reversible_live [OF assms(1)] by simp
  show ?thesis
  proof (cases "dataAt s live")
    case None
    with assms(2) ne show ?thesis
      by (simp add: served_def recoverPromotionNames_def hasCollection_def renameCollection_def
          applyRename_def Let_def)
  next
    case (Some x)
    with assms(2) ne show ?thesis
      by (cases "dataAt s recovery")
         (simp_all add: served_def recoverPromotionNames_def hasCollection_def dropIfExists_def Let_def)
  qed
qed

text \<open>The residency controller follows every promotion without breaking its invariant.\<close>

lemma rename_residency: "res_inv (PsResidency s) \<Longrightarrow> res_inv (PsResidency (fst (renameCollection orc old new s)))"
  by (auto simp: renameCollection_def Let_def rename_inv split: call_outcome.splits option.splits)

section \<open>Long names\<close>


section \<open>Witnesses\<close>

definition samplePromo :: "nat promo_state" where
  "samplePromo = \<lparr>PsStore = [(''c'', 1), (''c_stg'', 2)], PsResidency = newCollectionResidencyController, PsCalls = 0\<rparr>"

text \<open>The reply to the first rename is lost and everything after it fails.\<close>

definition crashOracle :: call_oracle where
  "crashOracle n = (if n < 3 then CallOk else if n = 3 then CallLost else CallFailed)"


theorem recovery_restores_live_witness:
  "map_of (PsStore (fst (recoverPromotionNames (\<lambda>_. CallOk) ''c'' ''c_swap_previous''
     (samplePromo\<lparr>PsStore := [(''c_swap_previous'', 7)]\<rparr>)))) ''c'' = Some 7"
proof -
  have "recoveryCollectionName ''c'' = Some ''c_swap_previous''" by code_simp
  moreover have "served ''c'' ''c_swap_previous'' (samplePromo\<lparr>PsStore := [(''c_swap_previous'', 7)]\<rparr>) = Some 7"
    by code_simp
  ultimately show ?thesis
    using recovery_restores_live [of "''c''" "''c_swap_previous''" "samplePromo\<lparr>PsStore := [(''c_swap_previous'', 7)]\<rparr>" 7]
    by simp
qed


end
