(* ===== verification/LoadGates.thy ===== *)
theory LoadGates
  imports GoStrings
begin

text \<open>
  The gates before a collection load reaches Milvus: maintenance mode, the limiter on loads in
  flight and the backoff after memory exhaustion (\<open>internal/semantic/load_gates.go\<close>, \<open>load_limit.go\<close>,
  \<open>load_backoff.go\<close>, and \<open>loadCollectionTransition\<close>, \<open>admitCollectionLoad\<close> of \<open>collection.go\<close>). Times
  are nanoseconds; the clock reading is an argument. Concurrent loads are tasks with a phase; a step
  of the machine is one section of one task, so all interleavings are covered. Lower-casing of error
  texts is the ASCII one.
\<close>

section \<open>Memory signals\<close>

record load_error =
  LeUnrecovered :: bool
  LeText :: string

definition toLowerAscii :: "char \<Rightarrow> char" where
  "toLowerAscii ch = (if CHR ''A'' \<le> ch \<and> ch \<le> CHR ''Z'' then char_of (of_char ch + 32 :: nat) else ch)"

fun containsString :: "string \<Rightarrow> string \<Rightarrow> bool" where
  "containsString [] p \<longleftrightarrow> p = []"
| "containsString (c # s) p \<longleftrightarrow> hasPrefix (c # s) p \<or> containsString s p"

definition milvusMemoryExhaustionMessages :: "string list" where
  "milvusMemoryExhaustionMessages =
     [''memory limit exceeded'', ''service resource insufficient'', ''resourcetype=memory'',
      ''oom if load'', ''insufficient memory'']"

definition milvusMemoryExhaustion :: "load_error \<Rightarrow> bool" where
  "milvusMemoryExhaustion err =
     list_ex (containsString (map toLowerAscii (LeText err))) milvusMemoryExhaustionMessages"

definition collectionLoadMemorySignal :: "load_error option \<Rightarrow> bool" where
  "collectionLoadMemorySignal err =
     (case err of None \<Rightarrow> False | Some e \<Rightarrow> LeUnrecovered e \<or> milvusMemoryExhaustion e)"

section \<open>Backoff\<close>

definition second :: int where "second = 1000000000"
definition collectionLoadBackoffInitial :: int where "collectionLoadBackoffInitial = 30 * second"
definition collectionLoadBackoffMax :: int where "collectionLoadBackoffMax = 5 * 60 * second"
definition collectionLoadBackoffFactor :: int where "collectionLoadBackoffFactor = 2"

record load_backoff =
  BoActive :: bool
  BoSince :: int
  BoUntil :: int
  BoInterval :: int
  BoSignals :: nat

definition newCollectionLoadBackoff :: load_backoff where
  "newCollectionLoadBackoff =
     \<lparr>BoActive = False, BoSince = 0, BoUntil = 0, BoInterval = 0, BoSignals = 0\<rparr>"

definition nextCollectionLoadBackoffInterval :: "int \<Rightarrow> int" where
  "nextCollectionLoadBackoffInterval current =
     (if current \<le> 0 then collectionLoadBackoffInitial
      else let nxt = current * collectionLoadBackoffFactor
           in if nxt > collectionLoadBackoffMax then collectionLoadBackoffMax else nxt)"

definition endLocked :: "load_backoff \<Rightarrow> load_backoff" where
  "endLocked b = b\<lparr>BoActive := False, BoSignals := 0\<rparr>"

text \<open>\<open>admit\<close> returns the new state and whether the load may start.\<close>

definition admit :: "int \<Rightarrow> load_backoff \<Rightarrow> load_backoff \<times> bool" where
  "admit now b =
     (if \<not> BoActive b then (b, True)
      else if \<not> now < BoUntil b then (endLocked b, True)
      else (b, False))"

definition noteLoadOutcome :: "int \<Rightarrow> load_error option \<Rightarrow> load_backoff \<Rightarrow> load_backoff" where
  "noteLoadOutcome now err b =
     (if err = None then (if BoActive b then endLocked b else b)\<lparr>BoInterval := 0\<rparr>
      else if \<not> collectionLoadMemorySignal err then b
      else let interval = nextCollectionLoadBackoffInterval (BoInterval b);
               b' = b\<lparr>BoUntil := now + interval, BoInterval := interval, BoSignals := BoSignals b + 1\<rparr>
           in if BoActive b then b' else b'\<lparr>BoActive := True, BoSince := now\<rparr>)"

section \<open>Limiter and the load of one collection\<close>

definition defaultMaxConcurrentCollectionLoads :: int where
  "defaultMaxConcurrentCollectionLoads = 2"

definition newCollectionLoadLimiter :: "int \<Rightarrow> nat" where
  "newCollectionLoadLimiter limit =
     nat (if limit < 1 then defaultMaxConcurrentCollectionLoads else limit)"

datatype load_phase = LoadQueued | LoadHolding | LoadRequesting | LoadDone

record load_gates =
  LgMaintenance :: bool
  LgLimit :: nat
  LgSlots :: nat
  LgBackoff :: load_backoff
  LgTasks :: "load_phase list"

definition SetMaintenance :: "bool \<Rightarrow> load_gates \<Rightarrow> load_gates" where
  "SetMaintenance enabled g = g\<lparr>LgMaintenance := enabled\<rparr>"

definition admitCollectionLoad :: "int \<Rightarrow> load_gates \<Rightarrow> load_gates \<times> bool" where
  "admitCollectionLoad now g =
     (if LgMaintenance g then (g, False)
      else let (b, ok) = admit now (LgBackoff g) in (g\<lparr>LgBackoff := b\<rparr>, ok))"

definition setPhase :: "nat \<Rightarrow> load_phase \<Rightarrow> load_gates \<Rightarrow> load_gates" where
  "setPhase t p g = g\<lparr>LgTasks := (LgTasks g)[t := p]\<rparr>"

text \<open>The four sections of \<open>loadCollectionTransition\<close>.\<close>

definition loadStart :: "int \<Rightarrow> load_gates \<Rightarrow> load_gates" where
  "loadStart now g =
     (let (g, ok) = admitCollectionLoad now g
      in g\<lparr>LgTasks := LgTasks g @ [if ok then LoadQueued else LoadDone]\<rparr>)"

definition loadAcquireSlot :: "nat \<Rightarrow> bool \<Rightarrow> load_gates \<Rightarrow> load_gates" where
  "loadAcquireSlot t cancelled g =
     (if cancelled then setPhase t LoadDone g
      else if LgSlots g < LgLimit g then (setPhase t LoadHolding g)\<lparr>LgSlots := LgSlots g + 1\<rparr>
      else g)"

definition loadRequest :: "int \<Rightarrow> nat \<Rightarrow> load_gates \<Rightarrow> load_gates" where
  "loadRequest now t g =
     (let (g, ok) = admitCollectionLoad now g
      in if ok then setPhase t LoadRequesting g
         else (setPhase t LoadDone g)\<lparr>LgSlots := LgSlots g - 1\<rparr>)"

definition loadFinish :: "int \<Rightarrow> load_error option \<Rightarrow> nat \<Rightarrow> load_gates \<Rightarrow> load_gates" where
  "loadFinish now err t g =
     (setPhase t LoadDone (g\<lparr>LgBackoff := noteLoadOutcome now err (LgBackoff g)\<rparr>))\<lparr>LgSlots := LgSlots g - 1\<rparr>"

inductive gate_step :: "load_gates \<Rightarrow> load_gates \<Rightarrow> bool" where
  gate_start: "gate_step g (loadStart now g)"
| gate_slot: "t < length (LgTasks g) \<Longrightarrow> LgTasks g ! t = LoadQueued \<Longrightarrow> gate_step g (loadAcquireSlot t cancelled g)"
| gate_request: "t < length (LgTasks g) \<Longrightarrow> LgTasks g ! t = LoadHolding \<Longrightarrow> gate_step g (loadRequest now t g)"
| gate_finish: "t < length (LgTasks g) \<Longrightarrow> LgTasks g ! t = LoadRequesting \<Longrightarrow> gate_step g (loadFinish now err t g)"
| gate_maintenance: "gate_step g (SetMaintenance enabled g)"

definition gate_init :: "int \<Rightarrow> load_gates \<Rightarrow> bool" where
  "gate_init limit g \<longleftrightarrow> g = \<lparr>LgMaintenance = False, LgLimit = newCollectionLoadLimiter limit, LgSlots = 0,
     LgBackoff = newCollectionLoadBackoff, LgTasks = []\<rparr>"

section \<open>The limit holds\<close>

definition holdsSlot :: "load_phase \<Rightarrow> bool" where
  "holdsSlot p \<longleftrightarrow> p = LoadHolding \<or> p = LoadRequesting"

abbreviation slotsHeld :: "load_gates \<Rightarrow> nat" where
  "slotsHeld g \<equiv> length (filter holdsSlot (LgTasks g))"

definition gate_inv :: "int \<Rightarrow> load_gates \<Rightarrow> bool" where
  "gate_inv limit g \<longleftrightarrow> LgLimit g = newCollectionLoadLimiter limit \<and> LgSlots g = slotsHeld g \<and> LgSlots g \<le> LgLimit g"

lemma filter_update:
  assumes "t < length xs"
  shows "length (filter P (xs[t := y])) + (if P (xs ! t) then 1 else 0)
    = length (filter P xs) + (if P y then 1 else 0)"
  using assms
proof (induction xs arbitrary: t)
  case (Cons x xs)
  then show ?case by (cases t) auto
qed simp

lemma admitLoad_frame:
  "admitCollectionLoad now g = (g', ok) \<Longrightarrow>
    LgTasks g' = LgTasks g \<and> LgSlots g' = LgSlots g \<and> LgLimit g' = LgLimit g"
  by (auto simp: admitCollectionLoad_def Let_def split: if_splits prod.splits)

lemma gate_step_inv: "gate_step g g' \<Longrightarrow> gate_inv limit g \<Longrightarrow> gate_inv limit g'"
proof (induction rule: gate_step.induct)
  case (gate_start g now)
  obtain g1 ok where a: "admitCollectionLoad now g = (g1, ok)" by force
  with admitLoad_frame [OF a] gate_start show ?case
    by (simp add: loadStart_def gate_inv_def holdsSlot_def)
next
  case (gate_slot t g cancelled)
  then show ?case
    using filter_update [of t "LgTasks g" holdsSlot LoadHolding] filter_update [of t "LgTasks g" holdsSlot LoadDone]
    by (auto simp: loadAcquireSlot_def setPhase_def gate_inv_def holdsSlot_def)
next
  case (gate_request t g now)
  obtain g1 ok where a: "admitCollectionLoad now g = (g1, ok)" by force
  with admitLoad_frame [OF a] gate_request show ?case
    using filter_update [of t "LgTasks g" holdsSlot LoadRequesting] filter_update [of t "LgTasks g" holdsSlot LoadDone]
    by (auto simp: loadRequest_def setPhase_def gate_inv_def holdsSlot_def)
next
  case (gate_finish t g now err)
  then show ?case
    using filter_update [of t "LgTasks g" holdsSlot LoadDone]
    by (auto simp: loadFinish_def setPhase_def gate_inv_def holdsSlot_def)
next
  case (gate_maintenance g enabled)
  then show ?case by (simp add: SetMaintenance_def gate_inv_def)
qed

interpretation gates: invariant_machine "gate_init limit" gate_step "gate_inv limit"
proof unfold_locales
  show "gate_init limit g \<Longrightarrow> gate_inv limit g" for g by (auto simp: gate_init_def gate_inv_def)
qed (rule gate_step_inv)

text \<open>
  C34: Milvus never sees more loads in flight than the configured cap. In every reachable state, under
  every interleaving of loads, cancellations, outcomes and maintenance switches, the number of loads
  with a request in flight is at most the limit, which is the configured value when that is positive
  and two otherwise.
\<close>

theorem loads_within_limit:
  assumes "reach (gate_init limit) gate_step g"
  shows "length (filter (\<lambda>p. p = LoadRequesting) (LgTasks g)) \<le> nat (if limit < 1 then 2 else limit)"
proof -
  have inv: "gate_inv limit g" using gates.reach_inv [OF assms] .
  have "length (filter (\<lambda>p. p = LoadRequesting) (LgTasks g)) \<le> slotsHeld g"
    by (rule length_filter_mono) (simp add: holdsSlot_def)
  with inv show ?thesis
    by (simp add: gate_inv_def newCollectionLoadLimiter_def defaultMaxConcurrentCollectionLoads_def split: if_splits)
qed


lemma one_load_reachable:
  "reach (gate_init 0) gate_step
     (loadRequest 0 0 (loadAcquireSlot 0 False (loadStart 0 \<lparr>LgMaintenance = False, LgLimit = newCollectionLoadLimiter 0,
        LgSlots = 0, LgBackoff = newCollectionLoadBackoff, LgTasks = []\<rparr>)))"
  (is "reach _ _ (loadRequest 0 0 (loadAcquireSlot 0 False (loadStart 0 ?g)))")
proof -
  have "reach (gate_init 0) gate_step ?g" by (rule reach_init) (simp add: gate_init_def)
  then have "reach (gate_init 0) gate_step (loadStart 0 ?g)" by (rule reach_step) (rule gate_start)
  then have "reach (gate_init 0) gate_step (loadAcquireSlot 0 False (loadStart 0 ?g))"
    by (rule reach_step) (rule gate_slot; code_simp)
  then show ?thesis by (rule reach_step) (rule gate_request; code_simp)
qed

theorem loads_within_limit_witness:
  "length (filter (\<lambda>p. p = LoadRequesting)
     (LgTasks (loadRequest 0 0 (loadAcquireSlot 0 False (loadStart 0 \<lparr>LgMaintenance = False,
        LgLimit = newCollectionLoadLimiter 0, LgSlots = 0, LgBackoff = newCollectionLoadBackoff, LgTasks = []\<rparr>)))))
     \<le> nat (if (0 :: int) < 1 then 2 else 0)"
  by (rule loads_within_limit [OF one_load_reachable])

section \<open>The backoff schedule\<close>

datatype backoff_event = LoadAttempt int | LoadOutcome int "load_error option"

fun backoffEvent :: "backoff_event \<Rightarrow> load_backoff \<Rightarrow> load_backoff" where
  "backoffEvent (LoadAttempt now) b = fst (admit now b)"
| "backoffEvent (LoadOutcome now err) b = noteLoadOutcome now err b"

text \<open>The memory signals since the last successful load, and the time of the last one.\<close>

fun signalCount :: "backoff_event list \<Rightarrow> nat" where
  "signalCount [] = 0"
| "signalCount (LoadAttempt now # evs) = signalCount evs"
| "signalCount (LoadOutcome now err # evs) =
     (if err = None then 0 else if collectionLoadMemorySignal err then signalCount evs + 1 else signalCount evs)"

fun lastSignal :: "backoff_event list \<Rightarrow> int" where
  "lastSignal [] = 0"
| "lastSignal (LoadAttempt now # evs) = lastSignal evs"
| "lastSignal (LoadOutcome now err # evs) = (if collectionLoadMemorySignal err then now else lastSignal evs)"

definition pauseLength :: "nat \<Rightarrow> int" where
  "pauseLength n = (if n = 0 then 0 else min (collectionLoadBackoffInitial * 2 ^ (n - 1)) collectionLoadBackoffMax)"

lemmas backoff_constants = collectionLoadBackoffInitial_def collectionLoadBackoffMax_def
  collectionLoadBackoffFactor_def second_def

lemma next_interval: "nextCollectionLoadBackoffInterval (pauseLength n) = pauseLength (Suc n)"
proof (cases n)
  case 0
  then show ?thesis by (simp add: nextCollectionLoadBackoffInterval_def pauseLength_def backoff_constants)
next
  case (Suc m)
  have "(1 :: int) \<le> 2 ^ m" by simp
  then show ?thesis
    unfolding Suc by (auto simp: nextCollectionLoadBackoffInterval_def pauseLength_def backoff_constants Let_def min_def)
qed

lemma no_signal_none [simp]: "\<not> collectionLoadMemorySignal None"
  by (simp add: collectionLoadMemorySignal_def)

text \<open>Events are listed with the latest first.\<close>

lemma backoff_state:
  "BoInterval (foldr backoffEvent evs newCollectionLoadBackoff) = pauseLength (signalCount evs)
   \<and> (BoActive (foldr backoffEvent evs newCollectionLoadBackoff) \<longrightarrow>
        0 < signalCount evs
        \<and> BoUntil (foldr backoffEvent evs newCollectionLoadBackoff) = lastSignal evs + pauseLength (signalCount evs))"
proof (induction evs rule: signalCount.induct)
  case 1
  then show ?case by (simp add: newCollectionLoadBackoff_def pauseLength_def)
next
  case (2 now evs)
  then show ?case by (simp add: admit_def endLocked_def)
next
  case (3 now err evs)
  then show ?case
    by (cases err; cases "collectionLoadMemorySignal err")
      (simp_all add: noteLoadOutcome_def endLocked_def pauseLength_def [of 0] next_interval Let_def)
qed

text \<open>
  C35: The backoff schedule. Over any history of load attempts and outcomes (listed latest first),
  right after a memory signal at time \<open>t\<close> that follows \<open>n\<close> other memory signals since the last
  successful load, a load is refused exactly before \<open>t + min (30 s * 2 ^ n) 300 s\<close>; any refusal at all
  comes from a memory signal after the last success that is less than five minutes old; and right after
  a success every load passes.
\<close>

theorem backoff_schedule:
  assumes "collectionLoadMemorySignal err"
  shows "(snd (admit now (foldr backoffEvent (LoadOutcome t err # evs) newCollectionLoadBackoff))
      \<longleftrightarrow> t + min (30 * second * 2 ^ signalCount evs) (300 * second) \<le> now)
    \<and> (snd (admit now (foldr backoffEvent evs newCollectionLoadBackoff))
      \<or> (0 < signalCount evs \<and> now < lastSignal evs + 300 * second))
    \<and> snd (admit now (foldr backoffEvent (LoadOutcome t None # evs) newCollectionLoadBackoff))"
proof (intro conjI)
  have "err \<noteq> None" using assms by (cases err) auto
  moreover have "pauseLength (Suc (signalCount evs)) = min (30 * second * 2 ^ signalCount evs) (300 * second)"
    by (simp add: pauseLength_def backoff_constants)
  ultimately show "snd (admit now (foldr backoffEvent (LoadOutcome t err # evs) newCollectionLoadBackoff))
      \<longleftrightarrow> t + min (30 * second * 2 ^ signalCount evs) (300 * second) \<le> now"
    using assms backoff_state [of evs]
    by (auto simp: admit_def noteLoadOutcome_def next_interval Let_def)
  have "pauseLength (signalCount evs) \<le> 300 * second" by (simp add: pauseLength_def backoff_constants)
  then show "snd (admit now (foldr backoffEvent evs newCollectionLoadBackoff))
      \<or> (0 < signalCount evs \<and> now < lastSignal evs + 300 * second)"
    using backoff_state [of evs] by (auto simp: admit_def split: if_splits)
  show "snd (admit now (foldr backoffEvent (LoadOutcome t None # evs) newCollectionLoadBackoff))"
    by (simp add: admit_def noteLoadOutcome_def endLocked_def)
qed

theorem backoff_schedule_witness:
  "snd (admit 100 (foldr backoffEvent [LoadOutcome 7 (Some \<lparr>LeUnrecovered = True, LeText = ''late''\<rparr>)] newCollectionLoadBackoff))
      \<longleftrightarrow> 7 + min (30 * second * 2 ^ signalCount []) (300 * second) \<le> (100 :: int)"
  by (rule backoff_schedule [THEN conjunct1]) (simp add: collectionLoadMemorySignal_def)

end
