(* ===== verification/CollectionFilter.thy ===== *)
theory CollectionFilter
  imports GoStrings CollectionValues
begin

text \<open>
  Typed filter trees and their compiler to Milvus boolean expressions (\<open>collection/filter.go\<close>,
  \<open>collection/compile.go\<close>). A node is a value of \<open>filter\<close> with the fields of the Go struct; the kind is
  a Go string, so an unknown kind is possible and is an error of the compiler. The compiler threads the
  list of template parameters; a failing compilation returns no parameters, so an error carries none.
  Shown: a well-typed tree always compiles, to parameters of its declared types numbered in tree order,
  and an inline string literal is read back to exactly its value, whatever follows it.
\<close>

section \<open>Filter trees\<close>

definition FilterAll :: string where "FilterAll = ''all''"
definition FilterAny :: string where "FilterAny = ''any''"
definition FilterNot :: string where "FilterNot = ''not''"
definition FilterEquals :: string where "FilterEquals = ''equals''"
definition FilterIn :: string where "FilterIn = ''in''"
definition FilterRange :: string where "FilterRange = ''range''"
definition FilterIsNull :: string where "FilterIsNull = ''is_null''"
definition FilterIsPresent :: string where "FilterIsPresent = ''is_present''"

datatype filter_node =
  FilterNode (FKind: string) (FChildren: "filter_node list") (FColumn: string)
    (FValues: "scalar_value list") (FLower: "int option") (FUpper: "int option")

definition AllOf :: "filter_node list \<Rightarrow> filter_node" where
  "AllOf children = FilterNode FilterAll children [] [] None None"

definition AnyOf :: "filter_node list \<Rightarrow> filter_node" where
  "AnyOf children = FilterNode FilterAny children [] [] None None"

definition Negate :: "filter_node \<Rightarrow> filter_node" where
  "Negate child = FilterNode FilterNot [child] [] [] None None"

definition ColumnEquals :: "string \<Rightarrow> scalar_value \<Rightarrow> filter_node" where
  "ColumnEquals column value = FilterNode FilterEquals [] column [value] None None"

definition ColumnIn :: "string \<Rightarrow> scalar_value list \<Rightarrow> filter_node" where
  "ColumnIn column values = FilterNode FilterIn [] column values None None"

definition ColumnRange :: "string \<Rightarrow> int option \<Rightarrow> int option \<Rightarrow> filter_node" where
  "ColumnRange column lower upper = FilterNode FilterRange [] column [] lower upper"

definition ColumnIsNull :: "string \<Rightarrow> filter_node" where
  "ColumnIsNull column = FilterNode FilterIsNull [] column [] None None"

definition ColumnIsPresent :: "string \<Rightarrow> filter_node" where
  "ColumnIsPresent column = FilterNode FilterIsPresent [] column [] None None"

definition StringValues :: "string list \<Rightarrow> scalar_value list" where
  "StringValues values = map StringScalar values"

lemmas filter_kind_defs = FilterAll_def FilterAny_def FilterNot_def FilterEquals_def FilterIn_def
  FilterRange_def FilterIsNull_def FilterIsPresent_def

lemma filter_kinds_neq [simp]:
  "FilterAll \<noteq> FilterAny" "FilterAll \<noteq> FilterNot" "FilterAll \<noteq> FilterEquals" "FilterAll \<noteq> FilterIn" "FilterAll \<noteq> FilterRange" "FilterAll \<noteq> FilterIsNull" "FilterAll \<noteq> FilterIsPresent"
  "FilterAny \<noteq> FilterAll" "FilterAny \<noteq> FilterNot" "FilterAny \<noteq> FilterEquals" "FilterAny \<noteq> FilterIn" "FilterAny \<noteq> FilterRange" "FilterAny \<noteq> FilterIsNull" "FilterAny \<noteq> FilterIsPresent"
  "FilterNot \<noteq> FilterAll" "FilterNot \<noteq> FilterAny" "FilterNot \<noteq> FilterEquals" "FilterNot \<noteq> FilterIn" "FilterNot \<noteq> FilterRange" "FilterNot \<noteq> FilterIsNull" "FilterNot \<noteq> FilterIsPresent"
  "FilterEquals \<noteq> FilterAll" "FilterEquals \<noteq> FilterAny" "FilterEquals \<noteq> FilterNot" "FilterEquals \<noteq> FilterIn" "FilterEquals \<noteq> FilterRange" "FilterEquals \<noteq> FilterIsNull" "FilterEquals \<noteq> FilterIsPresent"
  "FilterIn \<noteq> FilterAll" "FilterIn \<noteq> FilterAny" "FilterIn \<noteq> FilterNot" "FilterIn \<noteq> FilterEquals" "FilterIn \<noteq> FilterRange" "FilterIn \<noteq> FilterIsNull" "FilterIn \<noteq> FilterIsPresent"
  "FilterRange \<noteq> FilterAll" "FilterRange \<noteq> FilterAny" "FilterRange \<noteq> FilterNot" "FilterRange \<noteq> FilterEquals" "FilterRange \<noteq> FilterIn" "FilterRange \<noteq> FilterIsNull" "FilterRange \<noteq> FilterIsPresent"
  "FilterIsNull \<noteq> FilterAll" "FilterIsNull \<noteq> FilterAny" "FilterIsNull \<noteq> FilterNot" "FilterIsNull \<noteq> FilterEquals" "FilterIsNull \<noteq> FilterIn" "FilterIsNull \<noteq> FilterRange" "FilterIsNull \<noteq> FilterIsPresent"
  "FilterIsPresent \<noteq> FilterAll" "FilterIsPresent \<noteq> FilterAny" "FilterIsPresent \<noteq> FilterNot" "FilterIsPresent \<noteq> FilterEquals" "FilterIsPresent \<noteq> FilterIn" "FilterIsPresent \<noteq> FilterRange" "FilterIsPresent \<noteq> FilterIsNull"
  by (simp_all add: filter_kind_defs)

section \<open>Literals\<close>

definition octDigit :: "nat \<Rightarrow> char" where
  "octDigit d = char_of (48 + d)"

text \<open>Go's \<open>strings.ReplaceAll\<close> of a single byte.\<close>

definition replaceByte :: "char \<Rightarrow> string \<Rightarrow> string \<Rightarrow> string" where
  "replaceByte old new s = concat (map (\<lambda>c. if c = old then new else [c]) s)"

definition escapeControl :: "char \<Rightarrow> string" where
  "escapeControl c =
     (if c = CHR 0x0A then [CHR 0x5C, CHR ''n'']
      else if c = CHR 0x0D then [CHR 0x5C, CHR ''r'']
      else if c = CHR 0x09 then [CHR 0x5C, CHR ''t'']
      else if (of_char c :: nat) < 32 then
        [CHR 0x5C, octDigit (of_char c div 64), octDigit (of_char c div 8 mod 8), octDigit (of_char c mod 8)]
      else [c])"

definition EscapeString :: "string \<Rightarrow> string" where
  "EscapeString value =
     concat (map escapeControl
       (replaceByte (CHR 0x22) [CHR 0x5C, CHR 0x22] (replaceByte (CHR 0x5C) [CHR 0x5C, CHR 0x5C] value)))"

definition formatBool :: "bool \<Rightarrow> string" where
  "formatBool b = (if b then ''true'' else ''false'')"

definition literal :: "scalar_value \<Rightarrow> string" where
  "literal value =
     (if SvType value = ScalarTypeBool then formatBool (SvBool value)
      else if SvType value = ScalarTypeInt64 then fmtInt (SvInt64 value)
      else [CHR 0x22] @ EscapeString (SvString value) @ [CHR 0x22])"

section \<open>Compiler\<close>

record template_param =
  TpName :: string
  TpType :: scalar_type
  TpStrings :: "string list"
  TpBools :: "bool list"
  TpInt64s :: "int list"

datatype compile_error =
    NotChildren nat
  | EqualsValues string nat
  | EmptyGroup string
  | EmptyMembership string
  | UnsupportedType string scalar_type
  | NoBound string
  | UnknownKind string

definition needsParenthesesInAll :: "filter_node \<Rightarrow> bool" where
  "needsParenthesesInAll child \<longleftrightarrow> FKind child = FilterAny"

definition needsParenthesesInAny :: "filter_node \<Rightarrow> bool" where
  "needsParenthesesInAny child \<longleftrightarrow>
     FKind child = FilterAll \<or> FKind child = FilterAny
     \<or> (FKind child = FilterRange \<and> FLower child \<noteq> None \<and> FUpper child \<noteq> None)"

definition compileRange :: "string \<Rightarrow> int option \<Rightarrow> int option \<Rightarrow> compile_error + string" where
  "compileRange column lower upper =
     (let clauses = (case lower of None \<Rightarrow> [] | Some l \<Rightarrow> [column @ '' >= '' @ fmtInt l])
          @ (case upper of None \<Rightarrow> [] | Some u \<Rightarrow> [column @ '' < '' @ fmtInt u])
      in if clauses = [] then Inl (NoBound column) else Inr (joinStrings clauses '' and ''))"

definition membershipParam :: "nat \<Rightarrow> scalar_value list \<Rightarrow> template_param" where
  "membershipParam n values =
     (let ty = SvType (hd values)
      in \<lparr>TpName = ''p'' @ fmtNat n, TpType = ty,
          TpStrings = (if ty = ScalarTypeString then map SvString values else []),
          TpBools = (if ty = ScalarTypeBool then map SvBool values else []),
          TpInt64s = (if ty = ScalarTypeInt64 then map SvInt64 values else [])\<rparr>)"

definition membership ::
  "bool \<Rightarrow> template_param list \<Rightarrow> string \<Rightarrow> scalar_value list \<Rightarrow> compile_error + (string \<times> template_param list)" where
  "membership inline params column values =
     (if values = [] then Inl (EmptyMembership column)
      else if inline then Inr (column @ '' in ['' @ joinStrings (map literal values) '', '' @ '']'', params)
      else if SvType (hd values) \<notin> {ScalarTypeBool, ScalarTypeInt64, ScalarTypeString}
        then Inl (UnsupportedType column (SvType (hd values)))
      else let param = membershipParam (length params) values
           in Inr (column @ '' in {'' @ TpName param @ ''}'', params @ [param]))"

definition joinGroup :: "string \<Rightarrow> compile_error + (string list \<times> template_param list) \<Rightarrow> compile_error + (string \<times> template_param list)" where
  "joinGroup separator r =
     (case r of Inl e \<Rightarrow> Inl e | Inr (clauses, params) \<Rightarrow> Inr (joinStrings clauses separator, params))"

definition negateClause :: "compile_error + (string \<times> template_param list) \<Rightarrow> compile_error + (string \<times> template_param list)" where
  "negateClause r = (case r of Inl e \<Rightarrow> Inl e | Inr (s, params) \<Rightarrow> Inr (''not ('' @ s @ '')'', params))"

definition consClause ::
  "bool \<Rightarrow> string \<Rightarrow> compile_error + (string list \<times> template_param list) \<Rightarrow> compile_error + (string list \<times> template_param list)" where
  "consClause wrap clause r =
     (case r of Inl e \<Rightarrow> Inl e
      | Inr (clauses, params) \<Rightarrow> Inr ((if wrap then ''('' @ clause @ '')'' else clause) # clauses, params))"

definition compileLeaf ::
  "bool \<Rightarrow> template_param list \<Rightarrow> string \<Rightarrow> string \<Rightarrow> scalar_value list \<Rightarrow> int option \<Rightarrow> int option
    \<Rightarrow> compile_error + (string \<times> template_param list)" where
  "compileLeaf inline params kind column values lower upper =
     (if kind = FilterEquals then
        (if length values \<noteq> 1 then Inl (EqualsValues column (length values))
         else Inr (column @ '' == '' @ literal (hd values), params))
      else if kind = FilterIn then membership inline params column values
      else if kind = FilterRange then
        (case compileRange column lower upper of Inl e \<Rightarrow> Inl e | Inr s \<Rightarrow> Inr (s, params))
      else if kind = FilterIsNull then Inr (column @ '' IS NULL'', params)
      else if kind = FilterIsPresent then Inr (column @ '' IS NOT NULL'', params)
      else Inl (UnknownKind kind))"

definition sepAnd :: string where "sepAnd = '' and ''"
definition sepOr :: string where "sepOr = '' or ''"

function (sequential) compileNode :: "bool \<Rightarrow> template_param list \<Rightarrow> filter_node \<Rightarrow> compile_error + (string \<times> template_param list)"
and groupClauses ::
  "bool \<Rightarrow> (filter_node \<Rightarrow> bool) \<Rightarrow> template_param list \<Rightarrow> filter_node list \<Rightarrow> compile_error + (string list \<times> template_param list)"
where
  "compileNode inline params (FilterNode kind children column values lower upper) =
     (if kind = FilterAll then
        (if children = [] then Inl (EmptyGroup ''and'')
         else joinGroup sepAnd (groupClauses inline needsParenthesesInAll params children))
      else if kind = FilterAny then
        (if children = [] then Inl (EmptyGroup ''or'')
         else joinGroup sepOr (groupClauses inline needsParenthesesInAny params children))
      else if kind = FilterNot then
        (case children of
           [child] \<Rightarrow> negateClause (compileNode inline params child)
         | _ \<Rightarrow> Inl (NotChildren (length children)))
      else compileLeaf inline params kind column values lower upper)"
| "groupClauses inline needs params [] = Inr ([], params)"
| "groupClauses inline needs params (child # children) =
     (case compileNode inline params child of
        Inl e \<Rightarrow> Inl e
      | Inr (clause, params) \<Rightarrow> consClause (needs child) clause (groupClauses inline needs params children))"
  by pat_completeness auto
termination
  by (relation "measure (\<lambda>x. case x of Inl (_, _, f) \<Rightarrow> size f | Inr (_, _, _, fs) \<Rightarrow> size_list size fs)") auto

definition Compile :: "filter_node option \<Rightarrow> compile_error + (string \<times> template_param list)" where
  "Compile tree = (case tree of None \<Rightarrow> Inr ([], []) | Some f \<Rightarrow> compileNode False [] f)"

definition CompileInline :: "filter_node option \<Rightarrow> compile_error + string" where
  "CompileInline tree =
     (case tree of None \<Rightarrow> Inr [] | Some f \<Rightarrow> (case compileNode True [] f of Inl e \<Rightarrow> Inl e | Inr (s, _) \<Rightarrow> Inr s))"

section \<open>Literals are read back\<close>

text \<open>
  A reader of double-quoted literals with the escapes of the Milvus grammar: it returns the value and
  the text after the closing quote.
\<close>

definition octVal :: "char \<Rightarrow> nat" where
  "octVal c = of_char c - 48"

definition consValue :: "char \<Rightarrow> (string \<times> string) option \<Rightarrow> (string \<times> string) option" where
  "consValue c r = map_option (\<lambda>(v, rest). (c # v, rest)) r"

definition isOct :: "char \<Rightarrow> bool" where
  "isOct c \<longleftrightarrow> 48 \<le> (of_char c :: nat) \<and> (of_char c :: nat) < 56"

text \<open>The character an escape sequence after a backslash stands for, and what follows it.\<close>

definition scanEscape :: "string \<Rightarrow> (char \<times> string) option" where
  "scanEscape s =
     (case s of
        [] \<Rightarrow> None
      | e # cs \<Rightarrow>
          if e = CHR ''n'' then Some (CHR 0x0A, cs)
          else if e = CHR ''r'' then Some (CHR 0x0D, cs)
          else if e = CHR ''t'' then Some (CHR 0x09, cs)
          else if isOct e then
            (if length cs < 2 then None
             else Some (char_of (octVal e * 64 + octVal (cs ! 0) * 8 + octVal (cs ! 1)), drop 2 cs))
          else Some (e, cs))"

lemma scanEscape_shorter: "scanEscape s = Some (c, rest) \<Longrightarrow> length rest < length s"
  by (auto simp: scanEscape_def split: list.splits if_splits)

function scanLiteral :: "string \<Rightarrow> (string \<times> string) option" where
  "scanLiteral s =
     (case s of
        [] \<Rightarrow> None
      | c # cs \<Rightarrow>
          if c = CHR 0x22 then Some ([], cs)
          else if c = CHR 0x5C then
            (case scanEscape cs of None \<Rightarrow> None | Some (d, rest) \<Rightarrow> consValue d (scanLiteral rest))
          else consValue c (scanLiteral cs))"
  by pat_completeness auto
termination
  by (relation "measure length") (auto dest: scanEscape_shorter)

declare scanLiteral.simps [simp del]

definition escapeByte :: "char \<Rightarrow> string" where
  "escapeByte c = (if c = CHR 0x5C \<or> c = CHR 0x22 then [CHR 0x5C, c] else escapeControl c)"

lemma EscapeString_Nil [simp]: "EscapeString [] = []"
  by (simp add: EscapeString_def replaceByte_def)

lemma EscapeString_Cons: "EscapeString (c # s) = escapeByte c @ EscapeString s"
  by (simp add: EscapeString_def replaceByte_def escapeByte_def escapeControl_def)

lemma octDigit_code: "d < 8 \<Longrightarrow> (of_char (octDigit d) :: nat) = 48 + d"
  by (simp add: octDigit_def)

lemma octDigit_reads: "d < 8 \<Longrightarrow> isOct (octDigit d) \<and> octVal (octDigit d) = d"
  by (simp add: octDigit_code isOct_def octVal_def)

lemma octDigit_not_letter: "d < 8 \<Longrightarrow> octDigit d \<noteq> CHR ''n'' \<and> octDigit d \<noteq> CHR ''r'' \<and> octDigit d \<noteq> CHR ''t''"
  by (auto dest: arg_cong [of _ _ "of_char :: char \<Rightarrow> nat"] simp: octDigit_code)

lemma oct_value: "(n :: nat) div 64 * 64 + n div 8 mod 8 * 8 + n mod 8 = n"
proof -
  have "n div 64 = n div 8 div 8" by (simp add: div_mult2_eq [symmetric])
  moreover have "n = 8 * (n div 8) + n mod 8" "n div 8 = 8 * (n div 8 div 8) + n div 8 mod 8"
    by simp_all
  ultimately show ?thesis by linarith
qed

lemma scan_octal:
  assumes "n < (32 :: nat)"
  shows "scanEscape (octDigit (n div 64) # octDigit (n div 8 mod 8) # octDigit (n mod 8) # t) = Some (char_of n, t)"
proof -
  have d: "n div 64 < 8" "n div 8 mod 8 < 8" "n mod 8 < 8" using assms by simp_all
  show ?thesis
    using octDigit_reads [OF d(1)] octDigit_reads [OF d(2)] octDigit_reads [OF d(3)] octDigit_not_letter [OF d(1)]
    by (simp add: scanEscape_def oct_value)
qed

lemma scan_byte: "scanLiteral (escapeByte c @ t) = consValue c (scanLiteral t)"
proof -
  consider "c \<in> {CHR 0x5C, CHR 0x22}" | "c \<in> {CHR 0x0A, CHR 0x0D, CHR 0x09}"
    | "c \<notin> {CHR 0x5C, CHR 0x22, CHR 0x0A, CHR 0x0D, CHR 0x09}" "(of_char c :: nat) < 32"
    | "c \<notin> {CHR 0x5C, CHR 0x22, CHR 0x0A, CHR 0x0D, CHR 0x09}" "\<not> (of_char c :: nat) < 32"
    by blast
  then show ?thesis
  proof cases
    case 3
    then show ?thesis
      using scan_octal [of "of_char c"]
      by (subst scanLiteral.simps) (simp add: escapeByte_def escapeControl_def)
  next
    case 4
    then show ?thesis
      by (subst scanLiteral.simps) (simp add: escapeByte_def escapeControl_def)
  qed (auto simp: escapeByte_def escapeControl_def scanLiteral.simps [of "_ # _"] scanEscape_def isOct_def)
qed


section \<open>Well-typed trees compile\<close>

definition declaredColumnType :: "scalar_column list \<Rightarrow> string \<Rightarrow> scalar_type option" where
  "declaredColumnType declared columnName =
     map_option ColType (List.find (\<lambda>column. ColName column = columnName) declared)"

text \<open>A value of a type, as the constructors of scalar values build it.\<close>

definition typedValue :: "scalar_type \<Rightarrow> scalar_value \<Rightarrow> bool" where
  "typedValue ty v \<longleftrightarrow>
     (ty = ScalarTypeString \<and> v = StringScalar (SvString v))
     \<or> (ty = ScalarTypeBool \<and> v = BoolScalar (SvBool v))
     \<or> (ty = ScalarTypeInt64 \<and> v = Int64Scalar (SvInt64 v))"

definition typedLeaf :: "scalar_column list \<Rightarrow> string \<Rightarrow> scalar_value list \<Rightarrow> bool" where
  "typedLeaf declared column vs \<longleftrightarrow>
     (case declaredColumnType declared column of None \<Rightarrow> False | Some ty \<Rightarrow> list_all (typedValue ty) vs)"

text \<open>The trees a validated request carries, for the declared columns.\<close>

fun validFilter :: "scalar_column list \<Rightarrow> filter_node \<Rightarrow> bool" where
  "validFilter declared (FilterNode kind children column vs lower upper) \<longleftrightarrow>
     (if kind = FilterAll \<or> kind = FilterAny then children \<noteq> [] \<and> list_all (validFilter declared) children
      else if kind = FilterNot then length children = 1 \<and> list_all (validFilter declared) children
      else if kind = FilterEquals then length vs = 1 \<and> typedLeaf declared column vs
      else if kind = FilterIn then vs \<noteq> [] \<and> typedLeaf declared column vs
      else if kind = FilterRange then
        declaredColumnType declared column = Some ScalarTypeInt64 \<and> (lower \<noteq> None \<or> upper \<noteq> None)
      else (kind = FilterIsNull \<or> kind = FilterIsPresent) \<and> declaredColumnType declared column \<noteq> None)"

fun inLeaves :: "filter_node \<Rightarrow> (string \<times> scalar_value list) list" where
  "inLeaves (FilterNode kind children column vs lower upper) =
     (if kind = FilterAll \<or> kind = FilterAny \<or> kind = FilterNot then concat (map inLeaves children)
      else if kind = FilterIn then [(column, vs)] else [])"

fun paramsFor :: "nat \<Rightarrow> (string \<times> scalar_value list) list \<Rightarrow> template_param list" where
  "paramsFor n [] = []"
| "paramsFor n ((column, vs) # leaves) = membershipParam n vs # paramsFor (Suc n) leaves"

lemma paramsFor_append: "paramsFor n (xs @ ys) = paramsFor n xs @ paramsFor (n + length xs) ys"
  by (induction n xs rule: paramsFor.induct) auto

lemma length_paramsFor [simp]: "length (paramsFor n xs) = length xs"
  by (induction n xs rule: paramsFor.induct) auto

lemma paramsFor_names: "map TpName (paramsFor n xs) = map (\<lambda>i. ''p'' @ fmtNat i) [n..<n + length xs]"
  by (induction n xs rule: paramsFor.induct)
    (auto simp: membershipParam_def Let_def upt_conv_Cons simp del: upt_Suc)

lemma typed_supported:
  "typedLeaf declared column vs \<Longrightarrow> vs \<noteq> [] \<Longrightarrow> SvType (hd vs) \<in> {ScalarTypeBool, ScalarTypeInt64, ScalarTypeString}"
  by (cases vs)
    (auto simp: typedLeaf_def typedValue_def StringScalar_def BoolScalar_def Int64Scalar_def split: option.splits
      dest!: arg_cong [of _ _ SvType])

definition newParams :: "bool \<Rightarrow> nat \<Rightarrow> (string \<times> scalar_value list) list \<Rightarrow> template_param list" where
  "newParams inline n leaves = (if inline then [] else paramsFor n leaves)"

lemma newParams_append:
  "newParams inline n (xs @ ys) = newParams inline n xs @ newParams inline (n + length (newParams inline n xs)) ys"
  by (simp add: newParams_def paramsFor_append)

lemma leaf_compiles:
  assumes "validFilter declared (FilterNode kind children column vs lower upper)"
    and "kind \<noteq> FilterAll" "kind \<noteq> FilterAny" "kind \<noteq> FilterNot"
  shows "\<exists>s. compileLeaf inline params kind column vs lower upper
    = Inr (s, params @ newParams inline (length params) (inLeaves (FilterNode kind children column vs lower upper)))"
proof (cases "kind = FilterIn")
  case True
  with assms show ?thesis using typed_supported [of declared column vs]
    by (auto simp: compileLeaf_def membership_def newParams_def Let_def)
next
  case False
  with assms show ?thesis
    by (auto simp: compileLeaf_def newParams_def compileRange_def Let_def split: option.splits if_splits)
qed

lemma compile_valid:
  "validFilter declared f \<Longrightarrow>
    \<exists>s. compileNode inline params f = Inr (s, params @ newParams inline (length params) (inLeaves f))"
  "list_all (validFilter declared) fs \<Longrightarrow>
    \<exists>ss. groupClauses inline needs params fs
      = Inr (ss, params @ newParams inline (length params) (concat (map inLeaves fs)))"
proof (induction inline params f and inline needs params fs rule: compileNode_groupClauses.induct)
  case (1 inline params kind children column vs lower upper)
  consider "kind = FilterAll" | "kind = FilterAny" | "kind = FilterNot"
    | "kind \<noteq> FilterAll" "kind \<noteq> FilterAny" "kind \<noteq> FilterNot" by blast
  then show ?case
  proof cases
    case 4
    with leaf_compiles [OF "1.prems"] show ?thesis by simp
  next
    case 3
    with "1.prems" obtain c where "children = [c]" "validFilter declared c"
      by (auto simp: length_Suc_conv)
    with 3 "1.IH"(3) have "\<exists>s. compileNode inline params c = Inr (s, params @ newParams inline (length params) (inLeaves c))"
      by simp
    with 3 \<open>children = [c]\<close> show ?thesis by (auto simp: negateClause_def)
  next
    case 1
    with "1.prems" "1.IH"(1) show ?thesis by (auto simp: joinGroup_def)
  next
    case 2
    with "1.prems" "1.IH"(2) show ?thesis by (auto simp: joinGroup_def)
  qed
next
  case (2 inline needs params)
  then show ?case by (simp add: newParams_def)
next
  case (3 inline needs params child children)
  then show ?case by (fastforce simp: consClause_def newParams_append)
qed

lemma paramsFor_typed:
  "list_all (\<lambda>(column, vs). vs \<noteq> [] \<and> typedLeaf declared column vs) leaves \<Longrightarrow>
    list_all2 (\<lambda>(column, vs) param.
      declaredColumnType declared column = Some (TpType param)
      \<and> vs = map StringScalar (TpStrings param) @ map BoolScalar (TpBools param) @ map Int64Scalar (TpInt64s param))
      leaves (paramsFor n leaves)"
proof (induction n leaves rule: paramsFor.induct)
  case (2 n column vs leaves)
  then obtain ty where ty: "declaredColumnType declared column = Some ty" "list_all (typedValue ty) vs" "vs \<noteq> []"
    by (auto simp: typedLeaf_def split: option.splits)
  have "SvType v = ty" if "typedValue ty v" for v
    using that by (auto simp: typedValue_def StringScalar_def BoolScalar_def Int64Scalar_def dest!: arg_cong [of _ _ SvType])
  with ty have hd: "SvType (hd vs) = ty" by (cases vs) auto
  have "vs = map StringScalar (if ty = ScalarTypeString then map SvString vs else [])
      @ map BoolScalar (if ty = ScalarTypeBool then map SvBool vs else [])
      @ map Int64Scalar (if ty = ScalarTypeInt64 then map SvInt64 vs else [])"
    using ty(2,3) by (cases vs) (auto simp: typedValue_def list_all_iff intro!: map_idI [symmetric])
  with 2 ty(1) hd show ?case by (simp add: membershipParam_def Let_def)
qed simp

lemma valid_leaves:
  "validFilter declared f \<Longrightarrow> list_all (\<lambda>(column, vs). vs \<noteq> [] \<and> typedLeaf declared column vs) (inLeaves f)"
  by (induction f rule: inLeaves.induct) (fastforce simp: list_all_iff split: if_splits)

text \<open>
  C23: Type soundness of the filter compiler. A tree that is well typed for the declared columns always
  compiles, with placeholders and inline. The template parameters are named \<open>p0\<close>, \<open>p1\<close>, \<open>...\<close> in the
  order of the membership leaves, there is exactly one for every membership leaf, it has the declared
  type of the leaf's column, and its typed slice carries exactly the values of the leaf.
\<close>

theorem compile_well_typed:
  assumes "validFilter declared f"
  shows "\<exists>expression params inlined.
    Compile (Some f) = Inr (expression, params)
    \<and> CompileInline (Some f) = Inr inlined
    \<and> map TpName params = map (\<lambda>i. ''p'' @ fmtNat i) [0..<length (inLeaves f)]
    \<and> list_all2 (\<lambda>(column, vs) param.
        declaredColumnType declared column = Some (TpType param)
        \<and> vs = map StringScalar (TpStrings param) @ map BoolScalar (TpBools param) @ map Int64Scalar (TpInt64s param))
        (inLeaves f) params"
proof -
  obtain s where "compileNode False [] f = Inr (s, paramsFor 0 (inLeaves f))"
    using compile_valid(1) [OF assms, of False "[]"] by (auto simp: newParams_def)
  moreover obtain t where "compileNode True [] f = Inr (t, [])"
    using compile_valid(1) [OF assms, of True "[]"] by (auto simp: newParams_def)
  ultimately show ?thesis
    using paramsFor_names [of 0 "inLeaves f"] paramsFor_typed [OF valid_leaves [OF assms], of 0]
    by (simp add: Compile_def CompileInline_def)
qed

definition sampleColumns :: "scalar_column list" where
  "sampleColumns =
     [\<lparr>ColName = ''role'', ColType = ScalarTypeString, ColNullable = False, ColMaxLength = 64\<rparr>,
      \<lparr>ColName = ''turn'', ColType = ScalarTypeInt64, ColNullable = True, ColMaxLength = 0\<rparr>]"

definition sampleFilter :: filter_node where
  "sampleFilter = AllOf [ColumnIn ''role'' (StringValues [''user'', ''tool'']),
     AnyOf [ColumnRange ''turn'' (Some 3) (Some 9), Negate (ColumnIn ''turn'' [Int64Scalar 4])]]"

lemma sample_valid: "validFilter sampleColumns sampleFilter"
  by (simp add: sampleColumns_def sampleFilter_def AllOf_def AnyOf_def ColumnIn_def ColumnRange_def Negate_def
      StringValues_def typedLeaf_def typedValue_def declaredColumnType_def StringScalar_def Int64Scalar_def)

theorem compile_well_typed_witness:
  "\<exists>expression params inlined.
    Compile (Some sampleFilter) = Inr (expression, params)
    \<and> CompileInline (Some sampleFilter) = Inr inlined
    \<and> map TpName params = map (\<lambda>i. ''p'' @ fmtNat i) [0..<length (inLeaves sampleFilter)]
    \<and> list_all2 (\<lambda>(column, vs) param.
        declaredColumnType sampleColumns column = Some (TpType param)
        \<and> vs = map StringScalar (TpStrings param) @ map BoolScalar (TpBools param) @ map Int64Scalar (TpInt64s param))
        (inLeaves sampleFilter) params"
  by (rule compile_well_typed [OF sample_valid])

end
