(* ===== verification/FilterEval.thy ===== *)
theory FilterEval
  imports CollectionFilter
begin

text \<open>
  Cells of declared columns and the evaluation of a filter tree on one row with three-valued logic
  (\<open>collection/search.go\<close>, \<open>internal/localvec/collection_search.go\<close>). The Milvus evaluator is documented to
  give the same results for the same tree, so this evaluator is also the meaning of a filter in the
  shared store.
\<close>

section \<open>Cells\<close>

datatype scalar_cell_state = ScalarCellAbsent | ScalarCellNull | ScalarCellValue

record scalar_cell =
  ScColumn :: string
  ScState :: scalar_cell_state
  ScValue :: scalar_value

definition AbsentCell :: "string \<Rightarrow> scalar_cell" where
  "AbsentCell column = \<lparr>ScColumn = column, ScState = ScalarCellAbsent, ScValue = EmptyScalar\<rparr>"

definition NullCell :: "string \<Rightarrow> scalar_cell" where
  "NullCell column = \<lparr>ScColumn = column, ScState = ScalarCellNull, ScValue = EmptyScalar\<rparr>"

definition ValueCell :: "string \<Rightarrow> scalar_value \<Rightarrow> scalar_cell" where
  "ValueCell column v = \<lparr>ScColumn = column, ScState = ScalarCellValue, ScValue = v\<rparr>"

definition nullGroupKey :: string where "nullGroupKey = ''null''"

definition GroupKey :: "scalar_cell \<Rightarrow> string" where
  "GroupKey cell =
     (if ScState cell \<noteq> ScalarCellValue then nullGroupKey
      else if SvType (ScValue cell) = ScalarTypeBool then ''bool:'' @ formatBool (SvBool (ScValue cell))
      else if SvType (ScValue cell) = ScalarTypeInt64 then ''int64:'' @ fmtInt (SvInt64 (ScValue cell))
      else ''string:'' @ SvString (ScValue cell))"

definition rowScalarCell :: "(string, scalar_value) gomap \<Rightarrow> string \<Rightarrow> scalar_column list \<Rightarrow> scalar_cell" where
  "rowScalarCell scalars columnName declared =
     (case declaredColumnType declared columnName of
        None \<Rightarrow> AbsentCell columnName
      | Some declaredType \<Rightarrow>
          (case map_of scalars columnName of
             None \<Rightarrow> AbsentCell columnName
           | Some v \<Rightarrow>
               if SvNull v then NullCell columnName
               else if SvType v \<noteq> declaredType then AbsentCell columnName
               else ValueCell columnName v))"

definition storedCell :: "(string, scalar_value) gomap \<Rightarrow> string \<Rightarrow> scalar_cell" where
  "storedCell scalars columnName =
     (case map_of scalars columnName of
        None \<Rightarrow> AbsentCell columnName
      | Some v \<Rightarrow> if SvNull v then NullCell columnName else ValueCell columnName v)"

section \<open>Three-valued evaluation\<close>

datatype filter_truth = truthFalse | truthTrue | truthUnknown

definition truthOf :: "bool \<Rightarrow> filter_truth" where
  "truthOf matches = (if matches then truthTrue else truthFalse)"

definition comparisonMatches :: "string \<Rightarrow> scalar_value list \<Rightarrow> int option \<Rightarrow> int option \<Rightarrow> scalar_value \<Rightarrow> bool" where
  "comparisonMatches kind vs lower upper v =
     (if kind = FilterRange then
        (case lower of Some l \<Rightarrow> \<not> SvInt64 v < l | None \<Rightarrow> True)
        \<and> (case upper of Some u \<Rightarrow> \<not> u \<le> SvInt64 v | None \<Rightarrow> True)
      else v \<in> set vs)"

text \<open>The loops over the children of an all node and of an any node.\<close>

fun allLoop :: "filter_truth \<Rightarrow> filter_truth list \<Rightarrow> filter_truth" where
  "allLoop result [] = result"
| "allLoop result (t # ts) =
     (case t of truthFalse \<Rightarrow> truthFalse | truthUnknown \<Rightarrow> allLoop truthUnknown ts | truthTrue \<Rightarrow> allLoop result ts)"

fun anyLoop :: "filter_truth \<Rightarrow> filter_truth list \<Rightarrow> filter_truth" where
  "anyLoop result [] = result"
| "anyLoop result (t # ts) =
     (case t of truthTrue \<Rightarrow> truthTrue | truthUnknown \<Rightarrow> anyLoop truthUnknown ts | truthFalse \<Rightarrow> anyLoop result ts)"

definition invertTruth :: "filter_truth \<Rightarrow> filter_truth" where
  "invertTruth t = (case t of truthTrue \<Rightarrow> truthFalse | truthFalse \<Rightarrow> truthTrue | truthUnknown \<Rightarrow> truthUnknown)"

definition evaluateLeaf ::
  "string \<Rightarrow> string \<Rightarrow> scalar_value list \<Rightarrow> int option \<Rightarrow> int option \<Rightarrow> (string \<Rightarrow> scalar_cell) \<Rightarrow> filter_truth" where
  "evaluateLeaf kind column vs lower upper cell =
     (if kind = FilterIsNull then truthOf (ScState (cell column) \<noteq> ScalarCellValue)
      else if kind = FilterIsPresent then truthOf (ScState (cell column) = ScalarCellValue)
      else if kind = FilterEquals \<or> kind = FilterIn \<or> kind = FilterRange then
        (if ScState (cell column) \<noteq> ScalarCellValue then truthUnknown
         else truthOf (comparisonMatches kind vs lower upper (ScValue (cell column))))
      else truthFalse)"

fun evaluateFilterCells :: "(string \<Rightarrow> scalar_cell) \<Rightarrow> filter_node \<Rightarrow> filter_truth" where
  "evaluateFilterCells cell (FilterNode kind children column vs lower upper) =
     (if kind = FilterAll then allLoop truthTrue (map (evaluateFilterCells cell) children)
      else if kind = FilterAny then anyLoop truthFalse (map (evaluateFilterCells cell) children)
      else if kind = FilterNot then
        (if length children \<noteq> 1 then truthFalse else invertTruth (hd (map (evaluateFilterCells cell) children)))
      else evaluateLeaf kind column vs lower upper cell)"

definition evaluateFilter :: "filter_node \<Rightarrow> (string, scalar_value) gomap \<Rightarrow> scalar_column list \<Rightarrow> filter_truth" where
  "evaluateFilter f scalars declared =
     evaluateFilterCells (\<lambda>columnName. rowScalarCell scalars columnName declared) f"

section \<open>Laws\<close>

lemma allLoop_True: "allLoop r ts = truthTrue \<longleftrightarrow> r = truthTrue \<and> set ts \<subseteq> {truthTrue}"
  by (induction r ts rule: allLoop.induct) (auto split: filter_truth.splits)

lemma anyLoop_True: "r \<noteq> truthTrue \<Longrightarrow> anyLoop r ts = truthTrue \<longleftrightarrow> truthTrue \<in> set ts"
  by (induction r ts rule: anyLoop.induct) (auto split: filter_truth.splits)

lemma invert_allLoop: "invertTruth (allLoop r ts) = anyLoop (invertTruth r) (map invertTruth ts)"
  by (induction r ts rule: allLoop.induct) (auto simp: invertTruth_def split: filter_truth.splits)

text \<open>
  A negated conjunction is the disjunction of the negations, also for rows with null and absent
  cells: three-valued evaluation of \<open>not (all children)\<close> equals that of \<open>any (not child)\<close>, for every
  row and every list of children, the empty one included.
\<close>

theorem filter_de_morgan:
  "evaluateFilterCells cell (Negate (AllOf children)) = evaluateFilterCells cell (AnyOf (map Negate children))"
proof -
  have "evaluateFilterCells cell (Negate c) = invertTruth (evaluateFilterCells cell c)" for c
    by (simp add: Negate_def)
  then show ?thesis
    by (simp add: AllOf_def AnyOf_def invert_allLoop comp_def) (simp add: invertTruth_def)
qed

end
