(* ===== verification/SharedSuperset.thy ===== *)
theory SharedSuperset
  imports FilterEval ChunkRows
begin

text \<open>
  The superset columns of the shared Milvus store and the filter rendered over them
  (\<open>collection/milvus/shared_schema.go\<close>, \<open>collection/milvus/shared_filter.go\<close>). Each distinct vector is
  stored once with, for every declared column, a superset of the values its occurrences have: the
  strings up to a capacity, the booleans, or the range of the integers. Go sets are lists without
  duplicates in insertion order. Shown: the rendered expression keeps every vector that has a matching
  occurrence, as long as the stored supersets cover the occurrences.
\<close>

section \<open>Column supersets\<close>

definition supersetArrayCapacity :: nat where "supersetArrayCapacity = 4096"
definition maxInt64 :: int where "maxInt64 = 9223372036854775807"
definition minInt64 :: int where "minInt64 = - 9223372036854775808"

record column_superset =
  CsStrings :: "string list"
  CsBools :: "bool list"
  CsMinimum :: int
  CsMaximum :: int
  CsHasRange :: bool
  CsOverflow :: bool

definition newColumnSuperset :: column_superset where
  "newColumnSuperset =
     \<lparr>CsStrings = [], CsBools = [], CsMinimum = maxInt64, CsMaximum = minInt64, CsHasRange = False, CsOverflow = False\<rparr>"

definition insertOnce :: "'a \<Rightarrow> 'a list \<Rightarrow> 'a list" where
  "insertOnce x xs = (if x \<in> set xs then xs else xs @ [x])"

definition supersetAdd :: "scalar_value \<Rightarrow> column_superset \<Rightarrow> column_superset" where
  "supersetAdd v superset =
     (if SvNull v \<or> SvType v = [] then superset
      else if SvType v = ScalarTypeString then
        (if CsOverflow superset then superset
         else let strings = insertOnce (fst (SanitizeUTF8 (SvString v))) (CsStrings superset)
              in if length strings > supersetArrayCapacity
                 then superset\<lparr>CsOverflow := True, CsStrings := []\<rparr>
                 else superset\<lparr>CsStrings := strings\<rparr>)
      else if SvType v = ScalarTypeBool then superset\<lparr>CsBools := insertOnce (SvBool v) (CsBools superset)\<rparr>
      else if SvType v = ScalarTypeInt64 then
        superset\<lparr>CsMinimum := min (CsMinimum superset) (SvInt64 v), CsMaximum := max (CsMaximum superset) (SvInt64 v),
                 CsHasRange := True\<rparr>
      else superset)"

definition addStrings :: "string list \<Rightarrow> column_superset \<Rightarrow> column_superset" where
  "addStrings strings superset = fold (\<lambda>s. supersetAdd (StringScalar s)) strings superset"

definition markOverflow :: "bool \<Rightarrow> column_superset \<Rightarrow> column_superset" where
  "markOverflow overflow superset =
     (if overflow then superset\<lparr>CsOverflow := True, CsStrings := []\<rparr> else superset)"

definition addRange :: "int \<Rightarrow> int \<Rightarrow> column_superset \<Rightarrow> column_superset" where
  "addRange lo hi superset = supersetAdd (Int64Scalar hi) (supersetAdd (Int64Scalar lo) superset)"

definition supersetMerge :: "column_superset \<Rightarrow> column_superset \<Rightarrow> column_superset" where
  "supersetMerge other superset =
     (let superset = markOverflow (CsOverflow other) superset;
          superset = addStrings (CsStrings other) superset;
          superset = superset\<lparr>CsBools := fold insertOnce (CsBools other) (CsBools superset)\<rparr>
      in if CsHasRange other then addRange (CsMinimum other) (CsMaximum other) superset else superset)"

definition supersetContains :: "column_superset \<Rightarrow> column_superset \<Rightarrow> bool" where
  "supersetContains superset other \<longleftrightarrow>
     (CsOverflow superset \<or> (\<not> CsOverflow other \<and> set (CsStrings other) \<subseteq> set (CsStrings superset)))
     \<and> set (CsBools other) \<subseteq> set (CsBools superset)
     \<and> (CsHasRange other \<longrightarrow>
          CsHasRange superset \<and> CsMinimum superset \<le> CsMinimum other \<and> CsMaximum other \<le> CsMaximum superset)"

definition sortedStrings :: "column_superset \<Rightarrow> string list" where
  "sortedStrings superset = sort (CsStrings superset)"

definition sortedBools :: "column_superset \<Rightarrow> bool list" where
  "sortedBools superset = filter (\<lambda>b. b \<in> set (CsBools superset)) [False, True]"

section \<open>Stored superset columns\<close>

text \<open>The columns of one declared column in a vector row, by its type.\<close>

datatype stored_superset = StringSet "string list" bool | BoolSet "bool list" | Int64Range int int

definition storedType :: "stored_superset \<Rightarrow> scalar_type" where
  "storedType st = (case st of StringSet _ _ \<Rightarrow> ScalarTypeString | BoolSet _ \<Rightarrow> ScalarTypeBool | Int64Range _ _ \<Rightarrow> ScalarTypeInt64)"

definition writeSuperset :: "scalar_type \<Rightarrow> column_superset \<Rightarrow> stored_superset option" where
  "writeSuperset ty superset =
     (if ty = ScalarTypeString then Some (StringSet (sortedStrings superset) (CsOverflow superset))
      else if ty = ScalarTypeBool then Some (BoolSet (sortedBools superset))
      else if ty = ScalarTypeInt64 then Some (Int64Range (CsMinimum superset) (CsMaximum superset))
      else None)"

text \<open>
  \<open>readStringSuperset\<close>, \<open>readBoolSuperset\<close> and \<open>readRangeSuperset\<close>, dispatched as in
  \<open>supersetsFromResult\<close>. A missing column, or one of another type, is an incomplete result.
\<close>

definition readSuperset :: "scalar_type \<Rightarrow> stored_superset option \<Rightarrow> column_superset \<Rightarrow> column_superset option" where
  "readSuperset ty st superset =
     (if ty = ScalarTypeString then
        (case st of Some (StringSet strings overflow) \<Rightarrow> Some (markOverflow overflow (addStrings strings superset)) | _ \<Rightarrow> None)
      else if ty = ScalarTypeBool then
        (case st of Some (BoolSet bools) \<Rightarrow> Some (fold (\<lambda>b. supersetAdd (BoolScalar b)) bools superset) | _ \<Rightarrow> None)
      else if ty = ScalarTypeInt64 then
        (case st of
           Some (Int64Range lo hi) \<Rightarrow> Some (if lo \<le> hi then addRange lo hi superset else superset)
         | _ \<Rightarrow> None)
      else Some superset)"

section \<open>The superset filter\<close>

datatype superset_expr =
    ContainsString string "string list"
  | ContainsBool string "bool list"
  | Members string int int
  | Bounds string "int option" "int option"
  | AndClauses "superset_expr list"
  | OrClauses "superset_expr list"

definition valuesField :: "string \<Rightarrow> string" where "valuesField column = ''values_'' @ column"
definition overflowField :: "string \<Rightarrow> string" where "overflowField column = ''overflow_'' @ column"
definition minimumField :: "string \<Rightarrow> string" where "minimumField column = ''minimum_'' @ column"
definition maximumField :: "string \<Rightarrow> string" where "maximumField column = ''maximum_'' @ column"

definition quoted :: "string \<Rightarrow> string" where
  "quoted s = [CHR 0x22] @ EscapeString s @ [CHR 0x22]"

definition parens :: "string \<Rightarrow> string" where
  "parens s = ''('' @ s @ '')''"

definition columnsOf :: "scalar_column list \<Rightarrow> (string, scalar_column) gomap" where
  "columnsOf scalars = fold (\<lambda>c. gm_put (ColName c) c) scalars []"

definition containsAny :: "string \<Rightarrow> string list \<Rightarrow> string" where
  "containsAny column literals =
     ''array_contains_any('' @ valuesField column @ '', ['' @ joinStrings literals '', '' @ ''])''"

text \<open>Nodes return the rendered text and whether they narrow the vectors at all.\<close>

definition supersetMembership ::
  "(string, scalar_column) gomap \<Rightarrow> string \<Rightarrow> scalar_value list \<Rightarrow> compile_error + (string \<times> bool)" where
  "supersetMembership columns column vs =
     (case map_of columns column of
        None \<Rightarrow> Inr ([], False)
      | Some declared \<Rightarrow>
          if vs = [] then Inl (EmptyMembership column)
          else if ColType declared = ScalarTypeString then
            Inr (containsAny (ColName declared) (map (\<lambda>v. quoted (fst (SanitizeUTF8 (SvString v)))) vs)
                 @ '' or '' @ overflowField (ColName declared) @ '' == true'', True)
          else if ColType declared = ScalarTypeBool then
            Inr (containsAny (ColName declared) (map (\<lambda>v. formatBool (SvBool v)) vs), True)
          else if ColType declared = ScalarTypeInt64 then
            Inr (minimumField (ColName declared) @ '' <= '' @ fmtInt (Max (set (map SvInt64 vs))) @ '' and ''
                 @ maximumField (ColName declared) @ '' >= '' @ fmtInt (Min (set (map SvInt64 vs))), True)
          else Inr ([], False))"

definition supersetRange ::
  "(string, scalar_column) gomap \<Rightarrow> string \<Rightarrow> int option \<Rightarrow> int option \<Rightarrow> compile_error + (string \<times> bool)" where
  "supersetRange columns column lower upper =
     (case map_of columns column of
        None \<Rightarrow> Inr ([], False)
      | Some declared \<Rightarrow>
          if ColType declared \<noteq> ScalarTypeInt64 then Inr ([], False)
          else let clauses = (case lower of None \<Rightarrow> [] | Some l \<Rightarrow> [maximumField (ColName declared) @ '' >= '' @ fmtInt l])
                 @ (case upper of None \<Rightarrow> [] | Some u \<Rightarrow> [minimumField (ColName declared) @ '' < '' @ fmtInt u])
               in if clauses = [] then Inl (NoBound column) else Inr (joinStrings clauses '' and '', True))"

text \<open>The loop of an all node keeps the clauses that narrow.\<close>

fun supersetAllLoop :: "string list \<Rightarrow> (compile_error + (string \<times> bool)) list \<Rightarrow> compile_error + (string \<times> bool)" where
  "supersetAllLoop clauses [] = (if clauses = [] then Inr ([], False) else Inr (joinStrings clauses '' and '', True))"
| "supersetAllLoop clauses (r # rs) =
     (case r of
        Inl e \<Rightarrow> Inl e
      | Inr (clause, narrows) \<Rightarrow> supersetAllLoop (if narrows then clauses @ [parens clause] else clauses) rs)"

text \<open>The loop of an any node gives up at the first clause that does not narrow.\<close>

fun supersetAnyLoop :: "string list \<Rightarrow> (compile_error + (string \<times> bool)) list \<Rightarrow> compile_error + (string \<times> bool)" where
  "supersetAnyLoop clauses [] = (if clauses = [] then Inr ([], False) else Inr (joinStrings clauses '' or '', True))"
| "supersetAnyLoop clauses (r # rs) =
     (case r of
        Inl e \<Rightarrow> Inl e
      | Inr (clause, narrows) \<Rightarrow> if \<not> narrows then Inr ([], False) else supersetAnyLoop (clauses @ [parens clause]) rs)"

definition supersetLeaf ::
  "(string, scalar_column) gomap \<Rightarrow> string \<Rightarrow> string \<Rightarrow> scalar_value list \<Rightarrow> int option \<Rightarrow> int option
    \<Rightarrow> compile_error + (string \<times> bool)" where
  "supersetLeaf columns kind column vs lower upper =
     (if kind = FilterNot \<or> kind = FilterIsNull \<or> kind = FilterIsPresent then Inr ([], False)
      else if kind = FilterEquals \<or> kind = FilterIn then supersetMembership columns column vs
      else if kind = FilterRange then supersetRange columns column lower upper
      else Inl (UnknownKind kind))"

fun supersetNode :: "(string, scalar_column) gomap \<Rightarrow> filter_node \<Rightarrow> compile_error + (string \<times> bool)" where
  "supersetNode columns (FilterNode kind children column vs lower upper) =
     (if kind = FilterAll then supersetAllLoop [] (map (supersetNode columns) children)
      else if kind = FilterAny then supersetAnyLoop [] (map (supersetNode columns) children)
      else supersetLeaf columns kind column vs lower upper)"

definition SupersetExpression :: "filter_node option \<Rightarrow> scalar_column list \<Rightarrow> compile_error + string" where
  "SupersetExpression tree scalars =
     (case tree of
        None \<Rightarrow> Inr []
      | Some f \<Rightarrow> (case supersetNode (columnsOf scalars) f of Inl e \<Rightarrow> Inl e | Inr (s, _) \<Rightarrow> Inr s))"

section \<open>Meaning of the superset filter\<close>

text \<open>
  The expression as a tree, its rendering and its meaning on the stored columns of one vector row. The
  rendering agrees with the text \<open>supersetNode\<close> builds, so a statement on the tree is one on the text.
\<close>

fun renderSuperset :: "superset_expr \<Rightarrow> string" where
  "renderSuperset (ContainsString c ss) =
     containsAny c (map quoted ss) @ '' or '' @ overflowField c @ '' == true''"
| "renderSuperset (ContainsBool c bs) = containsAny c (map formatBool bs)"
| "renderSuperset (Members c highest lowest) =
     minimumField c @ '' <= '' @ fmtInt highest @ '' and '' @ maximumField c @ '' >= '' @ fmtInt lowest"
| "renderSuperset (Bounds c lower upper) =
     joinStrings ((case lower of None \<Rightarrow> [] | Some l \<Rightarrow> [maximumField c @ '' >= '' @ fmtInt l])
       @ (case upper of None \<Rightarrow> [] | Some u \<Rightarrow> [minimumField c @ '' < '' @ fmtInt u])) '' and ''"
| "renderSuperset (AndClauses es) = joinStrings (map (\<lambda>e. parens (renderSuperset e)) es) '' and ''"
| "renderSuperset (OrClauses es) = joinStrings (map (\<lambda>e. parens (renderSuperset e)) es) '' or ''"

fun evalSuperset :: "(string \<Rightarrow> stored_superset option) \<Rightarrow> superset_expr \<Rightarrow> bool" where
  "evalSuperset row (ContainsString c ss) \<longleftrightarrow>
     (case row c of Some (StringSet strings overflow) \<Rightarrow> list_ex (\<lambda>s. s \<in> set strings) ss \<or> overflow | _ \<Rightarrow> False)"
| "evalSuperset row (ContainsBool c bs) \<longleftrightarrow>
     (case row c of Some (BoolSet bools) \<Rightarrow> list_ex (\<lambda>b. b \<in> set bools) bs | _ \<Rightarrow> False)"
| "evalSuperset row (Members c highest lowest) \<longleftrightarrow>
     (case row c of Some (Int64Range lo hi) \<Rightarrow> lo \<le> highest \<and> lowest \<le> hi | _ \<Rightarrow> False)"
| "evalSuperset row (Bounds c lower upper) \<longleftrightarrow>
     (case row c of
        Some (Int64Range lo hi) \<Rightarrow>
          (case lower of None \<Rightarrow> True | Some l \<Rightarrow> l \<le> hi) \<and> (case upper of None \<Rightarrow> True | Some u \<Rightarrow> lo < u)
      | _ \<Rightarrow> False)"
| "evalSuperset row (AndClauses es) \<longleftrightarrow> list_all (evalSuperset row) es"
| "evalSuperset row (OrClauses es) \<longleftrightarrow> list_ex (evalSuperset row) es"

definition leafTree ::
  "(string, scalar_column) gomap \<Rightarrow> string \<Rightarrow> string \<Rightarrow> scalar_value list \<Rightarrow> int option \<Rightarrow> int option
    \<Rightarrow> compile_error + superset_expr option" where
  "leafTree columns kind column vs lower upper =
     (if kind = FilterNot \<or> kind = FilterIsNull \<or> kind = FilterIsPresent then Inr None
      else if kind = FilterEquals \<or> kind = FilterIn then
        (case map_of columns column of
           None \<Rightarrow> Inr None
         | Some d \<Rightarrow>
             if vs = [] then Inl (EmptyMembership column)
             else if ColType d = ScalarTypeString then
               Inr (Some (ContainsString (ColName d) (map (\<lambda>v. fst (SanitizeUTF8 (SvString v))) vs)))
             else if ColType d = ScalarTypeBool then Inr (Some (ContainsBool (ColName d) (map SvBool vs)))
             else if ColType d = ScalarTypeInt64 then
               Inr (Some (Members (ColName d) (Max (set (map SvInt64 vs))) (Min (set (map SvInt64 vs)))))
             else Inr None)
      else if kind = FilterRange then
        (case map_of columns column of
           None \<Rightarrow> Inr None
         | Some d \<Rightarrow>
             if ColType d \<noteq> ScalarTypeInt64 then Inr None
             else if lower = None \<and> upper = None then Inl (NoBound column)
             else Inr (Some (Bounds (ColName d) lower upper)))
      else Inl (UnknownKind kind))"

fun treeAllLoop :: "superset_expr list \<Rightarrow> (compile_error + superset_expr option) list \<Rightarrow> compile_error + superset_expr option" where
  "treeAllLoop es [] = (if es = [] then Inr None else Inr (Some (AndClauses es)))"
| "treeAllLoop es (r # rs) =
     (case r of Inl e \<Rightarrow> Inl e | Inr None \<Rightarrow> treeAllLoop es rs | Inr (Some e) \<Rightarrow> treeAllLoop (es @ [e]) rs)"

fun treeAnyLoop :: "superset_expr list \<Rightarrow> (compile_error + superset_expr option) list \<Rightarrow> compile_error + superset_expr option" where
  "treeAnyLoop es [] = (if es = [] then Inr None else Inr (Some (OrClauses es)))"
| "treeAnyLoop es (r # rs) =
     (case r of Inl e \<Rightarrow> Inl e | Inr None \<Rightarrow> Inr None | Inr (Some e) \<Rightarrow> treeAnyLoop (es @ [e]) rs)"

fun supersetTree :: "(string, scalar_column) gomap \<Rightarrow> filter_node \<Rightarrow> compile_error + superset_expr option" where
  "supersetTree columns (FilterNode kind children column vs lower upper) =
     (if kind = FilterAll then treeAllLoop [] (map (supersetTree columns) children)
      else if kind = FilterAny then treeAnyLoop [] (map (supersetTree columns) children)
      else leafTree columns kind column vs lower upper)"

fun rendered :: "compile_error + superset_expr option \<Rightarrow> compile_error + (string \<times> bool)" where
  "rendered (Inl e) = Inl e"
| "rendered (Inr None) = Inr ([], False)"
| "rendered (Inr (Some e)) = Inr (renderSuperset e, True)"

lemma rendered_all:
  "supersetAllLoop (map (\<lambda>e. parens (renderSuperset e)) es) (map rendered rs) = rendered (treeAllLoop es rs)"
proof (induction es rs rule: treeAllLoop.induct)
  case (2 es r rs)
  then show ?case by (cases r rule: rendered.cases) auto
qed simp

lemma rendered_any:
  "supersetAnyLoop (map (\<lambda>e. parens (renderSuperset e)) es) (map rendered rs) = rendered (treeAnyLoop es rs)"
proof (induction es rs rule: treeAnyLoop.induct)
  case (2 es r rs)
  then show ?case by (cases r rule: rendered.cases) auto
qed simp

lemma rendered_leaf: "supersetLeaf columns kind column vs lower upper = rendered (leafTree columns kind column vs lower upper)"
  by (auto simp: supersetLeaf_def leafTree_def supersetMembership_def supersetRange_def comp_def Let_def split: option.splits)

lemma supersetNode_rendered: "supersetNode columns f = rendered (supersetTree columns f)"
proof (induction columns f rule: supersetTree.induct)
  case (1 columns kind children column vs lower upper)
  have "map (supersetNode columns) children = map rendered (map (supersetTree columns) children)" if "kind = FilterAll \<or> kind = FilterAny"
    using 1 that by (auto simp: map_eq_conv)
  then show ?case
    using rendered_all [of "[]" "map (supersetTree columns) children"] rendered_any [of "[]" "map (supersetTree columns) children"]
    by (auto simp: rendered_leaf simp del: map_map)
qed

section \<open>Soundness of the superset filter\<close>

definition coversValue :: "stored_superset \<Rightarrow> scalar_value \<Rightarrow> bool" where
  "coversValue st v =
     (case st of
        StringSet strings overflow \<Rightarrow> overflow \<or> fst (SanitizeUTF8 (SvString v)) \<in> set strings
      | BoolSet bools \<Rightarrow> SvBool v \<in> set bools
      | Int64Range lo hi \<Rightarrow> lo \<le> SvInt64 v \<and> SvInt64 v \<le> hi)"

text \<open>The stored columns of a vector row cover the cells of one occurrence.\<close>

definition rowCovers :: "scalar_column list \<Rightarrow> (string \<Rightarrow> stored_superset option) \<Rightarrow> (string \<Rightarrow> scalar_cell) \<Rightarrow> bool" where
  "rowCovers scalars row cell \<longleftrightarrow>
     list_all (\<lambda>d. ScState (cell (ColName d)) = ScalarCellValue \<longrightarrow>
       (case row (ColName d) of
          None \<Rightarrow> False
        | Some st \<Rightarrow> storedType st = ColType d \<and> coversValue st (ScValue (cell (ColName d))))) scalars"

lemma rowCoversD:
  assumes "rowCovers scalars row cell" "d \<in> set scalars" "ScState (cell (ColName d)) = ScalarCellValue"
  obtains st where "row (ColName d) = Some st" "storedType st = ColType d" "coversValue st (ScValue (cell (ColName d)))"
  using assms by (auto simp: rowCovers_def list_all_iff split: option.splits)

lemma columnsOf_put_get:
  "map_of (fold (\<lambda>c. gm_put (ColName c) c) cs m) n = Some d \<Longrightarrow> (d \<in> set cs \<and> ColName d = n) \<or> map_of m n = Some d"
proof (induction cs arbitrary: m)
  case (Cons c cs)
  from Cons.IH [of "gm_put (ColName c) c m"] Cons.prems show ?case by (auto split: if_splits)
qed simp

lemma columnsOf_get: "map_of (columnsOf scalars) n = Some d \<Longrightarrow> d \<in> set scalars \<and> ColName d = n"
  by (auto simp: columnsOf_def dest: columnsOf_put_get)

lemma storedType_simps [simp]:
  "storedType (StringSet ss ov) = ScalarTypeString" "storedType (BoolSet bs) = ScalarTypeBool"
  "storedType (Int64Range lo hi) = ScalarTypeInt64"
  by (simp_all add: storedType_def)

lemma stored_kinds [simp]:
  "storedType st = ScalarTypeString \<longleftrightarrow> (\<exists>ss ov. st = StringSet ss ov)"
  "storedType st = ScalarTypeBool \<longleftrightarrow> (\<exists>bs. st = BoolSet bs)"
  "storedType st = ScalarTypeInt64 \<longleftrightarrow> (\<exists>lo hi. st = Int64Range lo hi)"
  by (cases st; simp add: storedType_def)+

lemma member_le_Max: "v \<in> set vs \<Longrightarrow> lo \<le> SvInt64 v \<Longrightarrow> lo \<le> Max (SvInt64 ` set vs)"
  by (meson List.finite_set Max_ge finite_imageI image_eqI order_trans)

lemma Min_le_member: "v \<in> set vs \<Longrightarrow> SvInt64 v \<le> hi \<Longrightarrow> Min (SvInt64 ` set vs) \<le> hi"
  by (meson List.finite_set Min_le finite_imageI image_eqI order_trans)

lemma leaf_sound:
  assumes tree: "leafTree (columnsOf scalars) kind column vs lower upper = Inr (Some e)"
    and eval: "evaluateLeaf kind column vs lower upper cell = truthTrue"
    and covers: "rowCovers scalars row cell"
  shows "evalSuperset row e"
proof -
  from tree obtain d where d: "map_of (columnsOf scalars) column = Some d"
    and kind: "kind = FilterEquals \<or> kind = FilterIn \<or> kind = FilterRange"
    by (auto simp: leafTree_def split: if_splits option.splits)
  from eval kind have st: "ScState (cell column) = ScalarCellValue"
    and m: "comparisonMatches kind vs lower upper (ScValue (cell column))"
    by (auto simp: evaluateLeaf_def truthOf_def split: if_splits)
  from columnsOf_get [OF d] have "d \<in> set scalars" "ColName d = column" by auto
  with rowCoversD [OF covers] st obtain s where
    "row column = Some s" "storedType s = ColType d" "coversValue s (ScValue (cell column))" by metis
  with tree m kind d \<open>ColName d = column\<close> show ?thesis
    by (auto simp: leafTree_def coversValue_def comparisonMatches_def list_ex_iff
        split: if_splits option.splits intro: member_le_Max Min_le_member)
qed

lemma treeAllLoop_sound:
  "treeAllLoop es rs = Inr (Some e) \<Longrightarrow> list_all (evalSuperset row) es \<Longrightarrow>
    (\<And>x. Inr (Some x) \<in> set rs \<Longrightarrow> evalSuperset row x) \<Longrightarrow> evalSuperset row e"
proof (induction es rs rule: treeAllLoop.induct)
  case (2 es r rs)
  then show ?case by (cases r rule: rendered.cases) auto
qed (auto split: if_splits)

lemma treeAnyLoop_sound:
  "treeAnyLoop es rs = Inr (Some e) \<Longrightarrow>
    list_ex (evalSuperset row) es \<or> (\<exists>r\<in>set rs. case r of Inr (Some x) \<Rightarrow> evalSuperset row x | Inr None \<Rightarrow> True | Inl _ \<Rightarrow> True)
    \<Longrightarrow> evalSuperset row e"
proof (induction es rs rule: treeAnyLoop.induct)
  case (2 es r rs)
  then show ?case by (cases r rule: rendered.cases) auto
qed (auto split: if_splits)

lemma tree_sound:
  "supersetTree (columnsOf scalars) f = Inr (Some e) \<Longrightarrow> evaluateFilterCells cell f = truthTrue \<Longrightarrow>
    rowCovers scalars row cell \<Longrightarrow> evalSuperset row e"
proof (induction "columnsOf scalars" f arbitrary: e rule: supersetTree.induct)
  case (1 kind children column vs lower upper)
  consider "kind = FilterAll" | "kind = FilterAny" | "kind = FilterNot"
    | "kind \<noteq> FilterAll" "kind \<noteq> FilterAny" "kind \<noteq> FilterNot" by blast
  then show ?case
  proof cases
    case 1
    with "1.prems" have t: "treeAllLoop [] (map (supersetTree (columnsOf scalars)) children) = Inr (Some e)"
      and ev: "\<And>c. c \<in> set children \<Longrightarrow> evaluateFilterCells cell c = truthTrue"
      by (auto simp: allLoop_True)
    show ?thesis
    proof (rule treeAllLoop_sound [OF t])
      fix x
      assume "Inr (Some x) \<in> set (map (supersetTree (columnsOf scalars)) children)"
      then obtain c where "c \<in> set children" "supersetTree (columnsOf scalars) c = Inr (Some x)" by auto
      then show "evalSuperset row x" using "1.hyps"(1) [OF 1 _ _ ev "1.prems"(3)] by blast
    qed simp
  next
    case 2
    with "1.prems" obtain c where "c \<in> set children" "evaluateFilterCells cell c = truthTrue"
      by (auto simp: anyLoop_True)
    with 2 "1.prems" "1.hyps"(2) have "case supersetTree (columnsOf scalars) c of
        Inr (Some x) \<Rightarrow> evalSuperset row x | Inr None \<Rightarrow> True | Inl _ \<Rightarrow> True"
      by (auto split: sum.splits option.splits)
    with 2 "1.prems"(1) \<open>c \<in> set children\<close> show ?thesis
      by (intro treeAnyLoop_sound [of "[]"]) auto
  next
    case 3
    with "1.prems" show ?thesis by (simp add: leafTree_def)
  next
    case 4
    with "1.prems" show ?thesis by (auto intro: leaf_sound)
  qed
qed

section \<open>What a superset admits\<close>

definition supersetAdmits :: "column_superset \<Rightarrow> scalar_value \<Rightarrow> bool" where
  "supersetAdmits superset v =
     (if SvType v = ScalarTypeString then CsOverflow superset \<or> fst (SanitizeUTF8 (SvString v)) \<in> set (CsStrings superset)
      else if SvType v = ScalarTypeBool then SvBool v \<in> set (CsBools superset)
      else SvType v = ScalarTypeInt64 \<and> CsHasRange superset
        \<and> CsMinimum superset \<le> SvInt64 v \<and> SvInt64 v \<le> CsMaximum superset)"

lemma set_insertOnce [simp]: "set (insertOnce x xs) = insert x (set xs)"
  by (auto simp: insertOnce_def)

lemma set_fold_insertOnce [simp]: "set (fold insertOnce xs ys) = set xs \<union> set ys"
  by (induction xs arbitrary: ys) auto

lemma sanitize_idem [simp]: "fst (SanitizeUTF8 (fst (SanitizeUTF8 s))) = fst (SanitizeUTF8 s)"
  by (simp add: SanitizeUTF8_def validUtf8_toValid)

lemma scalar_ctor_simps [simp]:
  "SvType (StringScalar s) = ScalarTypeString" "SvNull (StringScalar s) = False" "SvString (StringScalar s) = s"
  "SvType (BoolScalar b) = ScalarTypeBool" "SvNull (BoolScalar b) = False" "SvBool (BoolScalar b) = b"
  "SvType (Int64Scalar i) = ScalarTypeInt64" "SvNull (Int64Scalar i) = False" "SvInt64 (Int64Scalar i) = i"
  by (simp_all add: StringScalar_def BoolScalar_def Int64Scalar_def)

lemma scalar_types_ne [simp]: "ScalarTypeString \<noteq> []" "ScalarTypeBool \<noteq> []" "ScalarTypeInt64 \<noteq> []"
  by (simp_all add: scalar_type_defs)

lemma admits_add_new:
  "\<not> SvNull v \<Longrightarrow> SvType v \<in> {ScalarTypeString, ScalarTypeBool, ScalarTypeInt64} \<Longrightarrow>
    supersetAdmits (supersetAdd v superset) v"
  by (auto simp: supersetAdd_def supersetAdmits_def Let_def)

lemma admits_add [intro]: "supersetAdmits superset w \<Longrightarrow> supersetAdmits (supersetAdd v superset) w"
  by (auto simp: supersetAdd_def supersetAdmits_def Let_def split: if_splits)

lemma admits_addStrings [intro]: "supersetAdmits superset w \<Longrightarrow> supersetAdmits (addStrings ss superset) w"
  unfolding addStrings_def by (induction ss arbitrary: superset) auto

lemma admits_addStrings_new:
  "SvType w = ScalarTypeString \<Longrightarrow> fst (SanitizeUTF8 (SvString w)) \<in> set ss \<Longrightarrow> supersetAdmits (addStrings ss superset) w"
proof (induction ss arbitrary: superset)
  case (Cons s ss)
  show ?case
  proof (cases "fst (SanitizeUTF8 (SvString w)) = s")
    case True
    have "supersetAdmits (supersetAdd (StringScalar s) superset) (StringScalar s)"
      by (rule admits_add_new) simp_all
    then have "supersetAdmits (supersetAdd (StringScalar s) superset) w"
      using Cons.prems(1) True by (auto simp: supersetAdmits_def)
    then show ?thesis using admits_addStrings [of _ w ss] by (simp add: addStrings_def)
  next
    case False
    with Cons show ?thesis by (simp add: addStrings_def)
  qed
qed simp

lemma admits_markOverflow [intro]: "supersetAdmits superset w \<Longrightarrow> supersetAdmits (markOverflow b superset) w"
  by (auto simp: markOverflow_def supersetAdmits_def)

lemma admits_addRange [intro]: "supersetAdmits superset w \<Longrightarrow> supersetAdmits (addRange lo hi superset) w"
  by (auto simp: addRange_def)

lemma admits_addRange_new:
  "SvType w = ScalarTypeInt64 \<Longrightarrow> lo \<le> SvInt64 w \<Longrightarrow> SvInt64 w \<le> hi \<Longrightarrow> supersetAdmits (addRange lo hi superset) w"
  by (auto simp: addRange_def supersetAdmits_def supersetAdd_def Let_def)

lemma admits_bools [intro]:
  "supersetAdmits superset w \<Longrightarrow> supersetAdmits (superset\<lparr>CsBools := fold insertOnce bs (CsBools superset)\<rparr>) w"
  by (auto simp: supersetAdmits_def)

lemma addStrings_frame: "CsBools (addStrings ss superset) = CsBools superset
    \<and> CsHasRange (addStrings ss superset) = CsHasRange superset
    \<and> (CsOverflow superset \<longrightarrow> CsOverflow (addStrings ss superset))"
  unfolding addStrings_def
  by (induction ss arbitrary: superset) (auto simp: supersetAdd_def Let_def split: if_splits)

text \<open>A merge admits what either side admits, and containment is what it says.\<close>

lemma admits_merge: "supersetAdmits superset w \<Longrightarrow> supersetAdmits (supersetMerge other superset) w"
  by (auto simp: supersetMerge_def Let_def)

lemma admits_merge_other:
  assumes "supersetAdmits other w"
  shows "supersetAdmits (supersetMerge other superset) w"
proof -
  let ?a = "addStrings (CsStrings other) (markOverflow (CsOverflow other) superset)"
  let ?b = "?a\<lparr>CsBools := fold insertOnce (CsBools other) (CsBools ?a)\<rparr>"
  consider "SvType w = ScalarTypeString" | "SvType w = ScalarTypeBool" | "SvType w = ScalarTypeInt64"
    using assms by (auto simp: supersetAdmits_def split: if_splits)
  then have "supersetAdmits ?b w \<or> (SvType w = ScalarTypeInt64)"
  proof cases
    case 1
    have "supersetAdmits ?a w"
    proof (cases "CsOverflow other")
      case True
      then have "CsOverflow ?a" using addStrings_frame by (simp add: markOverflow_def)
      with 1 show ?thesis by (simp add: supersetAdmits_def)
    next
      case False
      with assms 1 show ?thesis by (intro admits_addStrings_new) (auto simp: supersetAdmits_def)
    qed
    then show ?thesis by blast
  next
    case 2
    with assms show ?thesis by (auto simp: supersetAdmits_def)
  qed simp
  with assms show ?thesis
    by (auto simp: supersetMerge_def Let_def supersetAdmits_def [of other] intro: admits_addRange_new)
qed

lemma admits_contains: "supersetContains superset other \<Longrightarrow> supersetAdmits other w \<Longrightarrow> supersetAdmits superset w"
  by (auto simp: supersetContains_def supersetAdmits_def split: if_splits)

lemma set_sortedBools [simp]: "set (sortedBools superset) = set (CsBools superset)"
proof (rule set_eqI)
  show "b \<in> set (sortedBools superset) \<longleftrightarrow> b \<in> set (CsBools superset)" for b
    by (cases b) (auto simp: sortedBools_def)
qed

lemma write_covers:
  "writeSuperset ty superset = Some st \<Longrightarrow> supersetAdmits superset v \<Longrightarrow> SvType v = ty \<Longrightarrow>
    storedType st = ty \<and> coversValue st v"
  by (auto simp: writeSuperset_def supersetAdmits_def coversValue_def sortedStrings_def split: if_splits)

lemma admits_addBools:
  "(supersetAdmits superset w \<longrightarrow> supersetAdmits (fold (\<lambda>b. supersetAdd (BoolScalar b)) bs superset) w)
   \<and> (SvType w = ScalarTypeBool \<and> SvBool w \<in> set bs \<longrightarrow> supersetAdmits (fold (\<lambda>b. supersetAdd (BoolScalar b)) bs superset) w)"
proof (induction bs arbitrary: superset)
  case (Cons b bs)
  have "supersetAdmits (supersetAdd (BoolScalar b) superset) w" if "SvType w = ScalarTypeBool" "SvBool w = b"
    using that by (auto simp: supersetAdmits_def supersetAdd_def)
  with Cons show ?case by auto
qed simp

lemma read_admits:
  assumes "readSuperset ty (Some st) superset = Some superset'" and "storedType st = ty" and "coversValue st v" and "SvType v = ty"
  shows "supersetAdmits superset' v"
proof (cases st)
  case (StringSet ss ov)
  with assms show ?thesis
    using admits_markOverflow [OF admits_addStrings_new [of v ss superset], of ov]
    by (auto simp: readSuperset_def coversValue_def) (simp add: supersetAdmits_def markOverflow_def)
next
  case (BoolSet bs)
  with assms admits_addBools [of superset v bs] show ?thesis
    by (auto simp: readSuperset_def coversValue_def)
next
  case (Int64Range lo hi)
  with assms show ?thesis
    by (auto simp: readSuperset_def coversValue_def intro: admits_addRange_new)
qed

end
