(* ===== verification/SharedStore.thy ===== *)
theory SharedStore
  imports SharedSuperset EmbedPipeline
begin

text \<open>
  The shared store on two Milvus collections (\<open>collection/milvus/shared_store.go\<close>, \<open>shared_schema.go\<close>,
  \<open>shared_scalar_update.go\<close>): occurrence rows that name their vector by key, and one row for each distinct
  vector with the supersets of the scalar columns of its occurrences. The store serialises its writes
  with one lock, so an operation is one function on the state; each Milvus request in it is a call that
  may fail or be applied with its answer lost. The hash of a vector is an argument. Result pages of a
  query are read at once, since the lock keeps the collections fixed between them.
\<close>

section \<open>Vector records\<close>

record 'f vector_record =
  VrKey :: string
  VrVector :: "'f list"
  VrSupersets :: "(string, column_superset) gomap"

definition newVectorRecord :: "string \<Rightarrow> 'f list \<Rightarrow> scalar_column list \<Rightarrow> 'f vector_record" where
  "newVectorRecord key vector scalars =
     \<lparr>VrKey = key, VrVector = vector, VrSupersets = fold (\<lambda>d. gm_put (ColName d) newColumnSuperset) scalars []\<rparr>"

abbreviation supersetOf :: "'f vector_record \<Rightarrow> string \<Rightarrow> column_superset" where
  "supersetOf record name \<equiv> gm_get0 newColumnSuperset (VrSupersets record) name"

definition updSuperset :: "string \<Rightarrow> (column_superset \<Rightarrow> column_superset) \<Rightarrow> 'f vector_record \<Rightarrow> 'f vector_record" where
  "updSuperset name f record = record\<lparr>VrSupersets := gm_put name (f (supersetOf record name)) (VrSupersets record)\<rparr>"

definition addRow :: "scalar_column list \<Rightarrow> (string, scalar_value) gomap \<Rightarrow> 'f vector_record \<Rightarrow> 'f vector_record" where
  "addRow scalars vs record =
     fold (\<lambda>d. updSuperset (ColName d) (supersetAdd (gm_get0 EmptyScalar vs (ColName d)))) scalars record"

definition addCells :: "scalar_column list \<Rightarrow> (string \<Rightarrow> scalar_cell) \<Rightarrow> 'f vector_record \<Rightarrow> 'f vector_record" where
  "addCells scalars cells record =
     fold (\<lambda>d r. if ScState (cells (ColName d)) = ScalarCellValue
                then updSuperset (ColName d) (supersetAdd (ScValue (cells (ColName d)))) r else r) scalars record"

definition containsRecord :: "'f vector_record \<Rightarrow> 'f vector_record \<Rightarrow> bool" where
  "containsRecord record other \<longleftrightarrow>
     list_all (\<lambda>(name, superset).
       (case map_of (VrSupersets record) name of None \<Rightarrow> False | Some stored \<Rightarrow> supersetContains stored superset))
       (VrSupersets other)"

definition equalRecord :: "'f vector_record \<Rightarrow> 'f vector_record \<Rightarrow> bool" where
  "equalRecord record other \<longleftrightarrow> containsRecord record other \<and> containsRecord other record"

definition mergeRecord :: "'f vector_record \<Rightarrow> 'f vector_record \<Rightarrow> 'f vector_record" where
  "mergeRecord stored record =
     fold (\<lambda>(name, superset). updSuperset name (supersetMerge superset)) (VrSupersets stored) record"

section \<open>Stored rows\<close>

record 'f vector_row =
  VwVector :: "'f list"
  VwColumns :: "(string, stored_superset) gomap"

definition vectorRow :: "scalar_column list \<Rightarrow> 'f vector_record \<Rightarrow> 'f vector_row option" where
  "vectorRow scalars record =
     (if list_all (\<lambda>d. writeSuperset (ColType d) (supersetOf record (ColName d)) \<noteq> None) scalars
      then Some \<lparr>VwVector = VrVector record,
        VwColumns = map (\<lambda>d. (ColName d, the (writeSuperset (ColType d) (supersetOf record (ColName d))))) scalars\<rparr>
      else None)"

definition vectorUpsertOption ::
  "nat \<Rightarrow> scalar_column list \<Rightarrow> 'f vector_record list \<Rightarrow> (string \<times> 'f vector_row) list option" where
  "vectorUpsertOption dimension scalars records =
     (if list_all (\<lambda>r. length (VrVector r) = dimension \<and> vectorRow scalars r \<noteq> None) records
      then Some (map (\<lambda>r. (VrKey r, the (vectorRow scalars r))) records) else None)"

definition supersetsFromResult :: "scalar_column list \<Rightarrow> string \<Rightarrow> 'f vector_row \<Rightarrow> 'f vector_record option" where
  "supersetsFromResult scalars key row =
     (if list_all (\<lambda>d. readSuperset (ColType d) (map_of (VwColumns row) (ColName d)) newColumnSuperset \<noteq> None) scalars
      then Some \<lparr>VrKey = key, VrVector = [], VrSupersets =
        map (\<lambda>d. (ColName d, the (readSuperset (ColType d) (map_of (VwColumns row) (ColName d)) newColumnSuperset))) scalars\<rparr>
      else None)"

record 'f occurrence =
  OcRow :: "'f collection_row"
  OcKey :: string
  OcCells :: "(string, scalar_cell) gomap"

definition cellOf :: "'f occurrence \<Rightarrow> string \<Rightarrow> scalar_cell" where
  "cellOf occ name = gm_get0 (AbsentCell name) (OcCells occ) name"

text \<open>The stored cell of one declared column, as written and as read back.\<close>

definition typedScalar :: "scalar_type \<Rightarrow> scalar_value \<Rightarrow> scalar_value" where
  "typedScalar ty v =
     (if ty = ScalarTypeString then StringScalar (fst (SanitizeUTF8 (SvString v)))
      else if ty = ScalarTypeBool then BoolScalar (SvBool v) else Int64Scalar (SvInt64 v))"

definition declaredScalarInsertCell :: "scalar_column \<Rightarrow> (string, scalar_value) gomap \<Rightarrow> scalar_cell option" where
  "declaredScalarInsertCell d vs =
     (let v = gm_get0 EmptyScalar vs (ColName d);
          valid = (map_of vs (ColName d) \<noteq> None \<and> \<not> SvNull v)
      in if \<not> valid \<and> \<not> ColNullable d then None
         else if valid \<and> SvType v \<noteq> ColType d then None
         else if ColType d \<notin> {ScalarTypeString, ScalarTypeBool, ScalarTypeInt64} then None
         else Some (if valid then ValueCell (ColName d) (typedScalar (ColType d) v) else NullCell (ColName d)))"

definition insertColumnsRow :: "'f collection_row \<Rightarrow> 'f collection_row" where
  "insertColumnsRow row =
     row\<lparr>RowContent := fst (SanitizeUTF8 (RowContent row)), RowRelativePath := fst (SanitizeUTF8 (RowRelativePath row)),
         RowFileExtension := fst (SanitizeUTF8 (RowFileExtension row)), RowMetadata := fst (SanitizeUTF8 (RowMetadata row)),
         RowVector := []\<rparr>"

definition buildOccurrence :: "scalar_column list \<Rightarrow> 'f collection_row \<times> string \<Rightarrow> 'f occurrence option" where
  "buildOccurrence scalars = (\<lambda>(row, key).
     if list_all (\<lambda>d. declaredScalarInsertCell d (RowScalars row) \<noteq> None) scalars
     then Some \<lparr>OcRow = insertColumnsRow row, OcKey = key,
       OcCells = map (\<lambda>d. (ColName d, the (declaredScalarInsertCell d (RowScalars row)))) scalars\<rparr>
     else None)"

definition buildOccurrenceWriteOption ::
  "scalar_column list \<Rightarrow> ('f collection_row \<times> string) list \<Rightarrow> (string \<times> 'f occurrence) list option" where
  "buildOccurrenceWriteOption scalars rows =
     (if list_all (\<lambda>rk. buildOccurrence scalars rk \<noteq> None) rows
      then Some (map (\<lambda>rk. (RowID (fst rk), the (buildOccurrence scalars rk))) rows) else None)"

section \<open>Requests\<close>

record 'f shared_state =
  ShOccurrences :: "(string, 'f occurrence) gomap"
  ShVectors :: "(string, 'f vector_row) gomap"
  ShCalls :: nat

datatype shared_error = SharedCall | SharedInvalid

definition vectorKeyBatchSize :: nat where "vectorKeyBatchSize = 512"
definition sharedWriteBatchSize :: nat where "sharedWriteBatchSize = 256"

definition readCall :: "call_oracle \<Rightarrow> 'f shared_state \<Rightarrow> 'f shared_state \<times> shared_error option" where
  "readCall orc s = (s\<lparr>ShCalls := ShCalls s + 1\<rparr>, if orc (ShCalls s) = CallOk then None else Some SharedCall)"

definition writeCall ::
  "call_oracle \<Rightarrow> ('f shared_state \<Rightarrow> 'f shared_state) \<Rightarrow> 'f shared_state \<Rightarrow> 'f shared_state \<times> shared_error option" where
  "writeCall orc f s =
     (let s' = s\<lparr>ShCalls := ShCalls s + 1\<rparr>
      in case orc (ShCalls s) of
           CallOk \<Rightarrow> (f s', None) | CallFailed \<Rightarrow> (s', Some SharedCall) | CallLost \<Rightarrow> (f s', Some SharedCall))"

fun readCalls :: "call_oracle \<Rightarrow> nat \<Rightarrow> 'f shared_state \<Rightarrow> 'f shared_state \<times> shared_error option" where
  "readCalls orc 0 s = (s, None)"
| "readCalls orc (Suc n) s = andThen (readCall orc s) (readCalls orc n)"

text \<open>One request for every batch of keys or ids.\<close>

definition readBatches :: "call_oracle \<Rightarrow> string list \<Rightarrow> 'f shared_state \<Rightarrow> 'f shared_state \<times> shared_error option" where
  "readBatches orc names = readCalls orc (length (batchesOf vectorKeyBatchSize names))"

definition putVectors :: "(string \<times> 'f vector_row) list \<Rightarrow> 'f shared_state \<Rightarrow> 'f shared_state" where
  "putVectors rows s = s\<lparr>ShVectors := fold (\<lambda>(k, v). gm_put k v) rows (ShVectors s)\<rparr>"

definition putOccurrences :: "(string \<times> 'f occurrence) list \<Rightarrow> 'f shared_state \<Rightarrow> 'f shared_state" where
  "putOccurrences rows s = s\<lparr>ShOccurrences := fold (\<lambda>(k, v). gm_put k v) rows (ShOccurrences s)\<rparr>"

definition occurrenceKeyMap :: "'f shared_state \<Rightarrow> string list \<Rightarrow> (string, string) gomap" where
  "occurrenceKeyMap s ids =
     fold (\<lambda>i m. case map_of (ShOccurrences s) i of None \<Rightarrow> m | Some occ \<Rightarrow> gm_put i (OcKey occ) m) ids []"

definition iterateVectorKeys :: "('f occurrence \<Rightarrow> bool) \<Rightarrow> 'f shared_state \<Rightarrow> string list" where
  "iterateVectorKeys p s = remdups_adj (sort (map (OcKey \<circ> snd) (filter (p \<circ> snd) (ShOccurrences s))))"

definition storedSupersets ::
  "scalar_column list \<Rightarrow> 'f shared_state \<Rightarrow> string list \<Rightarrow> (string, 'f vector_record) gomap option" where
  "storedSupersets scalars s keys =
     fold (\<lambda>k acc. case acc of
        None \<Rightarrow> None
      | Some m \<Rightarrow> (case map_of (ShVectors s) k of
           None \<Rightarrow> Some m
         | Some row \<Rightarrow> (case supersetsFromResult scalars k row of None \<Rightarrow> None | Some r \<Rightarrow> Some (gm_put k r m)))) keys (Some [])"

section \<open>Vectors without occurrences\<close>

fun removeUnreferencedKeys ::
  "call_oracle \<Rightarrow> string list list \<Rightarrow> 'f shared_state \<Rightarrow> 'f shared_state \<times> shared_error option" where
  "removeUnreferencedKeys orc [] s = (s, None)"
| "removeUnreferencedKeys orc (b # bs) s =
     andThen (readCall orc s) (\<lambda>s.
       let live = iterateVectorKeys (\<lambda>occ. OcKey occ \<in> set b) s;
           unreferenced = filter (\<lambda>k. k \<notin> set live) b
       in if unreferenced = [] then removeUnreferencedKeys orc bs s
          else andThen (writeCall orc (\<lambda>s. s\<lparr>ShVectors := fold gm_del unreferenced (ShVectors s)\<rparr>) s)
                 (removeUnreferencedKeys orc bs))"

definition deleteUnreferencedVectors ::
  "call_oracle \<Rightarrow> string list \<Rightarrow> 'f shared_state \<Rightarrow> 'f shared_state \<times> shared_error option" where
  "deleteUnreferencedVectors orc keys = removeUnreferencedKeys orc (batchesOf vectorKeyBatchSize keys)"

section \<open>Writes\<close>

fun upsertVectorBatches ::
  "call_oracle \<Rightarrow> nat \<Rightarrow> scalar_column list \<Rightarrow> 'f vector_record list list \<Rightarrow> 'f shared_state
    \<Rightarrow> 'f shared_state \<times> shared_error option" where
  "upsertVectorBatches orc dimension scalars [] s = (s, None)"
| "upsertVectorBatches orc dimension scalars (b # bs) s =
     (case vectorUpsertOption dimension scalars b of
        None \<Rightarrow> (s, Some SharedInvalid)
      | Some rows \<Rightarrow> andThen (writeCall orc (putVectors rows) s) (upsertVectorBatches orc dimension scalars bs))"

fun upsertOccurrenceBatches ::
  "call_oracle \<Rightarrow> scalar_column list \<Rightarrow> ('f collection_row \<times> string) list list \<Rightarrow> 'f shared_state
    \<Rightarrow> 'f shared_state \<times> shared_error option" where
  "upsertOccurrenceBatches orc scalars [] s = (s, None)"
| "upsertOccurrenceBatches orc scalars (b # bs) s =
     (case buildOccurrenceWriteOption scalars b of
        None \<Rightarrow> (s, Some SharedInvalid)
      | Some rows \<Rightarrow> andThen (writeCall orc (putOccurrences rows) s) (upsertOccurrenceBatches orc scalars bs))"

definition addRecordRow ::
  "scalar_column list \<Rightarrow> string \<Rightarrow> 'f list \<Rightarrow> (string, scalar_value) gomap
    \<Rightarrow> (string, 'f vector_record) gomap \<Rightarrow> (string, 'f vector_record) gomap" where
  "addRecordRow scalars key vector vs records =
     gm_put key (addRow scalars vs
       (case map_of records key of None \<Rightarrow> newVectorRecord key vector scalars | Some r \<Rightarrow> r)) records"

definition recordsOfRows ::
  "scalar_column list \<Rightarrow> ('f collection_row \<times> string) list \<Rightarrow> (string, 'f vector_record) gomap" where
  "recordsOfRows scalars rows =
     fold (\<lambda>(row, key). addRecordRow scalars key (RowVector row) (RowScalars row)) rows []"

text \<open>
  \<open>mergeStoredSupersets\<close> returns the records with the stored supersets merged in and the keys whose
  stored row needs no write.
\<close>

definition mergeStored ::
  "(string, 'f vector_record) gomap \<Rightarrow> (string, 'f vector_record) gomap \<Rightarrow> (string, 'f vector_record) gomap" where
  "mergeStored stored records =
     map (\<lambda>(k, r). (k, case map_of stored k of None \<Rightarrow> r | Some st \<Rightarrow> mergeRecord st r)) records"

definition unchangedKeys ::
  "(string, 'f vector_record) gomap \<Rightarrow> (string, 'f vector_record) gomap \<Rightarrow> string list" where
  "unchangedKeys stored records =
     map fst (filter (\<lambda>(k, r). case map_of stored k of None \<Rightarrow> False | Some st \<Rightarrow> containsRecord st r) records)"

definition sortedRecordKeys :: "(string, 'f vector_record) gomap \<Rightarrow> string list" where
  "sortedRecordKeys records = sort (map fst records)"

definition orderedRecords ::
  "(string, 'f vector_record) gomap \<Rightarrow> (string, 'f vector_record) gomap \<Rightarrow> 'f vector_record list" where
  "orderedRecords stored records =
     map (\<lambda>k. the (map_of (mergeStored stored records) k))
       (filter (\<lambda>k. k \<notin> set (unchangedKeys stored records)) (sortedRecordKeys records))"

text \<open>The read of the stored supersets and the write of the records that changed.\<close>

definition writeVectors ::
  "call_oracle \<Rightarrow> nat \<Rightarrow> scalar_column list \<Rightarrow> (string, 'f vector_record) gomap \<Rightarrow> 'f shared_state
    \<Rightarrow> 'f shared_state \<times> shared_error option" where
  "writeVectors orc dimension scalars records s =
     andThen (readBatches orc (sortedRecordKeys records) s) (\<lambda>s.
       case storedSupersets scalars s (sortedRecordKeys records) of
         None \<Rightarrow> (s, Some SharedInvalid)
       | Some stored \<Rightarrow>
           upsertVectorBatches orc dimension scalars (batchesOf sharedWriteBatchSize (orderedRecords stored records)) s)"

definition writeRows ::
  "('f list \<Rightarrow> string) \<Rightarrow> call_oracle \<Rightarrow> scalar_column list \<Rightarrow> 'f collection_row list \<Rightarrow> 'f shared_state
    \<Rightarrow> 'f shared_state \<times> shared_error option" where
  "writeRows vectorKey orc scalars rows s =
     (let dimension = length (RowVector (hd rows));
          keyed = map (\<lambda>r. (r, vectorKey (RowVector r))) rows;
          records = recordsOfRows scalars keyed
      in if dimension = 0 \<or> \<not> list_all (\<lambda>r. length (RowVector r) = dimension) rows then (s, Some SharedInvalid)
         else andThen (readBatches orc (map RowID rows) s) (\<lambda>s.
           let replacedKeys = remdups_adj (sort (map snd (occurrenceKeyMap s (map RowID rows))))
           in andThen (writeVectors orc dimension scalars records s) (\<lambda>s.
              andThen (upsertOccurrenceBatches orc scalars (batchesOf sharedWriteBatchSize keyed) s) (\<lambda>s.
              deleteUnreferencedVectors orc (filter (\<lambda>k. map_of records k = None) replacedKeys) s))))"

definition SharedUpsert ::
  "('f list \<Rightarrow> string) \<Rightarrow> call_oracle \<Rightarrow> scalar_column list \<Rightarrow> 'f collection_row list \<Rightarrow> 'f shared_state
    \<Rightarrow> 'f shared_state \<times> shared_error option" where
  "SharedUpsert vectorKey orc scalars rows s =
     (if rows = [] then (s, None) else writeRows vectorKey orc scalars rows s)"

section \<open>Deletes\<close>

text \<open>An expression is what it selects; the affected keys are collected over all expressions.\<close>

fun deleteOccurrencesLoop ::
  "call_oracle \<Rightarrow> ('f occurrence \<Rightarrow> bool) list \<Rightarrow> string list \<Rightarrow> 'f shared_state \<Rightarrow> 'f shared_state \<times> shared_error option" where
  "deleteOccurrencesLoop orc [] affected s = deleteUnreferencedVectors orc (remdups_adj (sort affected)) s"
| "deleteOccurrencesLoop orc (p # ps) affected s =
     andThen (readCall orc s) (\<lambda>s.
       andThen (writeCall orc (\<lambda>s. s\<lparr>ShOccurrences := filter (\<lambda>x. \<not> p (snd x)) (ShOccurrences s)\<rparr>) s)
         (deleteOccurrencesLoop orc ps (affected @ iterateVectorKeys p s)))"

definition deleteOccurrences ::
  "call_oracle \<Rightarrow> ('f occurrence \<Rightarrow> bool) list \<Rightarrow> 'f shared_state \<Rightarrow> 'f shared_state \<times> shared_error option" where
  "deleteOccurrences orc ps s = deleteOccurrencesLoop orc ps [] s"

definition SharedDelete ::
  "call_oracle \<Rightarrow> filter_node \<Rightarrow> 'f shared_state \<Rightarrow> 'f shared_state \<times> shared_error option" where
  "SharedDelete orc f s =
     (case CompileInline (Some f) of
        Inl _ \<Rightarrow> (s, Some SharedInvalid)
      | Inr _ \<Rightarrow> deleteOccurrences orc [\<lambda>occ. evaluateFilterCells (cellOf occ) f = truthTrue] s)"

section \<open>Rebuilds and scalar updates\<close>

definition addOccurrenceCells ::
  "scalar_column list \<Rightarrow> 'f occurrence list \<Rightarrow> (string, 'f vector_record) gomap \<Rightarrow> (string, 'f vector_record) gomap" where
  "addOccurrenceCells scalars occs records =
     fold (\<lambda>occ m. case map_of m (OcKey occ) of
        None \<Rightarrow> m | Some r \<Rightarrow> gm_put (OcKey occ) (addCells scalars (cellOf occ) r) m) occs records"

fun rebuildSupersetsLoop ::
  "call_oracle \<Rightarrow> scalar_column list \<Rightarrow> string list list \<Rightarrow> 'f shared_state \<Rightarrow> 'f shared_state \<times> shared_error option" where
  "rebuildSupersetsLoop orc scalars [] s = (s, None)"
| "rebuildSupersetsLoop orc scalars (b # bs) s =
     andThen (readCall orc s) (\<lambda>s.
       if \<not> list_all (\<lambda>k. map_of (ShVectors s) k \<noteq> None) b then (s, Some SharedInvalid)
       else andThen (readCall orc s) (\<lambda>s.
         let fresh = fold (\<lambda>k. gm_put k (newVectorRecord k (VwVector (the (map_of (ShVectors s) k))) scalars)) b [];
             records = addOccurrenceCells scalars (filter (\<lambda>occ. OcKey occ \<in> set b) (map snd (ShOccurrences s))) fresh;
             dimension = length (VwVector (the (map_of (ShVectors s) (last b))))
         in case vectorUpsertOption dimension scalars (map (\<lambda>k. the (map_of records k)) (sortedRecordKeys records)) of
              None \<Rightarrow> (s, Some SharedInvalid)
            | Some rows \<Rightarrow> andThen (writeCall orc (putVectors rows) s) (rebuildSupersetsLoop orc scalars bs)))"

definition rebuildSupersets ::
  "call_oracle \<Rightarrow> scalar_column list \<Rightarrow> string list \<Rightarrow> 'f shared_state \<Rightarrow> 'f shared_state \<times> shared_error option" where
  "rebuildSupersets orc scalars keys = rebuildSupersetsLoop orc scalars (batchesOf vectorKeyBatchSize keys)"

definition validateScalarUpdate :: "scalar_column list \<Rightarrow> 'f collection_row list \<Rightarrow> bool" where
  "validateScalarUpdate columns rows \<longleftrightarrow>
     columns \<noteq> [] \<and> list_all (\<lambda>r. \<not> isBlank (RowID r) \<and> \<not> isBlank (RowMetadata r)) rows \<and> distinct (map RowID rows)"

definition requireStoredColumns :: "scalar_column list \<Rightarrow> scalar_column list \<Rightarrow> bool" where
  "requireStoredColumns stored columns \<longleftrightarrow>
     list_all (\<lambda>c. map_option ColType (map_of (columnsOf stored) (ColName c)) = Some (ColType c)) columns"

text \<open>A partial update of one stored occurrence: metadata and the listed columns.\<close>

definition partialCells :: "scalar_column list \<Rightarrow> 'f collection_row \<Rightarrow> (string, scalar_cell) gomap option" where
  "partialCells columns row =
     (if list_all (\<lambda>c. declaredScalarInsertCell c (RowScalars row) \<noteq> None) columns
      then Some (map (\<lambda>c. (ColName c, the (declaredScalarInsertCell c (RowScalars row)))) columns) else None)"

definition applyPartial :: "(string, scalar_cell) gomap \<Rightarrow> 'f collection_row \<Rightarrow> 'f occurrence \<Rightarrow> 'f occurrence" where
  "applyPartial cells row occ =
     occ\<lparr>OcRow := (OcRow occ)\<lparr>RowMetadata := RowMetadata row\<rparr>, OcCells := fold (\<lambda>(n, c). gm_put n c) cells (OcCells occ)\<rparr>"

definition rowScalarOption ::
  "scalar_column list \<Rightarrow> 'f collection_row list \<Rightarrow> (string \<times> ('f occurrence \<Rightarrow> 'f occurrence)) list option" where
  "rowScalarOption columns rows =
     (if list_all (\<lambda>r. partialCells columns r \<noteq> None) rows
      then Some (map (\<lambda>r. (RowID r, applyPartial (the (partialCells columns r)) r)) rows) else None)"

definition partialUpdate ::
  "(string \<times> ('f occurrence \<Rightarrow> 'f occurrence)) list \<Rightarrow> 'f shared_state \<Rightarrow> 'f shared_state" where
  "partialUpdate updates s =
     s\<lparr>ShOccurrences := fold (\<lambda>(i, f) m. case map_of m i of None \<Rightarrow> m | Some occ \<Rightarrow> gm_put i (f occ) m) updates (ShOccurrences s)\<rparr>"

fun partialUpdateBatches ::
  "call_oracle \<Rightarrow> (string \<times> ('f occurrence \<Rightarrow> 'f occurrence)) list list \<Rightarrow> 'f shared_state
    \<Rightarrow> 'f shared_state \<times> shared_error option" where
  "partialUpdateBatches orc [] s = (s, None)"
| "partialUpdateBatches orc (b # bs) s =
     andThen (writeCall orc (partialUpdate b) s) (partialUpdateBatches orc bs)"

definition widenRecords ::
  "scalar_column list \<Rightarrow> (string, string) gomap \<Rightarrow> (string, 'f vector_row) gomap \<Rightarrow> 'f collection_row list
    \<Rightarrow> (string, 'f vector_record) gomap" where
  "widenRecords scalars keyByID vectors rows =
     fold (\<lambda>row. let key = gm_get0 [] keyByID (RowID row)
             in addRecordRow scalars key (VwVector (the (map_of vectors key))) (RowScalars row)) rows []"

definition widenSupersets ::
  "call_oracle \<Rightarrow> scalar_column list \<Rightarrow> (string, string) gomap \<Rightarrow> 'f collection_row list \<Rightarrow> 'f shared_state
    \<Rightarrow> 'f shared_state \<times> shared_error option" where
  "widenSupersets orc scalars keyByID rows s =
     (let keys = map (\<lambda>r. gm_get0 [] keyByID (RowID r)) rows
      in andThen (readBatches orc (remdups_adj (sort keys)) s) (\<lambda>s.
        if \<not> list_all (\<lambda>k. map_of (ShVectors s) k \<noteq> None) keys then (s, Some SharedInvalid)
        else let firsts = filter (\<lambda>i. keys ! i \<notin> set (take i keys)) [0..<length keys];
                 dimension = length (VwVector (the (map_of (ShVectors s) (keys ! last firsts))))
             in writeVectors orc dimension scalars (widenRecords scalars keyByID (ShVectors s) rows) s))"

definition UpdateRowScalars ::
  "call_oracle \<Rightarrow> scalar_column list \<Rightarrow> scalar_column list \<Rightarrow> 'f collection_row list \<Rightarrow> 'f shared_state
    \<Rightarrow> 'f shared_state \<times> shared_error option" where
  "UpdateRowScalars orc scalars columns rows s =
     (if rows = [] then (s, None)
      else if \<not> validateScalarUpdate columns rows then (s, Some SharedInvalid)
      else andThen (readBatches orc (map RowID rows) s) (\<lambda>s.
        let keyByID = occurrenceKeyMap s (map RowID rows)
        in if \<not> list_all (\<lambda>r. map_of keyByID (RowID r) \<noteq> None) rows then (s, Some SharedInvalid)
           else andThen (readCall orc s) (\<lambda>s.
             if \<not> requireStoredColumns scalars columns then (s, Some SharedInvalid)
             else case rowScalarOption columns rows of
               None \<Rightarrow> (s, Some SharedInvalid)
             | Some updates \<Rightarrow>
                 andThen (widenSupersets orc scalars keyByID rows s) (\<lambda>s.
                 andThen (partialUpdateBatches orc (batchesOf sharedWriteBatchSize updates) s) (\<lambda>s.
                 rebuildSupersets orc scalars (remdups_adj (sort (map snd keyByID))) s)))))"

end
