(* ===== verification/SharedStoreInvariant.thy ===== *)
theory SharedStoreInvariant
  imports SharedStore
begin

text \<open>
  The invariant of the shared store: every occurrence has a vector row, and the supersets of that row
  cover the occurrence's scalar cells. It is kept by every operation under every outcome of its requests.
\<close>

section \<open>Well-formed supersets\<close>

definition supersetWf :: "column_superset \<Rightarrow> bool" where
  "supersetWf superset \<longleftrightarrow> length (CsStrings superset) \<le> supersetArrayCapacity \<and> list_all validUtf8 (CsStrings superset)
     \<and> CsMinimum superset \<le> maxInt64 \<and> minInt64 \<le> CsMaximum superset"

definition storedWf :: "stored_superset \<Rightarrow> bool" where
  "storedWf st = (case st of
     StringSet ss _ \<Rightarrow> length ss \<le> supersetArrayCapacity \<and> list_all validUtf8 ss
   | Int64Range lo hi \<Rightarrow> lo \<le> maxInt64 \<and> minInt64 \<le> hi
   | BoolSet _ \<Rightarrow> True)"

lemma valid_sanitize [simp]: "validUtf8 (fst (SanitizeUTF8 s))"
  by (simp add: SanitizeUTF8_def validUtf8_toValid)

lemma sanitize_valid_id [simp]: "validUtf8 s \<Longrightarrow> fst (SanitizeUTF8 s) = s"
  by (simp add: SanitizeUTF8_def)

lemma wf_new [simp]: "supersetWf newColumnSuperset"
  by (simp add: supersetWf_def newColumnSuperset_def)

lemma wf_add [simp]: "supersetWf superset \<Longrightarrow> supersetWf (supersetAdd v superset)"
  by (auto simp: supersetWf_def supersetAdd_def insertOnce_def Let_def split: if_splits)

lemma wf_addStrings [simp]: "supersetWf superset \<Longrightarrow> supersetWf (addStrings ss superset)"
  unfolding addStrings_def by (induction ss arbitrary: superset) auto

lemma wf_markOverflow [simp]: "supersetWf superset \<Longrightarrow> supersetWf (markOverflow b superset)"
  by (simp add: markOverflow_def supersetWf_def)

lemma wf_addRange [simp]: "supersetWf superset \<Longrightarrow> supersetWf (addRange lo hi superset)"
  by (simp add: addRange_def)

lemma wf_bools [simp]: "supersetWf (superset\<lparr>CsBools := bs\<rparr>) = supersetWf superset"
  by (simp add: supersetWf_def)

lemma wf_merge [simp]: "supersetWf superset \<Longrightarrow> supersetWf (supersetMerge other superset)"
  by (simp add: supersetMerge_def Let_def)

lemma wf_write: "writeSuperset ty superset = Some st \<Longrightarrow> supersetWf superset \<Longrightarrow> storedWf st"
  by (auto simp: writeSuperset_def storedWf_def supersetWf_def sortedStrings_def list_all_iff split: if_splits)

text \<open>Reading a well-formed column admits only what the column covers.\<close>

lemma addStrings_exact:
  "\<not> CsOverflow superset \<Longrightarrow> length (CsStrings superset) + length ss \<le> supersetArrayCapacity \<Longrightarrow> list_all validUtf8 ss \<Longrightarrow>
    \<not> CsOverflow (addStrings ss superset) \<and> set (CsStrings (addStrings ss superset)) = set (CsStrings superset) \<union> set ss"
proof (induction ss arbitrary: superset)
  case (Cons s ss)
  let ?a = "supersetAdd (StringScalar s) superset"
  have "\<not> CsOverflow ?a" "set (CsStrings ?a) = insert s (set (CsStrings superset))"
    "length (CsStrings ?a) \<le> Suc (length (CsStrings superset))"
    using Cons.prems by (auto simp: supersetAdd_def Let_def insertOnce_def)
  moreover have "addStrings (s # ss) superset = addStrings ss ?a" by (simp add: addStrings_def)
  ultimately show ?case using Cons.IH [of ?a] Cons.prems by auto
qed (simp add: addStrings_def)

lemma addBools_set:
  "set (CsBools (fold (\<lambda>b. supersetAdd (BoolScalar b)) bs superset)) = set bs \<union> set (CsBools superset)"
  by (induction bs arbitrary: superset) (auto simp: supersetAdd_def)

lemma read_covers:
  assumes "readSuperset ty (Some st) newColumnSuperset = Some superset" and "storedWf st"
    and "supersetAdmits superset v" and "SvType v = ty"
  shows "storedType st = ty \<and> coversValue st v"
proof (cases st)
  case (StringSet ss ov)
  have "\<not> CsOverflow (addStrings ss newColumnSuperset)" "set (CsStrings (addStrings ss newColumnSuperset)) = set ss"
    using assms(2) StringSet addStrings_exact [of newColumnSuperset ss]
    by (auto simp: storedWf_def newColumnSuperset_def)
  with assms StringSet show ?thesis
    by (auto simp: readSuperset_def supersetAdmits_def coversValue_def markOverflow_def newColumnSuperset_def split: if_splits)
next
  case (BoolSet bs)
  with assms show ?thesis
    by (auto simp: readSuperset_def supersetAdmits_def coversValue_def addBools_set newColumnSuperset_def split: if_splits)
next
  case (Int64Range lo hi)
  with assms show ?thesis
    by (auto simp: readSuperset_def supersetAdmits_def coversValue_def newColumnSuperset_def addRange_def supersetAdd_def
        storedWf_def min_def max_def split: if_splits)
qed

section \<open>Records and rows\<close>

definition recordWf :: "'f vector_record \<Rightarrow> bool" where
  "recordWf vrec \<longleftrightarrow> (\<forall>n. supersetWf (supersetOf vrec n))"

definition cellsTyped :: "scalar_column list \<Rightarrow> (string \<Rightarrow> scalar_cell) \<Rightarrow> bool" where
  "cellsTyped scalars cell \<longleftrightarrow>
     (\<forall>d\<in>set scalars. ScState (cell (ColName d)) = ScalarCellValue \<longrightarrow>
        SvType (ScValue (cell (ColName d))) = ColType d
        \<and> \<not> SvNull (ScValue (cell (ColName d))) \<and> validUtf8 (SvString (ScValue (cell (ColName d))))
        \<and> ColType d \<in> {ScalarTypeString, ScalarTypeBool, ScalarTypeInt64})"

definition recordAdmits :: "scalar_column list \<Rightarrow> 'f vector_record \<Rightarrow> (string \<Rightarrow> scalar_cell) \<Rightarrow> bool" where
  "recordAdmits scalars vrec cell \<longleftrightarrow>
     (\<forall>d\<in>set scalars. ScState (cell (ColName d)) = ScalarCellValue \<longrightarrow>
        supersetAdmits (supersetOf vrec (ColName d)) (ScValue (cell (ColName d))))"

lemma supersetOf_upd [simp]:
  "supersetOf (updSuperset n f vrec) m = (if m = n then f (supersetOf vrec n) else supersetOf vrec m)"
  by (simp add: updSuperset_def)

lemma upd_frame [simp]:
  "VrKey (updSuperset n f vrec) = VrKey vrec" "VrVector (updSuperset n f vrec) = VrVector vrec"
  by (simp_all add: updSuperset_def)

lemma supersetOf_new [simp]: "supersetOf (newVectorRecord k v scalars) n = newColumnSuperset"
proof -
  have "gm_get0 newColumnSuperset m n = newColumnSuperset \<Longrightarrow>
      gm_get0 newColumnSuperset (fold (\<lambda>d. gm_put (ColName d) newColumnSuperset) scalars m) n = newColumnSuperset" for m
    by (induction scalars arbitrary: m) auto
  then show ?thesis by (simp add: newVectorRecord_def gm_get0_def)
qed

lemma newVectorRecord_frame [simp]:
  "VrKey (newVectorRecord k v scalars) = k" "VrVector (newVectorRecord k v scalars) = v"
  by (simp_all add: newVectorRecord_def)

lemma wf_newRecord [simp]: "recordWf (newVectorRecord k v scalars)"
  by (simp add: recordWf_def)

text \<open>A pass over distinct columns updates each of them once.\<close>

lemma fold_columns_other:
  "n \<notin> ColName ` set ds \<Longrightarrow>
    supersetOf (fold (\<lambda>d r. if p d then updSuperset (ColName d) (f d) r else r) ds vrec) n = supersetOf vrec n"
  by (induction ds arbitrary: vrec) auto

lemma fold_columns:
  "distinct (map ColName ds) \<Longrightarrow> d \<in> set ds \<Longrightarrow>
    supersetOf (fold (\<lambda>d r. if p d then updSuperset (ColName d) (f d) r else r) ds vrec) (ColName d)
      = (if p d then f d (supersetOf vrec (ColName d)) else supersetOf vrec (ColName d))"
proof (induction ds arbitrary: vrec)
  case (Cons e ds)
  show ?case
  proof (cases "e = d")
    case True
    with Cons.prems show ?thesis by (simp add: fold_columns_other)
  next
    case False
    with Cons.prems have "ColName d \<noteq> ColName e" by (auto simp: rev_image_eqI)
    with False Cons show ?thesis by auto
  qed
qed simp

lemma fold_columns_frame [simp]:
  "VrKey (fold (\<lambda>d r. if p d then updSuperset (ColName d) (f d) r else r) ds vrec) = VrKey vrec"
  "VrVector (fold (\<lambda>d r. if p d then updSuperset (ColName d) (f d) r else r) ds vrec) = VrVector vrec"
  by (induction ds arbitrary: vrec) auto

lemma fold_columns_wf:
  "(\<And>d s. supersetWf s \<Longrightarrow> supersetWf (f d s)) \<Longrightarrow> recordWf vrec \<Longrightarrow>
    recordWf (fold (\<lambda>d r. if p d then updSuperset (ColName d) (f d) r else r) ds vrec)"
  by (induction ds arbitrary: vrec) (auto simp: recordWf_def)

lemma addRow_alt:
  "addRow scalars vs vrec = fold (\<lambda>d r. if True then updSuperset (ColName d)
      (supersetAdd (gm_get0 EmptyScalar vs (ColName d))) r else r) scalars vrec"
  by (simp add: addRow_def)

lemma addRow_frame [simp]: "VrKey (addRow scalars vs r) = VrKey r" "VrVector (addRow scalars vs r) = VrVector r"
  unfolding addRow_alt by (rule fold_columns_frame)+

lemma addCells_frame [simp]: "VrKey (addCells scalars c r) = VrKey r" "VrVector (addCells scalars c r) = VrVector r"
  unfolding addCells_def by (rule fold_columns_frame)+

lemma addRow_wf [simp]: "recordWf r \<Longrightarrow> recordWf (addRow scalars vs r)"
  unfolding addRow_alt by (rule fold_columns_wf) simp_all

lemma addCells_wf [simp]: "recordWf r \<Longrightarrow> recordWf (addCells scalars c r)"
  unfolding addCells_def by (rule fold_columns_wf) simp_all

lemma addRow_get:
  "distinct (map ColName scalars) \<Longrightarrow> d \<in> set scalars \<Longrightarrow>
    supersetOf (addRow scalars vs r) (ColName d) = supersetAdd (gm_get0 EmptyScalar vs (ColName d)) (supersetOf r (ColName d))"
  unfolding addRow_alt by (subst fold_columns) simp_all

lemma addRow_mono:
  "distinct (map ColName scalars) \<Longrightarrow> recordAdmits scalars r cell \<Longrightarrow> recordAdmits scalars (addRow scalars vs r) cell"
  by (auto simp: recordAdmits_def addRow_get)

lemma addCells_get:
  "distinct (map ColName scalars) \<Longrightarrow> d \<in> set scalars \<Longrightarrow>
    supersetOf (addCells scalars c r) (ColName d) =
      (if ScState (c (ColName d)) = ScalarCellValue
       then supersetAdd (ScValue (c (ColName d))) (supersetOf r (ColName d)) else supersetOf r (ColName d))"
  unfolding addCells_def by (subst fold_columns) simp_all

lemma addCells_mono:
  "distinct (map ColName scalars) \<Longrightarrow> recordAdmits scalars r cell \<Longrightarrow> recordAdmits scalars (addCells scalars c r) cell"
  by (auto simp: recordAdmits_def addCells_get)

lemma addCells_admits:
  "distinct (map ColName scalars) \<Longrightarrow> cellsTyped scalars cell \<Longrightarrow> recordAdmits scalars (addCells scalars cell r) cell"
  by (auto simp: recordAdmits_def addCells_get cellsTyped_def intro!: admits_add_new)

lemma merge_admits:
  "supersetAdmits (supersetOf r n) w \<or> (\<exists>st. (n, st) \<in> set l \<and> supersetAdmits st w) \<Longrightarrow>
    supersetAdmits (supersetOf (fold (\<lambda>(name, st). updSuperset name (supersetMerge st)) l r) n) w"
proof (induction l arbitrary: r)
  case (Cons x l)
  obtain m st where x: "x = (m, st)" by force
  show ?case
  proof (cases "supersetAdmits (supersetOf r n) w \<or> (n, st) = (n, st) \<and> m = n \<and> supersetAdmits st w")
    case True
    then have "supersetAdmits (supersetOf (updSuperset m (supersetMerge st) r) n) w"
      by (auto intro: admits_merge admits_merge_other)
    with Cons.IH show ?thesis by (simp add: x)
  next
    case False
    with Cons.prems x have "\<exists>st. (n, st) \<in> set l \<and> supersetAdmits st w" by auto
    with Cons.IH show ?thesis by (simp add: x)
  qed
qed simp

lemma mergeRecord_wf [simp]: "recordWf r \<Longrightarrow> recordWf (mergeRecord st r)"
proof -
  have "recordWf r \<Longrightarrow> recordWf (fold (\<lambda>(name, st). updSuperset name (supersetMerge st)) l r)" for l
    by (induction l arbitrary: r) (auto simp: recordWf_def)
  then show "recordWf r \<Longrightarrow> recordWf (mergeRecord st r)" by (simp add: mergeRecord_def)
qed

lemma mergeRecord_frame [simp]: "VrKey (mergeRecord st r) = VrKey r" "VrVector (mergeRecord st r) = VrVector r"
proof -
  have "VrKey (fold (\<lambda>(name, st). updSuperset name (supersetMerge st)) l r) = VrKey r
    \<and> VrVector (fold (\<lambda>(name, st). updSuperset name (supersetMerge st)) l r) = VrVector r" for l
    by (induction l arbitrary: r) auto
  then show "VrKey (mergeRecord st r) = VrKey r" "VrVector (mergeRecord st r) = VrVector r"
    by (simp_all add: mergeRecord_def)
qed

lemma mergeRecord_admits:
  "recordAdmits scalars r cell \<Longrightarrow> recordAdmits scalars (mergeRecord st r) cell"
  by (auto simp: recordAdmits_def mergeRecord_def intro: merge_admits)

abbreviation columnOf :: "'f vector_row \<Rightarrow> string \<Rightarrow> stored_superset option" where
  "columnOf row \<equiv> map_of (VwColumns row)"

definition rowWf :: "'f vector_row \<Rightarrow> bool" where
  "rowWf row \<longleftrightarrow> (\<forall>n st. columnOf row n = Some st \<longrightarrow> storedWf st)"

lemma map_of_columns:
  "distinct (map ColName ds) \<Longrightarrow> d \<in> set ds \<Longrightarrow> map_of (map (\<lambda>d. (ColName d, f d)) ds) (ColName d) = Some (f d)"
  by (induction ds) (auto simp: rev_image_eqI)

lemma map_of_columns_mem: "map_of (map (\<lambda>d. (ColName d, f d)) ds) n = Some x \<Longrightarrow> \<exists>d\<in>set ds. ColName d = n \<and> x = f d"
  by (induction ds) (auto split: if_splits)

lemma rowCovers_iff:
  "rowCovers scalars row cell \<longleftrightarrow>
    (\<forall>d\<in>set scalars. ScState (cell (ColName d)) = ScalarCellValue \<longrightarrow>
      (\<exists>st. row (ColName d) = Some st \<and> storedType st = ColType d \<and> coversValue st (ScValue (cell (ColName d)))))"
  by (auto simp: rowCovers_def list_all_iff split: option.splits)

lemma vectorRow_frame: "vectorRow scalars r = Some row \<Longrightarrow> VwVector row = VrVector r"
  by (auto simp: vectorRow_def split: if_splits)

lemma vectorRow_covers:
  assumes "vectorRow scalars r = Some row" "distinct (map ColName scalars)" "cellsTyped scalars cell" "recordAdmits scalars r cell"
  shows "rowCovers scalars (columnOf row) cell"
  unfolding rowCovers_iff
proof (intro ballI impI)
  fix d
  assume d: "d \<in> set scalars" "ScState (cell (ColName d)) = ScalarCellValue"
  with assms(1) obtain st where st: "writeSuperset (ColType d) (supersetOf r (ColName d)) = Some st"
    by (auto simp: vectorRow_def list_all_iff split: if_splits)
  with assms(1,2) d(1) have "columnOf row (ColName d) = Some st"
    by (auto simp: vectorRow_def map_of_columns split: if_splits)
  moreover have "storedType st = ColType d \<and> coversValue st (ScValue (cell (ColName d)))"
    using write_covers [OF st] assms(3,4) d by (auto simp: recordAdmits_def cellsTyped_def)
  ultimately show "\<exists>st. columnOf row (ColName d) = Some st \<and> storedType st = ColType d
      \<and> coversValue st (ScValue (cell (ColName d)))" by blast
qed

lemma vectorRow_wf:
  assumes "vectorRow scalars r = Some row" "recordWf r"
  shows "rowWf row"
  unfolding rowWf_def
proof (intro allI impI)
  fix n st
  assume "columnOf row n = Some st"
  with assms(1) obtain d where "d \<in> set scalars" "st = the (writeSuperset (ColType d) (supersetOf r (ColName d)))"
    by (auto simp: vectorRow_def split: if_splits dest!: map_of_columns_mem)
  with assms(1) have "writeSuperset (ColType d) (supersetOf r (ColName d)) = Some st"
    by (auto simp: vectorRow_def list_all_iff split: if_splits)
  with assms(2) show "storedWf st" by (auto simp: recordWf_def intro: wf_write)
qed

lemma read_get:
  assumes "supersetsFromResult scalars k row = Some r" "distinct (map ColName scalars)" "d \<in> set scalars"
  shows "readSuperset (ColType d) (columnOf row (ColName d)) newColumnSuperset = Some (supersetOf r (ColName d))
    \<and> (ColName d, supersetOf r (ColName d)) \<in> set (VrSupersets r)"
  using assms by (auto simp: supersetsFromResult_def list_all_iff gm_get0_def map_of_columns split: if_splits)

lemma read_recordAdmits:
  assumes "supersetsFromResult scalars k row = Some r" "distinct (map ColName scalars)"
    and "cellsTyped scalars cell" "rowCovers scalars (columnOf row) cell"
  shows "recordAdmits scalars r cell"
  using assms read_get [OF assms(1,2)]
  by (fastforce simp: recordAdmits_def rowCovers_iff cellsTyped_def intro: read_admits)

lemma read_rowCovers:
  assumes "supersetsFromResult scalars k row = Some r" "distinct (map ColName scalars)"
    and "cellsTyped scalars cell" "rowWf row" "recordAdmits scalars r cell"
  shows "rowCovers scalars (columnOf row) cell"
  unfolding rowCovers_iff
proof (intro ballI impI)
  fix d
  assume d: "d \<in> set scalars" "ScState (cell (ColName d)) = ScalarCellValue"
  note g = read_get [OF assms(1,2) d(1)]
  from assms(3) d have ty: "SvType (ScValue (cell (ColName d))) = ColType d"
    "ColType d \<in> {ScalarTypeString, ScalarTypeBool, ScalarTypeInt64}" by (auto simp: cellsTyped_def)
  with g obtain st where st: "columnOf row (ColName d) = Some st"
    by (cases "columnOf row (ColName d)") (auto simp: readSuperset_def)
  with g ty assms(4,5) d read_covers [of "ColType d" st "supersetOf r (ColName d)" "ScValue (cell (ColName d))"]
  show "\<exists>st. columnOf row (ColName d) = Some st \<and> storedType st = ColType d \<and> coversValue st (ScValue (cell (ColName d)))"
    by (auto simp: rowWf_def recordAdmits_def)
qed

lemma mergeRecord_stored:
  assumes "supersetsFromResult scalars k row = Some st" "distinct (map ColName scalars)" "recordAdmits scalars st cell"
  shows "recordAdmits scalars (mergeRecord st r) cell"
  using assms read_get [OF assms(1,2)] unfolding recordAdmits_def mergeRecord_def by (blast intro: merge_admits)

lemma containsRecord_admits:
  assumes "containsRecord st r" "recordAdmits scalars r cell"
  shows "recordAdmits scalars st cell"
  unfolding recordAdmits_def
proof (intro ballI impI)
  fix d
  assume d: "d \<in> set scalars" "ScState (cell (ColName d)) = ScalarCellValue"
  with assms(2) have a: "supersetAdmits (supersetOf r (ColName d)) (ScValue (cell (ColName d)))" by (simp add: recordAdmits_def)
  show "supersetAdmits (supersetOf st (ColName d)) (ScValue (cell (ColName d)))"
  proof (cases "map_of (VrSupersets r) (ColName d)")
    case None
    with a show ?thesis by (auto simp: gm_get0_def newColumnSuperset_def supersetAdmits_def split: if_splits)
  next
    case (Some x)
    with assms(1) gm_get_mem [OF Some] obtain y where "map_of (VrSupersets st) (ColName d) = Some y" "supersetContains y x"
      by (auto simp: containsRecord_def list_all_iff split: option.splits)
    with Some a show ?thesis by (auto simp: gm_get0_def intro: admits_contains)
  qed
qed

section \<open>Occurrence cells\<close>

text \<open>The values of a row that reach the store are admitted by a record the row was added to.\<close>

definition valuesAdmitted :: "scalar_column list \<Rightarrow> 'f vector_record \<Rightarrow> (string, scalar_value) gomap \<Rightarrow> bool" where
  "valuesAdmitted scalars r vs \<longleftrightarrow>
     (\<forall>d\<in>set scalars. \<not> SvNull (gm_get0 EmptyScalar vs (ColName d)) \<and> SvType (gm_get0 EmptyScalar vs (ColName d)) = ColType d
        \<and> ColType d \<in> {ScalarTypeString, ScalarTypeBool, ScalarTypeInt64} \<longrightarrow>
        supersetAdmits (supersetOf r (ColName d)) (gm_get0 EmptyScalar vs (ColName d)))"

lemma addRow_values: "distinct (map ColName scalars) \<Longrightarrow> valuesAdmitted scalars (addRow scalars vs r) vs"
  by (auto simp: valuesAdmitted_def addRow_get intro!: admits_add_new)

lemma addRow_values_mono:
  "distinct (map ColName scalars) \<Longrightarrow> valuesAdmitted scalars r vs \<Longrightarrow> valuesAdmitted scalars (addRow scalars vs' r) vs"
  by (auto simp: valuesAdmitted_def addRow_get)

lemma typedScalar_admits:
  "supersetAdmits superset v \<Longrightarrow> SvType v = ty \<Longrightarrow> supersetAdmits superset (typedScalar ty v)"
  by (auto simp: supersetAdmits_def typedScalar_def split: if_splits)

lemma typedScalar_type [simp]:
  "ty \<in> {ScalarTypeString, ScalarTypeBool, ScalarTypeInt64} \<Longrightarrow> SvType (typedScalar ty v) = ty"
  "\<not> SvNull (typedScalar ty v)"
  by (auto simp: typedScalar_def)

lemma typedScalar_valid [simp]: "validUtf8 (SvString (typedScalar ty v))"
proof -
  have "validUtf8 []" by code_simp
  then show ?thesis by (simp add: typedScalar_def StringScalar_def BoolScalar_def Int64Scalar_def)
qed

lemma insertCell_value:
  assumes "declaredScalarInsertCell d vs = Some c" "ScState c = ScalarCellValue"
  shows "ScValue c = typedScalar (ColType d) (gm_get0 EmptyScalar vs (ColName d))
    \<and> \<not> SvNull (gm_get0 EmptyScalar vs (ColName d)) \<and> SvType (gm_get0 EmptyScalar vs (ColName d)) = ColType d
    \<and> ColType d \<in> {ScalarTypeString, ScalarTypeBool, ScalarTypeInt64}"
  using assms by (auto simp: declaredScalarInsertCell_def Let_def ValueCell_def NullCell_def split: if_splits)

lemma buildOccurrence_cell:
  assumes "buildOccurrence scalars (row, key) = Some occ" "distinct (map ColName scalars)" "d \<in> set scalars"
  shows "declaredScalarInsertCell d (RowScalars row) = Some (cellOf occ (ColName d))"
  using assms by (auto simp: buildOccurrence_def list_all_iff cellOf_def gm_get0_def map_of_columns split: if_splits)

lemma buildOccurrence_key: "buildOccurrence scalars (row, key) = Some occ \<Longrightarrow> OcKey occ = key"
  by (auto simp: buildOccurrence_def split: if_splits)

lemma buildOccurrence_typed:
  assumes "buildOccurrence scalars (row, key) = Some occ" "distinct (map ColName scalars)"
  shows "cellsTyped scalars (cellOf occ)"
  using insertCell_value [OF buildOccurrence_cell [OF assms]] by (auto simp: cellsTyped_def)

lemma buildOccurrence_admits:
  assumes "buildOccurrence scalars (row, key) = Some occ" "distinct (map ColName scalars)"
    and "valuesAdmitted scalars r (RowScalars row)"
  shows "recordAdmits scalars r (cellOf occ)"
  using insertCell_value [OF buildOccurrence_cell [OF assms(1,2)]] assms(3)
  by (auto simp: recordAdmits_def valuesAdmitted_def intro!: typedScalar_admits)

end
