(* ===== verification/SharedStoreSafety.thy ===== *)
theory SharedStoreSafety
  imports SharedStoreInvariant
begin

text \<open>
  Every operation of the shared store keeps the invariant, whatever its requests do, and the two-stage
  lookup of the dense search leg finds exactly the matching occurrences.
\<close>

section \<open>The invariant\<close>

definition occurrenceCovered :: "scalar_column list \<Rightarrow> (string, 'f vector_row) gomap \<Rightarrow> 'f occurrence \<Rightarrow> bool" where
  "occurrenceCovered scalars vectors occ \<longleftrightarrow>
     cellsTyped scalars (cellOf occ)
     \<and> (\<exists>row. map_of vectors (OcKey occ) = Some row \<and> rowCovers scalars (columnOf row) (cellOf occ))"

definition vectorsWf :: "(string, 'f vector_row) gomap \<Rightarrow> bool" where
  "vectorsWf vectors \<longleftrightarrow> (\<forall>k row. map_of vectors k = Some row \<longrightarrow> rowWf row)"

definition sharedInv :: "scalar_column list \<Rightarrow> 'f shared_state \<Rightarrow> bool" where
  "sharedInv scalars s \<longleftrightarrow>
     vectorsWf (ShVectors s) \<and> (\<forall>occ\<in>snd ` set (ShOccurrences s). occurrenceCovered scalars (ShVectors s) occ)"

text \<open>The occurrences of the vectors outside \<open>K\<close> are covered; the invariant itself is the case of no exception.\<close>

definition coveredExcept :: "scalar_column list \<Rightarrow> string set \<Rightarrow> 'f shared_state \<Rightarrow> bool" where
  "coveredExcept scalars K s \<longleftrightarrow>
     vectorsWf (ShVectors s) \<and> (\<forall>occ\<in>snd ` set (ShOccurrences s).
       cellsTyped scalars (cellOf occ) \<and> (OcKey occ \<notin> K \<longrightarrow> occurrenceCovered scalars (ShVectors s) occ))"

lemma coveredExcept_none: "coveredExcept scalars {} s = sharedInv scalars s"
  by (auto simp: coveredExcept_def sharedInv_def occurrenceCovered_def)

lemma coveredExcept_mono: "coveredExcept scalars K s \<Longrightarrow> K \<subseteq> L \<Longrightarrow> coveredExcept scalars L s"
  by (auto simp: coveredExcept_def)

lemma inv_calls [simp]: "sharedInv scalars (s\<lparr>ShCalls := n\<rparr>) = sharedInv scalars s"
  by (simp add: sharedInv_def)

text \<open>Calls: a state predicate that ignores the call counter survives reads, and writes that keep it.\<close>

lemma readCall_state: "ShOccurrences (fst (readCall orc s)) = ShOccurrences s \<and> ShVectors (fst (readCall orc s)) = ShVectors s"
  by (simp add: readCall_def)

lemma readCalls_state: "ShOccurrences (fst (readCalls orc n s)) = ShOccurrences s \<and> ShVectors (fst (readCalls orc n s)) = ShVectors s"
proof (induction n arbitrary: s)
  case (Suc n)
  show ?case unfolding readCalls.simps
    by (rule andThen_fst [where P = "\<lambda>x. ShOccurrences x = ShOccurrences s \<and> ShVectors x = ShVectors s"])
      (simp_all add: readCall_state Suc)
qed simp

lemma readBatches_state:
  "ShOccurrences (fst (readBatches orc ks s)) = ShOccurrences s" "ShVectors (fst (readBatches orc ks s)) = ShVectors s"
  by (simp_all add: readBatches_def readCalls_state)

definition sameStore :: "'f shared_state \<Rightarrow> 'f shared_state \<Rightarrow> bool" where
  "sameStore s t \<longleftrightarrow> ShOccurrences t = ShOccurrences s \<and> ShVectors t = ShVectors s"

lemma sharedInv_same: "sameStore s t \<Longrightarrow> sharedInv scalars t = sharedInv scalars s"
  by (simp add: sameStore_def sharedInv_def)

lemma coveredExcept_same: "sameStore s t \<Longrightarrow> coveredExcept scalars K t = coveredExcept scalars K s"
  by (simp add: sameStore_def coveredExcept_def)

lemma readCall_same [simp]: "sameStore s (fst (readCall orc s))"
  by (simp add: sameStore_def readCall_state)

lemma readBatches_same [simp]: "sameStore s (fst (readBatches orc ks s))"
  by (simp add: sameStore_def readBatches_state)

lemma writeCall_cases:
  obtains t where "sameStore s t" "fst (writeCall orc f s) = t" "snd (writeCall orc f s) \<noteq> None"
  | t where "sameStore s t" "fst (writeCall orc f s) = f t"
  by (cases "orc (ShCalls s)")
    (use that [of "s\<lparr>ShCalls := ShCalls s + 1\<rparr>"] in \<open>auto simp: writeCall_def sameStore_def Let_def\<close>)

lemma writeCall_ok: "snd (writeCall orc f s) = None \<Longrightarrow> fst (writeCall orc f s) = f (s\<lparr>ShCalls := ShCalls s + 1\<rparr>)"
  by (auto simp: writeCall_def Let_def split: call_outcome.splits)

section \<open>Vector rows only grow\<close>

text \<open>Everything a row of \<open>v\<close> covers is covered by the row of \<open>w\<close> with the same key.\<close>

definition vectorsLe :: "scalar_column list \<Rightarrow> (string, 'f vector_row) gomap \<Rightarrow> (string, 'f vector_row) gomap \<Rightarrow> bool" where
  "vectorsLe scalars v w \<longleftrightarrow>
     (\<forall>k row. map_of v k = Some row \<longrightarrow>
        (\<exists>row'. map_of w k = Some row' \<and>
          (\<forall>cell. cellsTyped scalars cell \<and> rowCovers scalars (columnOf row) cell \<longrightarrow> rowCovers scalars (columnOf row') cell)))"

lemma vectorsLe_covered: "vectorsLe scalars v w \<Longrightarrow> occurrenceCovered scalars v occ \<Longrightarrow> occurrenceCovered scalars w occ"
  by (fastforce simp: vectorsLe_def occurrenceCovered_def)

text \<open>
  Batches of records, where a record is determined by its key through \<open>g\<close>: the vectors are then the old
  ones with the rows of some of these records in place.
\<close>

definition overlaid ::
  "scalar_column list \<Rightarrow> (string \<Rightarrow> 'f vector_record) \<Rightarrow> string set \<Rightarrow> (string, 'f vector_row) gomap \<Rightarrow> (string, 'f vector_row) gomap \<Rightarrow> bool" where
  "overlaid scalars g K v w \<longleftrightarrow>
     (\<forall>k. map_of w k = map_of v k \<or> (k \<in> K \<and> vectorRow scalars (g k) \<noteq> None \<and> map_of w k = vectorRow scalars (g k)))"

lemma puts_get: "map_of (fold (\<lambda>(k, v). gm_put k v) rows m) x = (case map_of (rev rows) x of None \<Rightarrow> map_of m x | Some v \<Rightarrow> Some v)"
  by (induction rows arbitrary: m) (auto simp: map_add_def split: option.splits)

lemma map_of_keyed: "map_of (map (\<lambda>k. (k, f k)) ks) x = (if x \<in> set ks then Some (f x) else None)"
  by (induction ks) auto

lemma upsertOption_rows:
  assumes "vectorUpsertOption dimension scalars (map g ks) = Some rows" "\<And>k. k \<in> set ks \<Longrightarrow> VrKey (g k) = k"
  shows "rows = map (\<lambda>k. (k, the (vectorRow scalars (g k)))) ks \<and> (\<forall>k\<in>set ks. vectorRow scalars (g k) \<noteq> None)"
  using assms by (auto simp: vectorUpsertOption_def list_all_iff split: if_splits)

lemma puts_rows_get:
  assumes "vectorUpsertOption dimension scalars (map g ks) = Some rows" "\<And>k. k \<in> set ks \<Longrightarrow> VrKey (g k) = k"
  shows "map_of (ShVectors (putVectors rows s)) x = (if x \<in> set ks then vectorRow scalars (g x) else map_of (ShVectors s) x)"
proof -
  have "rev rows = map (\<lambda>k. (k, the (vectorRow scalars (g k)))) (rev ks)"
    using upsertOption_rows [OF assms] by (simp add: rev_map)
  then show ?thesis
    using upsertOption_rows [OF assms] by (auto simp: putVectors_def puts_get map_of_keyed)
qed

lemma upsertVectorBatches_overlaid:
  assumes "\<And>k. k \<in> set (concat bs) \<Longrightarrow> VrKey (g k) = k" "overlaid scalars g K v (ShVectors s)" "set (concat bs) \<subseteq> K"
  shows "overlaid scalars g K v (ShVectors (fst (upsertVectorBatches orc dimension scalars (map (map g) bs) s)))
    \<and> ShOccurrences (fst (upsertVectorBatches orc dimension scalars (map (map g) bs) s)) = ShOccurrences s"
  using assms
proof (induction bs arbitrary: s)
  case (Cons b bs)
  show ?case
  proof (cases "vectorUpsertOption dimension scalars (map g b)")
    case None
    with Cons.prems show ?thesis by simp
  next
    case (Some rows)
    have put: "overlaid scalars g K v (ShVectors (putVectors rows t)) \<and> ShOccurrences (putVectors rows t) = ShOccurrences s"
      if "sameStore s t" for t
      using puts_rows_get [OF Some] upsertOption_rows [OF Some] Cons.prems that
      by (auto simp: overlaid_def sameStore_def) (auto simp: putVectors_def)
    have w: "overlaid scalars g K v (ShVectors (fst (writeCall orc (putVectors rows) s)))
        \<and> ShOccurrences (fst (writeCall orc (putVectors rows) s)) = ShOccurrences s"
      by (cases rule: writeCall_cases [of s orc "putVectors rows"]) (use put Cons.prems(2) in \<open>auto simp: sameStore_def\<close>)
    have "overlaid scalars g K v (ShVectors t) \<and> ShOccurrences t = ShOccurrences s" if
      "t = fst (andThen (writeCall orc (putVectors rows) s) (upsertVectorBatches orc dimension scalars (map (map g) bs)))" for t
      unfolding that
      by (rule andThen_fst [where P = "\<lambda>t. overlaid scalars g K v (ShVectors t) \<and> ShOccurrences t = ShOccurrences s"])
        (use w Cons in auto)
    then show ?thesis by (simp add: Some)
  qed
qed simp

lemma upsertVectorBatches_written:
  assumes "\<And>k. k \<in> set (concat bs) \<Longrightarrow> VrKey (g k) = k"
    and "snd (upsertVectorBatches orc dimension scalars (map (map g) bs) s) = None"
    and "k \<in> set (concat bs) \<or> (map_of (ShVectors s) k = vectorRow scalars (g k) \<and> vectorRow scalars (g k) \<noteq> None)"
  shows "vectorRow scalars (g k) \<noteq> None
    \<and> map_of (ShVectors (fst (upsertVectorBatches orc dimension scalars (map (map g) bs) s))) k = vectorRow scalars (g k)"
  using assms
proof (induction bs arbitrary: s)
  case (Cons b bs)
  from Cons.prems(2) obtain rows where Some: "vectorUpsertOption dimension scalars (map g b) = Some rows"
    by (auto split: option.splits)
  let ?w = "writeCall orc (putVectors rows) s"
  from Cons.prems(2) Some have ok: "snd ?w = None"
    "snd (upsertVectorBatches orc dimension scalars (map (map g) bs) (fst ?w)) = None"
    by (simp_all add: andThen_None)
  have put: "map_of (ShVectors (fst ?w)) k = (if k \<in> set b then vectorRow scalars (g k) else map_of (ShVectors s) k)"
    unfolding writeCall_ok [OF ok(1)] using puts_rows_get [OF Some] Cons.prems(1) by simp
  have "k \<in> set (concat bs) \<or> (map_of (ShVectors (fst ?w)) k = vectorRow scalars (g k) \<and> vectorRow scalars (g k) \<noteq> None)"
    using Cons.prems(3) upsertOption_rows [OF Some] Cons.prems(1) put by (auto split: if_splits)
  then show ?case using Cons.IH [of "fst ?w"] Cons.prems(1) ok by (simp add: Some andThen_fst_ok)
qed simp

section \<open>Writing vectors\<close>

lemma storedSupersets_get:
  assumes "storedSupersets scalars s keys = Some stored"
  shows "k \<in> set keys \<Longrightarrow> map_of (ShVectors s) k = Some row \<Longrightarrow>
      supersetsFromResult scalars k row \<noteq> None \<and> map_of stored k = supersetsFromResult scalars k row"
    and "map_of stored k = Some r \<Longrightarrow> \<exists>row. map_of (ShVectors s) k = Some row \<and> supersetsFromResult scalars k row = Some r"
proof -
  let ?f = "\<lambda>k acc. case acc of None \<Rightarrow> None
      | Some m \<Rightarrow> (case map_of (ShVectors s) k of None \<Rightarrow> Some m
         | Some row \<Rightarrow> (case supersetsFromResult scalars k row of None \<Rightarrow> None | Some r \<Rightarrow> Some (gm_put k r m)))"
  have none: "fold ?f keys None = None" for keys by (induction keys) auto
  have a: "fold ?f keys (Some m) = Some stored \<Longrightarrow>
      (k \<in> set keys \<and> map_of (ShVectors s) k = Some row \<longrightarrow> supersetsFromResult scalars k row \<noteq> None)
      \<and> map_of stored k = (if k \<in> set keys \<and> map_of (ShVectors s) k \<noteq> None
           then supersetsFromResult scalars k (the (map_of (ShVectors s) k)) else map_of m k)" for m row k
  proof (induction keys arbitrary: m)
    case (Cons x keys)
    show ?case
    proof (cases "map_of (ShVectors s) x")
      case None
      with Cons show ?thesis by auto
    next
      case (Some y)
      show ?thesis
      proof (cases "supersetsFromResult scalars x y")
        case None
        with Cons.prems Some none show ?thesis by simp
      next
        case (Some z)
        with Cons.prems \<open>map_of (ShVectors s) x = Some y\<close> Cons.IH [of "gm_put x z m"] show ?thesis by auto
      qed
    qed
  qed simp
  show "k \<in> set keys \<Longrightarrow> map_of (ShVectors s) k = Some row \<Longrightarrow>
      supersetsFromResult scalars k row \<noteq> None \<and> map_of stored k = supersetsFromResult scalars k row"
    using a [of "[]" k row] assms by (simp add: storedSupersets_def)
  show "map_of stored k = Some r \<Longrightarrow> \<exists>row. map_of (ShVectors s) k = Some row \<and> supersetsFromResult scalars k row = Some r"
    using a [of "[]" k] assms by (auto simp: storedSupersets_def split: if_splits)
qed

definition recordsOk :: "(string, 'f vector_record) gomap \<Rightarrow> bool" where
  "recordsOk records \<longleftrightarrow> (\<forall>k r. map_of records k = Some r \<longrightarrow> VrKey r = k \<and> recordWf r)"

lemma mergeStored_get:
  "map_of (mergeStored stored records) k =
    map_option (\<lambda>r. case map_of stored k of None \<Rightarrow> r | Some st \<Rightarrow> mergeRecord st r) (map_of records k)"
  unfolding mergeStored_def by (induction records) (auto split: option.splits)

lemma unchanged_iff:
  "gm_wf records \<Longrightarrow> k \<in> set (unchangedKeys stored records) \<longleftrightarrow>
    (\<exists>r st. map_of records k = Some r \<and> map_of stored k = Some st \<and> containsRecord st r)"
  by (force simp: unchangedKeys_def gm_wf_mem split: option.splits)

lemma batchesOf_map: "batchesOf n (map f xs) = map (map f) (batchesOf n xs)"
proof (induction n xs rule: batchesOf.induct)
  case (1 n xs)
  then show ?case
    by (cases "xs = [] \<or> n = 0") (simp_all add: batchesOf.simps [of n xs] batchesOf.simps [of n "map f xs"] take_map drop_map)
qed

text \<open>A merged record admits what the record and the stored row admit.\<close>

lemma merged_record:
  assumes cols: "distinct (map ColName scalars)" and ok: "recordsOk records"
    and stored: "storedSupersets scalars s (sortedRecordKeys records) = Some stored"
    and r: "map_of records k = Some r"
  defines "m \<equiv> the (map_of (mergeStored stored records) k)"
  shows "VrKey m = k \<and> recordWf m"
    and "recordAdmits scalars r cell \<Longrightarrow> recordAdmits scalars m cell"
    and "map_of (ShVectors s) k = Some row \<Longrightarrow> cellsTyped scalars cell \<Longrightarrow> rowCovers scalars (columnOf row) cell \<Longrightarrow>
      recordAdmits scalars m cell"
proof -
  have m: "m = (case map_of stored k of None \<Rightarrow> r | Some st \<Rightarrow> mergeRecord st r)"
    by (simp add: m_def mergeStored_get r)
  show "VrKey m = k \<and> recordWf m" using ok r by (auto simp: m recordsOk_def split: option.splits)
  show "recordAdmits scalars r cell \<Longrightarrow> recordAdmits scalars m cell"
    by (auto simp: m mergeRecord_admits split: option.splits)
  have "k \<in> set (sortedRecordKeys records)"
    using r by (force simp: sortedRecordKeys_def dest: gm_get_mem)
  then have "\<exists>st. supersetsFromResult scalars k row = Some st \<and> map_of stored k = Some st" if "map_of (ShVectors s) k = Some row"
    using storedSupersets_get(1) [OF stored _ that] by auto
  then show "map_of (ShVectors s) k = Some row \<Longrightarrow> cellsTyped scalars cell \<Longrightarrow> rowCovers scalars (columnOf row) cell \<Longrightarrow>
      recordAdmits scalars m cell"
    using cols by (fastforce simp: m intro: mergeRecord_stored read_recordAdmits)
qed

lemma overlaid_grows:
  assumes "overlaid scalars g K v w" "vectorsWf v" "distinct (map ColName scalars)"
    and "\<And>k. k \<in> K \<Longrightarrow> recordWf (g k)"
    and "\<And>k row cell. k \<in> K \<Longrightarrow> map_of v k = Some row \<Longrightarrow> cellsTyped scalars cell \<Longrightarrow> rowCovers scalars (columnOf row) cell \<Longrightarrow>
      recordAdmits scalars (g k) cell"
  shows "vectorsWf w \<and> vectorsLe scalars v w"
  using assms unfolding vectorsWf_def vectorsLe_def overlaid_def
  by (metis option.exhaust vectorRow_covers vectorRow_wf)

lemma upsertOrdered:
  assumes cols: "distinct (map ColName scalars)" and wf: "gm_wf records" "recordsOk records" and inv: "vectorsWf (ShVectors s)"
    and stored: "storedSupersets scalars s (sortedRecordKeys records) = Some stored"
    and res: "res = upsertVectorBatches orc dimension scalars (batchesOf sharedWriteBatchSize (orderedRecords stored records)) s"
  shows "ShOccurrences (fst res) = ShOccurrences s \<and> vectorsWf (ShVectors (fst res)) \<and> vectorsLe scalars (ShVectors s) (ShVectors (fst res))"
    and "snd res = None \<Longrightarrow> map_of records k = Some r \<Longrightarrow>
      \<exists>row. map_of (ShVectors (fst res)) k = Some row \<and>
        (\<forall>cell. cellsTyped scalars cell \<and> recordAdmits scalars r cell \<longrightarrow> rowCovers scalars (columnOf row) cell)"
proof -
  let ?g = "\<lambda>k. the (map_of (mergeStored stored records) k)"
  let ?ks = "filter (\<lambda>k. k \<notin> set (unchangedKeys stored records)) (sortedRecordKeys records)"
  let ?bs = "batchesOf sharedWriteBatchSize ?ks"
  have bs: "batchesOf sharedWriteBatchSize (orderedRecords stored records) = map (map ?g) ?bs"
    by (simp add: orderedRecords_def batchesOf_map)
  have ks: "set (concat ?bs) = set ?ks" by (simp add: concat_batchesOf sharedWriteBatchSize_def)
  have dom: "\<exists>r. map_of records k = Some r" if "k \<in> set ?ks" for k
    using that by (auto simp: sortedRecordKeys_def map_of_eq_None_iff simp flip: not_None_eq)
  have key: "VrKey (?g k) = k" if "k \<in> set (concat ?bs)" for k
    using that dom merged_record(1) [OF cols wf(2) stored] unfolding ks by blast
  have ov: "overlaid scalars ?g (set ?ks) (ShVectors s) (ShVectors (fst res)) \<and> ShOccurrences (fst res) = ShOccurrences s"
    unfolding res bs by (rule upsertVectorBatches_overlaid) (use key ks in \<open>auto simp: overlaid_def\<close>)
  then show grow: "ShOccurrences (fst res) = ShOccurrences s \<and> vectorsWf (ShVectors (fst res)) \<and> vectorsLe scalars (ShVectors s) (ShVectors (fst res))"
    using overlaid_grows [of scalars ?g "set ?ks"] inv cols dom merged_record(1,3) [OF cols wf(2) stored] by blast
  assume "snd res = None" and r: "map_of records k = Some r"
  show "\<exists>row. map_of (ShVectors (fst res)) k = Some row \<and>
        (\<forall>cell. cellsTyped scalars cell \<and> recordAdmits scalars r cell \<longrightarrow> rowCovers scalars (columnOf row) cell)"
  proof (cases "k \<in> set (unchangedKeys stored records)")
    case False
    with r have "k \<in> set (concat ?bs)" unfolding ks by (force simp: sortedRecordKeys_def dest: gm_get_mem)
    then have w: "vectorRow scalars (?g k) \<noteq> None" "map_of (ShVectors (fst res)) k = vectorRow scalars (?g k)"
      using upsertVectorBatches_written [of ?bs ?g orc dimension scalars s k] key \<open>snd res = None\<close> unfolding res bs by auto
    then show ?thesis
      using merged_record(2) [OF cols wf(2) stored r] cols by (auto intro: vectorRow_covers)
  next
    case True
    then obtain st where st: "map_of stored k = Some st" "containsRecord st r" using r wf(1) by (auto simp: unchanged_iff)
    from storedSupersets_get(2) [OF stored st(1)] obtain row where
      row: "map_of (ShVectors s) k = Some row" "supersetsFromResult scalars k row = Some st" by auto
    have "rowCovers scalars (columnOf row) cell" if "cellsTyped scalars cell" "recordAdmits scalars r cell" for cell
      using read_rowCovers [OF row(2) cols that(1)] inv row(1) containsRecord_admits [OF st(2) that(2)]
      by (auto simp: vectorsWf_def)
    with grow row(1) show ?thesis unfolding vectorsLe_def by blast
  qed
qed

lemma writeVectors_effect:
  assumes cols: "distinct (map ColName scalars)" and wf: "gm_wf records" "recordsOk records" and inv: "vectorsWf (ShVectors s)"
    and res: "res = writeVectors orc dimension scalars records s"
  shows "ShOccurrences (fst res) = ShOccurrences s \<and> vectorsWf (ShVectors (fst res)) \<and> vectorsLe scalars (ShVectors s) (ShVectors (fst res))"
    and "snd res = None \<Longrightarrow> map_of records k = Some r \<Longrightarrow>
      \<exists>row. map_of (ShVectors (fst res)) k = Some row \<and>
        (\<forall>cell. cellsTyped scalars cell \<and> recordAdmits scalars r cell \<longrightarrow> rowCovers scalars (columnOf row) cell)"
proof -
  let ?rd = "readBatches orc (sortedRecordKeys records) s"
  have same: "ShOccurrences (fst ?rd) = ShOccurrences s" "ShVectors (fst ?rd) = ShVectors s" by (simp_all add: readBatches_state)
  with inv have inv': "vectorsWf (ShVectors (fst ?rd))" by simp
  have refl: "vectorsLe scalars v v" for v :: "(string, 'a vector_row) gomap" by (auto simp: vectorsLe_def)
  have "ShOccurrences (fst res) = ShOccurrences s \<and> vectorsWf (ShVectors (fst res)) \<and> vectorsLe scalars (ShVectors s) (ShVectors (fst res))
    \<and> (snd res = None \<and> map_of records k = Some r \<longrightarrow> (\<exists>row. map_of (ShVectors (fst res)) k = Some row \<and>
        (\<forall>cell. cellsTyped scalars cell \<and> recordAdmits scalars r cell \<longrightarrow> rowCovers scalars (columnOf row) cell)))"
  proof (cases "snd ?rd")
    case (Some e)
    then have "res = (fst ?rd, Some e)" by (simp add: res writeVectors_def andThen_err)
    then show ?thesis using same inv refl by simp
  next
    case None
    then have r: "res = (case storedSupersets scalars (fst ?rd) (sortedRecordKeys records) of
         None \<Rightarrow> (fst ?rd, Some SharedInvalid)
       | Some stored \<Rightarrow> upsertVectorBatches orc dimension scalars (batchesOf sharedWriteBatchSize (orderedRecords stored records)) (fst ?rd))"
      by (simp add: res writeVectors_def andThen_ok)
    show ?thesis
    proof (cases "storedSupersets scalars (fst ?rd) (sortedRecordKeys records)")
      case None
      then show ?thesis using r same inv refl by simp
    next
      case (Some stored)
      then show ?thesis
        using upsertOrdered [OF cols wf inv' Some, of res orc dimension] r same by auto
    qed
  qed
  then show "ShOccurrences (fst res) = ShOccurrences s \<and> vectorsWf (ShVectors (fst res)) \<and> vectorsLe scalars (ShVectors s) (ShVectors (fst res))"
    and "snd res = None \<Longrightarrow> map_of records k = Some r \<Longrightarrow>
      \<exists>row. map_of (ShVectors (fst res)) k = Some row \<and>
        (\<forall>cell. cellsTyped scalars cell \<and> recordAdmits scalars r cell \<longrightarrow> rowCovers scalars (columnOf row) cell)"
    by blast+
qed

section \<open>Records of the written rows\<close>

lemma addRecordRow_ok:
  assumes "gm_wf records" "recordsOk records" "distinct (map ColName scalars)"
  shows "gm_wf (addRecordRow scalars key v vs records)" "recordsOk (addRecordRow scalars key v vs records)"
    and "\<exists>r. map_of (addRecordRow scalars key v vs records) key = Some r \<and> valuesAdmitted scalars r vs"
    and "map_of records k = Some r \<Longrightarrow> \<exists>r'. map_of (addRecordRow scalars key v vs records) k = Some r'
      \<and> (\<forall>vs. valuesAdmitted scalars r vs \<longrightarrow> valuesAdmitted scalars r' vs)"
  using assms
  by (auto simp: addRecordRow_def recordsOk_def addRow_values addRow_values_mono split: option.splits)

lemma fold_records:
  assumes "distinct (map ColName scalars)"
  shows "gm_wf m \<Longrightarrow> recordsOk m \<Longrightarrow>
    gm_wf (fold (\<lambda>x. addRecordRow scalars (key x) (vec x) (vals x)) xs m)
    \<and> recordsOk (fold (\<lambda>x. addRecordRow scalars (key x) (vec x) (vals x)) xs m)
    \<and> (\<forall>k r. map_of m k = Some r \<longrightarrow> (\<exists>r'. map_of (fold (\<lambda>x. addRecordRow scalars (key x) (vec x) (vals x)) xs m) k = Some r'
        \<and> (\<forall>vs. valuesAdmitted scalars r vs \<longrightarrow> valuesAdmitted scalars r' vs)))
    \<and> (\<forall>x\<in>set xs. \<exists>r. map_of (fold (\<lambda>x. addRecordRow scalars (key x) (vec x) (vals x)) xs m) (key x) = Some r
        \<and> valuesAdmitted scalars r (vals x))"
proof (induction xs arbitrary: m)
  case (Cons y ys)
  note a = addRecordRow_ok [OF Cons.prems assms, where key = "key y" and v = "vec y" and vs = "vals y"]
  note ih = Cons.IH [OF a(1,2)]
  show ?case
  proof (intro conjI ballI allI impI)
    fix k r
    assume "map_of m k = Some r"
    from a(4) [OF this] obtain r1 where "map_of (addRecordRow scalars (key y) (vec y) (vals y) m) k = Some r1"
      "\<forall>vs. valuesAdmitted scalars r vs \<longrightarrow> valuesAdmitted scalars r1 vs" by blast
    with ih show "\<exists>r'. map_of (fold (\<lambda>x. addRecordRow scalars (key x) (vec x) (vals x)) (y # ys) m) k = Some r'
        \<and> (\<forall>vs. valuesAdmitted scalars r vs \<longrightarrow> valuesAdmitted scalars r' vs)" by fastforce
  next
    fix x
    assume "x \<in> set (y # ys)"
    with ih a(3) show "\<exists>r. map_of (fold (\<lambda>x. addRecordRow scalars (key x) (vec x) (vals x)) (y # ys) m) (key x) = Some r
        \<and> valuesAdmitted scalars r (vals x)" by fastforce
  qed (use ih in auto)
qed simp

lemma recordsOfRows_ok:
  assumes "distinct (map ColName scalars)"
  shows "gm_wf (recordsOfRows scalars rows) \<and> recordsOk (recordsOfRows scalars rows)
    \<and> (\<forall>(row, key)\<in>set rows. \<exists>r. map_of (recordsOfRows scalars rows) key = Some r \<and> valuesAdmitted scalars r (RowScalars row))"
  using fold_records [OF assms, of "[]" snd "RowVector \<circ> fst" "RowScalars \<circ> fst" rows]
  by (fastforce simp: recordsOfRows_def case_prod_unfold recordsOk_def comp_def)

section \<open>Occurrences and deletions\<close>

lemma set_put: "set (gm_put k v m) \<subseteq> insert (k, v) (set m)"
  by (induction m) auto

lemma set_puts: "set (fold (\<lambda>(k, v). gm_put k v) rows m) \<subseteq> set rows \<union> set m"
proof (induction rows arbitrary: m)
  case (Cons x rows)
  obtain k v where "x = (k, v)" by force
  with Cons [of "gm_put k v m"] set_put [of k v m] show ?case by auto
qed simp

definition rowReady :: "scalar_column list \<Rightarrow> (string, 'f vector_row) gomap \<Rightarrow> 'f collection_row \<times> string \<Rightarrow> bool" where
  "rowReady scalars vectors rk \<longleftrightarrow>
     (\<forall>occ. buildOccurrence scalars rk = Some occ \<longrightarrow> occurrenceCovered scalars vectors occ)"

lemma putOccurrences_inv:
  assumes "sharedInv scalars s" "buildOccurrenceWriteOption scalars b = Some rows" "list_all (rowReady scalars (ShVectors s)) b"
  shows "sharedInv scalars (putOccurrences rows s)"
proof -
  have "occurrenceCovered scalars (ShVectors s) occ" if "(i, occ) \<in> set rows" for i occ
    using assms(2,3) that by (auto simp: buildOccurrenceWriteOption_def list_all_iff rowReady_def split: if_splits)
  with assms(1) set_puts [of rows "ShOccurrences s"] show ?thesis
    by (fastforce simp: sharedInv_def putOccurrences_def)
qed

lemma upsertOccurrenceBatches_inv:
  assumes "sharedInv scalars s" "list_all (list_all (rowReady scalars (ShVectors s))) bs"
  shows "sharedInv scalars (fst (upsertOccurrenceBatches orc scalars bs s))
    \<and> ShVectors (fst (upsertOccurrenceBatches orc scalars bs s)) = ShVectors s"
  using assms
proof (induction bs arbitrary: s)
  case (Cons b bs)
  show ?case
  proof (cases "buildOccurrenceWriteOption scalars b")
    case None
    with Cons.prems show ?thesis by simp
  next
    case (Some rows)
    have w: "sharedInv scalars (fst (writeCall orc (putOccurrences rows) s))
        \<and> ShVectors (fst (writeCall orc (putOccurrences rows) s)) = ShVectors s"
    proof (cases rule: writeCall_cases [of s orc "putOccurrences rows"])
      case (1 t)
      with Cons.prems show ?thesis using sharedInv_same by (auto simp: sameStore_def)
    next
      case (2 t)
      then have "sharedInv scalars (putOccurrences rows t)"
        using Cons.prems sharedInv_same by (intro putOccurrences_inv [OF _ Some]) (auto simp: sameStore_def)
      with 2 show ?thesis by (simp add: sameStore_def putOccurrences_def)
    qed
    have "sharedInv scalars (fst (andThen (writeCall orc (putOccurrences rows) s) (upsertOccurrenceBatches orc scalars bs)))
        \<and> ShVectors (fst (andThen (writeCall orc (putOccurrences rows) s) (upsertOccurrenceBatches orc scalars bs))) = ShVectors s"
      by (rule andThen_fst [where P = "\<lambda>t. sharedInv scalars t \<and> ShVectors t = ShVectors s"])
        (use w Cons in auto)
    then show ?thesis by (simp add: Some)
  qed
qed simp

lemma dels_get: "map_of (fold gm_del ks m) x = (if x \<in> set ks then None else map_of m x)"
  by (induction ks arbitrary: m) auto

lemma iterate_keys: "k \<in> set (iterateVectorKeys p s) \<longleftrightarrow> (\<exists>occ\<in>snd ` set (ShOccurrences s). p occ \<and> OcKey occ = k)"
  by (force simp: iterateVectorKeys_def)

lemma delete_vectors_inv:
  assumes "sharedInv scalars s" "\<And>occ. occ \<in> snd ` set (ShOccurrences s) \<Longrightarrow> OcKey occ \<notin> set ks"
  shows "sharedInv scalars (s\<lparr>ShVectors := fold gm_del ks (ShVectors s)\<rparr>)"
  using assms by (auto simp: sharedInv_def vectorsWf_def occurrenceCovered_def dels_get split: if_splits)

lemma removeUnreferencedKeys_inv:
  "sharedInv scalars s \<Longrightarrow> sharedInv scalars (fst (removeUnreferencedKeys orc bs s))"
proof (induction bs arbitrary: s)
  case (Cons b bs)
  show ?case unfolding removeUnreferencedKeys.simps
  proof (rule andThen_fst [where P = "sharedInv scalars"], goal_cases)
    case 1
    with Cons.prems show ?case using sharedInv_same [OF readCall_same] by blast
  next
    case (2 t)
    let ?u = "filter (\<lambda>k. k \<notin> set (iterateVectorKeys (\<lambda>occ. OcKey occ \<in> set b) t)) b"
    have "sharedInv scalars (fst (writeCall orc (\<lambda>s. s\<lparr>ShVectors := fold gm_del ?u (ShVectors s)\<rparr>) t))"
    proof (cases rule: writeCall_cases [of t orc "\<lambda>s. s\<lparr>ShVectors := fold gm_del ?u (ShVectors s)\<rparr>"])
      case (2 u)
      have "sharedInv scalars (u\<lparr>ShVectors := fold gm_del ?u (ShVectors u)\<rparr>)"
        by (rule delete_vectors_inv)
          (use \<open>sharedInv scalars t\<close> 2(1) sharedInv_same in \<open>auto simp: sameStore_def iterate_keys\<close>)
      with 2(2) show ?thesis by simp
    qed (use \<open>sharedInv scalars t\<close> sharedInv_same in auto)
    then show ?case
      using Cons.IH \<open>sharedInv scalars t\<close> by (auto simp: Let_def intro: andThen_fst [where P = "sharedInv scalars"])
  qed
qed simp

lemma deleteUnreferencedVectors_inv:
  "sharedInv scalars s \<Longrightarrow> sharedInv scalars (fst (deleteUnreferencedVectors orc keys s))"
  by (simp add: deleteUnreferencedVectors_def removeUnreferencedKeys_inv)

lemma deleteOccurrences_inv:
  "sharedInv scalars s \<Longrightarrow> sharedInv scalars (fst (deleteOccurrencesLoop orc ps affected s))"
proof (induction ps arbitrary: affected s)
  case (Cons p ps)
  let ?f = "\<lambda>s :: 'a shared_state. s\<lparr>ShOccurrences := filter (\<lambda>x. \<not> p (snd x)) (ShOccurrences s)\<rparr>"
  show ?case unfolding deleteOccurrencesLoop.simps
  proof (rule andThen_fst [where P = "sharedInv scalars"], goal_cases)
    case 1
    with Cons.prems show ?case using sharedInv_same [OF readCall_same] by blast
  next
    case (2 t)
    have "sharedInv scalars (fst (writeCall orc ?f t))"
      by (cases rule: writeCall_cases [of t orc ?f])
        (use 2(3) sharedInv_same in \<open>auto simp: sharedInv_def sameStore_def\<close>)
    then show ?case using Cons.IH by (auto intro: andThen_fst [where P = "sharedInv scalars"])
  qed
qed (simp add: deleteUnreferencedVectors_inv)

section \<open>Upsert\<close>

lemma grown_inv:
  assumes "sharedInv scalars s" "ShOccurrences t = ShOccurrences s" "vectorsWf (ShVectors t)" "vectorsLe scalars (ShVectors s) (ShVectors t)"
  shows "sharedInv scalars t"
  using assms vectorsLe_covered unfolding sharedInv_def by metis

lemma writeVectors_inv:
  assumes "distinct (map ColName scalars)" "gm_wf records" "recordsOk records" "sharedInv scalars s"
  shows "sharedInv scalars (fst (writeVectors orc dimension scalars records s))"
  using writeVectors_effect(1) [OF assms(1-3) _ refl] assms(4) grown_inv sharedInv_def by metis

lemma rows_ready:
  assumes cols: "distinct (map ColName scalars)" and inv: "sharedInv scalars s"
    and ok: "snd (writeVectors orc dimension scalars (recordsOfRows scalars rows) s) = None" and mem: "rk \<in> set rows"
  shows "rowReady scalars (ShVectors (fst (writeVectors orc dimension scalars (recordsOfRows scalars rows) s))) rk"
  unfolding rowReady_def
proof (intro allI impI)
  fix occ
  obtain row key where rk: "rk = (row, key)" by force
  assume "buildOccurrence scalars rk = Some occ"
  then have occ: "buildOccurrence scalars (row, key) = Some occ" by (simp add: rk)
  from recordsOfRows_ok [OF cols, of rows] mem rk obtain r where
    r: "map_of (recordsOfRows scalars rows) key = Some r" "valuesAdmitted scalars r (RowScalars row)"
    and wf: "gm_wf (recordsOfRows scalars rows)" "recordsOk (recordsOfRows scalars rows)" by fast
  from inv have v: "vectorsWf (ShVectors s)" by (simp add: sharedInv_def)
  from writeVectors_effect(2) [OF cols wf v refl ok r(1)] obtain vr where
    "map_of (ShVectors (fst (writeVectors orc dimension scalars (recordsOfRows scalars rows) s))) key = Some vr"
    "\<forall>cell. cellsTyped scalars cell \<and> recordAdmits scalars r cell \<longrightarrow> rowCovers scalars (columnOf vr) cell" by blast
  with buildOccurrence_typed [OF occ cols] buildOccurrence_admits [OF occ cols r(2)] buildOccurrence_key [OF occ]
  show "occurrenceCovered scalars (ShVectors (fst (writeVectors orc dimension scalars (recordsOfRows scalars rows) s))) occ"
    by (auto simp: occurrenceCovered_def)
qed

lemma writeRows_inv:
  assumes cols: "distinct (map ColName scalars)" and inv: "sharedInv scalars s"
  shows "sharedInv scalars (fst (writeRows vectorKey orc scalars rows s))"
proof -
  let ?keyed = "map (\<lambda>r. (r, vectorKey (RowVector r))) rows"
  let ?records = "recordsOfRows scalars ?keyed"
  let ?d = "length (RowVector (hd rows))"
  note wf = recordsOfRows_ok [OF cols, of ?keyed]
  have a: "sharedInv scalars (fst (andThen (writeVectors orc ?d scalars ?records t) (\<lambda>s.
      andThen (upsertOccurrenceBatches orc scalars (batchesOf sharedWriteBatchSize ?keyed) s) (\<lambda>s.
      deleteUnreferencedVectors orc ks s))))" if t: "sharedInv scalars t" for t ks
  proof (cases "snd (writeVectors orc ?d scalars ?records t)")
    case (Some e)
    then show ?thesis using writeVectors_inv [OF cols _ _ t] wf by (simp add: andThen_err)
  next
    case None
    let ?u = "fst (writeVectors orc ?d scalars ?records t)"
    have u: "sharedInv scalars ?u" using writeVectors_inv [OF cols _ _ t] wf by blast
    have "list_all (list_all (rowReady scalars (ShVectors ?u))) (batchesOf sharedWriteBatchSize ?keyed)"
      using rows_ready [OF cols t None] batchesOf_bounds unfolding list_all_iff by blast
    from upsertOccurrenceBatches_inv [OF u this, of orc] show ?thesis
      unfolding andThen_ok [OF None]
      by (intro andThen_fst [where P = "sharedInv scalars"]) (auto intro: deleteUnreferencedVectors_inv)
  qed
  have "sharedInv scalars (fst (readBatches orc (map RowID rows) s))"
    using inv sharedInv_same [OF readBatches_same] by blast
  then have "sharedInv scalars (fst (andThen (readBatches orc (map RowID rows) s) (\<lambda>s.
      andThen (writeVectors orc ?d scalars ?records s) (\<lambda>t.
      andThen (upsertOccurrenceBatches orc scalars (batchesOf sharedWriteBatchSize ?keyed) t) (\<lambda>t.
      deleteUnreferencedVectors orc (filter (\<lambda>k. map_of ?records k = None)
        (remdups_adj (sort (map snd (occurrenceKeyMap s (map RowID rows)))))) t)))))"
    by (rule andThen_fst [where P = "sharedInv scalars"]) (rule a)
  then show ?thesis using inv by (simp add: writeRows_def Let_def)
qed

section \<open>Rebuild\<close>

lemma addOccurrenceCells_ok:
  assumes cols: "distinct (map ColName scalars)"
  shows "gm_wf m \<Longrightarrow> recordsOk m \<Longrightarrow> (\<And>occ. occ \<in> set occs \<Longrightarrow> cellsTyped scalars (cellOf occ)) \<Longrightarrow>
    gm_wf (addOccurrenceCells scalars occs m) \<and> recordsOk (addOccurrenceCells scalars occs m)
    \<and> (\<forall>k. map_of m k = None \<longrightarrow> map_of (addOccurrenceCells scalars occs m) k = None)
    \<and> (\<forall>k r. map_of m k = Some r \<longrightarrow> (\<exists>r'. map_of (addOccurrenceCells scalars occs m) k = Some r'
        \<and> (\<forall>cell. recordAdmits scalars r cell \<longrightarrow> recordAdmits scalars r' cell)
        \<and> (\<forall>occ\<in>set occs. OcKey occ = k \<longrightarrow> recordAdmits scalars r' (cellOf occ))))"
proof (induction occs arbitrary: m)
  case Nil
  then show ?case by (simp add: addOccurrenceCells_def)
next
  case (Cons occ occs)
  let ?m = "case map_of m (OcKey occ) of None \<Rightarrow> m | Some r \<Rightarrow> gm_put (OcKey occ) (addCells scalars (cellOf occ) r) m"
  have step: "addOccurrenceCells scalars (occ # occs) m = addOccurrenceCells scalars occs ?m"
    by (simp add: addOccurrenceCells_def)
  have m: "gm_wf ?m" "recordsOk ?m" "\<And>k. map_of m k = None \<longleftrightarrow> map_of ?m k = None"
    using Cons.prems by (auto simp: recordsOk_def split: option.splits)
  have adm: "\<exists>r'. map_of ?m k = Some r' \<and> (\<forall>cell. recordAdmits scalars r cell \<longrightarrow> recordAdmits scalars r' cell)
      \<and> (OcKey occ = k \<longrightarrow> recordAdmits scalars r' (cellOf occ))" if "map_of m k = Some r" for k r
    using that Cons.prems(3) [of occ] addCells_mono [OF cols] addCells_admits [OF cols] by (auto split: option.splits)
  note ih = Cons.IH [OF m(1,2)]
  show ?case unfolding step
  proof (intro conjI allI impI)
    fix k r
    assume "map_of m k = Some r"
    from adm [OF this] obtain r1 where r1: "map_of ?m k = Some r1" "\<forall>cell. recordAdmits scalars r cell \<longrightarrow> recordAdmits scalars r1 cell"
      "OcKey occ = k \<longrightarrow> recordAdmits scalars r1 (cellOf occ)" by blast
    from ih Cons.prems(3) r1(1) obtain r2 where "map_of (addOccurrenceCells scalars occs ?m) k = Some r2"
      "\<forall>cell. recordAdmits scalars r1 cell \<longrightarrow> recordAdmits scalars r2 cell"
      "\<forall>occ\<in>set occs. OcKey occ = k \<longrightarrow> recordAdmits scalars r2 (cellOf occ)" by (metis list.set_intros(2))
    with r1 show "\<exists>r'. map_of (addOccurrenceCells scalars occs ?m) k = Some r'
        \<and> (\<forall>cell. recordAdmits scalars r cell \<longrightarrow> recordAdmits scalars r' cell)
        \<and> (\<forall>occ\<in>set (occ # occs). OcKey occ = k \<longrightarrow> recordAdmits scalars r' (cellOf occ))" by auto
  qed (use ih Cons.prems(3) m(3) in auto)
qed

lemma fresh_ok:
  "gm_wf m \<Longrightarrow> recordsOk m \<Longrightarrow>
    gm_wf (fold (\<lambda>k. gm_put k (newVectorRecord k (v k) scalars)) ks m)
    \<and> recordsOk (fold (\<lambda>k. gm_put k (newVectorRecord k (v k) scalars)) ks m)
    \<and> (map_of (fold (\<lambda>k. gm_put k (newVectorRecord k (v k) scalars)) ks m) x \<noteq> None \<longleftrightarrow> x \<in> set ks \<or> map_of m x \<noteq> None)"
proof (induction ks arbitrary: m)
  case (Cons k ks)
  have "gm_wf (gm_put k (newVectorRecord k (v k) scalars) m)" "recordsOk (gm_put k (newVectorRecord k (v k) scalars) m)"
    using Cons.prems by (auto simp: recordsOk_def)
  from Cons.IH [OF this] show ?case by auto
qed simp

text \<open>One rewritten batch covers all occurrences of its keys.\<close>

lemma rebuild_batch_inv:
  assumes cols: "distinct (map ColName scalars)" and inv: "coveredExcept scalars K s"
    and records: "records = addOccurrenceCells scalars (filter (\<lambda>occ. OcKey occ \<in> set b) (map snd (ShOccurrences s)))
      (fold (\<lambda>k. gm_put k (newVectorRecord k (v k) scalars)) b [])"
    and rows: "vectorUpsertOption dimension scalars (map (\<lambda>k. the (map_of records k)) (sortedRecordKeys records)) = Some rows"
  shows "coveredExcept scalars (K - set b) (putVectors rows s)"
proof -
  let ?occs = "filter (\<lambda>occ. OcKey occ \<in> set b) (map snd (ShOccurrences s))"
  let ?g = "\<lambda>k. the (map_of records k)"
  let ?fresh = "fold (\<lambda>k. gm_put k (newVectorRecord k (v k) scalars)) b []"
  have typed: "cellsTyped scalars (cellOf occ)" if "occ \<in> set ?occs" for occ
    using inv that by (auto simp: coveredExcept_def)
  have fresh: "gm_wf ?fresh" "recordsOk ?fresh" "\<And>x. map_of ?fresh x \<noteq> None \<longleftrightarrow> x \<in> set b"
    using fresh_ok [of "[]" v scalars b] by (auto simp: recordsOk_def)
  have ok: "recordsOk records" "\<And>k. map_of ?fresh k = None \<Longrightarrow> map_of records k = None"
    "\<And>k r. map_of ?fresh k = Some r \<Longrightarrow> \<exists>r'. map_of records k = Some r'
        \<and> (\<forall>occ\<in>set ?occs. OcKey occ = k \<longrightarrow> recordAdmits scalars r' (cellOf occ))"
    using addOccurrenceCells_ok [OF cols fresh(1,2), of ?occs] typed unfolding records by blast+
  have keys: "set (sortedRecordKeys records) = set b"
  proof -
    have "k \<in> set (sortedRecordKeys records) \<longleftrightarrow> map_of records k \<noteq> None" for k
      by (simp add: sortedRecordKeys_def map_of_eq_None_iff)
    moreover have "map_of records k \<noteq> None \<longleftrightarrow> k \<in> set b" for k
      using ok(2,3) [of k] fresh(3) [of k] by (cases "map_of ?fresh k") auto
    ultimately show ?thesis by blast
  qed
  have g: "VrKey (?g k) = k \<and> recordWf (?g k) \<and> (\<forall>occ\<in>set ?occs. OcKey occ = k \<longrightarrow> recordAdmits scalars (?g k) (cellOf occ))"
    if "k \<in> set b" for k
    using ok(1) ok(3) [of k] fresh(3) [of k] that by (fastforce simp: recordsOk_def)
  have get: "map_of (ShVectors (putVectors rows s)) x = (if x \<in> set b then vectorRow scalars (?g x) else map_of (ShVectors s) x)" for x
    using puts_rows_get [OF rows, of s x] g keys by auto
  have some: "vectorRow scalars (?g k) \<noteq> None" if "k \<in> set b" for k
    using upsertOption_rows [OF rows] g keys that by auto
  have "occurrenceCovered scalars (ShVectors (putVectors rows s)) occ"
    if "occ \<in> snd ` set (ShOccurrences s)" "OcKey occ \<notin> K - set b" for occ
  proof (cases "OcKey occ \<in> set b")
    case True
    with that g [OF True] have "recordAdmits scalars (?g (OcKey occ)) (cellOf occ)" "cellsTyped scalars (cellOf occ)"
      using typed by auto
    with some [OF True] True show ?thesis using cols by (auto simp: occurrenceCovered_def get intro: vectorRow_covers)
  next
    case False
    with inv that show ?thesis by (auto simp: coveredExcept_def occurrenceCovered_def get)
  qed
  moreover have "vectorsWf (ShVectors (putVectors rows s))"
    using inv g vectorRow_wf unfolding vectorsWf_def get coveredExcept_def by metis
  ultimately show ?thesis using inv by (auto simp: coveredExcept_def putVectors_def)
qed

lemma rebuildLoop_covered:
  assumes cols: "distinct (map ColName scalars)"
  shows "coveredExcept scalars K s \<Longrightarrow> coveredExcept scalars K (fst (rebuildSupersetsLoop orc scalars bs s))
    \<and> (snd (rebuildSupersetsLoop orc scalars bs s) = None \<longrightarrow>
        coveredExcept scalars (K - set (concat bs)) (fst (rebuildSupersetsLoop orc scalars bs s)))"
proof (induction bs arbitrary: s K)
  case (Cons b bs)
  let ?P = "\<lambda>r. coveredExcept scalars K (fst r) \<and> (snd r = None \<longrightarrow> coveredExcept scalars (K - set (concat (b # bs))) (fst r :: 'a shared_state))"
  have read: "?P (andThen (readCall orc t) f)"
    if "coveredExcept scalars K t" "\<And>u. coveredExcept scalars K u \<Longrightarrow> ?P (f u)" for t :: "'a shared_state" and f
    using that coveredExcept_same [OF readCall_same [of t orc], of scalars K]
    by (cases "snd (readCall orc t)") (auto simp: andThen_ok andThen_err)
  define rows where "rows s = vectorUpsertOption (length (VwVector (the (map_of (ShVectors s) (last b))))) scalars
      (let records = addOccurrenceCells scalars (filter (\<lambda>occ. OcKey occ \<in> set b) (map snd (ShOccurrences s)))
           (fold (\<lambda>k. gm_put k (newVectorRecord k (VwVector (the (map_of (ShVectors s) k))) scalars)) b [])
       in map (\<lambda>k. the (map_of records k)) (sortedRecordKeys records))" for s :: "'a shared_state"
  have put: "coveredExcept scalars K (fst (writeCall orc (putVectors rs) t))
      \<and> (snd (writeCall orc (putVectors rs) t) = None \<longrightarrow> coveredExcept scalars (K - set b) (fst (writeCall orc (putVectors rs) t)))"
    if "coveredExcept scalars K t" "rows t = Some rs" for t rs
  proof (cases rule: writeCall_cases [of t orc "putVectors rs"])
    case (2 u)
    have "rows u = Some rs" using that(2) 2(1) by (simp add: rows_def sameStore_def)
    then have "coveredExcept scalars (K - set b) (putVectors rs u)"
      using coveredExcept_same [OF 2(1), of scalars K] that(1) unfolding rows_def Let_def
      by (intro rebuild_batch_inv [OF cols _ refl]) simp_all
    with 2(2) show ?thesis using coveredExcept_mono [of scalars "K - set b" "putVectors rs u" K] by simp
  qed (use that coveredExcept_same in auto)
  have tail: "?P (case rows t of None \<Rightarrow> (t, Some SharedInvalid)
      | Some rs \<Rightarrow> andThen (writeCall orc (putVectors rs) t) (rebuildSupersetsLoop orc scalars bs))" if "coveredExcept scalars K t" for t
  proof (cases "rows t")
    case (Some rs)
    note w = put [OF that Some]
    show ?thesis
    proof (cases "snd (writeCall orc (putVectors rs) t)")
      case None
      with w have "coveredExcept scalars (K - set b) (fst (writeCall orc (putVectors rs) t))" by simp
      from Cons.IH [OF this] have "?P (rebuildSupersetsLoop orc scalars bs (fst (writeCall orc (putVectors rs) t)))"
        using coveredExcept_mono [of scalars "K - set b" _ K] by (auto simp: Diff_eq Int_assoc)
      with None Some show ?thesis by (simp add: andThen_ok)
    qed (use w Some in \<open>simp add: andThen_err\<close>)
  qed (use that in simp)
  have "?P (andThen (readCall orc s) (\<lambda>s.
       if \<not> list_all (\<lambda>k. map_of (ShVectors s) k \<noteq> None) b then (s, Some SharedInvalid)
       else andThen (readCall orc s) (\<lambda>t. case rows t of None \<Rightarrow> (t, Some SharedInvalid)
         | Some rs \<Rightarrow> andThen (writeCall orc (putVectors rs) t) (rebuildSupersetsLoop orc scalars bs))))"
    using Cons.prems
  proof (rule read)
    fix u :: "'a shared_state"
    assume u: "coveredExcept scalars K u"
    let ?r = "andThen (readCall orc u) (\<lambda>t. case rows t of None \<Rightarrow> (t, Some SharedInvalid)
         | Some rs \<Rightarrow> andThen (writeCall orc (putVectors rs) t) (rebuildSupersetsLoop orc scalars bs))"
    have r: "?P ?r" using u by (rule read) (rule tail)
    have "?P (if c then (u, Some SharedInvalid) else ?r)" for c
    proof (cases c)
      case False
      then have eq: "(if c then (u, Some SharedInvalid) else ?r) = ?r" by simp
      show ?thesis unfolding eq by (rule r)
    qed (use u in simp)
    then show "?P (if \<not> list_all (\<lambda>k. map_of (ShVectors u) k \<noteq> None) b then (u, Some SharedInvalid) else ?r)" .
  qed
  then show ?case by (simp add: rows_def Let_def cong: option.case_cong if_cong)
qed simp

lemma rebuildLoop_inv:
  assumes "distinct (map ColName scalars)" "sharedInv scalars s"
  shows "sharedInv scalars (fst (rebuildSupersetsLoop orc scalars bs s))"
  using rebuildLoop_covered [OF assms(1), of "{}" s orc bs] assms(2) by (simp add: coveredExcept_none)

section \<open>Scalar updates\<close>

lemma applyPartial_key [simp]: "OcKey (applyPartial cells row occ) = OcKey occ"
  by (simp add: applyPartial_def)

lemma applyPartial_cell:
  "cellOf (applyPartial cells row occ) n = (case map_of (rev cells) n of None \<Rightarrow> cellOf occ n | Some c \<Rightarrow> c)"
  by (simp add: applyPartial_def cellOf_def gm_get0_def puts_get split: option.splits)

lemma stored_column_type:
  assumes "requireStoredColumns scalars columns" "distinct (map ColName scalars)"
    and "c \<in> set columns" "d \<in> set scalars" "ColName c = ColName d"
  shows "ColType c = ColType d"
proof -
  from assms(1,3) obtain e where "map_of (columnsOf scalars) (ColName c) = Some e" "ColType e = ColType c"
    by (auto simp: requireStoredColumns_def list_all_iff)
  moreover from columnsOf_get [OF this(1)] assms(2,4,5) have "e = d"
    by (metis distinct_map inj_on_def)
  ultimately show ?thesis by simp
qed

text \<open>A partial update keeps an occurrence covered when its vector row covers the new values.\<close>

definition valuesCovered :: "scalar_column list \<Rightarrow> 'f vector_row \<Rightarrow> (string, scalar_value) gomap \<Rightarrow> bool" where
  "valuesCovered scalars vrow vs \<longleftrightarrow>
     (\<forall>cell. cellsTyped scalars cell \<and> (\<forall>r :: 'f vector_record. valuesAdmitted scalars r vs \<longrightarrow> recordAdmits scalars r cell) \<longrightarrow>
        rowCovers scalars (columnOf vrow) cell)"

lemma partial_new_cell:
  assumes "partialCells columns row = Some cells" "map_of (rev cells) n = Some cell" "ScState cell = ScalarCellValue"
  obtains c where "c \<in> set columns" "ColName c = n" "declaredScalarInsertCell c (RowScalars row) = Some cell"
  using assms by (fastforce simp: partialCells_def list_all_iff split: if_splits dest!: map_of_SomeD)

lemma applyPartial_covered:
  assumes cols: "distinct (map ColName scalars)" and req: "requireStoredColumns scalars columns"
    and cells: "partialCells columns row = Some cells"
    and occ: "occurrenceCovered scalars vectors occ"
    and vals: "map_of vectors (OcKey occ) = Some vrow" "valuesCovered scalars vrow (RowScalars row)"
  shows "occurrenceCovered scalars vectors (applyPartial cells row occ)"
proof -
  let ?new = "\<lambda>n. case map_of (rev cells) n of None \<Rightarrow> AbsentCell n | Some c \<Rightarrow> c"
  have new: "ScValue (?new (ColName d)) = typedScalar (ColType d) (gm_get0 EmptyScalar (RowScalars row) (ColName d))
      \<and> \<not> SvNull (gm_get0 EmptyScalar (RowScalars row) (ColName d))
      \<and> SvType (gm_get0 EmptyScalar (RowScalars row) (ColName d)) = ColType d
      \<and> ColType d \<in> {ScalarTypeString, ScalarTypeBool, ScalarTypeInt64}"
    if d: "d \<in> set scalars" "ScState (?new (ColName d)) = ScalarCellValue" for d
  proof -
    from d(2) obtain cell where m: "map_of (rev cells) (ColName d) = Some cell"
      by (cases "map_of (rev cells) (ColName d)") (auto simp: AbsentCell_def)
    with d(2) obtain c where "c \<in> set columns" "ColName c = ColName d" "declaredScalarInsertCell c (RowScalars row) = Some cell"
      using partial_new_cell [OF cells m] by auto
    with insertCell_value [OF this(3)] stored_column_type [OF req cols this(1) d(1) this(2)] m d(2) show ?thesis by auto
  qed
  have typed: "cellsTyped scalars ?new" using new by (auto simp: cellsTyped_def)
  have "recordAdmits scalars r ?new" if "valuesAdmitted scalars r (RowScalars row)" for r :: "'a vector_record"
    using new that by (fastforce simp: recordAdmits_def valuesAdmitted_def intro: typedScalar_admits)
  with vals(2) typed have cn: "rowCovers scalars (columnOf vrow) ?new" by (auto simp: valuesCovered_def)
  have old: "cellsTyped scalars (cellOf occ)" "rowCovers scalars (columnOf vrow) (cellOf occ)"
    using occ vals(1) by (auto simp: occurrenceCovered_def)
  have "cellOf (applyPartial cells row occ) n = (if map_of (rev cells) n = None then cellOf occ n else ?new n)" for n
    by (simp add: applyPartial_cell split: option.splits)
  then have "cellsTyped scalars (cellOf (applyPartial cells row occ))"
    "rowCovers scalars (columnOf vrow) (cellOf (applyPartial cells row occ))"
    using typed old cn by (auto simp: cellsTyped_def rowCovers_iff)
  with vals(1) show ?thesis by (auto simp: occurrenceCovered_def)
qed

lemma occurrenceKeyMap_get:
  assumes "i \<in> set ids" "map_of (ShOccurrences s) i = Some occ"
  shows "map_of (occurrenceKeyMap s ids) i = Some (OcKey occ)"
proof -
  have "i \<in> set ids \<or> map_of m i = Some (OcKey occ) \<Longrightarrow>
    map_of (fold (\<lambda>i m. case map_of (ShOccurrences s) i of None \<Rightarrow> m | Some occ \<Rightarrow> gm_put i (OcKey occ) m) ids m) i = Some (OcKey occ)" for m
  proof (induction ids arbitrary: m)
    case (Cons a ids)
    have "i \<in> set ids \<or> map_of (case map_of (ShOccurrences s) a of None \<Rightarrow> m | Some occ \<Rightarrow> gm_put a (OcKey occ) m) i = Some (OcKey occ)"
      using Cons.prems assms(2) by (auto split: option.splits)
    from Cons.IH [OF this] show ?case by simp
  qed simp
  with assms(1) show ?thesis by (simp add: occurrenceKeyMap_def)
qed

definition updateReady ::
  "scalar_column list \<Rightarrow> scalar_column list \<Rightarrow> (string, 'f vector_row) gomap \<Rightarrow> (string \<Rightarrow> string)
    \<Rightarrow> string \<times> ('f occurrence \<Rightarrow> 'f occurrence) \<Rightarrow> bool" where
  "updateReady scalars columns vectors keyOf u \<longleftrightarrow>
     (\<exists>row cells vrow. snd u = applyPartial cells row \<and> partialCells columns row = Some cells
        \<and> map_of vectors (keyOf (fst u)) = Some vrow \<and> valuesCovered scalars vrow (RowScalars row))"

definition keysAgree :: "(string \<Rightarrow> string) \<Rightarrow> string set \<Rightarrow> (string, 'f occurrence) gomap \<Rightarrow> bool" where
  "keysAgree keyOf I m \<longleftrightarrow> (\<forall>i\<in>I. \<forall>occ. map_of m i = Some occ \<longrightarrow> OcKey occ = keyOf i)"

lemma partialUpdate_inv:
  assumes cols: "distinct (map ColName scalars)" and req: "requireStoredColumns scalars columns"
    and ready: "list_all (updateReady scalars columns (ShVectors s) keyOf) us" and ids: "fst ` set us \<subseteq> I"
    and inv: "sharedInv scalars s" "keysAgree keyOf I (ShOccurrences s)"
  shows "sharedInv scalars (partialUpdate us s) \<and> keysAgree keyOf I (ShOccurrences (partialUpdate us s))"
proof -
  let ?f = "\<lambda>(i, f) m. case map_of m i of None \<Rightarrow> m | Some occ \<Rightarrow> gm_put i (f occ) m"
  let ?cov = "\<lambda>m. (\<forall>occ\<in>snd ` set m. occurrenceCovered scalars (ShVectors s) occ) \<and> keysAgree keyOf I m"
  have "?cov m \<Longrightarrow> ?cov (fold ?f us m)" for m
    using ready ids
  proof (induction us arbitrary: m)
    case (Cons u us)
    obtain i f where u: "u = (i, f)" by force
    have "?cov (?f u m)"
    proof (cases "map_of m i")
      case None
      with Cons.prems(1) show ?thesis by (simp add: u)
    next
      case (Some occ)
      from Cons.prems(2) u obtain row cells vrow where r: "f = applyPartial cells row" "partialCells columns row = Some cells"
        "map_of (ShVectors s) (keyOf i) = Some vrow" "valuesCovered scalars vrow (RowScalars row)"
        by (auto simp: updateReady_def)
      have key: "OcKey occ = keyOf i" using Cons.prems(1,3) Some u by (auto simp: keysAgree_def)
      have "occurrenceCovered scalars (ShVectors s) occ" using Cons.prems(1) gm_get_mem [OF Some] by force
      from applyPartial_covered [OF cols req r(2) this _ r(4)] r(3) key
      have "occurrenceCovered scalars (ShVectors s) (f occ)" "OcKey (f occ) = keyOf i" by (simp_all add: r(1))
      then show ?thesis using Cons.prems(1) set_put [of i "f occ" m] Some by (auto simp: u keysAgree_def)
    qed
    with Cons show ?case by simp
  qed simp
  from this [of "ShOccurrences s"] inv show ?thesis by (simp add: sharedInv_def partialUpdate_def)
qed

lemma partialUpdateBatches_inv:
  assumes cols: "distinct (map ColName scalars)" and req: "requireStoredColumns scalars columns"
  shows "list_all (list_all (updateReady scalars columns (ShVectors s) keyOf)) bs \<Longrightarrow> fst ` set (concat bs) \<subseteq> I \<Longrightarrow>
    sharedInv scalars s \<Longrightarrow> keysAgree keyOf I (ShOccurrences s) \<Longrightarrow> sharedInv scalars (fst (partialUpdateBatches orc bs s))"
proof (induction bs arbitrary: s)
  case (Cons b bs)
  let ?P = "\<lambda>t. sharedInv scalars t \<and> keysAgree keyOf I (ShOccurrences t) \<and> ShVectors t = ShVectors s"
  have "?P (fst (writeCall orc (partialUpdate b) s))"
  proof (cases rule: writeCall_cases [of s orc "partialUpdate b"])
    case (1 t)
    with Cons.prems show ?thesis using sharedInv_same [OF 1(1), of scalars] by (simp add: sameStore_def)
  next
    case (2 t)
    then have "sharedInv scalars (partialUpdate b t) \<and> keysAgree keyOf I (ShOccurrences (partialUpdate b t))"
      using Cons.prems sharedInv_same [OF 2(1)]
      by (intro partialUpdate_inv [OF cols req]) (auto simp: sameStore_def)
    with 2 show ?thesis by (simp add: sameStore_def partialUpdate_def)
  qed
  then have "sharedInv scalars (fst (writeCall orc (partialUpdate b) s))"
    "sharedInv scalars (fst (partialUpdateBatches orc bs (fst (writeCall orc (partialUpdate b) s))))"
    using Cons by (auto simp: image_Un)
  then show ?case unfolding partialUpdateBatches.simps
    by (intro andThen_fst [where P = "sharedInv scalars"]) auto
qed simp

lemma widenRecords_ok:
  assumes "distinct (map ColName scalars)"
  shows "gm_wf (widenRecords scalars keyByID vectors rows) \<and> recordsOk (widenRecords scalars keyByID vectors rows)
    \<and> (\<forall>row\<in>set rows. \<exists>r. map_of (widenRecords scalars keyByID vectors rows) (gm_get0 [] keyByID (RowID row)) = Some r
        \<and> valuesAdmitted scalars r (RowScalars row))"
  using fold_records [OF assms, of "[]" "\<lambda>row. gm_get0 [] keyByID (RowID row)"
      "\<lambda>row. VwVector (the (map_of vectors (gm_get0 [] keyByID (RowID row))))" RowScalars rows]
  by (simp add: widenRecords_def Let_def recordsOk_def)

lemma widenSupersets_effect:
  assumes cols: "distinct (map ColName scalars)" and inv: "sharedInv scalars s"
  shows "sharedInv scalars (fst (widenSupersets orc scalars keyByID rows s))
    \<and> ShOccurrences (fst (widenSupersets orc scalars keyByID rows s)) = ShOccurrences s
    \<and> (snd (widenSupersets orc scalars keyByID rows s) = None \<longrightarrow> (\<forall>row\<in>set rows. \<exists>vrow.
        map_of (ShVectors (fst (widenSupersets orc scalars keyByID rows s))) (gm_get0 [] keyByID (RowID row)) = Some vrow
        \<and> valuesCovered scalars vrow (RowScalars row)))"
proof -
  let ?keys = "map (\<lambda>r. gm_get0 [] keyByID (RowID r)) rows"
  let ?rd = "readBatches orc (remdups_adj (sort ?keys)) s"
  have rd: "sharedInv scalars (fst ?rd)" "ShOccurrences (fst ?rd) = ShOccurrences s"
    using inv sharedInv_same [OF readBatches_same] by (blast, simp add: readBatches_state)
  show ?thesis
  proof (cases "snd ?rd = None \<and> list_all (\<lambda>k. map_of (ShVectors (fst ?rd)) k \<noteq> None) ?keys")
    case False
    then show ?thesis
      using rd by (cases "snd ?rd") (auto simp: widenSupersets_def Let_def andThen_ok andThen_err)
  next
    case True
    let ?records = "widenRecords scalars keyByID (ShVectors (fst ?rd)) rows"
    from True obtain dim where w: "widenSupersets orc scalars keyByID rows s = writeVectors orc dim scalars ?records (fst ?rd)"
      by (auto simp: widenSupersets_def Let_def andThen_ok)
    note ok = widenRecords_ok [OF cols, of keyByID "ShVectors (fst ?rd)" rows]
    have v: "vectorsWf (ShVectors (fst ?rd))" using rd(1) by (simp add: sharedInv_def)
    note e = writeVectors_effect [OF cols _ _ v refl, of ?records orc dim]
    have "\<exists>vrow. map_of (ShVectors (fst (writeVectors orc dim scalars ?records (fst ?rd)))) (gm_get0 [] keyByID (RowID row)) = Some vrow
        \<and> valuesCovered scalars vrow (RowScalars row)"
      if "row \<in> set rows" "snd (writeVectors orc dim scalars ?records (fst ?rd)) = None" for row
    proof -
      from ok that(1) obtain r where r: "map_of ?records (gm_get0 [] keyByID (RowID row)) = Some r" "valuesAdmitted scalars r (RowScalars row)"
        by blast
      from e(2) [OF _ _ that(2) r(1)] ok r(2) show ?thesis by (auto simp: valuesCovered_def)
    qed
    then show ?thesis
      using e(1) ok rd writeVectors_inv [OF cols _ _ rd(1)] by (auto simp: w)
  qed
qed

lemma UpdateRowScalars_inv:
  assumes cols: "distinct (map ColName scalars)" and inv: "sharedInv scalars s"
  shows "sharedInv scalars (fst (UpdateRowScalars orc scalars columns rows s))"
proof -
  have tail: "sharedInv scalars (fst (andThen (widenSupersets orc scalars (occurrenceKeyMap t0 (map RowID rows)) rows t) (\<lambda>s.
      andThen (partialUpdateBatches orc (batchesOf sharedWriteBatchSize updates) s) (\<lambda>s.
      rebuildSupersets orc scalars ks s))))"
    if t: "sharedInv scalars t" "ShOccurrences t = ShOccurrences t0" and up: "rowScalarOption columns rows = Some updates"
      and req: "requireStoredColumns scalars columns" for t t0 updates ks
  proof -
    let ?kb = "occurrenceKeyMap t0 (map RowID rows)"
    let ?w = "widenSupersets orc scalars ?kb rows t"
    note w = widenSupersets_effect [OF cols t(1), of orc ?kb rows]
    have "sharedInv scalars (fst (partialUpdateBatches orc (batchesOf sharedWriteBatchSize updates) (fst ?w)))" if "snd ?w = None"
    proof (rule partialUpdateBatches_inv [OF cols req, where keyOf = "gm_get0 [] ?kb" and I = "RowID ` set rows"])
      have ups: "\<forall>u\<in>set updates. \<exists>row\<in>set rows. \<exists>cells. u = (RowID row, applyPartial cells row) \<and> partialCells columns row = Some cells"
        using up by (force simp: rowScalarOption_def list_all_iff split: if_splits)
      have "updateReady scalars columns (ShVectors (fst ?w)) (gm_get0 [] ?kb) u" if "u \<in> set updates" for u
        using ups that w \<open>snd ?w = None\<close> by (fastforce simp: updateReady_def)
      then show "list_all (list_all (updateReady scalars columns (ShVectors (fst ?w)) (gm_get0 [] ?kb))) (batchesOf sharedWriteBatchSize updates)"
        using batchesOf_bounds unfolding list_all_iff by blast
      show "fst ` set (concat (batchesOf sharedWriteBatchSize updates)) \<subseteq> RowID ` set rows"
        using ups by (auto simp: concat_batchesOf sharedWriteBatchSize_def)
      show "keysAgree (gm_get0 [] ?kb) (RowID ` set rows) (ShOccurrences (fst ?w))"
        using w t(2) occurrenceKeyMap_get [of _ "map RowID rows" t0] by (auto simp: keysAgree_def gm_get0_def)
    qed (use w in blast)
    then show ?thesis
      using w rebuildLoop_inv [OF cols]
      by (cases "snd ?w") (auto simp: andThen_err andThen_ok rebuildSupersets_def intro!: andThen_fst [where P = "sharedInv scalars"])
  qed
  have step: "sharedInv scalars (fst (if \<not> list_all (\<lambda>r. map_of (occurrenceKeyMap t (map RowID rows)) (RowID r) \<noteq> None) rows
      then (t, Some SharedInvalid)
      else andThen (readCall orc t) (\<lambda>u.
        if \<not> requireStoredColumns scalars columns then (u, Some SharedInvalid)
        else case rowScalarOption columns rows of
          None \<Rightarrow> (u, Some SharedInvalid)
        | Some updates \<Rightarrow>
            andThen (widenSupersets orc scalars (occurrenceKeyMap t (map RowID rows)) rows u) (\<lambda>s.
            andThen (partialUpdateBatches orc (batchesOf sharedWriteBatchSize updates) s) (\<lambda>s.
            rebuildSupersets orc scalars (remdups_adj (sort (map snd (occurrenceKeyMap t (map RowID rows))))) s)))))"
    if t: "sharedInv scalars t" for t
  proof -
    have "sharedInv scalars (fst (readCall orc t))" "ShOccurrences (fst (readCall orc t)) = ShOccurrences t"
      using t sharedInv_same [OF readCall_same] by (blast, simp add: readCall_state)
    then show ?thesis
      using t tail [of "fst (readCall orc t)" t]
      by (cases "snd (readCall orc t)") (auto simp: andThen_ok andThen_err split: option.splits)
  qed
  have "sharedInv scalars (fst (readBatches orc (map RowID rows) s))"
    using inv sharedInv_same [OF readBatches_same] by blast
  with step inv show ?thesis
    unfolding UpdateRowScalars_def Let_def
    by (cases "snd (readBatches orc (map RowID rows) s)") (simp_all add: andThen_ok andThen_err)
qed

section \<open>Reachable states\<close>

inductive shared_step :: "('f list \<Rightarrow> string) \<Rightarrow> scalar_column list \<Rightarrow> 'f shared_state \<Rightarrow> 'f shared_state \<Rightarrow> bool"
  for vectorKey :: "'f list \<Rightarrow> string" and scalars :: "scalar_column list"
where
  shared_upsert: "shared_step vectorKey scalars s (fst (SharedUpsert vectorKey orc scalars rows s))"
| shared_delete: "shared_step vectorKey scalars s (fst (deleteOccurrences orc ps s))"
| shared_update: "shared_step vectorKey scalars s (fst (UpdateRowScalars orc scalars columns rows s))"
| shared_rebuild: "shared_step vectorKey scalars s (fst (rebuildSupersets orc scalars keys s))"
| shared_sweep: "shared_step vectorKey scalars s (fst (removeUnreferencedKeys orc pages s))"

definition shared_init :: "'f shared_state \<Rightarrow> bool" where
  "shared_init s \<longleftrightarrow> ShOccurrences s = [] \<and> ShVectors s = []"

lemma shared_step_inv:
  assumes "distinct (map ColName scalars)"
  shows "shared_step vectorKey scalars s t \<Longrightarrow> sharedInv scalars s \<Longrightarrow> sharedInv scalars t"
proof (induction rule: shared_step.induct)
  case (shared_upsert s orc rows)
  then show ?case using writeRows_inv [OF assms] by (auto simp: SharedUpsert_def)
next
  case (shared_delete s orc ps)
  then show ?case by (simp add: deleteOccurrences_def deleteOccurrences_inv)
next
  case (shared_update s orc columns rows)
  then show ?case using UpdateRowScalars_inv [OF assms] by blast
next
  case (shared_rebuild s orc keys)
  then show ?case using rebuildLoop_inv [OF assms] by (simp add: rebuildSupersets_def)
next
  case (shared_sweep s orc pages)
  then show ?case by (rule removeUnreferencedKeys_inv)
qed

text \<open>The declared columns of a collection: a schema with distinct names.\<close>

definition declaredStep :: "('f list \<Rightarrow> string) \<Rightarrow> scalar_column list \<Rightarrow> 'f shared_state \<Rightarrow> 'f shared_state \<Rightarrow> bool" where
  "declaredStep vectorKey scalars s t \<longleftrightarrow> distinct (map ColName scalars) \<and> shared_step vectorKey scalars s t"

interpretation shared: invariant_machine shared_init "declaredStep vectorKey scalars" "sharedInv scalars"
proof unfold_locales
  show "shared_init s \<Longrightarrow> sharedInv scalars s" for s by (simp add: shared_init_def sharedInv_def vectorsWf_def)
  show "declaredStep vectorKey scalars s t \<Longrightarrow> sharedInv scalars s \<Longrightarrow> sharedInv scalars t" for s t
    using shared_step_inv by (auto simp: declaredStep_def)
qed

section \<open>Search over supersets\<close>

text \<open>The vectors the superset expression selects, by the tree the expression renders.\<close>

definition supersetSelects :: "scalar_column list \<Rightarrow> filter_node \<Rightarrow> 'f vector_row \<Rightarrow> bool" where
  "supersetSelects scalars f row =
     (case supersetTree (columnsOf scalars) f of
        Inr (Some e) \<Rightarrow> evalSuperset (columnOf row) e | Inr None \<Rightarrow> True | Inl _ \<Rightarrow> False)"

text \<open>
  The occurrences the dense leg can reach: those that match the filter exactly among the occurrences of
  the vectors that match the superset expression.
\<close>

definition denseMatches :: "scalar_column list \<Rightarrow> filter_node \<Rightarrow> 'f shared_state \<Rightarrow> 'f occurrence set" where
  "denseMatches scalars f s =
     {occ \<in> snd ` set (ShOccurrences s). evaluateFilterCells (cellOf occ) f = truthTrue
        \<and> (\<exists>row. map_of (ShVectors s) (OcKey occ) = Some row \<and> supersetSelects scalars f row)}"

lemma selects_covered:
  assumes "occurrenceCovered scalars vectors occ" "evaluateFilterCells (cellOf occ) f = truthTrue"
    and "supersetTree (columnsOf scalars) f = Inr t"
  shows "\<exists>row. map_of vectors (OcKey occ) = Some row \<and> supersetSelects scalars f row"
  using assms by (auto simp: occurrenceCovered_def supersetSelects_def split: option.splits intro: tree_sound)

lemma SupersetExpression_tree:
  assumes "SupersetExpression (Some f) scalars = Inr expression"
  obtains t where "supersetTree (columnsOf scalars) f = Inr t" "expression = (case t of None \<Rightarrow> [] | Some e \<Rightarrow> renderSuperset e)"
proof (cases "supersetTree (columnsOf scalars) f")
  case (Inl e)
  with assms show ?thesis by (simp add: SupersetExpression_def supersetNode_rendered)
next
  case (Inr t)
  with assms have "expression = (case t of None \<Rightarrow> [] | Some e \<Rightarrow> renderSuperset e)"
    by (auto simp: SupersetExpression_def supersetNode_rendered split: option.splits)
  with Inr that show ?thesis by blast
qed

lemma denseMatches_exact:
  assumes inv: "sharedInv scalars s" and expr: "SupersetExpression (Some f) scalars = Inr expression"
  shows "denseMatches scalars f s = {occ \<in> snd ` set (ShOccurrences s). evaluateFilterCells (cellOf occ) f = truthTrue}"
proof -
  obtain t where t: "supersetTree (columnsOf scalars) f = Inr t"
    using SupersetExpression_tree [OF expr] .
  have "\<exists>row. map_of (ShVectors s) (OcKey occ) = Some row \<and> supersetSelects scalars f row"
    if "occ \<in> snd ` set (ShOccurrences s)" "evaluateFilterCells (cellOf occ) f = truthTrue" for occ
    using selects_covered [OF _ that(2) t] inv that(1) by (auto simp: sharedInv_def)
  then show ?thesis by (auto simp: denseMatches_def)
qed

text \<open>
  C6: The two-stage lookup of the dense search leg refines the exact filter. In every state the shared
  store reaches by upserts, deletes, scalar updates and rebuilds, with any of their requests failing or
  losing their answer, the occurrences that match a filter exactly are the same set as those found by
  first selecting vectors with the rendered superset expression and then filtering the occurrences of
  these vectors: narrowing the vector search loses no match.
\<close>

theorem superset_search_complete:
  assumes "reach shared_init (declaredStep vectorKey scalars) s"
    and "SupersetExpression (Some f) scalars = Inr expression"
  shows "denseMatches scalars f s = {occ \<in> snd ` set (ShOccurrences s). evaluateFilterCells (cellOf occ) f = truthTrue}
    \<and> (\<exists>t. supersetTree (columnsOf scalars) f = Inr t \<and> expression = (case t of None \<Rightarrow> [] | Some e \<Rightarrow> renderSuperset e))"
  using denseMatches_exact [OF shared.reach_inv [OF assms(1)] assms(2)] SupersetExpression_tree [OF assms(2)] by blast

section \<open>Upserts and deletes as table operations\<close>

lemma deleteUnreferenced_occurrences:
  "ShOccurrences (fst (removeUnreferencedKeys orc bs s)) = ShOccurrences s"
proof (induction bs arbitrary: s)
  case (Cons b bs)
  let ?P = "\<lambda>t :: 'a shared_state. ShOccurrences t = ShOccurrences s"
  show ?case unfolding removeUnreferencedKeys.simps
  proof (rule andThen_fst [where P = ?P], goal_cases)
    case 1
    show ?case by (simp add: readCall_state)
  next
    case (2 t)
    let ?u = "filter (\<lambda>k. k \<notin> set (iterateVectorKeys (\<lambda>occ. OcKey occ \<in> set b) t)) b"
    have "?P (fst (writeCall orc (\<lambda>s. s\<lparr>ShVectors := fold gm_del ?u (ShVectors s)\<rparr>) t))"
      by (cases rule: writeCall_cases [of t orc "\<lambda>s. s\<lparr>ShVectors := fold gm_del ?u (ShVectors s)\<rparr>"])
        (use 2(3) in \<open>auto simp: sameStore_def\<close>)
    then show ?case using Cons.IH 2(3) by (auto simp: Let_def intro: andThen_fst [where P = ?P])
  qed
qed simp

lemma upsertOccurrenceBatches_table:
  "snd (upsertOccurrenceBatches orc scalars bs s) = None \<Longrightarrow>
    list_all (\<lambda>rk. buildOccurrence scalars rk \<noteq> None) (concat bs)
    \<and> ShOccurrences (fst (upsertOccurrenceBatches orc scalars bs s))
      = fold (\<lambda>(k, v). gm_put k v) (map (\<lambda>rk. (RowID (fst rk), the (buildOccurrence scalars rk))) (concat bs)) (ShOccurrences s)"
proof (induction bs arbitrary: s)
  case (Cons b bs)
  from Cons.prems obtain rows where rows: "buildOccurrenceWriteOption scalars b = Some rows" by (auto split: option.splits)
  let ?w = "writeCall orc (putOccurrences rows) s"
  from Cons.prems rows have ok: "snd ?w = None" "snd (upsertOccurrenceBatches orc scalars bs (fst ?w)) = None"
    by (simp_all add: andThen_None)
  with Cons.IH [OF ok(2)] rows show ?case
    by (auto simp: andThen_ok writeCall_ok [OF ok(1)] putOccurrences_def buildOccurrenceWriteOption_def split: if_splits)
qed simp

text \<open>The table of occurrences a state stands for.\<close>

definition occurrenceTable :: "'f shared_state \<Rightarrow> string \<Rightarrow> 'f occurrence option" where
  "occurrenceTable s = map_of (ShOccurrences s)"

lemma writeRows_table:
  assumes cols: "distinct (map ColName scalars)" and inv: "sharedInv scalars s"
    and ok: "snd (writeRows vectorKey orc scalars rows s) = None"
  defines "keyed \<equiv> map (\<lambda>r. (r, vectorKey (RowVector r))) rows"
  shows "list_all (\<lambda>rk. buildOccurrence scalars rk \<noteq> None) keyed
    \<and> occurrenceTable (fst (writeRows vectorKey orc scalars rows s))
      = occurrenceTable s ++ map_of (rev (map (\<lambda>rk. (RowID (fst rk), the (buildOccurrence scalars rk))) keyed))"
proof -
  let ?records = "recordsOfRows scalars keyed"
  let ?d = "length (RowVector (hd rows))"
  let ?rd = "readBatches orc (map RowID rows) s"
  let ?wv = "writeVectors orc ?d scalars ?records (fst ?rd)"
  let ?uo = "upsertOccurrenceBatches orc scalars (batchesOf sharedWriteBatchSize keyed) (fst ?wv)"
  let ?stale = "filter (\<lambda>k. map_of ?records k = None) (remdups_adj (sort (map snd (occurrenceKeyMap (fst ?rd) (map RowID rows)))))"
  have dims: "\<not> (?d = 0 \<or> \<not> list_all (\<lambda>r. length (RowVector r) = ?d) rows)"
    using ok by (auto simp: writeRows_def Let_def split: if_splits)
  have unf: "writeRows vectorKey orc scalars rows s = andThen ?rd (\<lambda>s. andThen (writeVectors orc ?d scalars ?records s) (\<lambda>t.
      andThen (upsertOccurrenceBatches orc scalars (batchesOf sharedWriteBatchSize keyed) t) (\<lambda>t.
      deleteUnreferencedVectors orc (filter (\<lambda>k. map_of ?records k = None)
        (remdups_adj (sort (map snd (occurrenceKeyMap s (map RowID rows)))))) t)))"
    using dims by (simp add: writeRows_def Let_def keyed_def)
  from ok have oks: "snd ?rd = None" "snd ?wv = None" "snd ?uo = None" unfolding unf by (simp_all add: andThen_None)
  have st: "fst (writeRows vectorKey orc scalars rows s) = fst (deleteUnreferencedVectors orc ?stale (fst ?uo))"
    unfolding unf by (simp add: andThen_ok oks)
  have "ShOccurrences (fst ?wv) = ShOccurrences s"
    using writeVectors_effect(1) [OF cols _ _ _ refl, of ?records "fst ?rd" orc ?d] recordsOfRows_ok [OF cols, of keyed] inv
    by (simp add: readBatches_state sharedInv_def)
  moreover have "ShOccurrences (fst (writeRows vectorKey orc scalars rows s)) = ShOccurrences (fst ?uo)"
    unfolding st by (simp add: deleteUnreferencedVectors_def deleteUnreferenced_occurrences)
  ultimately show ?thesis
    using upsertOccurrenceBatches_table [OF oks(3)]
    by (simp add: occurrenceTable_def concat_batchesOf sharedWriteBatchSize_def fun_eq_iff puts_get map_add_def)
qed

lemma deleteOccurrences_table:
  "snd (deleteOccurrencesLoop orc ps affected s) = None \<Longrightarrow>
    ShOccurrences (fst (deleteOccurrencesLoop orc ps affected s)) = filter (\<lambda>x. \<not> list_ex (\<lambda>p. p (snd x)) ps) (ShOccurrences s)"
proof (induction ps arbitrary: affected s)
  case Nil
  then show ?case by (simp add: deleteUnreferencedVectors_def deleteUnreferenced_occurrences)
next
  case (Cons p ps)
  let ?r = "readCall orc s"
  let ?f = "\<lambda>s :: 'a shared_state. s\<lparr>ShOccurrences := filter (\<lambda>x. \<not> p (snd x)) (ShOccurrences s)\<rparr>"
  let ?w = "writeCall orc ?f (fst ?r)"
  from Cons.prems have ok: "snd ?r = None" "snd ?w = None"
    "snd (deleteOccurrencesLoop orc ps (affected @ iterateVectorKeys p (fst ?r)) (fst ?w)) = None"
    by (simp_all add: andThen_None)
  from Cons.IH [OF ok(3)] show ?case
    by (simp add: andThen_ok ok(1,2) writeCall_ok [OF ok(2)] readCall_state conj_commute)
qed

text \<open>
  C7: The shared store implements a table of occurrences. From every reachable state, a successful upsert
  is the update of the table by the given rows in their order, each with its vector's key and its
  repaired and typed cells; a successful delete keeps exactly the occurrences the filter does not match
  (those for which it is false or unknown). The vector rows and their supersets are invisible in the
  table.
\<close>

theorem shared_store_refines_table:
  assumes "reach shared_init (declaredStep vectorKey scalars) s" and "distinct (map ColName scalars)"
  shows "(snd (SharedUpsert vectorKey orc scalars rows s) \<noteq> None
      \<or> occurrenceTable (fst (SharedUpsert vectorKey orc scalars rows s))
        = occurrenceTable s ++ map_of (rev (map (\<lambda>r. (RowID r, the (buildOccurrence scalars (r, vectorKey (RowVector r))))) rows)))
    \<and> (snd (SharedDelete orc f s) \<noteq> None
      \<or> set (ShOccurrences (fst (SharedDelete orc f s)))
        = {x \<in> set (ShOccurrences s). evaluateFilterCells (cellOf (snd x)) f \<noteq> truthTrue})"
proof -
  have inv: "sharedInv scalars s" using shared.reach_inv [OF assms(1)] .
  have "occurrenceTable (fst (SharedUpsert vectorKey orc scalars rows s))
        = occurrenceTable s ++ map_of (rev (map (\<lambda>r. (RowID r, the (buildOccurrence scalars (r, vectorKey (RowVector r))))) rows))"
    if "snd (SharedUpsert vectorKey orc scalars rows s) = None"
    using that writeRows_table [OF assms(2) inv, of vectorKey orc rows]
    by (cases "rows = []") (simp_all add: SharedUpsert_def comp_def)
  moreover have "set (ShOccurrences (fst (SharedDelete orc f s)))
        = {x \<in> set (ShOccurrences s). evaluateFilterCells (cellOf (snd x)) f \<noteq> truthTrue}"
    if "snd (SharedDelete orc f s) = None"
    using that deleteOccurrences_table [of orc "[\<lambda>occ. evaluateFilterCells (cellOf occ) f = truthTrue]" "[]" s]
    by (auto simp: SharedDelete_def deleteOccurrences_def split: sum.splits)
  ultimately show ?thesis by blast
qed

section \<open>A concrete run\<close>

definition sampleRow :: "string \<Rightarrow> int \<Rightarrow> int collection_row" where
  "sampleRow i n = \<lparr>RowID = i, RowContent = ''text'', RowRelativePath = ''a'', RowStartLine = 1, RowEndLine = 2,
     RowFileExtension = [], RowMetadata = ''{}'', RowSplitPart = 0, RowSplitPartRecorded = True, RowVector = [3, 4],
     RowScalars = [(''role'', StringScalar ''user''), (''turn'', Int64Scalar n)]\<rparr>"

definition sampleStore :: "int shared_state" where
  "sampleStore = fst (SharedUpsert (\<lambda>v. ''k'') (\<lambda>n. if n = 3 then CallLost else CallOk) sampleColumns
     [sampleRow ''r1'' 4, sampleRow ''r2'' 7] \<lparr>ShOccurrences = [], ShVectors = [], ShCalls = 0\<rparr>)"

lemma sampleColumns_distinct: "distinct (map ColName sampleColumns)"
  by (simp add: sampleColumns_def)

lemma sampleStore_reachable: "reach shared_init (declaredStep (\<lambda>v. ''k'') sampleColumns) sampleStore"
proof -
  have "reach shared_init (declaredStep (\<lambda>v :: int list. ''k'') sampleColumns) \<lparr>ShOccurrences = [], ShVectors = [], ShCalls = 0\<rparr>"
    by (rule reach_init) (simp add: shared_init_def)
  then show ?thesis
    unfolding sampleStore_def
    by (rule reach_step) (simp add: declaredStep_def sampleColumns_distinct shared_upsert)
qed

lemma sampleExpression:
  "SupersetExpression (Some (ColumnRange ''turn'' (Some 3) (Some 9))) sampleColumns
    = Inr ''maximum_turn >= 3 and minimum_turn < 9''"
  by code_simp

theorem superset_search_complete_witness:
  "denseMatches sampleColumns (ColumnRange ''turn'' (Some 3) (Some 9)) sampleStore
     = {occ \<in> snd ` set (ShOccurrences sampleStore). evaluateFilterCells (cellOf occ) (ColumnRange ''turn'' (Some 3) (Some 9)) = truthTrue}"
  using superset_search_complete [OF sampleStore_reachable sampleExpression] by (rule conjunct1)

lemma sampleUpsert_succeeds:
  "snd (SharedUpsert (\<lambda>v. ''k'') (\<lambda>n. CallOk) sampleColumns [sampleRow ''r3'' 1] sampleStore) = None"
  by code_simp

theorem shared_store_refines_table_witness:
  "occurrenceTable (fst (SharedUpsert (\<lambda>v. ''k'') (\<lambda>n. CallOk) sampleColumns [sampleRow ''r3'' 1] sampleStore))
     = occurrenceTable sampleStore ++ map_of (rev (map (\<lambda>r. (RowID r, the (buildOccurrence sampleColumns (r, (\<lambda>v. ''k'') (RowVector r)))))
         [sampleRow ''r3'' 1]))"
  using conjunct1 [OF shared_store_refines_table [OF sampleStore_reachable sampleColumns_distinct,
      where orc = "\<lambda>n. CallOk" and rows = "[sampleRow ''r3'' 1]"]] sampleUpsert_succeeds
  by blast

end
