(* ===== verification/SharedBackfill.thy ===== *)
theory SharedBackfill
  imports SharedStoreSafety
begin

text \<open>
  Maintenance of the shared store: the scalar backfill (\<open>collection/maintenance.go\<close>, \<open>collection/milvus/backfill.go\<close>,
  \<open>SharedStore.BackfillScalars\<close>), the deletion of items and the sweep of unreferenced vectors. The query
  iterator of a backfill reads the rows as they are when it opens; a filter text is what it selects.
  The backfill writes the occurrences before it rebuilds the supersets, so a failure in between leaves
  occurrences that the supersets do not cover, and a repeated backfill no longer repairs them.
\<close>

section \<open>Backfill values\<close>

record scalar_backfill =
  BfItemColumn :: string
  BfColumns :: "scalar_column list"
  BfValues :: "(string, (string, scalar_value) gomap) gomap"
  BfLegacyPathFamilies :: "string list"
  BfDryRun :: bool

definition ScalarValueMissing :: "scalar_value \<Rightarrow> bool" where
  "ScalarValueMissing v \<longleftrightarrow> SvNull v \<or> (SvType v = ScalarTypeString \<and> SvString v = [])"

definition Needs :: "scalar_backfill \<Rightarrow> (string, scalar_value) gomap \<Rightarrow> bool" where
  "Needs bf stored \<longleftrightarrow> list_ex (\<lambda>c. ScalarValueMissing (gm_get0 EmptyScalar stored (ColName c))) (BfColumns bf)"

fun lastIndexByte :: "string \<Rightarrow> char \<Rightarrow> nat option" where
  "lastIndexByte [] c = None"
| "lastIndexByte (x # s) c = (case lastIndexByte s c of Some i \<Rightarrow> Some (Suc i) | None \<Rightarrow> if x = c then Some 0 else None)"

lemma lastIndexByte_split: "lastIndexByte s c = Some i \<Longrightarrow> i < length s \<and> s = take i s @ c # drop (Suc i) s"
  by (induction s arbitrary: i) (auto split: option.splits if_splits)

function legacyItem_loop :: "(string, 'v) gomap \<Rightarrow> string \<Rightarrow> string" where
  "legacyItem_loop values remainder =
     (case lastIndexByte remainder (CHR ''/'') of
        None \<Rightarrow> []
      | Some i \<Rightarrow>
          if i = 0 then []
          else if map_of values (take i remainder) \<noteq> None then take i remainder
          else legacyItem_loop values (take i remainder))"
  by auto
termination
  by (relation "measure (length \<circ> snd)") (auto dest: lastIndexByte_split)

declare legacyItem_loop.simps [simp del]

fun legacyPathItem :: "(string, 'v) gomap \<Rightarrow> string list \<Rightarrow> string \<Rightarrow> string" where
  "legacyPathItem values [] relativePath = []"
| "legacyPathItem values (family # families) relativePath =
     (if hasPrefix relativePath family then legacyItem_loop values (drop (length family) relativePath)
      else legacyPathItem values families relativePath)"

text \<open>Only the first family that is a prefix of the path is tried.\<close>

lemma legacyPathItem_first_family:
  "legacyPathItem [(''x'', ())] [''a/'', ''a/b/''] ''a/b/x/f'' = [] \<and> legacyPathItem [(''x'', ())] [''a/b/''] ''a/b/x/f'' = ''x''"
  by code_simp

definition ItemValues :: "scalar_backfill \<Rightarrow> string \<Rightarrow> string \<Rightarrow> (string, scalar_value) gomap option" where
  "ItemValues bf itemID relativePath =
     (let item = (if itemID = [] \<and> BfLegacyPathFamilies bf \<noteq> []
                  then legacyPathItem (BfValues bf) (BfLegacyPathFamilies bf) relativePath else itemID)
      in if item = [] then None else map_of (BfValues bf) item)"

definition Filled ::
  "scalar_backfill \<Rightarrow> (string, scalar_value) gomap \<Rightarrow> (string, scalar_value) gomap \<Rightarrow> (string, scalar_value) gomap \<times> bool" where
  "Filled bf stored vs =
     fold (\<lambda>c (filled, changed).
        let old = gm_get0 EmptyScalar stored (ColName c); new = gm_get0 EmptyScalar vs (ColName c)
        in if ScalarValueMissing old \<and> new \<noteq> old then (gm_put (ColName c) new filled, True)
           else (gm_put (ColName c) old filled, changed)) (BfColumns bf) ([], False)"

section \<open>Pages of rows\<close>

text \<open>The tests of one column and the rows the filter text selects; an empty text selects all rows.\<close>

definition missingTests :: "scalar_column \<Rightarrow> string list" where
  "missingTests c =
     (if ColNullable c then [ColName c @ '' is null''] else [])
     @ (if ColType c = ScalarTypeString then [ColName c @ '' == '' @ [CHR 0x22, CHR 0x22]] else [])"

definition scalarBackfillFilter :: "scalar_column list \<Rightarrow> string" where
  "scalarBackfillFilter columns =
     joinStrings (map (\<lambda>c. ''('' @ joinStrings (missingTests c) '' or '' @ '')'') (filter (\<lambda>c. missingTests c \<noteq> []) columns)) '' or ''"

definition backfillSelects :: "scalar_column list \<Rightarrow> 'f occurrence \<Rightarrow> bool" where
  "backfillSelects columns occ \<longleftrightarrow>
     scalarBackfillFilter columns = []
     \<or> list_ex (\<lambda>c. (ColNullable c \<and> ScState (cellOf occ (ColName c)) = ScalarCellNull)
          \<or> (ColType c = ScalarTypeString \<and> ScState (cellOf occ (ColName c)) = ScalarCellValue
             \<and> SvString (ScValue (cellOf occ (ColName c))) = [])) columns"

text \<open>\<open>ScalarValueAt\<close> and \<open>optionalStringAt\<close>; a missing or wrongly typed column is an error.\<close>

definition ScalarValueAt :: "scalar_column \<Rightarrow> scalar_cell \<Rightarrow> scalar_value option" where
  "ScalarValueAt d cell =
     (case ScState cell of
        ScalarCellAbsent \<Rightarrow> None
      | ScalarCellNull \<Rightarrow> Some (EmptyScalar\<lparr>SvType := ColType d, SvNull := True\<rparr>)
      | ScalarCellValue \<Rightarrow> if SvType (ScValue cell) = ColType d then Some (ScValue cell) else None)"

definition itemTextAt :: "scalar_cell \<Rightarrow> string option" where
  "itemTextAt cell =
     (case ScState cell of
        ScalarCellAbsent \<Rightarrow> None
      | ScalarCellNull \<Rightarrow> Some []
      | ScalarCellValue \<Rightarrow> if SvType (ScValue cell) = ScalarTypeString then Some (SvString (ScValue cell)) else None)"

definition storedBackfillValues :: "scalar_column list \<Rightarrow> 'f occurrence \<Rightarrow> (string, scalar_value) gomap option" where
  "storedBackfillValues columns occ =
     (if list_all (\<lambda>c. ScalarValueAt c (cellOf occ (ColName c)) \<noteq> None) columns
      then Some (fold (\<lambda>c. gm_put (ColName c) (the (ScalarValueAt c (cellOf occ (ColName c))))) columns []) else None)"

record 'f backfill_page =
  PgRows :: "(string \<times> 'f collection_row) list"
  PgChanged :: nat
  PgOrphan :: nat

definition scalarBackfillRow :: "string \<Rightarrow> (string, scalar_value) gomap \<Rightarrow> 'f collection_row" where
  "scalarBackfillRow relativePath scalars =
     \<lparr>RowID = [], RowContent = [], RowRelativePath = relativePath, RowStartLine = 0, RowEndLine = 0, RowFileExtension = [],
      RowMetadata = [], RowSplitPart = 0, RowSplitPartRecorded = False, RowVector = [], RowScalars = scalars\<rparr>"

definition readBackfillRow ::
  "scalar_backfill \<Rightarrow> string \<times> 'f occurrence \<Rightarrow> 'f backfill_page \<Rightarrow> 'f backfill_page option" where
  "readBackfillRow bf x page =
     (case storedBackfillValues (BfColumns bf) (snd x) of
        None \<Rightarrow> None
      | Some stored \<Rightarrow>
          if \<not> Needs bf stored then Some page
          else (case itemTextAt (cellOf (snd x) (BfItemColumn bf)) of
             None \<Rightarrow> None
           | Some item \<Rightarrow> (case ItemValues bf item (RowRelativePath (OcRow (snd x))) of
               None \<Rightarrow> Some (page\<lparr>PgOrphan := PgOrphan page + 1\<rparr>)
             | Some vs \<Rightarrow>
                 let (filled, changed) = Filled bf stored vs; page' = page\<lparr>PgChanged := PgChanged page + 1\<rparr>
                 in Some (if changed
                          then page'\<lparr>PgRows := PgRows page @ [(fst x, scalarBackfillRow (RowRelativePath (OcRow (snd x))) filled)]\<rparr>
                          else page'))))"

fun readBackfillRows ::
  "scalar_backfill \<Rightarrow> (string \<times> 'f occurrence) list \<Rightarrow> 'f backfill_page \<Rightarrow> 'f backfill_page option" where
  "readBackfillRows bf [] page = Some page"
| "readBackfillRows bf (x # xs) page =
     (case readBackfillRow bf x page of None \<Rightarrow> None | Some page' \<Rightarrow> readBackfillRows bf xs page')"

definition readScalarBackfillPage :: "scalar_backfill \<Rightarrow> (string \<times> 'f occurrence) list \<Rightarrow> 'f backfill_page option" where
  "readScalarBackfillPage bf rows = readBackfillRows bf rows \<lparr>PgRows = [], PgChanged = 0, PgOrphan = 0\<rparr>"

definition fillCells :: "(string, scalar_cell) gomap \<Rightarrow> 'f occurrence \<Rightarrow> 'f occurrence" where
  "fillCells cells occ = occ\<lparr>OcCells := fold (\<lambda>(n, c). gm_put n c) cells (OcCells occ)\<rparr>"

definition writeScalarBackfill ::
  "call_oracle \<Rightarrow> scalar_column list \<Rightarrow> 'f backfill_page \<Rightarrow> 'f shared_state \<Rightarrow> 'f shared_state \<times> shared_error option" where
  "writeScalarBackfill orc columns page s =
     (if list_all (\<lambda>x. partialCells columns (snd x) \<noteq> None) (PgRows page)
      then writeCall orc (partialUpdate (map (\<lambda>(i, r). (i, fillCells (the (partialCells columns r)))) (PgRows page))) s
      else (s, Some SharedInvalid))"

section \<open>The backfill of a collection\<close>

definition scalarBackfillBatchSize :: nat where "scalarBackfillBatchSize = 1000"

text \<open>State, changed and orphan counts, and the error. Each page and the end of the iterator is one request.\<close>

fun backfillPages ::
  "call_oracle \<Rightarrow> scalar_backfill \<Rightarrow> (string \<times> 'f occurrence) list list \<Rightarrow> nat \<Rightarrow> nat \<Rightarrow> 'f shared_state
    \<Rightarrow> 'f shared_state \<times> nat \<times> nat \<times> shared_error option" where
  "backfillPages orc bf [] changed orphan s = (let (s', e) = readCall orc s in (s', changed, orphan, e))"
| "backfillPages orc bf (p # ps) changed orphan s =
     (case readCall orc s of
        (s', Some e) \<Rightarrow> (s', changed, orphan, Some e)
      | (s', None) \<Rightarrow>
          (case readScalarBackfillPage bf p of
             None \<Rightarrow> (s', changed, orphan, Some SharedInvalid)
           | Some page \<Rightarrow>
               let changed' = changed + PgChanged page; orphan' = orphan + PgOrphan page
               in if BfDryRun bf \<or> PgRows page = [] then backfillPages orc bf ps changed' orphan' s'
                  else (case writeScalarBackfill orc (BfColumns bf) page s' of
                          (t, Some e) \<Rightarrow> (t, changed', orphan', Some e)
                        | (t, None) \<Rightarrow> backfillPages orc bf ps changed' orphan' t)))"

definition BackfillScalars ::
  "call_oracle \<Rightarrow> scalar_backfill \<Rightarrow> 'f shared_state \<Rightarrow> 'f shared_state \<times> nat \<times> nat \<times> shared_error option" where
  "BackfillScalars orc bf s =
     (if BfColumns bf = [] then (s, 0, 0, Some SharedInvalid)
      else case readCall orc s of
        (s', Some e) \<Rightarrow> (s', 0, 0, Some e)
      | (s', None) \<Rightarrow>
          backfillPages orc bf
            (batchesOf scalarBackfillBatchSize (filter (\<lambda>x. backfillSelects (BfColumns bf) (snd x)) (ShOccurrences s'))) 0 0 s')"

definition deleteItemIDBatchSize :: nat where "deleteItemIDBatchSize = 256"

definition itemIDsSelect :: "string \<Rightarrow> string list \<Rightarrow> 'f occurrence \<Rightarrow> bool" where
  "itemIDsSelect column ids occ \<longleftrightarrow>
     ScState (cellOf occ column) = ScalarCellValue \<and> SvType (ScValue (cellOf occ column)) = ScalarTypeString
     \<and> SvString (ScValue (cellOf occ column)) \<in> set ids"

definition pathPrefixSelects :: "string \<Rightarrow> 'f occurrence \<Rightarrow> bool" where
  "pathPrefixSelects prefix occ \<longleftrightarrow> hasPrefix (RowRelativePath (OcRow occ)) prefix"

definition backfillExpressions :: "scalar_backfill \<Rightarrow> ('f occurrence \<Rightarrow> bool) list" where
  "backfillExpressions bf =
     (let itemIDs = sort (map fst (BfValues bf))
      in map (itemIDsSelect (BfItemColumn bf)) (batchesOf deleteItemIDBatchSize itemIDs)
         @ concat (map (\<lambda>family. map (\<lambda>item. pathPrefixSelects (family @ item @ ''/'')) itemIDs) (BfLegacyPathFamilies bf)))"

fun affectedKeys ::
  "call_oracle \<Rightarrow> ('f occurrence \<Rightarrow> bool) list \<Rightarrow> string list \<Rightarrow> 'f shared_state \<Rightarrow> 'f shared_state \<times> (shared_error + string list)" where
  "affectedKeys orc [] keys s = (s, Inr keys)"
| "affectedKeys orc (p # ps) keys s =
     (case readCall orc s of
        (s', Some e) \<Rightarrow> (s', Inl e)
      | (s', None) \<Rightarrow> affectedKeys orc ps (keys @ iterateVectorKeys p s') s')"

definition SharedBackfillScalars ::
  "call_oracle \<Rightarrow> scalar_column list \<Rightarrow> scalar_backfill \<Rightarrow> 'f shared_state \<Rightarrow> 'f shared_state \<times> nat \<times> nat \<times> shared_error option" where
  "SharedBackfillScalars orc scalars bf s =
     (case BackfillScalars orc bf s of
        (s1, changed, orphan, err) \<Rightarrow>
          if err \<noteq> None \<or> BfDryRun bf \<or> changed = 0 then (s1, changed, orphan, err)
          else (case affectedKeys orc (backfillExpressions bf) [] s1 of
                  (s2, Inl e) \<Rightarrow> (s2, changed, orphan, Some e)
                | (s2, Inr keys) \<Rightarrow>
                    (case readCall orc s2 of
                       (s3, Some e) \<Rightarrow> (s3, changed, orphan, Some e)
                     | (s3, None) \<Rightarrow>
                         let (s4, e) = rebuildSupersets orc scalars (remdups_adj (sort keys)) s3
                         in (s4, changed, orphan, e))))"

section \<open>A failed rebuild is not repaired\<close>

definition turnColumns :: "scalar_column list" where
  "turnColumns =
     [\<lparr>ColName = ''conversation'', ColType = ScalarTypeString, ColNullable = False, ColMaxLength = 64\<rparr>,
      \<lparr>ColName = ''turn'', ColType = ScalarTypeInt64, ColNullable = True, ColMaxLength = 0\<rparr>]"

definition turnRow :: "int collection_row" where
  "turnRow = (sampleRow ''r1'' 0)\<lparr>RowScalars := [(''conversation'', StringScalar ''c1'')]\<rparr>"

definition turnBackfill :: scalar_backfill where
  "turnBackfill = \<lparr>BfItemColumn = ''conversation'', BfColumns = filter (\<lambda>c. ColName c = ''turn'') turnColumns,
     BfValues = [(''c1'', [(''turn'', Int64Scalar 5)])], BfLegacyPathFamilies = [], BfDryRun = False\<rparr>"

definition turnStore :: "int shared_state" where
  "turnStore = fst (SharedUpsert (\<lambda>v. ''k'') (\<lambda>n. CallOk) turnColumns [turnRow] \<lparr>ShOccurrences = [], ShVectors = [], ShCalls = 0\<rparr>)"

definition turnFailed :: "int shared_state \<times> nat \<times> nat \<times> shared_error option" where
  "turnFailed = SharedBackfillScalars (\<lambda>n. if n = 12 then CallFailed else CallOk) turnColumns turnBackfill turnStore"

definition turnRetried :: "int shared_state \<times> nat \<times> nat \<times> shared_error option" where
  "turnRetried = SharedBackfillScalars (\<lambda>n. CallOk) turnColumns turnBackfill (fst turnFailed)"

definition turnFilter :: filter_node where
  "turnFilter = ColumnRange ''turn'' (Some 3) (Some 9)"

lemma turnFailed_result: "snd turnFailed = (1, 0, Some SharedCall)"
  by code_simp

lemma turnRetried_result: "snd turnRetried = (0, 0, None)"
  by code_simp

lemma turnRetried_gap:
  "list_ex (\<lambda>(i, occ). evaluateFilterCells (cellOf occ) turnFilter = truthTrue
      \<and> (case map_of (ShVectors (fst turnRetried)) (OcKey occ) of None \<Rightarrow> False | Some row \<Rightarrow> \<not> supersetSelects turnColumns turnFilter row))
    (ShOccurrences (fst turnRetried))"
  by code_simp

section \<open>Row ids stay unique\<close>

lemma puts_wf: "gm_wf m \<Longrightarrow> gm_wf (fold (\<lambda>(k, v). gm_put k v) rows m)"
  by (induction rows arbitrary: m) auto

lemma dels_wf: "gm_wf m \<Longrightarrow> gm_wf (fold gm_del ks m)"
  by (induction ks arbitrary: m) auto

lemma partialUpdate_wf: "gm_wf (ShOccurrences s) \<Longrightarrow> gm_wf (ShOccurrences (partialUpdate us s))"
proof -
  have "gm_wf m \<Longrightarrow> gm_wf (fold (\<lambda>(i, f) m. case map_of m i of None \<Rightarrow> m | Some occ \<Rightarrow> gm_put i (f occ) m) us m)" for m
    by (induction us arbitrary: m) (auto split: option.splits)
  then show "gm_wf (ShOccurrences s) \<Longrightarrow> gm_wf (ShOccurrences (partialUpdate us s))" by (simp add: partialUpdate_def)
qed

lemma putOccurrences_wf: "gm_wf (ShOccurrences s) \<Longrightarrow> gm_wf (ShOccurrences (putOccurrences rows s))"
  by (simp add: putOccurrences_def puts_wf)

definition uniqueIDs :: "'f shared_state \<Rightarrow> bool" where
  "uniqueIDs s \<longleftrightarrow> gm_wf (ShOccurrences s) \<and> gm_wf (ShVectors s)"

lemma uniqueIDs_same: "sameStore s t \<Longrightarrow> uniqueIDs s \<Longrightarrow> uniqueIDs t"
  by (simp add: uniqueIDs_def sameStore_def)

lemma uniqueIDs_calls [simp]: "uniqueIDs (s\<lparr>ShCalls := n\<rparr>) = uniqueIDs s"
  by (simp add: uniqueIDs_def)

lemma uniqueIDs_putVectors: "uniqueIDs s \<Longrightarrow> uniqueIDs (putVectors rows s)"
  by (simp add: putVectors_def uniqueIDs_def puts_wf)

lemma uniqueIDs_delVectors: "uniqueIDs s \<Longrightarrow> uniqueIDs (s\<lparr>ShVectors := fold gm_del ks (ShVectors s)\<rparr>)"
  by (simp add: uniqueIDs_def dels_wf)

lemma uniqueIDs_read: "uniqueIDs s \<Longrightarrow> uniqueIDs (fst (readCall orc s))" "uniqueIDs s \<Longrightarrow> uniqueIDs (fst (readBatches orc ks s))"
  using uniqueIDs_same readCall_same readBatches_same by blast+

lemma uniqueIDs_put: "uniqueIDs s \<Longrightarrow> uniqueIDs (putOccurrences rows s)" "uniqueIDs s \<Longrightarrow> uniqueIDs (partialUpdate us s)"
  by (simp_all add: uniqueIDs_def putOccurrences_wf partialUpdate_wf)
    (simp_all add: putOccurrences_def partialUpdate_def)

lemma uniqueIDs_write: "(\<And>t. uniqueIDs t \<Longrightarrow> uniqueIDs (f t)) \<Longrightarrow> uniqueIDs s \<Longrightarrow> uniqueIDs (fst (writeCall orc f s))"
  by (rule writeCall_cases [of s orc f]) (auto intro: uniqueIDs_same)

lemmas uniqueIDs_then = andThen_fst [where P = uniqueIDs]

lemma uniqueIDs_vectors: "uniqueIDs s \<Longrightarrow> uniqueIDs (fst (upsertVectorBatches orc dimension scalars bs s))"
  by (induction bs arbitrary: s) (auto split: option.splits intro!: uniqueIDs_then uniqueIDs_write uniqueIDs_putVectors)

lemma uniqueIDs_occurrences: "uniqueIDs s \<Longrightarrow> uniqueIDs (fst (upsertOccurrenceBatches orc scalars bs s))"
  by (induction bs arbitrary: s)
    (auto split: option.splits intro!: uniqueIDs_then uniqueIDs_write uniqueIDs_put)

lemma uniqueIDs_remove: "uniqueIDs s \<Longrightarrow> uniqueIDs (fst (removeUnreferencedKeys orc bs s))"
  by (induction bs arbitrary: s) (auto simp: Let_def intro!: uniqueIDs_then uniqueIDs_write uniqueIDs_read uniqueIDs_delVectors)

lemma uniqueIDs_delete: "uniqueIDs s \<Longrightarrow> uniqueIDs (fst (deleteOccurrencesLoop orc ps affected s))"
proof (induction ps arbitrary: affected s)
  case Nil
  then show ?case by (simp add: deleteUnreferencedVectors_def uniqueIDs_remove)
next
  case (Cons p ps)
  have "uniqueIDs (s\<lparr>ShOccurrences := filter (\<lambda>x. \<not> p (snd x)) (ShOccurrences s)\<rparr>)" if "uniqueIDs s" for s
    using that by (simp add: uniqueIDs_def gm_wf_def distinct_map_filter)
  with Cons show ?case by (auto intro!: uniqueIDs_then uniqueIDs_write uniqueIDs_read)
qed

lemma uniqueIDs_rebuild: "uniqueIDs s \<Longrightarrow> uniqueIDs (fst (rebuildSupersetsLoop orc scalars bs s))"
  by (induction bs arbitrary: s)
    (auto simp: Let_def split: option.splits intro!: uniqueIDs_then uniqueIDs_write uniqueIDs_read uniqueIDs_putVectors)

lemma uniqueIDs_partial: "uniqueIDs s \<Longrightarrow> uniqueIDs (fst (partialUpdateBatches orc bs s))"
  by (induction bs arbitrary: s)
    (auto intro!: uniqueIDs_then uniqueIDs_write uniqueIDs_put)

lemma uniqueIDs_writeVectors: "uniqueIDs s \<Longrightarrow> uniqueIDs (fst (writeVectors orc dimension scalars records s))"
  unfolding writeVectors_def
  by (auto split: option.splits intro!: uniqueIDs_then uniqueIDs_read uniqueIDs_vectors)

lemma uniqueIDs_widen: "uniqueIDs s \<Longrightarrow> uniqueIDs (fst (widenSupersets orc scalars keyByID rows s))"
  unfolding widenSupersets_def
  by (auto simp: Let_def intro!: uniqueIDs_then uniqueIDs_read uniqueIDs_writeVectors)

lemma shared_step_uniqueIDs: "shared_step vectorKey scalars s t \<Longrightarrow> uniqueIDs s \<Longrightarrow> uniqueIDs t"
proof (induction rule: shared_step.induct)
  case (shared_upsert s orc rows)
  then show ?case
    by (auto simp: SharedUpsert_def writeRows_def Let_def deleteUnreferencedVectors_def
        intro!: uniqueIDs_then uniqueIDs_read uniqueIDs_writeVectors uniqueIDs_occurrences uniqueIDs_remove)
next
  case (shared_update s orc columns rows)
  then show ?case
    by (auto simp: UpdateRowScalars_def Let_def rebuildSupersets_def split: option.splits
        intro!: uniqueIDs_then uniqueIDs_read uniqueIDs_widen uniqueIDs_partial uniqueIDs_rebuild)
qed (auto simp: deleteOccurrences_def rebuildSupersets_def intro: uniqueIDs_delete uniqueIDs_rebuild uniqueIDs_remove)

interpretation unique: invariant_machine shared_init "declaredStep vectorKey scalars" uniqueIDs
  by unfold_locales (simp add: shared_init_def uniqueIDs_def, use shared_step_uniqueIDs in \<open>auto simp: declaredStep_def\<close>)

section \<open>Which occurrences a backfill writes\<close>

definition belongs :: "scalar_backfill \<Rightarrow> 'f occurrence \<Rightarrow> bool" where
  "belongs bf occ \<longleftrightarrow> list_ex (\<lambda>p. p occ) (backfillExpressions bf)"

lemma belongs_item:
  assumes "itemIDsSelect (BfItemColumn bf) [item] occ" "map_of (BfValues bf) item \<noteq> None"
  shows "belongs bf occ"
proof -
  let ?ids = "sort (map fst (BfValues bf))"
  have "item \<in> set (concat (batchesOf deleteItemIDBatchSize ?ids))"
    using assms(2) by (simp add: concat_batchesOf deleteItemIDBatchSize_def map_of_eq_None_iff)
  then obtain b where "b \<in> set (batchesOf deleteItemIDBatchSize ?ids)" "item \<in> set b" by auto
  then have "itemIDsSelect (BfItemColumn bf) b occ" "itemIDsSelect (BfItemColumn bf) b \<in> set (backfillExpressions bf)"
    using assms(1) by (simp_all add: itemIDsSelect_def backfillExpressions_def Let_def)
  then show ?thesis unfolding belongs_def list_ex_iff by blast
qed

lemma belongs_path:
  assumes "family \<in> set (BfLegacyPathFamilies bf)" "map_of (BfValues bf) item \<noteq> None"
    and "hasPrefix (RowRelativePath (OcRow occ)) (family @ item @ ''/'')"
  shows "belongs bf occ"
proof -
  have "item \<in> set (sort (map fst (BfValues bf)))" using assms(2) by (simp add: map_of_eq_None_iff)
  with assms(1) have "pathPrefixSelects (family @ item @ ''/'') \<in> set (backfillExpressions bf)"
    by (force simp: backfillExpressions_def Let_def)
  with assms(3) show ?thesis unfolding belongs_def list_ex_iff by (metis pathPrefixSelects_def)
qed

lemma hasPrefix_iff: "hasPrefix s p \<longleftrightarrow> (\<exists>r. s = p @ r)"
  unfolding hasPrefix_def by (metis append_eq_conv_conj append_take_drop_id)

lemma legacyItem_loop_prefix:
  "legacyItem_loop values remainder = item \<Longrightarrow> item \<noteq> [] \<Longrightarrow> map_of values item \<noteq> None \<and> hasPrefix remainder (item @ ''/'')"
proof (induction "values" remainder rule: legacyItem_loop.induct)
  case (1 "values" remainder)
  from "1.prems" obtain i where i: "lastIndexByte remainder (CHR ''/'') = Some i" "i \<noteq> 0"
    by (subst (asm) legacyItem_loop.simps) (auto split: option.splits if_splits)
  note split = lastIndexByte_split [OF i(1)]
  show ?case
  proof (cases "map_of values (take i remainder) \<noteq> None")
    case True
    with "1.prems" i have "item = take i remainder" by (subst (asm) legacyItem_loop.simps) auto
    with True split show ?thesis by (auto simp: hasPrefix_iff)
  next
    case False
    with "1.prems" i have "legacyItem_loop values (take i remainder) = item" by (subst (asm) legacyItem_loop.simps) auto
    with "1.IH" [OF i(1,2)] False "1.prems"(2) have "map_of values item \<noteq> None" "hasPrefix (take i remainder) (item @ ''/'')" by auto
    moreover have "hasPrefix remainder (take i remainder)" by (metis append_take_drop_id hasPrefix_iff)
    ultimately show ?thesis by (auto simp: hasPrefix_iff)
  qed
qed

lemma legacyPathItem_prefix:
  "legacyPathItem values families path = item \<Longrightarrow> item \<noteq> [] \<Longrightarrow>
    map_of values item \<noteq> None \<and> (\<exists>family\<in>set families. hasPrefix path (family @ item @ ''/''))"
proof (induction families)
  case (Cons family families)
  show ?case
  proof (cases "hasPrefix path family")
    case True
    with Cons.prems legacyItem_loop_prefix have "map_of values item \<noteq> None" "hasPrefix (drop (length family) path) (item @ ''/'')"
      by fastforce+
    moreover from True obtain r where "path = family @ r" by (auto simp: hasPrefix_iff)
    ultimately show ?thesis by (auto simp: hasPrefix_iff)
  qed (use Cons in auto)
qed simp

lemma Filled_get:
  assumes "c \<in> set (BfColumns bf)"
  shows "gm_get0 EmptyScalar (fst (Filled bf stored vs)) (ColName c) =
    (let old = gm_get0 EmptyScalar stored (ColName c); new = gm_get0 EmptyScalar vs (ColName c)
     in if ScalarValueMissing old \<and> new \<noteq> old then new else old)"
proof -
  let ?v = "\<lambda>n. let old = gm_get0 EmptyScalar stored n; new = gm_get0 EmptyScalar vs n
     in if ScalarValueMissing old \<and> new \<noteq> old then new else old"
  let ?f = "\<lambda>c (filled, changed).
        let old = gm_get0 EmptyScalar stored (ColName c); new = gm_get0 EmptyScalar vs (ColName c)
        in if ScalarValueMissing old \<and> new \<noteq> old then (gm_put (ColName c) new filled, True)
           else (gm_put (ColName c) old filled, changed)"
  have "c \<in> set cs \<or> gm_get0 EmptyScalar (fst acc) (ColName c) = ?v (ColName c) \<Longrightarrow>
     gm_get0 EmptyScalar (fst (fold ?f cs acc)) (ColName c) = ?v (ColName c)" for cs acc
  proof (induction cs arbitrary: acc)
    case (Cons d cs)
    have "c \<in> set cs \<or> gm_get0 EmptyScalar (fst (?f d acc)) (ColName c) = ?v (ColName c)"
      using Cons.prems by (cases acc) (auto simp: Let_def)
    from Cons.IH [OF this] show ?case by simp
  qed simp
  with assms show ?thesis unfolding Filled_def by (simp add: Let_def)
qed

text \<open>What the backfill writes for one row.\<close>

definition fills :: "scalar_backfill \<Rightarrow> 'f occurrence \<Rightarrow> 'f collection_row \<Rightarrow> bool" where
  "fills bf occ row \<longleftrightarrow>
     (\<exists>stored item vs. storedBackfillValues (BfColumns bf) occ = Some stored
        \<and> itemTextAt (cellOf occ (BfItemColumn bf)) = Some item
        \<and> ItemValues bf item (RowRelativePath (OcRow occ)) = Some vs
        \<and> RowScalars row = fst (Filled bf stored vs))"

lemma readBackfillRow_rows:
  assumes "readBackfillRow bf x page = Some page'"
  obtains "PgRows page' = PgRows page" "PgChanged page \<le> PgChanged page'"
  | row where "PgRows page' = PgRows page @ [(fst x, row)]" "fills bf (snd x) row" "PgChanged page' = Suc (PgChanged page)"
proof -
  from assms obtain stored where stored: "storedBackfillValues (BfColumns bf) (snd x) = Some stored"
    by (auto simp: readBackfillRow_def split: option.splits)
  show thesis
  proof (cases "Needs bf stored")
    case False
    with assms stored that(1) show thesis by (simp add: readBackfillRow_def)
  next
    case True
    with assms stored obtain item where item: "itemTextAt (cellOf (snd x) (BfItemColumn bf)) = Some item"
      by (auto simp: readBackfillRow_def split: option.splits)
    show thesis
    proof (cases "ItemValues bf item (RowRelativePath (OcRow (snd x)))")
      case None
      with assms stored item True that(1) show thesis by (auto simp: readBackfillRow_def)
    next
      case (Some vs)
      let ?row = "scalarBackfillRow (RowRelativePath (OcRow (snd x))) (fst (Filled bf stored vs)) :: 'a collection_row"
      have "fills bf (snd x) ?row" using stored item Some by (auto simp: fills_def scalarBackfillRow_def)
      with assms stored item True Some that show thesis
        by (cases "Filled bf stored vs") (auto simp: readBackfillRow_def Let_def split: if_splits)
    qed
  qed
qed

lemma readBackfillRows_rows:
  "readBackfillRows bf xs page = Some page' \<Longrightarrow>
    \<exists>ns. PgRows page' = PgRows page @ ns \<and> fst ` set ns \<subseteq> fst ` set xs \<and> (distinct (map fst xs) \<longrightarrow> distinct (map fst ns))
      \<and> (\<forall>(i, row)\<in>set ns. \<exists>occ. (i, occ) \<in> set xs \<and> fills bf occ row) \<and> PgChanged page + length ns \<le> PgChanged page'"
proof (induction xs arbitrary: page)
  case (Cons x xs)
  from Cons.prems obtain p where p: "readBackfillRow bf x page = Some p" "readBackfillRows bf xs p = Some page'"
    by (auto split: option.splits)
  from Cons.IH [OF p(2)] obtain ns where ns: "PgRows page' = PgRows p @ ns" "fst ` set ns \<subseteq> fst ` set xs"
    "distinct (map fst xs) \<longrightarrow> distinct (map fst ns)" "\<forall>(i, row)\<in>set ns. \<exists>occ. (i, occ) \<in> set xs \<and> fills bf occ row"
    "PgChanged p + length ns \<le> PgChanged page'" by blast
  from p(1) show ?case
  proof (cases rule: readBackfillRow_rows)
    case 1
    with ns show ?thesis by (intro exI [of _ ns]) auto
  next
    case (2 row)
    with ns show ?thesis by (intro exI [of _ "(fst x, row) # ns"]) (cases x, auto)
  qed
qed simp

lemma fillCells_key [simp]: "OcKey (fillCells cells occ) = OcKey occ" "OcRow (fillCells cells occ) = OcRow occ"
  by (simp_all add: fillCells_def)

lemma fillCells_cell: "cellOf (fillCells cells occ) n = (case map_of (rev cells) n of None \<Rightarrow> cellOf occ n | Some c \<Rightarrow> c)"
  by (simp add: fillCells_def cellOf_def gm_get0_def puts_get split: option.splits)

lemma partial_cell_column:
  assumes "partialCells columns row = Some cells" "map_of (rev cells) n = Some cell"
  obtains c where "c \<in> set columns" "ColName c = n" "declaredScalarInsertCell c (RowScalars row) = Some cell"
  using assms by (fastforce simp: partialCells_def list_all_iff split: if_splits dest!: map_of_SomeD)

lemma storedBackfillValues_get:
  assumes "storedBackfillValues columns occ = Some stored" "c \<in> set columns" "ScState (cellOf occ (ColName c)) = ScalarCellValue"
  shows "gm_get0 EmptyScalar stored (ColName c) = ScValue (cellOf occ (ColName c)) \<and> SvType (ScValue (cellOf occ (ColName c))) = ColType c"
proof -
  let ?f = "\<lambda>c. gm_put (ColName c) (the (ScalarValueAt c (cellOf occ (ColName c))))"
  have all: "list_all (\<lambda>c. ScalarValueAt c (cellOf occ (ColName c)) \<noteq> None) columns" and st: "stored = fold ?f columns []"
    using assms(1) by (auto simp: storedBackfillValues_def split: if_splits)
  have val: "ScalarValueAt d (cellOf occ (ColName d)) = Some (ScValue (cellOf occ (ColName d))) \<and> SvType (ScValue (cellOf occ (ColName d))) = ColType d"
    if "ScalarValueAt d (cellOf occ (ColName d)) \<noteq> None" "ScState (cellOf occ (ColName d)) = ScalarCellValue" for d
    using that by (auto simp: ScalarValueAt_def split: if_splits)
  have "c \<in> set cs \<or> gm_get0 EmptyScalar m (ColName c) = ScValue (cellOf occ (ColName c)) \<Longrightarrow>
     list_all (\<lambda>c. ScalarValueAt c (cellOf occ (ColName c)) \<noteq> None) cs \<Longrightarrow>
     gm_get0 EmptyScalar (fold ?f cs m) (ColName c) = ScValue (cellOf occ (ColName c))" for cs m
  proof (induction cs arbitrary: m)
    case (Cons d cs)
    have "c \<in> set cs \<or> gm_get0 EmptyScalar (?f d m) (ColName c) = ScValue (cellOf occ (ColName c))"
    proof (cases "ColName d = ColName c")
      case True
      with assms(3) val [of d] Cons.prems(2) show ?thesis by simp
    qed (use Cons.prems(1) in auto)
    from Cons.IH [OF this] Cons.prems(2) show ?case by simp
  qed simp
  with st all assms(2) val [of c] assms(3) show ?thesis by (auto simp: list_all_iff)
qed

text \<open>A filled occurrence keeps its item: by its item column, or by the path of a legacy row.\<close>

lemma fill_belongs:
  assumes typed: "cellsTyped scalars (cellOf occ)" and req: "requireStoredColumns scalars (BfColumns bf)"
    and fills: "fills bf occ row" and cells: "partialCells (BfColumns bf) row = Some cells"
  shows "belongs bf (fillCells cells occ)"
proof -
  let ?n = "BfItemColumn bf"
  from fills obtain stored item vs where stored: "storedBackfillValues (BfColumns bf) occ = Some stored"
    and item: "itemTextAt (cellOf occ ?n) = Some item" "ItemValues bf item (RowRelativePath (OcRow occ)) = Some vs"
    and row: "RowScalars row = fst (Filled bf stored vs)" by (auto simp: fills_def)
  show ?thesis
  proof (cases "item = []")
    case True
    with item(2) have "legacyPathItem (BfValues bf) (BfLegacyPathFamilies bf) (RowRelativePath (OcRow occ)) \<noteq> []"
      by (auto simp: ItemValues_def split: if_splits)
    from legacyPathItem_prefix [OF refl this] show ?thesis by (auto intro: belongs_path)
  next
    case False
    then have known: "map_of (BfValues bf) item \<noteq> None" using item(2) by (auto simp: ItemValues_def)
    from item(1) False have cell: "ScState (cellOf occ ?n) = ScalarCellValue" "SvType (ScValue (cellOf occ ?n)) = ScalarTypeString"
      "SvString (ScValue (cellOf occ ?n)) = item"
      by (auto simp: itemTextAt_def split: scalar_cell_state.splits if_splits)
    have "itemIDsSelect ?n [item] (fillCells cells occ)"
    proof (cases "map_of (rev cells) ?n")
      case None
      with cell show ?thesis by (simp add: itemIDsSelect_def fillCells_cell)
    next
      case (Some new)
      then obtain c where c: "c \<in> set (BfColumns bf)" "ColName c = ?n" "declaredScalarInsertCell c (RowScalars row) = Some new"
        using partial_cell_column [OF cells] by blast
      have val: "gm_get0 EmptyScalar stored ?n = ScValue (cellOf occ ?n)" "ColType c = ScalarTypeString"
        using storedBackfillValues_get [OF stored c(1)] cell c(2) by auto
      from req c(1) have "map_of (columnsOf scalars) ?n \<noteq> None" by (auto simp: requireStoredColumns_def list_all_iff c(2))
      then obtain d where "d \<in> set scalars" "ColName d = ?n" using columnsOf_get by blast
      with typed cell have nn: "\<not> SvNull (ScValue (cellOf occ ?n))" "validUtf8 item" by (auto simp: cellsTyped_def)
      have "\<not> ScalarValueMissing (ScValue (cellOf occ ?n))" using nn(1) cell(2,3) False by (auto simp: ScalarValueMissing_def)
      with Filled_get [OF c(1)] val(1) c(2) have get: "gm_get0 EmptyScalar (RowScalars row) ?n = ScValue (cellOf occ ?n)"
        by (auto simp: row Let_def)
      have "map_of (RowScalars row) ?n \<noteq> None"
      proof
        assume "map_of (RowScalars row) ?n = None"
        with get have "ScValue (cellOf occ ?n) = EmptyScalar" by (simp add: gm_get0_def)
        with cell(3) False show False by (simp add: EmptyScalar_def)
      qed
      with c(2,3) get nn(1) val(2) have "new = ValueCell ?n (typedScalar ScalarTypeString (ScValue (cellOf occ ?n)))"
        by (auto simp: declaredScalarInsertCell_def Let_def split: if_splits)
      with Some cell(3) nn(2) show ?thesis by (simp add: itemIDsSelect_def fillCells_cell ValueCell_def typedScalar_def StringScalar_def)
    qed
    with known show ?thesis by (rule belongs_item [rotated])
  qed
qed

lemma fill_typed:
  assumes cols: "distinct (map ColName scalars)" and req: "requireStoredColumns scalars columns"
    and typed: "cellsTyped scalars (cellOf occ)" and cells: "partialCells columns row = Some cells"
  shows "cellsTyped scalars (cellOf (fillCells cells occ))"
  unfolding cellsTyped_def
proof (intro ballI impI)
  fix d
  assume d: "d \<in> set scalars" "ScState (cellOf (fillCells cells occ) (ColName d)) = ScalarCellValue"
  show "SvType (ScValue (cellOf (fillCells cells occ) (ColName d))) = ColType d
      \<and> \<not> SvNull (ScValue (cellOf (fillCells cells occ) (ColName d)))
      \<and> validUtf8 (SvString (ScValue (cellOf (fillCells cells occ) (ColName d))))
      \<and> ColType d \<in> {ScalarTypeString, ScalarTypeBool, ScalarTypeInt64}"
  proof (cases "map_of (rev cells) (ColName d)")
    case None
    with d typed show ?thesis by (simp add: fillCells_cell cellsTyped_def)
  next
    case (Some cell)
    then obtain c where c: "c \<in> set columns" "ColName c = ColName d" "declaredScalarInsertCell c (RowScalars row) = Some cell"
      using partial_cell_column [OF cells] by blast
    with Some d stored_column_type [OF req cols c(1) d(1) c(2)] insertCell_value [OF c(3)] show ?thesis
      by (auto simp: fillCells_cell)
  qed
qed

section \<open>A backfill that succeeds keeps the search complete\<close>

definition ownedOrCovered :: "scalar_column list \<Rightarrow> scalar_backfill \<Rightarrow> 'f shared_state \<Rightarrow> bool" where
  "ownedOrCovered scalars bf s \<longleftrightarrow>
     uniqueIDs s \<and> vectorsWf (ShVectors s)
     \<and> (\<forall>i occ. map_of (ShOccurrences s) i = Some occ \<longrightarrow>
          cellsTyped scalars (cellOf occ) \<and> (belongs bf occ \<or> occurrenceCovered scalars (ShVectors s) occ))"

lemma owned_same: "sameStore s t \<Longrightarrow> ownedOrCovered scalars bf t = ownedOrCovered scalars bf s"
  by (simp add: ownedOrCovered_def sameStore_def uniqueIDs_def)

lemma sameStore_trans: "sameStore s t \<Longrightarrow> sameStore t u \<Longrightarrow> sameStore s u"
  by (simp add: sameStore_def)

lemma owned_inv: "sharedInv scalars s \<Longrightarrow> uniqueIDs s \<Longrightarrow> ownedOrCovered scalars bf s"
  unfolding ownedOrCovered_def sharedInv_def occurrenceCovered_def by (metis gm_get_mem image_eqI snd_conv)

lemma partialUpdate_get:
  "distinct (map fst us) \<Longrightarrow> map_of (ShOccurrences (partialUpdate us s)) i =
    (case map_of us i of None \<Rightarrow> map_of (ShOccurrences s) i | Some f \<Rightarrow> map_option f (map_of (ShOccurrences s) i))"
proof -
  have "distinct (map fst us) \<Longrightarrow>
    map_of (fold (\<lambda>(i, f) m. case map_of m i of None \<Rightarrow> m | Some occ \<Rightarrow> gm_put i (f occ) m) us m) i =
    (case map_of us i of None \<Rightarrow> map_of m i | Some f \<Rightarrow> map_option f (map_of m i))" for m
  proof (induction us arbitrary: m)
    case (Cons u us)
    obtain j f where u: "u = (j, f)" by force
    show ?case
    proof (cases "i = j")
      case True
      with Cons.prems u have "map_of us i = None" by (simp add: map_of_eq_None_iff)
      with Cons u True show ?thesis by (auto split: option.splits)
    qed (use Cons u in \<open>auto split: option.splits\<close>)
  qed simp
  then show "distinct (map fst us) \<Longrightarrow> map_of (ShOccurrences (partialUpdate us s)) i =
    (case map_of us i of None \<Rightarrow> map_of (ShOccurrences s) i | Some f \<Rightarrow> map_option f (map_of (ShOccurrences s) i))"
    by (simp add: partialUpdate_def)
qed

lemma write_page_owned:
  assumes cols: "distinct (map ColName scalars)" and req: "requireStoredColumns scalars (BfColumns bf)"
    and owned: "ownedOrCovered scalars bf s"
    and page: "distinct (map fst (PgRows page))" "list_all (\<lambda>x. partialCells (BfColumns bf) (snd x) \<noteq> None) (PgRows page)"
      "\<forall>(i, row)\<in>set (PgRows page). \<exists>occ. map_of (ShOccurrences s) i = Some occ \<and> fills bf occ row"
  defines "t \<equiv> partialUpdate (map (\<lambda>(i, r). (i, fillCells (the (partialCells (BfColumns bf) r)))) (PgRows page)) s"
  shows "ownedOrCovered scalars bf t \<and> (\<forall>i. i \<notin> fst ` set (PgRows page) \<longrightarrow> map_of (ShOccurrences t) i = map_of (ShOccurrences s) i)"
proof -
  let ?us = "map (\<lambda>(i, r). (i, fillCells (the (partialCells (BfColumns bf) r)))) (PgRows page)"
  have fst: "map fst ?us = map fst (PgRows page)" by (simp add: case_prod_unfold comp_def)
  have us: "map_of ?us i = map_option (\<lambda>r. fillCells (the (partialCells (BfColumns bf) r))) (map_of (PgRows page) i)" for i
    by (induction "PgRows page") (simp_all add: map_of_map)
  have get: "map_of (ShOccurrences t) i = (case map_of (PgRows page) i of None \<Rightarrow> map_of (ShOccurrences s) i
      | Some r \<Rightarrow> map_option (fillCells (the (partialCells (BfColumns bf) r))) (map_of (ShOccurrences s) i))" for i
    using partialUpdate_get [of ?us s i] page(1) unfolding t_def us fst by (cases "map_of (PgRows page) i") simp_all
  have vecs: "ShVectors t = ShVectors s" by (simp add: t_def partialUpdate_def)
  have "cellsTyped scalars (cellOf occ') \<and> (belongs bf occ' \<or> occurrenceCovered scalars (ShVectors t) occ')"
    if occ': "map_of (ShOccurrences t) i = Some occ'" for i occ'
  proof (cases "map_of (PgRows page) i")
    case None
    with that get [of i] owned show ?thesis by (simp add: ownedOrCovered_def vecs)
  next
    case (Some r)
    with page(2) obtain cells where cells: "partialCells (BfColumns bf) r = Some cells"
      by (force simp: list_all_iff dest!: map_of_SomeD)
    obtain occ where occ: "map_of (ShOccurrences s) i = Some occ" "fills bf occ r"
      using bspec [OF page(3) map_of_SomeD [OF Some]] by auto
    with Some get [of i] occ' cells have eq: "occ' = fillCells cells occ" by simp
    have typed: "cellsTyped scalars (cellOf occ)" using owned occ(1) by (auto simp: ownedOrCovered_def)
    show ?thesis unfolding eq
      using fill_belongs [OF typed req occ(2) cells] fill_typed [OF cols req typed cells] by blast
  qed
  moreover have "uniqueIDs t" unfolding t_def using owned uniqueIDs_put(2) by (auto simp: ownedOrCovered_def)
  moreover have "map_of (ShOccurrences t) i = map_of (ShOccurrences s) i" if "i \<notin> fst ` set (PgRows page)" for i
  proof -
    from that have "map_of (PgRows page) i = None" by (simp add: map_of_eq_None_iff)
    then show ?thesis by (simp add: get)
  qed
  ultimately show ?thesis using owned by (simp add: ownedOrCovered_def vecs)
qed

lemma readCall_pair: "readCall orc s = (t, e) \<Longrightarrow> sameStore s t"
  using readCall_same [of s orc] by simp

lemma backfillPages_owned:
  assumes cols: "distinct (map ColName scalars)" and req: "requireStoredColumns scalars (BfColumns bf)"
  shows "ownedOrCovered scalars bf s \<Longrightarrow> distinct (map fst (concat ps)) \<Longrightarrow>
    (\<forall>(i, occ)\<in>set (concat ps). map_of (ShOccurrences s) i = Some occ) \<Longrightarrow>
    backfillPages orc bf ps c orphan s = (t, c', orphan', e) \<Longrightarrow>
    ownedOrCovered scalars bf t \<and> c \<le> c' \<and> (c' = c \<or> BfDryRun bf \<longrightarrow> sameStore s t)"
proof (induction ps arbitrary: s c orphan)
  case Nil
  then show ?case using readCall_pair [of orc s] by (auto simp: owned_same split: prod.splits)
next
  case (Cons p ps)
  obtain s1 e1 where rd: "readCall orc s = (s1, e1)" by force
  note same = readCall_pair [OF rd]
  have owned1: "ownedOrCovered scalars bf s1" using Cons.prems(1) owned_same [OF same] by blast
  have cur: "\<forall>(i, occ)\<in>set (concat (p # ps)). map_of (ShOccurrences s1) i = Some occ"
    using Cons.prems(3) same by (auto simp: sameStore_def)
  show ?case
  proof (cases "e1 = None \<and> readScalarBackfillPage bf p \<noteq> None")
    case False
    with Cons.prems(4) rd same owned1 show ?thesis by (auto split: option.splits)
  next
    case True
    then obtain page where page: "readScalarBackfillPage bf p = Some page" by blast
    from readBackfillRows_rows [OF page [unfolded readScalarBackfillPage_def]]
    have ns: "fst ` set (PgRows page) \<subseteq> fst ` set p" "distinct (map fst (PgRows page))"
      "\<forall>(i, row)\<in>set (PgRows page). \<exists>occ. (i, occ) \<in> set p \<and> fills bf occ row" "length (PgRows page) \<le> PgChanged page"
      using Cons.prems(2) by auto
    show ?thesis
    proof (cases "BfDryRun bf \<or> PgRows page = []")
      case skip: True
      have "backfillPages orc bf ps (c + PgChanged page) (orphan + PgOrphan page) s1 = (t, c', orphan', e)"
        using Cons.prems(4) rd True page skip by (auto simp: Let_def)
      from Cons.IH [OF owned1 _ _ this] Cons.prems(2) cur
      have "ownedOrCovered scalars bf t" "c + PgChanged page \<le> c'" "c' = c + PgChanged page \<or> BfDryRun bf \<longrightarrow> sameStore s1 t" by auto
      with same show ?thesis by (auto intro: sameStore_trans)
    next
      case False
      let ?w = "writeScalarBackfill orc (BfColumns bf) page s1"
      obtain s2 e2 where w: "?w = (s2, e2)" by force
      have pos: "0 < PgChanged page" using False ns(4) by (cases "PgRows page") auto
      have fills: "\<forall>(i, row)\<in>set (PgRows page). \<exists>occ. map_of (ShOccurrences s1) i = Some occ \<and> fills bf occ row"
        using ns(3) cur by fastforce
      have s2: "ownedOrCovered scalars bf s2 \<and> (\<forall>i. i \<notin> fst ` set (PgRows page) \<longrightarrow> map_of (ShOccurrences s2) i = map_of (ShOccurrences s1) i)"
      proof (cases "list_all (\<lambda>x. partialCells (BfColumns bf) (snd x) \<noteq> None) (PgRows page)")
        case ok: True
        let ?f = "partialUpdate (map (\<lambda>(i, r). (i, fillCells (the (partialCells (BfColumns bf) r)))) (PgRows page))"
        from w ok have w': "writeCall orc ?f s1 = (s2, e2)" by (simp add: writeScalarBackfill_def)
        show ?thesis
        proof (cases rule: writeCall_cases [of s1 orc ?f])
          case (1 u)
          with w' owned1 owned_same [OF 1(1), of scalars bf] show ?thesis by (simp add: sameStore_def)
        next
          case (2 u)
          have "\<forall>(i, row)\<in>set (PgRows page). \<exists>occ. map_of (ShOccurrences u) i = Some occ \<and> fills bf occ row"
            using fills 2(1) by (simp add: sameStore_def)
          from write_page_owned [OF cols req _ ns(2) ok this] owned_same [OF 2(1)] owned1 2 w' show ?thesis
            by (simp add: sameStore_def)
        qed
      qed (use w owned1 in \<open>simp add: writeScalarBackfill_def\<close>)
      show ?thesis
      proof (cases e2)
        case None
        have "backfillPages orc bf ps (c + PgChanged page) (orphan + PgOrphan page) s2 = (t, c', orphan', e)"
          using Cons.prems(4) rd True page False w None by (auto simp: Let_def)
        moreover have "\<forall>(i, occ)\<in>set (concat ps). map_of (ShOccurrences s2) i = Some occ"
        proof clarify
          fix i occ
          assume mem: "(i, occ) \<in> set (concat ps)"
          with Cons.prems(2) have "i \<notin> fst ` set p" by (force simp: image_iff)
          then have "map_of (ShOccurrences s2) i = map_of (ShOccurrences s1) i" using ns(1) s2 by blast
          moreover have "(i, occ) \<in> set (concat (p # ps))" using mem by simp
          ultimately show "map_of (ShOccurrences s2) i = Some occ" using bspec [OF cur] by fastforce
        qed
        ultimately show ?thesis using Cons.IH [of s2] s2 Cons.prems(2) pos False by fastforce
      next
        case (Some err)
        with Cons.prems(4) rd True page False w s2 pos show ?thesis by (auto simp: Let_def)
      qed
    qed
  qed
qed

lemma affectedKeys_complete:
  "affectedKeys orc ps keys s = (t, r) \<Longrightarrow> sameStore s t \<and>
    (\<forall>ks. r = Inr ks \<longrightarrow> set keys \<subseteq> set ks \<and> (\<forall>occ\<in>snd ` set (ShOccurrences s). list_ex (\<lambda>p. p occ) ps \<longrightarrow> OcKey occ \<in> set ks))"
proof (induction ps arbitrary: keys s)
  case (Cons p ps)
  obtain s1 e1 where rd: "readCall orc s = (s1, e1)" by force
  note same = readCall_pair [OF rd]
  show ?case
  proof (cases e1)
    case None
    with Cons.prems rd have "affectedKeys orc ps (keys @ iterateVectorKeys p s1) s1 = (t, r)" by simp
    from Cons.IH [OF this] have ih: "sameStore s1 t"
      "\<And>ks. r = Inr ks \<Longrightarrow> set keys \<subseteq> set ks \<and> set (iterateVectorKeys p s1) \<subseteq> set ks
        \<and> (\<forall>occ\<in>snd ` set (ShOccurrences s1). list_ex (\<lambda>p. p occ) ps \<longrightarrow> OcKey occ \<in> set ks)" by auto
    have "OcKey occ \<in> set (iterateVectorKeys p s1)" if "occ \<in> snd ` set (ShOccurrences s)" "p occ" for occ
      using that same by (auto simp: iterate_keys sameStore_def)
    with ih same show ?thesis by (fastforce simp: sameStore_def)
  qed (use Cons.prems rd same in auto)
qed (auto simp: sameStore_def)

lemma BackfillScalars_owned:
  assumes "distinct (map ColName scalars)" "requireStoredColumns scalars (BfColumns bf)"
    and "ownedOrCovered scalars bf s" "BackfillScalars orc bf s = (t, c, orphan, e)"
  shows "ownedOrCovered scalars bf t \<and> (c = 0 \<or> BfDryRun bf \<longrightarrow> sameStore s t)"
proof (cases "BfColumns bf = []")
  case True
  with assms(3,4) show ?thesis by (auto simp: BackfillScalars_def sameStore_def)
next
  case False
  obtain s1 e1 where rd: "readCall orc s = (s1, e1)" by force
  note same = readCall_pair [OF rd]
  have owned: "ownedOrCovered scalars bf s1" using assms(3) owned_same [OF same] by blast
  show ?thesis
  proof (cases e1)
    case None
    let ?sel = "filter (\<lambda>x. backfillSelects (BfColumns bf) (snd x)) (ShOccurrences s1)"
    have pages: "backfillPages orc bf (batchesOf scalarBackfillBatchSize ?sel) 0 0 s1 = (t, c, orphan, e)"
      using assms(4) rd None False by (simp add: BackfillScalars_def)
    have cc: "concat (batchesOf scalarBackfillBatchSize ?sel) = ?sel"
      by (rule concat_batchesOf) (simp add: scalarBackfillBatchSize_def)
    have wf: "gm_wf (ShOccurrences s1)" using owned by (simp add: ownedOrCovered_def uniqueIDs_def)
    then have "distinct (map fst ?sel)" by (simp add: gm_wf_def distinct_map_filter)
    moreover have "\<forall>(i, occ)\<in>set ?sel. map_of (ShOccurrences s1) i = Some occ" using gm_wf_mem [OF wf] by auto
    ultimately show ?thesis
      using backfillPages_owned [OF assms(1,2) owned _ _ pages] same unfolding cc by (auto intro: sameStore_trans)
  qed (use assms(4) rd same owned False in \<open>auto simp: BackfillScalars_def\<close>)
qed

lemma backfill_success_inv:
  assumes cols: "distinct (map ColName scalars)" and req: "requireStoredColumns scalars (BfColumns bf)"
    and inv: "sharedInv scalars s" "uniqueIDs s"
    and ok: "SharedBackfillScalars orc scalars bf s = (t, c, orphan, None)"
  shows "sharedInv scalars t"
proof -
  obtain s1 c1 o1 e1 where b: "BackfillScalars orc bf s = (s1, c1, o1, e1)" by (metis prod_cases4)
  note o = BackfillScalars_owned [OF cols req owned_inv [OF inv] b]
  show ?thesis
  proof (cases "e1 \<noteq> None \<or> BfDryRun bf \<or> c1 = 0")
    case True
    with ok b have "t = s1" "BfDryRun bf \<or> c1 = 0" by (auto simp: SharedBackfillScalars_def)
    with o inv(1) show ?thesis using sharedInv_same by blast
  next
    case False
    obtain s2 r where a: "affectedKeys orc (backfillExpressions bf) [] s1 = (s2, r)" by force
    with ok b False obtain keys where r: "r = Inr keys" by (auto simp: SharedBackfillScalars_def split: sum.splits)
    obtain s3 e3 where rd: "readCall orc s2 = (s3, e3)" by force
    let ?bs = "batchesOf vectorKeyBatchSize (remdups_adj (sort keys))"
    have t: "rebuildSupersetsLoop orc scalars ?bs s3 = (t, None)"
      using ok b False a r rd by (auto simp: SharedBackfillScalars_def rebuildSupersets_def split: option.splits prod.splits)
    from affectedKeys_complete [OF a] r readCall_pair [OF rd]
    have same: "sameStore s1 s3" and keys: "\<And>occ. occ \<in> snd ` set (ShOccurrences s1) \<Longrightarrow> belongs bf occ \<Longrightarrow> OcKey occ \<in> set keys"
      by (auto intro: sameStore_trans simp: belongs_def)
    have "cellsTyped scalars (cellOf occ) \<and> (belongs bf occ \<or> occurrenceCovered scalars (ShVectors s1) occ)"
      if "(i, occ) \<in> set (ShOccurrences s1)" for i occ
      using o that gm_wf_mem [of "ShOccurrences s1" i occ] by (auto simp: ownedOrCovered_def uniqueIDs_def)
    then have "coveredExcept scalars (set keys) s1"
      using o keys by (force simp: coveredExcept_def ownedOrCovered_def)
    then have "coveredExcept scalars (set keys) s3" using coveredExcept_same [OF same] by blast
    from rebuildLoop_covered [OF cols this, of orc ?bs] t
    have "coveredExcept scalars (set keys - set (concat ?bs)) t" by simp
    moreover have "set (concat ?bs) = set keys"
      by (subst concat_batchesOf) (simp_all add: vectorKeyBatchSize_def)
    ultimately show ?thesis by (simp add: coveredExcept_none)
  qed
qed


lemma turnStore_reachable: "reach shared_init (declaredStep (\<lambda>v. ''k'') turnColumns) turnStore"
proof -
  have "reach shared_init (declaredStep (\<lambda>v :: int list. ''k'') turnColumns) \<lparr>ShOccurrences = [], ShVectors = [], ShCalls = 0\<rparr>"
    by (rule reach_init) (simp add: shared_init_def)
  then show ?thesis
    unfolding turnStore_def
    by (rule reach_step) (simp add: declaredStep_def turnColumns_def shared_upsert)
qed

definition turnDone :: "int shared_state" where
  "turnDone = fst (SharedBackfillScalars (\<lambda>n. CallOk) turnColumns turnBackfill turnStore)"

lemma turnDone_result: "SharedBackfillScalars (\<lambda>n. CallOk) turnColumns turnBackfill turnStore = (turnDone, 1, 0, None)"
proof -
  have "snd (SharedBackfillScalars (\<lambda>n. CallOk) turnColumns turnBackfill turnStore) = (1, 0, None)" by code_simp
  then show ?thesis by (simp add: turnDone_def prod_eq_iff)
qed



section \<open>Item deletes and the sweep\<close>

definition DeleteItems ::
  "call_oracle \<Rightarrow> string \<Rightarrow> string list \<Rightarrow> string list \<Rightarrow> 'f shared_state \<Rightarrow> 'f shared_state \<times> shared_error option" where
  "DeleteItems orc itemIDColumn itemIDs pathPrefixes s =
     (if itemIDs = [] \<and> pathPrefixes = [] then (s, Some SharedInvalid)
      else if itemIDs \<noteq> [] \<and> itemIDColumn = [] then (s, Some SharedInvalid)
      else deleteOccurrences orc
        (map (itemIDsSelect itemIDColumn) (batchesOf deleteItemIDBatchSize itemIDs)
         @ map pathPrefixSelects (filter (\<lambda>p. p \<noteq> []) pathPrefixes)) s)"

fun sweepPages :: "call_oracle \<Rightarrow> string list list \<Rightarrow> 'f shared_state \<Rightarrow> 'f shared_state \<times> shared_error option" where
  "sweepPages orc [] s = readCall orc s"
| "sweepPages orc (p # ps) s =
     andThen (readCall orc s) (\<lambda>s. andThen (removeUnreferencedKeys orc (batchesOf vectorKeyBatchSize p) s) (sweepPages orc ps))"

definition RemoveUnreferencedVectors :: "call_oracle \<Rightarrow> 'f shared_state \<Rightarrow> 'f shared_state \<times> shared_error option" where
  "RemoveUnreferencedVectors orc s =
     andThen (readCall orc s) (\<lambda>s. andThen (readCall orc s)
       (\<lambda>s. sweepPages orc (batchesOf vectorKeyBatchSize (map fst (ShVectors s))) s))"

text \<open>The keys of a removed batch that remain are referenced, and occurrences never change.\<close>

definition referenced :: "'f shared_state \<Rightarrow> string \<Rightarrow> bool" where
  "referenced s k \<longleftrightarrow> (\<exists>occ\<in>snd ` set (ShOccurrences s). OcKey occ = k)"

lemma removeKeys_referenced:
  "snd (removeUnreferencedKeys orc bs s) = None \<Longrightarrow>
    ShOccurrences (fst (removeUnreferencedKeys orc bs s)) = ShOccurrences s
    \<and> (\<forall>k. map_of (ShVectors (fst (removeUnreferencedKeys orc bs s))) k =
          (if k \<in> set (concat bs) \<and> \<not> referenced s k then None else map_of (ShVectors s) k))"
proof (induction bs arbitrary: s)
  case (Cons b bs)
  let ?s = "fst (readCall orc s)"
  let ?live = "iterateVectorKeys (\<lambda>occ. OcKey occ \<in> set b) ?s"
  let ?un = "filter (\<lambda>k. k \<notin> set ?live) b"
  have un: "k \<in> set ?un \<longleftrightarrow> k \<in> set b \<and> \<not> referenced s k" for k
    by (auto simp: iterate_keys referenced_def readCall_state)
  have rd: "snd (readCall orc s) = None" using Cons.prems by (simp add: andThen_None)
  show ?case
  proof (cases "?un = []")
    case True
    have eq: "removeUnreferencedKeys orc (b # bs) s = removeUnreferencedKeys orc bs ?s"
      using rd True by (simp add: andThen_ok Let_def)
    have none: "\<not> (k \<in> set b \<and> \<not> referenced s k)" for k using un [of k] True by simp
    have ref: "referenced ?s = referenced s" by (simp add: fun_eq_iff referenced_def readCall_state)
    show ?thesis using Cons.IH [of ?s] Cons.prems none unfolding eq ref by (auto simp: readCall_state)
  next
    case False
    let ?del = "\<lambda>s. s\<lparr>ShVectors := fold gm_del ?un (ShVectors s)\<rparr>"
    let ?w = "writeCall orc ?del ?s"
    have eq: "removeUnreferencedKeys orc (b # bs) s = andThen ?w (removeUnreferencedKeys orc bs)"
      using rd False by (simp add: andThen_ok Let_def)
    have w: "snd ?w = None" "snd (removeUnreferencedKeys orc bs (fst ?w)) = None"
      using Cons.prems unfolding eq by (simp_all add: andThen_None)
    have fw: "fst ?w = ?del (?s\<lparr>ShCalls := ShCalls ?s + 1\<rparr>)" by (rule writeCall_ok [OF w(1)])
    have occ: "ShOccurrences (fst ?w) = ShOccurrences s" by (simp add: fw readCall_state)
    have ref: "referenced (fst ?w) = referenced s" by (simp add: fun_eq_iff referenced_def occ)
    have vec: "map_of (ShVectors (fst ?w)) k = (if k \<in> set ?un then None else map_of (ShVectors s) k)" for k
      by (simp add: fw dels_get readCall_state)
    show ?thesis
      using Cons.IH [OF w(2)] unfolding eq andThen_fst_ok [OF w(1)] ref occ vec un by auto
  qed
qed simp

lemma sweepPages_referenced:
  "snd (sweepPages orc ps s) = None \<Longrightarrow>
    ShOccurrences (fst (sweepPages orc ps s)) = ShOccurrences s
    \<and> (\<forall>k. map_of (ShVectors (fst (sweepPages orc ps s))) k =
          (if k \<in> set (concat ps) \<and> \<not> referenced s k then None else map_of (ShVectors s) k))"
proof (induction ps arbitrary: s)
  case Nil
  then show ?case by (simp add: readCall_state)
next
  case (Cons p ps)
  let ?s = "fst (readCall orc s)"
  let ?r = "removeUnreferencedKeys orc (batchesOf vectorKeyBatchSize p) ?s"
  have ok: "snd (readCall orc s) = None" "snd ?r = None" "snd (sweepPages orc ps (fst ?r)) = None"
    using Cons.prems by (auto simp: andThen_None)
  have eq: "sweepPages orc (p # ps) s = sweepPages orc ps (fst ?r)" using ok by (simp add: andThen_ok)
  have cc: "concat (batchesOf vectorKeyBatchSize p) = p" by (rule concat_batchesOf) (simp add: vectorKeyBatchSize_def)
  note r = removeKeys_referenced [OF ok(2), unfolded cc]
  have "referenced (fst ?r) = referenced s" "referenced ?s = referenced s"
    using r by (simp_all add: fun_eq_iff referenced_def readCall_state)
  then show ?case unfolding eq using Cons.IH [OF ok(3)] r by (auto simp: readCall_state)
qed

lemma sweep_exact:
  assumes "snd (RemoveUnreferencedVectors orc s) = None"
  shows "ShOccurrences (fst (RemoveUnreferencedVectors orc s)) = ShOccurrences s
    \<and> (\<forall>k. map_of (ShVectors (fst (RemoveUnreferencedVectors orc s))) k = (if referenced s k then map_of (ShVectors s) k else None))"
proof -
  let ?s1 = "fst (readCall orc s)"
  let ?s2 = "fst (readCall orc ?s1)"
  let ?ps = "batchesOf vectorKeyBatchSize (map fst (ShVectors ?s2))"
  have ok: "snd (readCall orc s) = None" "snd (readCall orc ?s1) = None" "snd (sweepPages orc ?ps ?s2) = None"
    using assms by (auto simp: RemoveUnreferencedVectors_def andThen_None)
  have eq: "RemoveUnreferencedVectors orc s = sweepPages orc ?ps ?s2"
    using ok by (simp add: RemoveUnreferencedVectors_def andThen_ok)
  have cc: "concat ?ps = map fst (ShVectors s)"
    by (subst concat_batchesOf) (simp_all add: vectorKeyBatchSize_def readCall_state)
  have "referenced ?s2 = referenced s" by (simp add: fun_eq_iff referenced_def readCall_state)
  then show ?thesis
    using sweepPages_referenced [OF ok(3), unfolded cc] unfolding eq
    by (auto simp: readCall_state) (metis map_of_eq_None_iff)+
qed

lemma DeleteItems_exact:
  assumes "snd (DeleteItems orc column ids prefixes s) = None"
  shows "ShOccurrences (fst (DeleteItems orc column ids prefixes s)) =
    filter (\<lambda>(i, occ). \<not> (itemIDsSelect column ids occ \<or> (\<exists>p\<in>set prefixes. p \<noteq> [] \<and> hasPrefix (RowRelativePath (OcRow occ)) p)))
      (ShOccurrences s)"
proof -
  let ?ps = "map (itemIDsSelect column) (batchesOf deleteItemIDBatchSize ids) @ map pathPrefixSelects (filter (\<lambda>p. p \<noteq> []) prefixes)"
  have eq: "DeleteItems orc column ids prefixes s = deleteOccurrencesLoop orc ?ps [] s"
    using assms by (auto simp: DeleteItems_def deleteOccurrences_def split: if_splits)
  have cc: "concat (batchesOf deleteItemIDBatchSize ids) = ids" by (rule concat_batchesOf) (simp add: deleteItemIDBatchSize_def)
  have items: "list_ex (\<lambda>p. p occ) (map (itemIDsSelect column) bs) \<longleftrightarrow> itemIDsSelect column (concat bs) occ" for bs and occ :: "'a occurrence"
    by (induction bs) (auto simp: itemIDsSelect_def)
  have paths: "list_ex (\<lambda>p. p occ) (map pathPrefixSelects (filter (\<lambda>p. p \<noteq> []) ps)) \<longleftrightarrow>
      (\<exists>p\<in>set ps. p \<noteq> [] \<and> hasPrefix (RowRelativePath (OcRow occ)) p)" for ps and occ :: "'a occurrence"
    by (induction ps) (auto simp: pathPrefixSelects_def)
  have "list_ex (\<lambda>p. p occ) ?ps \<longleftrightarrow> itemIDsSelect column ids occ \<or> (\<exists>p\<in>set prefixes. p \<noteq> [] \<and> hasPrefix (RowRelativePath (OcRow occ)) p)"
    for occ :: "'a occurrence"
    unfolding list_ex_append items paths cc by (rule refl)
  then show ?thesis
    using deleteOccurrences_table [of orc ?ps "[]" s] assms unfolding eq by (simp add: case_prod_unfold)
qed

text \<open>
  The two maintenance deletes do what their comments say. A successful sweep leaves exactly the
  vectors that some occurrence references, with their rows unchanged and every occurrence in place; a
  successful item delete removes exactly the occurrences whose item is listed or whose path starts with
  a listed prefix, and no other occurrence.
\<close>

theorem maintenance_deletes_exact:
  "(snd (RemoveUnreferencedVectors orc s) = None \<longrightarrow>
      ShOccurrences (fst (RemoveUnreferencedVectors orc s)) = ShOccurrences s
      \<and> (\<forall>k. map_of (ShVectors (fst (RemoveUnreferencedVectors orc s))) k = (if referenced s k then map_of (ShVectors s) k else None)))
   \<and> (snd (DeleteItems orc column ids prefixes s) = None \<longrightarrow>
      ShOccurrences (fst (DeleteItems orc column ids prefixes s)) =
        filter (\<lambda>(i, occ). \<not> (itemIDsSelect column ids occ \<or> (\<exists>p\<in>set prefixes. p \<noteq> [] \<and> hasPrefix (RowRelativePath (OcRow occ)) p)))
          (ShOccurrences s))"
  using sweep_exact DeleteItems_exact by blast

theorem maintenance_deletes_exact_witness:
  "map_of (ShVectors (fst (RemoveUnreferencedVectors (\<lambda>n. CallOk) turnStore))) ''k''
     = (if referenced turnStore ''k'' then map_of (ShVectors turnStore) ''k'' else None)
   \<and> ShOccurrences (fst (DeleteItems (\<lambda>n. CallOk) ''conversation'' [''c1''] [] turnStore)) =
        filter (\<lambda>(i, occ). \<not> (itemIDsSelect ''conversation'' [''c1''] occ)) (ShOccurrences turnStore)"
proof -
  have "snd (RemoveUnreferencedVectors (\<lambda>n. CallOk) turnStore) = None" by code_simp
  moreover have "snd (DeleteItems (\<lambda>n. CallOk) ''conversation'' [''c1''] [] turnStore) = None" by code_simp
  ultimately show ?thesis
    using maintenance_deletes_exact [of "\<lambda>n. CallOk" turnStore "''conversation''" "[''c1'']" "[]"] by simp
qed

end
