(* ===== verification/SearchRanking.thy ===== *)
theory SearchRanking
  imports Complex_Main FilterEval "HOL-Library.Sublist"
begin

text \<open>
  The ranking of a collection search (\<open>collection/milvus/search.go\<close>, \<open>fuseLegs\<close> of \<open>shared_search.go\<close>): the total
  order of candidates, the selection with score floor, group cap and limit, and the fusion of the two
  legs by reciprocal ranks. Scores are elements of a linear order; the floating-point operations of the
  fusion (\<open>1.0 / float64(60 + rank)\<close>, the float64 sum, the rounding to float32) are arguments. NaN scores
  are outside the model: Milvus scores are distances and sums of reciprocals.
\<close>

section \<open>The first elements of a sorted list\<close>

context keyed_order
begin

lemma sorted_filter_eq:
  assumes "sorted_wrt lt xs" "sorted_wrt lt ys" "distinct xs" "distinct ys" "set ys = {x \<in> set xs. P x}"
  shows "ys = filter P xs"
proof (rule sorted_unique)
  show "sorted_wrt lt (filter P xs)" using assms(1) by (rule sorted_wrt_filter)
  show "mset ys = mset (filter P xs)" using assms(3-5) by (intro set_eq_iff_mset_eq_distinct [THEN iffD1]) auto
qed (use assms in auto)

lemma take_filter_all: "(\<And>x. x \<in> set (take d xs) \<Longrightarrow> P x) \<Longrightarrow> take d (filter P xs) = take d xs"
proof (induction xs arbitrary: d)
  case (Cons x xs)
  show ?case
  proof (cases d)
    case (Suc n)
    with Cons.prems have "P x" "\<And>y. y \<in> set (take n xs) \<Longrightarrow> P y" by auto
    with Cons.IH [of n] Suc show ?thesis by simp
  qed simp
qed simp

text \<open>
  The first \<open>d\<close> elements of a sorted selection are those of the whole list when every element left out
  comes after \<open>d\<close> selected ones.
\<close>

lemma take_sort_subset:
  assumes dist: "distinct (map key xs)" "distinct (map key ys)" and sub: "set ys \<subseteq> set xs"
    and late: "\<And>x. x \<in> set xs \<Longrightarrow> x \<notin> set ys \<Longrightarrow> d \<le> card {y \<in> set ys. lt y x}"
  shows "take d (sort_by lt ys) = take d (sort_by lt xs)"
proof -
  let ?s = "sort_by lt xs"
  have dx: "distinct xs" "distinct ys" using dist by (auto simp: distinct_map)
  have ds: "distinct ?s" "distinct (sort_by lt ys)" using dx by (metis mset_sort_by mset_eq_imp_distinct_iff)+
  have so: "sorted_wrt lt ?s" using dist(1) by (rule sorted_sort_by)
  have "sort_by lt ys = filter (\<lambda>x. x \<in> set ys) ?s"
    by (rule sorted_filter_eq [OF so sorted_sort_by [OF dist(2)] ds]) (use sub in auto)
  moreover have "x \<in> set ys" if x: "x \<in> set (take d ?s)" for x
  proof (rule ccontr)
    assume out: "x \<notin> set ys"
    from x obtain i where i: "i < d" "i < length ?s" "?s ! i = x" by (auto simp: in_set_conv_nth)
    have "y \<in> set (take i ?s)" if y: "y \<in> set ys" "lt y x" for y
    proof -
      from y(1) sub obtain j where j: "j < length ?s" "?s ! j = y" by (metis set_sort_by in_set_conv_nth subsetD)
      have "j < i"
      proof (rule ccontr)
        assume "\<not> j < i"
        then consider "j = i" | "i < j" by linarith
        then show False
        proof cases
          case 1
          with i(3) j(2) y(2) show False using less_irrefl by auto
        next
          case 2
          with sorted_wrt_nth_less [OF so 2 j(1)] i(3) j(2) y(2) show False using less_asym by blast
        qed
      qed
      with j show ?thesis by (auto simp: in_set_conv_nth)
    qed
    then have "card {y \<in> set ys. lt y x} \<le> card (set (take i ?s))" by (intro card_mono) auto
    also have "\<dots> \<le> i" by (metis card_length length_take min.bounded_iff)
    finally have "card {y \<in> set ys. lt y x} \<le> i" .
    moreover have "x \<in> set xs" using in_set_takeD [OF x] by simp
    ultimately show False using late [OF _ out] i(1) by fastforce
  qed
  ultimately show ?thesis by (simp add: take_filter_all)
qed

end

section \<open>Candidates\<close>

record 's candidate =
  CdPrimaryKey :: string
  CdRelativePath :: string
  CdGroup :: scalar_cell
  CdScore :: 's

definition defaultSearchLimit :: int where "defaultSearchLimit = 10"
definition RankingDepth :: nat where "RankingDepth = 16384"
definition minimumRankingDepth :: int where "minimumRankingDepth = 64"

text \<open>\<open>int(limit)*4\<close> is computed at 64 bits, so an int32 limit does not overflow.\<close>

definition rankingDepthFor :: "int \<Rightarrow> nat" where
  "rankingDepthFor limit = nat (min (max (limit * 4) minimumRankingDepth) (int RankingDepth))"

definition effectiveLimit :: "int \<Rightarrow> int" where
  "effectiveLimit limit = (if limit \<le> 0 then defaultSearchLimit else limit)"

definition GroupColumnFor :: "scalar_column list \<Rightarrow> string \<Rightarrow> int \<Rightarrow> scalar_column option" where
  "GroupColumnFor scalars groupBy perGroupLimit =
     (if groupBy = [] \<or> perGroupLimit \<le> 0 then None
      else case find (\<lambda>d. ColName d = groupBy) scalars of
        Some d \<Rightarrow> Some d
      | None \<Rightarrow> Some \<lparr>ColName = groupBy, ColType = ScalarTypeString, ColNullable = True, ColMaxLength = 0\<rparr>)"

definition rankedBefore :: "'s::linorder candidate \<Rightarrow> 's candidate \<Rightarrow> bool" where
  "rankedBefore left right =
     (if CdScore left \<noteq> CdScore right then CdScore left > CdScore right
      else if CdRelativePath left \<noteq> CdRelativePath right then CdRelativePath left < CdRelativePath right
      else CdPrimaryKey left < CdPrimaryKey right)"

interpretation ranked: keyed_order rankedBefore CdPrimaryKey
  by unfold_locales (auto simp: rankedBefore_def split: if_splits)

definition sortRankedCandidates :: "'s::linorder candidate list \<Rightarrow> 's candidate list" where
  "sortRankedCandidates candidates = sort_by rankedBefore candidates"

fun selectRanked_loop ::
  "int \<Rightarrow> 's::{linorder, zero} \<Rightarrow> int \<Rightarrow> (string, int) gomap \<Rightarrow> 's candidate list \<Rightarrow> 's candidate list \<Rightarrow> 's candidate list" where
  "selectRanked_loop perGroupLimit minScore limit perGroup kept [] = kept"
| "selectRanked_loop perGroupLimit minScore limit perGroup kept (c # cs) =
     (if limit > 0 \<and> int (length kept) \<ge> limit then kept
      else if minScore > 0 \<and> CdScore c < minScore then selectRanked_loop perGroupLimit minScore limit perGroup kept cs
      else if perGroupLimit > 0 then
        (let key = GroupKey (CdGroup c); n = gm_get0 0 perGroup key
         in if n \<ge> perGroupLimit then selectRanked_loop perGroupLimit minScore limit perGroup kept cs
            else selectRanked_loop perGroupLimit minScore limit (gm_put key (n + 1) perGroup) (kept @ [c]) cs)
      else selectRanked_loop perGroupLimit minScore limit perGroup (kept @ [c]) cs)"

definition selectRankedCandidates :: "'s::{linorder, zero} candidate list \<Rightarrow> int \<Rightarrow> 's \<Rightarrow> int \<Rightarrow> 's candidate list" where
  "selectRankedCandidates candidates perGroupLimit minScore limit =
     selectRanked_loop perGroupLimit minScore limit [] [] candidates"

definition SelectCandidates :: "'s::{linorder, zero} candidate list \<Rightarrow> int \<Rightarrow> 's \<Rightarrow> int \<Rightarrow> 's candidate list" where
  "SelectCandidates candidates perGroupLimit minScore limit =
     selectRankedCandidates (sortRankedCandidates candidates) perGroupLimit minScore limit"

section \<open>The selection\<close>

lemma subseq_set: "subseq xs ys \<Longrightarrow> set xs \<subseteq> set ys"
  by (induction rule: list_emb.induct) auto

lemma sorted_wrt_subseq: "subseq xs ys \<Longrightarrow> sorted_wrt P ys \<Longrightarrow> sorted_wrt P xs"
  by (induction rule: list_emb.induct) (auto dest!: subseq_set)

definition aboveFloor :: "'s::{linorder, zero} \<Rightarrow> 's candidate \<Rightarrow> bool" where
  "aboveFloor minScore c \<longleftrightarrow> \<not> (minScore > 0 \<and> CdScore c < minScore)"

abbreviation groupKeyOf :: "'s candidate \<Rightarrow> string" where
  "groupKeyOf c \<equiv> GroupKey (CdGroup c)"

definition inGroup :: "string \<Rightarrow> 's candidate list \<Rightarrow> nat" where
  "inGroup key cs = length (filter (\<lambda>x. groupKeyOf x = key) cs)"

text \<open>Why a candidate is not selected: its score, a full group or a full page of candidates before it.\<close>

definition passedOver :: "int \<Rightarrow> 's::{linorder, zero} \<Rightarrow> int \<Rightarrow> 's candidate list \<Rightarrow> 's candidate \<Rightarrow> bool" where
  "passedOver perGroupLimit minScore limit selected c \<longleftrightarrow>
     \<not> aboveFloor minScore c
     \<or> (perGroupLimit > 0 \<and> perGroupLimit \<le> int (inGroup (groupKeyOf c) (filter (\<lambda>x. rankedBefore x c) selected)))
     \<or> (limit > 0 \<and> limit \<le> int (length selected) \<and> list_all (\<lambda>x. rankedBefore x c) selected)"

lemma passedOver_append: "perGroupLimit > 0 \<Longrightarrow> perGroupLimit \<le> int (inGroup (groupKeyOf c) kept) \<Longrightarrow>
    (\<And>x. x \<in> set kept \<Longrightarrow> rankedBefore x c) \<Longrightarrow> passedOver perGroupLimit minScore limit (kept @ new) c"
  by (simp add: passedOver_def inGroup_def cong: filter_cong)

lemma selectRanked_loop_spec:
  assumes "sorted_wrt rankedBefore (kept @ cs)" "\<And>key. perGroupLimit > 0 \<Longrightarrow> gm_get0 0 perGroup key = int (inGroup key kept)"
    and "\<And>key. perGroupLimit > 0 \<Longrightarrow> int (inGroup key kept) \<le> perGroupLimit" "limit > 0 \<Longrightarrow> int (length kept) \<le> limit"
  shows "\<exists>new. selectRanked_loop perGroupLimit minScore limit perGroup kept cs = kept @ new \<and> subseq new cs
    \<and> list_all (aboveFloor minScore) new
    \<and> (perGroupLimit > 0 \<longrightarrow> (\<forall>key. int (inGroup key (kept @ new)) \<le> perGroupLimit))
    \<and> (limit > 0 \<longrightarrow> int (length (kept @ new)) \<le> limit)
    \<and> (\<forall>c\<in>set cs - set new. passedOver perGroupLimit minScore limit (kept @ new) c)"
  using assms
proof (induction cs arbitrary: perGroup kept)
  case (Cons c cs)
  have before: "x \<in> set kept \<Longrightarrow> rankedBefore x y" if "y \<in> set (c # cs)" for x y
    using Cons.prems(1) that by (auto simp: sorted_wrt_append)
  have skip: ?case if r: "selectRanked_loop perGroupLimit minScore limit perGroup kept (c # cs)
        = selectRanked_loop perGroupLimit minScore limit perGroup kept cs"
      and why: "\<And>new. passedOver perGroupLimit minScore limit (kept @ new) c"
  proof -
    have "sorted_wrt rankedBefore (kept @ cs)" using Cons.prems(1) by (simp add: sorted_wrt_append)
    from Cons.IH [OF this Cons.prems(2-4)] obtain new where
      "selectRanked_loop perGroupLimit minScore limit perGroup kept cs = kept @ new" "subseq new cs" "list_all (aboveFloor minScore) new"
      "perGroupLimit > 0 \<longrightarrow> (\<forall>key. int (inGroup key (kept @ new)) \<le> perGroupLimit)" "limit > 0 \<longrightarrow> int (length (kept @ new)) \<le> limit"
      "\<forall>c\<in>set cs - set new. passedOver perGroupLimit minScore limit (kept @ new) c" by blast
    with r why show ?thesis by (intro exI [of _ new]) auto
  qed
  have take: ?case if r: "selectRanked_loop perGroupLimit minScore limit perGroup kept (c # cs)
        = selectRanked_loop perGroupLimit minScore limit pg (kept @ [c]) cs"
      and floor: "aboveFloor minScore c"
      and pg: "\<And>key. perGroupLimit > 0 \<Longrightarrow> gm_get0 0 pg key = int (inGroup key (kept @ [c]))"
        "\<And>key. perGroupLimit > 0 \<Longrightarrow> int (inGroup key (kept @ [c])) \<le> perGroupLimit"
      and room: "limit > 0 \<Longrightarrow> int (length kept) < limit" for pg
  proof -
    have "sorted_wrt rankedBefore ((kept @ [c]) @ cs)" using Cons.prems(1) by simp
    from Cons.IH [OF this pg] room obtain new where
      "selectRanked_loop perGroupLimit minScore limit pg (kept @ [c]) cs = (kept @ [c]) @ new" "subseq new cs" "list_all (aboveFloor minScore) new"
      "perGroupLimit > 0 \<longrightarrow> (\<forall>key. int (inGroup key ((kept @ [c]) @ new)) \<le> perGroupLimit)" "limit > 0 \<longrightarrow> int (length ((kept @ [c]) @ new)) \<le> limit"
      "\<forall>c'\<in>set cs - set new. passedOver perGroupLimit minScore limit ((kept @ [c]) @ new) c'" by force
    with r floor show ?thesis by (intro exI [of _ "c # new"]) auto
  qed
  consider (full) "limit > 0 \<and> int (length kept) \<ge> limit"
    | (low) "\<not> (limit > 0 \<and> int (length kept) \<ge> limit)" "\<not> aboveFloor minScore c"
    | (capped) "\<not> (limit > 0 \<and> int (length kept) \<ge> limit)" "aboveFloor minScore c" "perGroupLimit > 0" "gm_get0 0 perGroup (groupKeyOf c) \<ge> perGroupLimit"
    | (room) "\<not> (limit > 0 \<and> int (length kept) \<ge> limit)" "aboveFloor minScore c" "perGroupLimit > 0" "gm_get0 0 perGroup (groupKeyOf c) < perGroupLimit"
    | (uncapped) "\<not> (limit > 0 \<and> int (length kept) \<ge> limit)" "aboveFloor minScore c" "\<not> perGroupLimit > 0"
    by linarith
  then show ?case
  proof cases
    case full
    have "passedOver perGroupLimit minScore limit kept y" if "y \<in> set (c # cs)" for y
      using full before [OF that] by (auto simp: passedOver_def list_all_iff)
    with full Cons.prems(3,4) show ?thesis by (intro exI [of _ "[]"]) auto
  next
    case low
    then show ?thesis by (intro skip) (auto simp: aboveFloor_def passedOver_def)
  next
    case capped
    show ?thesis
    proof (rule skip)
      show "passedOver perGroupLimit minScore limit (kept @ new) c" for new
        by (rule passedOver_append) (use capped Cons.prems(2) before in auto)
    qed (use capped in \<open>auto simp: aboveFloor_def Let_def\<close>)
  next
    case room
    then show ?thesis using Cons.prems(2,3)
      by (intro take [where pg = "gm_put (groupKeyOf c) (gm_get0 0 perGroup (groupKeyOf c) + 1) perGroup"])
        (auto simp: aboveFloor_def Let_def inGroup_def)
  next
    case uncapped
    then show ?thesis by (intro take [where pg = perGroup]) (auto simp: aboveFloor_def)
  qed
qed simp

text \<open>A limit cuts the unlimited selection.\<close>

lemma selectRanked_extends: "prefix kept (selectRanked_loop perGroupLimit minScore limit perGroup kept cs)"
  by (induction cs arbitrary: perGroup kept) (auto simp: Let_def intro: append_prefixD)

lemma selectRanked_limit:
  assumes "limit > 0" "int (length kept) \<le> limit"
  shows "selectRanked_loop perGroupLimit minScore limit perGroup kept cs
    = take (nat limit) (selectRanked_loop perGroupLimit minScore 0 perGroup kept cs)"
  using assms(2)
proof (induction cs arbitrary: perGroup kept)
  case (Cons c cs)
  show ?case
  proof (cases "int (length kept) \<ge> limit")
    case True
    with Cons.prems have "length kept = nat limit" by linarith
    with selectRanked_extends [of kept perGroupLimit minScore 0 perGroup "c # cs"] True assms(1) show ?thesis
      by (auto simp: prefix_def simp del: selectRanked_loop.simps(2)) (simp add: True)
  next
    case False
    then have "int (length (kept @ [c])) \<le> limit" by simp
    with False Cons.IH [OF Cons.prems] Cons.IH [OF this] show ?thesis by (simp add: Let_def)
  qed
qed (use assms in simp)

lemma select_limit: "limit > 0 \<Longrightarrow> SelectCandidates cs cap minScore limit = take (nat limit) (SelectCandidates cs cap minScore 0)"
  by (simp add: SelectCandidates_def selectRankedCandidates_def selectRanked_limit)

text \<open>
  C20: \<open>SelectCandidates\<close> returns the best candidates under its three constraints. For candidates with distinct
  primary keys the result does not depend on their order (Go iterates a map to collect them); it is in
  ranking order, respects the score floor, the group cap and the limit; every candidate left out is below
  the floor, or its group is filled by candidates ranked before it, or the page is filled by candidates
  ranked before it; and a smaller limit returns a prefix of a larger one.
\<close>

theorem selection_correct:
  assumes "distinct (map CdPrimaryKey cs)" "0 < limit" "limit \<le> limit'" "mset ds = mset cs"
  shows "SelectCandidates ds cap minScore limit = SelectCandidates cs cap minScore limit
    \<and> sorted_wrt rankedBefore (SelectCandidates cs cap minScore limit) \<and> set (SelectCandidates cs cap minScore limit) \<subseteq> set cs
    \<and> list_all (aboveFloor minScore) (SelectCandidates cs cap minScore limit)
    \<and> (0 < cap \<longrightarrow> (\<forall>key. int (inGroup key (SelectCandidates cs cap minScore limit)) \<le> cap))
    \<and> int (length (SelectCandidates cs cap minScore limit)) \<le> limit
    \<and> (\<forall>c\<in>set cs - set (SelectCandidates cs cap minScore limit). passedOver cap minScore limit (SelectCandidates cs cap minScore limit) c)
    \<and> prefix (SelectCandidates cs cap minScore limit) (SelectCandidates cs cap minScore limit')"
proof -
  have sorted: "sorted_wrt rankedBefore (sortRankedCandidates cs)"
    unfolding sortRankedCandidates_def by (rule ranked.sorted_sort_by [OF assms(1)])
  have "sortRankedCandidates ds = sortRankedCandidates cs"
    unfolding sortRankedCandidates_def by (rule ranked.sort_by_perm [OF assms(4)])
      (metis assms(1,4) mset_map mset_eq_imp_distinct_iff)
  moreover obtain new where new: "SelectCandidates cs cap minScore limit = new" "subseq new (sortRankedCandidates cs)"
    "list_all (aboveFloor minScore) new" "0 < cap \<longrightarrow> (\<forall>key. int (inGroup key new) \<le> cap)" "int (length new) \<le> limit"
    "\<forall>c\<in>set (sortRankedCandidates cs) - set new. passedOver cap minScore limit new c"
    using selectRanked_loop_spec [of "[]" "sortRankedCandidates cs" cap "[]" limit minScore] sorted assms(2)
    by (auto simp: SelectCandidates_def selectRankedCandidates_def gm_get0_def inGroup_def)
  moreover have "sorted_wrt rankedBefore new" using sorted_wrt_subseq [OF new(2) sorted] .
  moreover have "prefix new (SelectCandidates cs cap minScore limit')"
    using select_limit [of limit cs cap minScore] select_limit [of limit' cs cap minScore] assms(2,3) new(1)
    by (metis take_is_prefix take_take min.absorb_iff1 nat_mono order.strict_trans2)
  moreover have "set new \<subseteq> set cs" using subseq_set [OF new(2)] by (simp add: sortRankedCandidates_def)
  ultimately show ?thesis by (simp add: SelectCandidates_def sortRankedCandidates_def)
qed

section \<open>Fusion of the legs\<close>

record leg_hit =
  LhID :: string
  LhRelativePath :: string
  LhGroup :: scalar_cell

text \<open>The floating-point operations of the fusion: the reciprocal of \<open>60 + rank\<close>, the sum, the rounding.\<close>

record 's rrf_arith =
  RrfTerm :: "nat \<Rightarrow> 's"
  RrfPlus :: "'s \<Rightarrow> 's \<Rightarrow> 's"
  RrfRound :: "'s \<Rightarrow> 's"

definition rrfRankConstant :: nat where "rrfRankConstant = 60"

definition fuseHit :: "'s rrf_arith \<Rightarrow> nat \<times> leg_hit \<Rightarrow> (string, 's) gomap \<times> (string, leg_hit) gomap \<Rightarrow> (string, 's) gomap \<times> (string, leg_hit) gomap" where
  "fuseHit arith x acc =
     (let term = RrfTerm arith (rrfRankConstant + fst x + 1); i = LhID (snd x)
      in (gm_put i (case map_of (fst acc) i of None \<Rightarrow> term | Some old \<Rightarrow> RrfPlus arith old term) (fst acc),
          if map_of (snd acc) i = None then gm_put i (snd x) (snd acc) else snd acc))"

definition fuseLeg :: "'s rrf_arith \<Rightarrow> leg_hit list \<Rightarrow> (string, 's) gomap \<times> (string, leg_hit) gomap \<Rightarrow> (string, 's) gomap \<times> (string, leg_hit) gomap" where
  "fuseLeg arith leg acc = fold (fuseHit arith) (enumerate 0 leg) acc"

definition fuseLegs :: "'s::linorder rrf_arith \<Rightarrow> leg_hit list \<Rightarrow> leg_hit list \<Rightarrow> nat \<Rightarrow> 's candidate list" where
  "fuseLegs arith dense sparse depth =
     (let (scores, rows) = fuseLeg arith sparse (fuseLeg arith dense ([], []))
      in take depth (sortRankedCandidates
           (map (\<lambda>(i, score). let row = the (map_of rows i)
              in \<lparr>CdPrimaryKey = i, CdRelativePath = LhRelativePath row, CdGroup = LhGroup row, CdScore = RrfRound arith score\<rparr>) scores)))"

text \<open>The position of an id on a leg and the reciprocal-rank score of an id.\<close>

fun legPositionFrom :: "nat \<Rightarrow> leg_hit list \<Rightarrow> string \<Rightarrow> nat option" where
  "legPositionFrom n [] i = None"
| "legPositionFrom n (h # leg) i = (if LhID h = i then Some n else legPositionFrom (Suc n) leg i)"

abbreviation legPosition :: "leg_hit list \<Rightarrow> string \<Rightarrow> nat option" where
  "legPosition \<equiv> legPositionFrom 0"

lemma legPositionFrom_None: "legPositionFrom n leg i = None \<longleftrightarrow> i \<notin> LhID ` set leg"
  by (induction leg arbitrary: n) auto

lemma legPositionFrom_nth: "legPositionFrom n leg i = Some p \<Longrightarrow> n \<le> p \<and> p < n + length leg \<and> LhID (leg ! (p - n)) = i"
proof (induction leg arbitrary: n)
  case (Cons h leg)
  show ?case
  proof (cases "LhID h = i")
    case False
    with Cons.prems have "legPositionFrom (Suc n) leg i = Some p" by simp
    from Cons.IH [OF this] show ?thesis by (auto simp: nth_Cons split: nat.splits) (metis Suc_diff_Suc Suc_le_eq nat.inject)
  qed (use Cons.prems in auto)
qed simp

definition addTerm :: "'s rrf_arith \<Rightarrow> leg_hit list \<Rightarrow> string \<Rightarrow> 's option \<Rightarrow> 's option" where
  "addTerm arith leg i old =
     (case legPosition leg i of
        None \<Rightarrow> old
      | Some p \<Rightarrow> Some (let term = RrfTerm arith (61 + p) in case old of None \<Rightarrow> term | Some v \<Rightarrow> RrfPlus arith v term))"

definition legHitOf :: "leg_hit list \<Rightarrow> leg_hit list \<Rightarrow> string \<Rightarrow> leg_hit option" where
  "legHitOf dense sparse i = find (\<lambda>h. LhID h = i) (dense @ sparse)"

lemma fuseLeg_scores:
  assumes "distinct (map LhID leg)"
  shows "map_of (fst (fold (fuseHit arith) (enumerate n leg) acc)) i =
    (case legPositionFrom n leg i of
       None \<Rightarrow> map_of (fst acc) i
     | Some p \<Rightarrow> Some (let term = RrfTerm arith (61 + p) in case map_of (fst acc) i of None \<Rightarrow> term | Some v \<Rightarrow> RrfPlus arith v term))"
  using assms
proof (induction leg arbitrary: n acc)
  case (Cons h leg)
  have step: "map_of (fst (fuseHit arith (n, h) acc)) i = (if i = LhID h
      then Some (let term = RrfTerm arith (61 + n) in case map_of (fst acc) i of None \<Rightarrow> term | Some v \<Rightarrow> RrfPlus arith v term)
      else map_of (fst acc) i)"
    by (simp add: fuseHit_def Let_def rrfRankConstant_def add.commute add.left_commute split: option.splits)
  have none: "legPositionFrom (Suc n) leg (LhID h) = None" using Cons.prems by (auto simp: legPositionFrom_None)
  have ih: "map_of (fst (fold (fuseHit arith) (enumerate (Suc n) leg) (fuseHit arith (n, h) acc))) i =
    (case legPositionFrom (Suc n) leg i of
       None \<Rightarrow> map_of (fst (fuseHit arith (n, h) acc)) i
     | Some p \<Rightarrow> Some (let term = RrfTerm arith (61 + p) in case map_of (fst (fuseHit arith (n, h) acc)) i of None \<Rightarrow> term | Some v \<Rightarrow> RrfPlus arith v term))"
    using Cons.prems by (intro Cons.IH) simp
  show ?case
  proof (cases "i = LhID h")
    case True
    with ih none step show ?thesis by simp
  next
    case False
    then have "map_of (fst (fuseHit arith (n, h) acc)) i = map_of (fst acc) i" using step by simp
    with ih not_sym [OF False] show ?thesis by (simp only: enumerate_simps fold_Cons comp_apply legPositionFrom.simps if_False)
  qed
qed simp

lemma fuseLeg_addTerm: "distinct (map LhID leg) \<Longrightarrow> map_of (fst (fuseLeg arith leg acc)) i = addTerm arith leg i (map_of (fst acc) i)"
  using fuseLeg_scores [of leg arith 0 acc i] by (simp add: fuseLeg_def addTerm_def)

lemma fuseLeg_rows: "map_of (snd (fold (fuseHit arith) (enumerate n leg) acc)) i =
    (case map_of (snd acc) i of Some r \<Rightarrow> Some r | None \<Rightarrow> find (\<lambda>h. LhID h = i) leg)"
  by (induction leg arbitrary: n acc) (auto simp: fuseHit_def Let_def split: option.splits)

lemma fuseLeg_wf: "gm_wf (fst acc) \<Longrightarrow> gm_wf (fst (fuseLeg arith leg acc))"
proof -
  have "gm_wf (fst acc) \<Longrightarrow> gm_wf (fst (fold (fuseHit arith) xs acc))" for xs acc
    by (induction xs arbitrary: acc) (auto simp: fuseHit_def Let_def)
  then show "gm_wf (fst acc) \<Longrightarrow> gm_wf (fst (fuseLeg arith leg acc))" by (simp add: fuseLeg_def)
qed

lemma find_mem: "find P xs = Some x \<Longrightarrow> x \<in> set xs \<and> P x"
  by (induction xs) (auto split: if_splits)

lemma find_append: "find P (xs @ ys) = (case find P xs of Some x \<Rightarrow> Some x | None \<Rightarrow> find P ys)"
  by (induction xs) auto

definition fusedCandidate :: "'s rrf_arith \<Rightarrow> leg_hit list \<Rightarrow> leg_hit list \<Rightarrow> string \<Rightarrow> 's candidate option" where
  "fusedCandidate arith dense sparse i =
     (case (addTerm arith sparse i (addTerm arith dense i None), legHitOf dense sparse i) of
        (Some score, Some row) \<Rightarrow>
          Some \<lparr>CdPrimaryKey = i, CdRelativePath = LhRelativePath row, CdGroup = LhGroup row, CdScore = RrfRound arith score\<rparr>
      | _ \<Rightarrow> None)"

lemma fuse_legs_candidates:
  fixes arith :: "'s::linorder rrf_arith"
  assumes "distinct (map LhID dense)" "distinct (map LhID sparse)"
  shows "\<exists>cs. fuseLegs arith dense sparse depth = take depth (sortRankedCandidates cs)
    \<and> distinct (map CdPrimaryKey cs) \<and> sorted_wrt rankedBefore (sortRankedCandidates cs)
    \<and> set (map CdPrimaryKey cs) = LhID ` (set dense \<union> set sparse)
    \<and> list_all (\<lambda>c. fusedCandidate arith dense sparse (CdPrimaryKey c) = Some c) cs"
proof -
  define acc where "acc = fuseLeg arith sparse (fuseLeg arith dense ([], []))"
  let ?c = "\<lambda>(i, score). let row = the (map_of (snd acc) i)
      in \<lparr>CdPrimaryKey = i, CdRelativePath = LhRelativePath row, CdGroup = LhGroup row, CdScore = RrfRound arith score\<rparr>"
  let ?cs = "map ?c (fst acc)"
  have keys: "map CdPrimaryKey ?cs = map fst (fst acc)" by (simp add: case_prod_unfold Let_def comp_def)
  have wf: "gm_wf (fst acc)" unfolding acc_def by (intro fuseLeg_wf) simp
  have get: "map_of (fst acc) i = addTerm arith sparse i (addTerm arith dense i None)" for i
    by (simp add: acc_def fuseLeg_addTerm [OF assms(2)] fuseLeg_addTerm [OF assms(1)])
  have rows: "map_of (snd acc) i = legHitOf dense sparse i" for i
    by (simp add: acc_def fuseLeg_def fuseLeg_rows legHitOf_def find_append)
  have pos: "legPosition leg i \<noteq> None \<longleftrightarrow> i \<in> LhID ` set leg" for leg i
    by (simp add: legPositionFrom_None)
  have dom: "map_of (fst acc) i \<noteq> None \<longleftrightarrow> i \<in> LhID ` (set dense \<union> set sparse)" for i
    using pos [of dense i] pos [of sparse i] by (auto simp: get addTerm_def image_Un split: option.splits)
  have "fusedCandidate arith dense sparse (CdPrimaryKey c) = Some c" if "c \<in> set ?cs" for c
  proof -
    from that obtain i score where c: "(i, score) \<in> set (fst acc)" "c = ?c (i, score)" by force
    then have score: "map_of (fst acc) i = Some score" using gm_wf_mem [OF wf] by simp
    moreover from score dom [of i] obtain row where "legHitOf dense sparse i = Some row"
      by (force simp: legHitOf_def find_None_iff)
    ultimately show ?thesis using c(2) by (simp add: fusedCandidate_def get [symmetric] rows Let_def)
  qed
  moreover have "set (map CdPrimaryKey ?cs) = LhID ` (set dense \<union> set sparse)"
    unfolding keys using dom by (auto simp: map_of_eq_None_iff)
  moreover have d: "distinct (map CdPrimaryKey ?cs)" unfolding keys using wf by (simp add: gm_wf_def)
  moreover have "sorted_wrt rankedBefore (sortRankedCandidates ?cs)"
    unfolding sortRankedCandidates_def using d by (rule ranked.sorted_sort_by)
  moreover have "fuseLegs arith dense sparse depth = take depth (sortRankedCandidates ?cs)"
    by (simp add: fuseLegs_def acc_def [symmetric] case_prod_unfold Let_def)
  ultimately show ?thesis by (intro exI [of _ ?cs]) (auto simp: list_all_iff)
qed

text \<open>
  The fused ranking is the reciprocal-rank fusion of the two legs. For legs without repeated ids,
  \<open>fuseLegs\<close> returns the first \<open>depth\<close> elements, in ranking order, of the candidates of exactly the ids on
  either leg; the score of each is the rounded sum of the reciprocals of 60 plus its rank on each leg
  that has it, and its row is the one of the dense leg when both have it.
\<close>

theorem fuse_legs_rrf:
  fixes arith :: "'s::linorder rrf_arith"
  assumes "distinct (map LhID dense)" "distinct (map LhID sparse)"
  shows "\<exists>cs. fuseLegs arith dense sparse depth = take depth (sortRankedCandidates cs)
    \<and> distinct (map CdPrimaryKey cs) \<and> sorted_wrt rankedBefore (sortRankedCandidates cs)
    \<and> set (map CdPrimaryKey cs) = LhID ` (set dense \<union> set sparse)
    \<and> list_all (\<lambda>c. fusedCandidate arith dense sparse (CdPrimaryKey c) = Some c) cs"
  using assms by (rule fuse_legs_candidates)

section \<open>Concrete rankings\<close>

definition exactRrf :: "rat rrf_arith" where
  "exactRrf = \<lparr>RrfTerm = \<lambda>n. 1 / of_nat n, RrfPlus = (+), RrfRound = (\<lambda>x. x)\<rparr>"

definition demoHit :: "string \<Rightarrow> leg_hit" where
  "demoHit i = \<lparr>LhID = i, LhRelativePath = i, LhGroup = AbsentCell []\<rparr>"

theorem fuse_legs_rrf_witness:
  "\<exists>cs. fuseLegs exactRrf [demoHit ''a'', demoHit ''b''] [demoHit ''b''] 5 = take 5 (sortRankedCandidates cs)
    \<and> distinct (map CdPrimaryKey cs) \<and> sorted_wrt rankedBefore (sortRankedCandidates cs)
    \<and> set (map CdPrimaryKey cs) = LhID ` (set [demoHit ''a'', demoHit ''b''] \<union> set [demoHit ''b''])
    \<and> list_all (\<lambda>c. fusedCandidate exactRrf [demoHit ''a'', demoHit ''b''] [demoHit ''b''] (CdPrimaryKey c) = Some c) cs"
  by (rule fuse_legs_rrf) (simp_all add: demoHit_def)

lemma demo_fusion:
  "map CdPrimaryKey (fuseLegs exactRrf [demoHit ''a'', demoHit ''b''] [demoHit ''b''] 5) = [''b'', ''a'']"
  by code_simp

section \<open>Pages of different limits\<close>

text \<open>The page \<open>Search\<close> returns for complete leg rankings: each leg is cut at the ranking depth of the limit.\<close>

definition searchPage :: "'s::{linorder, zero} rrf_arith \<Rightarrow> leg_hit list \<Rightarrow> leg_hit list \<Rightarrow> int \<Rightarrow> 's \<Rightarrow> int \<Rightarrow> 's candidate list" where
  "searchPage arith dense sparse perGroupLimit minScore limit =
     (let depth = rankingDepthFor (effectiveLimit limit)
      in SelectCandidates (fuseLegs arith (take depth dense) (take depth sparse) depth) perGroupLimit minScore (effectiveLimit limit))"

lemma sorted_first:
  assumes "distinct (map CdPrimaryKey cs)" "c \<in> set cs" "\<And>d. d \<in> set cs \<Longrightarrow> d \<noteq> c \<Longrightarrow> rankedBefore c d"
  shows "\<exists>rest. sortRankedCandidates cs = c # rest"
proof -
  have so: "sorted_wrt rankedBefore (sort_by rankedBefore cs)" using assms(1) by (rule ranked.sorted_sort_by)
  obtain d rest where eq: "sort_by rankedBefore cs = d # rest" using assms(2) by (cases "sort_by rankedBefore cs") (metis set_sort_by empty_iff list.set(1), simp)
  have "d = c"
  proof (rule ccontr)
    assume "d \<noteq> c"
    moreover have "d \<in> set cs" "c \<in> set (d # rest)" using eq assms(2) by (metis set_sort_by list.set_intros(1), metis set_sort_by)
    ultimately show False using assms(3) [of d] so eq ranked.less_asym by fastforce
  qed
  with eq show ?thesis by (simp add: sortRankedCandidates_def)
qed

lemma page_first:
  assumes "distinct (map CdPrimaryKey cs)" "c \<in> set cs" "\<And>d. d \<in> set cs \<Longrightarrow> d \<noteq> c \<Longrightarrow> rankedBefore c d" "0 < limit" "0 < depth"
  shows "\<exists>rest. SelectCandidates (take depth (sortRankedCandidates cs)) 0 0 limit = c # rest"
proof -
  obtain rest where r: "sortRankedCandidates cs = c # rest" using sorted_first [OF assms(1-3)] by blast
  have so: "sorted_wrt rankedBefore (c # rest)" using assms(1) unfolding r [symmetric] sortRankedCandidates_def by (rule ranked.sorted_sort_by)
  obtain n where n: "depth = Suc n" using assms(5) by (cases depth) auto
  have t: "take depth (sortRankedCandidates cs) = c # take n rest" by (simp add: r n)
  have "sorted_wrt rankedBefore (c # take n rest)" using so by (auto intro: sorted_wrt_take dest: in_set_takeD)
  moreover have "distinct (map CdPrimaryKey (c # take n rest))"
    by (metis t assms(1) distinct_take take_map sortRankedCandidates_def mset_map mset_sort_by mset_eq_imp_distinct_iff)
  ultimately have "sortRankedCandidates (c # take n rest) = c # take n rest"
    unfolding sortRankedCandidates_def by (intro ranked.sorted_unique ranked.sorted_sort_by) auto
  then show ?thesis using select_limit [OF assms(4), of "c # take n rest" 0 0] assms(4) selectRanked_extends [of "[c]" 0 0 0 "[]" "take n rest"]
    by (auto simp: t SelectCandidates_def selectRankedCandidates_def prefix_def take_Cons')
qed

lemma legPosition_nth:
  assumes "distinct (map LhID leg)" "p < length leg"
  shows "legPosition leg (LhID (leg ! p)) = Some p"
proof -
  obtain q where q: "legPosition leg (LhID (leg ! p)) = Some q"
    using legPositionFrom_None [of 0 leg "LhID (leg ! p)"] assms(2) by auto
  with legPositionFrom_nth [OF q] assms show ?thesis
    by (metis diff_zero add_0 distinct_conv_nth length_map nth_map)
qed

lemma find_nth: "distinct (map LhID leg) \<Longrightarrow> p < length leg \<Longrightarrow> find (\<lambda>h. LhID h = LhID (leg ! p)) (leg @ leg2) = Some (leg ! p)"
  by (induction leg arbitrary: p) (auto simp: nth_Cons split: nat.splits)

lemma exactRrf_simps [simp]: "RrfTerm exactRrf n = 1 / of_nat n" "RrfPlus exactRrf = (+)" "RrfRound exactRrf x = x"
  by (simp_all add: exactRrf_def)

lemma rankingDepthFor_small: "0 < limit \<Longrightarrow> limit \<le> 16 \<Longrightarrow> rankingDepthFor limit = 64"
  by (simp add: rankingDepthFor_def minimumRankingDepth_def RankingDepth_def)

lemma rankingDepthFor_large: "17 \<le> limit \<Longrightarrow> 65 \<le> rankingDepthFor limit"
  by (simp add: rankingDepthFor_def minimumRankingDepth_def RankingDepth_def)

text \<open>The first row of a fused page with exact arithmetic is the one with the best candidate.\<close>

lemma searchPage_first:
  assumes "distinct (map LhID (take depth dense))" "distinct (map LhID (take depth sparse))"
    and "0 < limit" "depth = rankingDepthFor limit"
    and best: "fusedCandidate exactRrf (take depth dense) (take depth sparse) i = Some c"
      "\<And>j d. fusedCandidate exactRrf (take depth dense) (take depth sparse) j = Some d \<Longrightarrow> j \<noteq> i \<Longrightarrow> rankedBefore c d"
  shows "\<exists>rest. searchPage exactRrf dense sparse 0 0 limit = c # rest"
proof -
  let ?fc = "fusedCandidate exactRrf (take depth dense) (take depth sparse)"
  obtain cs where cs: "fuseLegs exactRrf (take depth dense) (take depth sparse) depth = take depth (sortRankedCandidates cs)"
    "distinct (map CdPrimaryKey cs)" "set (map CdPrimaryKey cs) = LhID ` (set (take depth dense) \<union> set (take depth sparse))"
    "list_all (\<lambda>c. ?fc (CdPrimaryKey c) = Some c) cs"
    using fuse_legs_candidates [OF assms(1,2)] by blast
  have key: "CdPrimaryKey d = j" if "?fc j = Some d" for j d
    using that by (auto simp: fusedCandidate_def split: option.splits)
  from best(1) obtain row where "find (\<lambda>h. LhID h = i) (take depth dense @ take depth sparse) = Some row"
    by (auto simp: fusedCandidate_def legHitOf_def split: option.splits)
  then have "i \<in> LhID ` (set (take depth dense) \<union> set (take depth sparse))"
    by (auto dest!: find_mem)
  then obtain c' where c': "c' \<in> set cs" "CdPrimaryKey c' = i" unfolding cs(3) [symmetric] by auto
  with cs(4) best(1) have mem: "c \<in> set cs" by (auto simp: list_all_iff)
  have "rankedBefore c d" if d: "d \<in> set cs" "d \<noteq> c" for d
  proof (rule best(2))
    show fc: "?fc (CdPrimaryKey d) = Some d" using cs(4) d(1) by (simp add: list_all_iff)
    show "CdPrimaryKey d \<noteq> i" using fc best(1) d(2) by auto
  qed
  moreover have "0 < depth" using assms(4) by (simp add: rankingDepthFor_def minimumRankingDepth_def RankingDepth_def)
  ultimately show ?thesis
    using page_first [OF cs(2) mem _ assms(3)] assms(3) by (simp add: searchPage_def Let_def effectiveLimit_def cs(1) assms(4) [symmetric])
qed

text \<open>
  C37: A smaller limit need not return a prefix of a larger one. Let the dense ranking have a row \<open>b\<close> first
  and a row \<open>a\<close> at rank 65, let \<open>a\<close> be the only row of the lexical ranking, and let the path of \<open>b\<close> sort
  before the path of \<open>a\<close>. With exact arithmetic every search with a limit of at most 16 returns \<open>b\<close>
  first, because the legs are cut at depth 64 and both rows score \<open>1/61\<close>; every search with a limit of at
  least 17 returns \<open>a\<close> first.
\<close>

theorem search_limit_not_prefix:
  assumes "distinct (map LhID dense)" "64 < length dense" "LhRelativePath (dense ! 0) < LhRelativePath (dense ! 64)"
    and "0 < small" "small \<le> 16" "17 \<le> large"
  shows "(\<exists>c rest. searchPage exactRrf dense [dense ! 64] 0 0 small = c # rest \<and> CdPrimaryKey c = LhID (dense ! 0))
    \<and> (\<exists>c rest. searchPage exactRrf dense [dense ! 64] 0 0 large = c # rest \<and> CdPrimaryKey c = LhID (dense ! 64))
    \<and> LhID (dense ! 0) \<noteq> LhID (dense ! 64)"
proof -
  let ?a = "dense ! 64" and ?b = "dense ! 0"
  have ne: "LhID (dense ! p) \<noteq> LhID ?a" if "p < length dense" "p \<noteq> 64" for p
    using assms(1,2) that by (simp add: distinct_conv_nth)
  have ab: "LhID ?a \<noteq> LhID ?b" using not_sym [OF ne [of 0]] assms(2) by (cases dense) auto
  have "\<exists>rest. searchPage exactRrf dense [?a] 0 0 small =
      \<lparr>CdPrimaryKey = LhID ?b, CdRelativePath = LhRelativePath ?b, CdGroup = LhGroup ?b, CdScore = 1 / 61\<rparr> # rest"
  proof (rule searchPage_first)
    show "64 = rankingDepthFor small" using rankingDepthFor_small [OF assms(4,5)] by simp
    let ?d = "take 64 dense"
    have d: "distinct (map LhID ?d)" using assms(1) by (metis distinct_take take_map)
    show "distinct (map LhID ?d)" by (rule d)
    have b: "legPosition ?d (LhID ?b) = Some 0" using legPosition_nth [OF d, of 0] assms(2) by simp
    show "fusedCandidate exactRrf ?d (take 64 [?a]) (LhID ?b) =
        Some \<lparr>CdPrimaryKey = LhID ?b, CdRelativePath = LhRelativePath ?b, CdGroup = LhGroup ?b, CdScore = 1 / 61\<rparr>"
      using b ab find_nth [OF d, of 0 "[?a]"] assms(2) by (simp add: fusedCandidate_def addTerm_def legHitOf_def)
    fix j c
    assume c: "fusedCandidate exactRrf ?d (take 64 [?a]) j = Some c" "j \<noteq> LhID ?b"
    show "rankedBefore \<lparr>CdPrimaryKey = LhID ?b, CdRelativePath = LhRelativePath ?b, CdGroup = LhGroup ?b, CdScore = 1 / 61\<rparr> c"
    proof (cases "j = LhID ?a")
      case True
      have "LhID ?a \<notin> LhID ` set ?d"
      proof
        assume "LhID ?a \<in> LhID ` set ?d"
        then obtain q where "q < length dense" "q < 64" "LhID (dense ! q) = LhID ?a" by (auto simp: in_set_conv_nth)
        with ne [of q] show False by simp
      qed
      with c(1) True have "CdScore c = 1 / 61" "CdRelativePath c = LhRelativePath ?a"
        using legPositionFrom_None [of 0 ?d "LhID ?a"]
        by (auto simp: fusedCandidate_def addTerm_def legHitOf_def find_append image_iff split: option.splits dest!: find_mem)
      with assms(3) show ?thesis by (auto simp: rankedBefore_def)
    next
      case False
      with c(1) obtain p where p: "legPosition ?d j = Some p" "CdScore c = 1 / of_nat (61 + p)"
        by (auto simp: fusedCandidate_def addTerm_def split: option.splits)
      have "LhID (dense ! p) = j" using legPositionFrom_nth [OF p(1)] by auto
      with c(2) have "p \<noteq> 0" by metis
      then have "CdScore c < 1 / 61" unfolding p(2) by (simp add: divide_less_cancel frac_less2)
      then show ?thesis by (simp add: rankedBefore_def)
    qed
  qed (use assms in auto)
  moreover have "\<exists>rest. searchPage exactRrf dense [?a] 0 0 large =
      \<lparr>CdPrimaryKey = LhID ?a, CdRelativePath = LhRelativePath ?a, CdGroup = LhGroup ?a, CdScore = 1 / 125 + 1 / 61\<rparr> # rest"
  proof (rule searchPage_first)
    let ?n = "rankingDepthFor large"
    let ?d = "take ?n dense"
    show "?n = rankingDepthFor large" by simp
    have n: "65 \<le> ?n" by (rule rankingDepthFor_large [OF assms(6)])
    have d: "distinct (map LhID ?d)" using assms(1) by (metis distinct_take take_map)
    show "distinct (map LhID ?d)" by (rule d)
    have sp: "take ?n [?a] = [?a]" using n by (simp add: take_Cons')
    show "distinct (map LhID (take ?n [?a]))" by (simp add: sp)
    have a: "legPosition ?d (LhID ?a) = Some 64" using legPosition_nth [OF d, of 64] assms(2) n by simp
    show "fusedCandidate exactRrf ?d (take ?n [?a]) (LhID ?a) =
        Some \<lparr>CdPrimaryKey = LhID ?a, CdRelativePath = LhRelativePath ?a, CdGroup = LhGroup ?a, CdScore = 1 / 125 + 1 / 61\<rparr>"
      using a find_nth [OF d, of 64 "[?a]"] assms(2) n sp by (simp add: fusedCandidate_def addTerm_def legHitOf_def)
    fix j c
    assume c: "fusedCandidate exactRrf ?d (take ?n [?a]) j = Some c" "j \<noteq> LhID ?a"
    then obtain p where p: "CdScore c = 1 / of_nat (61 + p)"
      by (auto simp: sp fusedCandidate_def addTerm_def split: option.splits)
    have "CdScore c \<le> 1 / 61" unfolding p by (intro divide_left_mono) auto
    then show "rankedBefore \<lparr>CdPrimaryKey = LhID ?a, CdRelativePath = LhRelativePath ?a, CdGroup = LhGroup ?a, CdScore = 1 / 125 + 1 / 61\<rparr> c"
      by (simp add: rankedBefore_def)
  qed (use assms in auto)
  ultimately show ?thesis using ab by (metis candidate.select_convs(1))
qed

definition demoDense :: "leg_hit list" where
  "demoDense = map (\<lambda>n. \<lparr>LhID = replicate n (CHR ''r''), LhRelativePath = replicate n (CHR ''r''), LhGroup = AbsentCell []\<rparr>) [0..<70]"

theorem search_limit_not_prefix_witness:
  "(\<exists>c rest. searchPage exactRrf demoDense [demoDense ! 64] 0 0 1 = c # rest \<and> CdPrimaryKey c = LhID (demoDense ! 0))
    \<and> (\<exists>c rest. searchPage exactRrf demoDense [demoDense ! 64] 0 0 100 = c # rest \<and> CdPrimaryKey c = LhID (demoDense ! 64))
    \<and> LhID (demoDense ! 0) \<noteq> LhID (demoDense ! 64)"
proof (rule search_limit_not_prefix)
  show "distinct (map LhID demoDense)" by (simp add: demoDense_def comp_def distinct_map inj_on_def replicate_eq_replicate)
  show "LhRelativePath (demoDense ! 0) < LhRelativePath (demoDense ! 64)" by (simp add: demoDense_def numeral_eq_Suc)
qed (simp_all add: demoDense_def)

theorem selection_correct_witness:
  "prefix (SelectCandidates [\<lparr>CdPrimaryKey = ''a'', CdRelativePath = ''p'', CdGroup = AbsentCell [], CdScore = 1 :: int\<rparr>,
        \<lparr>CdPrimaryKey = ''b'', CdRelativePath = ''p'', CdGroup = AbsentCell [], CdScore = 2\<rparr>] 0 0 1)
     (SelectCandidates [\<lparr>CdPrimaryKey = ''a'', CdRelativePath = ''p'', CdGroup = AbsentCell [], CdScore = 1 :: int\<rparr>,
        \<lparr>CdPrimaryKey = ''b'', CdRelativePath = ''p'', CdGroup = AbsentCell [], CdScore = 2\<rparr>] 0 0 2)
   \<and> map CdPrimaryKey (SelectCandidates [\<lparr>CdPrimaryKey = ''a'', CdRelativePath = ''p'', CdGroup = AbsentCell [], CdScore = 1 :: int\<rparr>,
        \<lparr>CdPrimaryKey = ''b'', CdRelativePath = ''p'', CdGroup = AbsentCell [], CdScore = 2\<rparr>] 0 0 1) = [''b'']"
proof -
  let ?cs = "[\<lparr>CdPrimaryKey = ''a'', CdRelativePath = ''p'', CdGroup = AbsentCell [], CdScore = 1 :: int\<rparr>,
        \<lparr>CdPrimaryKey = ''b'', CdRelativePath = ''p'', CdGroup = AbsentCell [], CdScore = 2\<rparr>]"
  have "prefix (SelectCandidates ?cs 0 0 1) (SelectCandidates ?cs 0 0 2)"
    using selection_correct [of ?cs 1 2 ?cs 0 0] by simp
  moreover have "map CdPrimaryKey (SelectCandidates ?cs 0 0 1) = [''b'']" by code_simp
  ultimately show ?thesis by simp
qed

end
