(* ===== verification/SharedSearch.thy ===== *)
theory SharedSearch
  imports SharedBackfill SearchRanking
begin

text \<open>
  The search of the shared store (\<open>collection/milvus/shared_search.go\<close>, \<open>SharedStore.Search\<close>, \<open>Store.Load\<close>) on an unchanged
  collection. The vector search and the BM25 search of Milvus are arguments: for a selection of rows and a
  limit they give scored keys; each request may fail. The dense leg searches the vectors of the superset
  expression, expands them to occurrences, deepens its search until the leg is full and falls back to an
  exact search; the lexical leg deepens until the rows that tie at its end are complete. Both loops are
  shown to return, and to return the first rows of a ranking that does not depend on how they got there.
\<close>

section \<open>Requests\<close>

definition request :: "call_oracle \<Rightarrow> 'a \<Rightarrow> nat \<Rightarrow> nat \<times> 'a option" where
  "request orc x n = (Suc n, if orc n = CallOk then Some x else None)"

definition thenR :: "nat \<times> 'a option \<Rightarrow> ('a \<Rightarrow> nat \<Rightarrow> nat \<times> 'b option) \<Rightarrow> nat \<times> 'b option" where
  "thenR r f = (case r of (n, None) \<Rightarrow> (n, None) | (n, Some x) \<Rightarrow> f x n)"

record ('f, 's) search_env =
  AnnSearch :: "(string \<times> 'f vector_row \<Rightarrow> bool) \<Rightarrow> nat \<Rightarrow> (string \<times> 's) list"
  TextSearch :: "(string \<times> 'f occurrence \<Rightarrow> bool) \<Rightarrow> nat \<Rightarrow> (string \<times> 's) list"

definition denseFetchGrowth :: nat where "denseFetchGrowth = 4"
definition fallbackKeyBatch :: nat where "fallbackKeyBatch = 8192"
definition matchQueryLimit :: nat where "matchQueryLimit = 16384"

definition scoredBefore :: "string \<times> 's::linorder \<Rightarrow> string \<times> 's \<Rightarrow> bool" where
  "scoredBefore left right = (if snd left \<noteq> snd right then snd left > snd right else fst left < fst right)"

interpretation scored: keyed_order scoredBefore fst
  by unfold_locales (auto simp: scoredBefore_def split: if_splits)

definition memberBefore :: "leg_hit \<Rightarrow> leg_hit \<Rightarrow> bool" where
  "memberBefore left right \<longleftrightarrow> LhID left < LhID right"

definition filterMatches :: "filter_node option \<Rightarrow> 'f occurrence \<Rightarrow> bool" where
  "filterMatches f occ = (case f of None \<Rightarrow> True | Some f \<Rightarrow> evaluateFilterCells (cellOf occ) f = truthTrue)"

definition supersetMatches :: "scalar_column list \<Rightarrow> filter_node option \<Rightarrow> string \<times> 'f vector_row \<Rightarrow> bool" where
  "supersetMatches scalars f x = (case f of None \<Rightarrow> True | Some f \<Rightarrow> supersetSelects scalars f (snd x))"

definition legHit :: "scalar_column option \<Rightarrow> string \<times> 'f occurrence \<Rightarrow> leg_hit" where
  "legHit groupColumn x =
     \<lparr>LhID = fst x, LhRelativePath = RowRelativePath (OcRow (snd x)),
      LhGroup = (case groupColumn of None \<Rightarrow> AbsentCell [] | Some c \<Rightarrow> cellOf (snd x) (ColName c))\<rparr>"

section \<open>The dense leg\<close>

definition searchVectors ::
  "call_oracle \<Rightarrow> ('f, 's::linorder) search_env \<Rightarrow> (string \<times> 'f vector_row \<Rightarrow> bool) \<Rightarrow> nat \<Rightarrow> nat \<Rightarrow> nat \<times> (string \<times> 's) list option" where
  "searchVectors orc env sel limit = request orc (sort_by scoredBefore (AnnSearch env sel limit))"

fun appendMembers :: "nat \<Rightarrow> leg_hit list \<Rightarrow> leg_hit list \<Rightarrow> leg_hit list" where
  "appendMembers depth hits [] = hits"
| "appendMembers depth hits (m # ms) = (if length hits \<ge> depth then hits else appendMembers depth (hits @ [m]) ms)"

definition appendOrderedMembers :: "leg_hit list \<Rightarrow> leg_hit list \<Rightarrow> nat \<Rightarrow> leg_hit list" where
  "appendOrderedMembers hits members depth = appendMembers depth hits (sort_by memberBefore members)"

text \<open>One query, or the iterator when the query may have been cut.\<close>

definition readMatches :: "call_oracle \<Rightarrow> 'a list \<Rightarrow> nat \<Rightarrow> nat \<times> 'a list option" where
  "readMatches orc rows n =
     thenR (request orc () n) (\<lambda>_. if length rows \<ge> matchQueryLimit then request orc rows else (\<lambda>n. (n, Some rows)))"

definition keyMembers :: "scalar_column option \<Rightarrow> (string \<times> 'f occurrence) list \<Rightarrow> string \<Rightarrow> leg_hit list" where
  "keyMembers groupColumn rows key = map (legHit groupColumn) (filter (\<lambda>x. OcKey (snd x) = key) rows)"

fun expandBatches ::
  "call_oracle \<Rightarrow> filter_node option \<Rightarrow> scalar_column option \<Rightarrow> nat \<Rightarrow> 'f shared_state \<Rightarrow> string list list \<Rightarrow> leg_hit list \<Rightarrow> nat
    \<Rightarrow> nat \<times> leg_hit list option" where
  "expandBatches orc f groupColumn depth s [] hits n = (n, Some hits)"
| "expandBatches orc f groupColumn depth s (b # bs) hits n =
     (if length hits \<ge> depth then (n, Some hits)
      else thenR (readMatches orc (filter (\<lambda>x. OcKey (snd x) \<in> set b \<and> filterMatches f (snd x)) (ShOccurrences s)) n) (\<lambda>rows.
        expandBatches orc f groupColumn depth s bs (fold (\<lambda>k hits. appendOrderedMembers hits (keyMembers groupColumn rows k) depth) b hits)))"

definition expandKeys ::
  "call_oracle \<Rightarrow> filter_node option \<Rightarrow> scalar_column option \<Rightarrow> nat \<Rightarrow> 'f shared_state \<Rightarrow> (string \<times> 's) list \<Rightarrow> nat \<Rightarrow> nat \<times> leg_hit list option" where
  "expandKeys orc f groupColumn depth s keys = expandBatches orc f groupColumn depth s (batchesOf vectorKeyBatchSize (map fst keys)) []"

fun exactBatches ::
  "call_oracle \<Rightarrow> ('f, 's::linorder) search_env \<Rightarrow> nat \<Rightarrow> string list list \<Rightarrow> (string \<times> 's) list \<Rightarrow> nat \<Rightarrow> nat \<times> (string \<times> 's) list option" where
  "exactBatches orc env depth [] merged n = (n, Some merged)"
| "exactBatches orc env depth (b # bs) merged n =
     thenR (searchVectors orc env (\<lambda>x. fst x \<in> set b) (min depth (length b)) n) (\<lambda>keys. exactBatches orc env depth bs (merged @ keys))"

definition exactDenseLeg ::
  "call_oracle \<Rightarrow> ('f, 's::linorder) search_env \<Rightarrow> filter_node option \<Rightarrow> scalar_column option \<Rightarrow> nat \<Rightarrow> 'f shared_state \<Rightarrow> nat
    \<Rightarrow> nat \<times> leg_hit list option" where
  "exactDenseLeg orc env f groupColumn depth s n =
     thenR (request orc (iterateVectorKeys (filterMatches f) s) n) (\<lambda>candidateKeys n.
       thenR (exactBatches orc env depth (batchesOf fallbackKeyBatch candidateKeys) [] n) (\<lambda>merged.
         expandKeys orc f groupColumn depth s (sort_by scoredBefore merged)))"

partial_function (option) denseLeg_loop ::
  "call_oracle \<Rightarrow> ('f, 's::linorder) search_env \<Rightarrow> scalar_column list \<Rightarrow> filter_node option \<Rightarrow> scalar_column option \<Rightarrow> nat
    \<Rightarrow> 'f shared_state \<Rightarrow> nat \<Rightarrow> nat \<Rightarrow> (nat \<times> leg_hit list option) option" where
  "denseLeg_loop orc env scalars f groupColumn depth s fetch n =
     (case searchVectors orc env (supersetMatches scalars f) fetch n of
        (n1, None) \<Rightarrow> Some (n1, None)
      | (n1, Some keys) \<Rightarrow>
          (case expandKeys orc f groupColumn depth s keys n1 of
             (n2, None) \<Rightarrow> Some (n2, None)
           | (n2, Some hits) \<Rightarrow>
               if length hits \<ge> depth \<or> length keys < fetch then Some (n2, Some hits)
               else if fetch \<ge> RankingDepth then Some (exactDenseLeg orc env f groupColumn depth s n2)
               else denseLeg_loop orc env scalars f groupColumn depth s (min (fetch * denseFetchGrowth) RankingDepth) n2))"

definition denseLeg ::
  "call_oracle \<Rightarrow> ('f, 's::linorder) search_env \<Rightarrow> scalar_column list \<Rightarrow> filter_node option \<Rightarrow> scalar_column option \<Rightarrow> nat
    \<Rightarrow> 'f shared_state \<Rightarrow> nat \<Rightarrow> (nat \<times> leg_hit list option) option" where
  "denseLeg orc env scalars f groupColumn depth s n = denseLeg_loop orc env scalars f groupColumn depth s depth n"

section \<open>The lexical leg\<close>

partial_function (option) sparseLeg_loop ::
  "call_oracle \<Rightarrow> ('f, 's::linorder) search_env \<Rightarrow> filter_node option \<Rightarrow> nat \<Rightarrow> nat \<Rightarrow> nat \<Rightarrow> (nat \<times> (string \<times> 's) list option) option" where
  "sparseLeg_loop orc env f depth fetch n =
     (case request orc (sort_by scoredBefore (TextSearch env (\<lambda>x. filterMatches f (snd x)) fetch)) n of
        (n1, None) \<Rightarrow> Some (n1, None)
      | (n1, Some candidates) \<Rightarrow>
          if length candidates < fetch \<or> fetch \<ge> RankingDepth \<or> length candidates \<le> depth
             \<or> snd (candidates ! (depth - 1)) \<noteq> snd (last candidates)
          then Some (n1, Some (take depth candidates))
          else sparseLeg_loop orc env f depth (min (fetch * denseFetchGrowth) RankingDepth) n1)"

text \<open>The result rows carry the output columns of the occurrence.\<close>

definition sparseHits :: "scalar_column option \<Rightarrow> 'f shared_state \<Rightarrow> (string \<times> 's) list \<Rightarrow> leg_hit list" where
  "sparseHits groupColumn s candidates =
     concat (map (\<lambda>c. case map_of (ShOccurrences s) (fst c) of None \<Rightarrow> [] | Some occ \<Rightarrow> [legHit groupColumn (fst c, occ)]) candidates)"

definition sparseLeg ::
  "call_oracle \<Rightarrow> ('f, 's::linorder) search_env \<Rightarrow> filter_node option \<Rightarrow> scalar_column option \<Rightarrow> nat \<Rightarrow> 'f shared_state \<Rightarrow> nat
    \<Rightarrow> (nat \<times> leg_hit list option) option" where
  "sparseLeg orc env f groupColumn depth s n =
     map_option (\<lambda>(n, r). (n, map_option (sparseHits groupColumn s) r))
       (sparseLeg_loop orc env f depth (min (depth * 2) RankingDepth) n)"

section \<open>The search\<close>

record 's search_request =
  SrFilter :: "filter_node option"
  SrScalars :: "scalar_column list"
  SrGroupBy :: string
  SrPerGroupLimit :: int
  SrMinScore :: 's
  SrLimit :: int

text \<open>
  The legs run at the same time, so each has its own sequence of requests. \<open>None\<close> outside is a search that
  does not return, \<open>None\<close> inside an error; an error of the lexical leg is returned before one of the dense leg.
\<close>

definition fuseResults ::
  "'s::linorder rrf_arith \<Rightarrow> nat \<Rightarrow> nat \<times> leg_hit list option \<Rightarrow> nat \<times> leg_hit list option \<Rightarrow> 's candidate list option" where
  "fuseResults arith depth sparse dense =
     (case snd sparse of
        None \<Rightarrow> None
      | Some sparse \<Rightarrow> (case snd dense of None \<Rightarrow> None | Some dense \<Rightarrow> Some (fuseLegs arith dense sparse depth)))"

definition Rank ::
  "call_oracle \<Rightarrow> call_oracle \<Rightarrow> 's::linorder rrf_arith \<Rightarrow> ('f, 's) search_env \<Rightarrow> 's search_request \<Rightarrow> 'f shared_state \<Rightarrow> 's candidate list option option" where
  "Rank sparseOrc denseOrc arith env req s =
     (if isl (Compile (SrFilter req)) \<or> isl (CompileInline (SrFilter req)) \<or> isl (SupersetExpression (SrFilter req) (SrScalars req))
         \<or> snd (request sparseOrc () 0) = None
      then Some None
      else let groupColumn = GroupColumnFor (SrScalars req) (SrGroupBy req) (SrPerGroupLimit req);
               depth = rankingDepthFor (effectiveLimit (SrLimit req))
           in Option.bind (sparseLeg sparseOrc env (SrFilter req) groupColumn depth s 1) (\<lambda>sparse.
                map_option (fuseResults arith depth sparse)
                  (denseLeg denseOrc env (SrScalars req) (SrFilter req) groupColumn depth s 0)))"

definition Load :: "call_oracle \<Rightarrow> 'f shared_state \<Rightarrow> 's candidate list \<Rightarrow> ('f occurrence \<times> 's) list option" where
  "Load orc s selected =
     (if selected = [] then Some []
      else snd (request orc
        (concat (map (\<lambda>c. case map_of (ShOccurrences s) (CdPrimaryKey c) of None \<Rightarrow> [] | Some occ \<Rightarrow> [(occ, CdScore c)]) selected)) 0))"

definition Search ::
  "call_oracle \<Rightarrow> call_oracle \<Rightarrow> call_oracle \<Rightarrow> 's::{linorder, zero} rrf_arith \<Rightarrow> ('f, 's) search_env \<Rightarrow> 's search_request \<Rightarrow> 'f shared_state
    \<Rightarrow> ('f occurrence \<times> 's) list option option" where
  "Search sparseOrc denseOrc loadOrc arith env req s =
     map_option (\<lambda>r. case r of
        None \<Rightarrow> None
      | Some candidates \<Rightarrow>
          let perGroupLimit = (if GroupColumnFor (SrScalars req) (SrGroupBy req) (SrPerGroupLimit req) = None then 0 else SrPerGroupLimit req)
          in Load loadOrc s (SelectCandidates candidates perGroupLimit (SrMinScore req) (effectiveLimit (SrLimit req))))
       (Rank sparseOrc denseOrc arith env req s)"

section \<open>Both loops return\<close>

lemma denseLeg_loop_returns: "0 < fetch \<Longrightarrow> \<exists>r. denseLeg_loop orc env scalars f groupColumn depth s fetch n = Some r"
proof (induction "RankingDepth - fetch" arbitrary: fetch n rule: less_induct)
  case less
  show ?case
  proof (cases "fetch < RankingDepth")
    case True
    let ?fetch = "min (fetch * denseFetchGrowth) RankingDepth"
    have "RankingDepth - ?fetch < RankingDepth - fetch" "0 < ?fetch"
      using True less.prems by (auto simp: denseFetchGrowth_def)
    then have "\<exists>r. denseLeg_loop orc env scalars f groupColumn depth s ?fetch m = Some r" for m
      using less.hyps by blast
    then show ?thesis by (subst denseLeg_loop.simps) (auto split: prod.splits option.splits)
  next
    case False
    then show ?thesis by (subst denseLeg_loop.simps) (auto split: prod.splits option.splits)
  qed
qed

lemma sparseLeg_loop_returns: "0 < fetch \<Longrightarrow> \<exists>r. sparseLeg_loop orc env f depth fetch n = Some r"
proof (induction "RankingDepth - fetch" arbitrary: fetch n rule: less_induct)
  case less
  show ?case
  proof (cases "fetch < RankingDepth")
    case True
    let ?fetch = "min (fetch * denseFetchGrowth) RankingDepth"
    have "RankingDepth - ?fetch < RankingDepth - fetch" "0 < ?fetch"
      using True less.prems by (auto simp: denseFetchGrowth_def)
    then have "\<exists>r. sparseLeg_loop orc env f depth ?fetch m = Some r" for m
      using less.hyps by blast
    then show ?thesis by (subst sparseLeg_loop.simps) (auto split: prod.splits option.splits)
  next
    case False
    then show ?thesis by (subst sparseLeg_loop.simps) (auto split: prod.splits option.splits)
  qed
qed

lemma rankingDepthFor_bounds: "64 \<le> rankingDepthFor limit \<and> rankingDepthFor limit \<le> RankingDepth"
  by (auto simp: rankingDepthFor_def minimumRankingDepth_def RankingDepth_def)

text \<open>
  C9: A search of the shared store always returns. Whatever Milvus answers to the vector and lexical
  searches, whatever request fails, and whatever filter, limit and group cap are asked for, both
  deepening loops end and \<open>Search\<close> gives a result or an error.
\<close>

theorem search_returns:
  "\<exists>r. Search sparseOrc denseOrc loadOrc arith env req s = Some r"
proof -
  let ?d = "rankingDepthFor (effectiveLimit (SrLimit req))"
  have d: "0 < ?d" "0 < min (?d * 2) RankingDepth"
    using rankingDepthFor_bounds [of "effectiveLimit (SrLimit req)"] by (auto simp: RankingDepth_def)
  let ?g = "GroupColumnFor (SrScalars req) (SrGroupBy req) (SrPerGroupLimit req)"
  obtain sp where sp: "sparseLeg sparseOrc env (SrFilter req) ?g ?d s 1 = Some sp"
    using sparseLeg_loop_returns [OF d(2), of sparseOrc env "SrFilter req" ?d 1] by (auto simp: sparseLeg_def)
  obtain dn where dn: "denseLeg denseOrc env (SrScalars req) (SrFilter req) ?g ?d s 0 = Some dn"
    using denseLeg_loop_returns [OF d(1)] unfolding denseLeg_def by blast
  have "\<exists>r. Rank sparseOrc denseOrc arith env req s = Some r"
    by (simp add: Rank_def Let_def sp dn del: One_nat_def)
  then show ?thesis by (auto simp: Search_def)
qed

section \<open>The reference rankings\<close>

definition scoreRows :: "('f vector_row \<Rightarrow> 's) \<Rightarrow> (string \<times> 'f vector_row) list \<Rightarrow> (string \<times> 's) list" where
  "scoreRows score rows = map (\<lambda>(k, row). (k, score row)) rows"

text \<open>An exact vector search: the best rows of the selection, ties in key order.\<close>

definition annExact :: "('f, 's::linorder) search_env \<Rightarrow> ('f vector_row \<Rightarrow> 's) \<Rightarrow> 'f shared_state \<Rightarrow> bool" where
  "annExact env score s \<longleftrightarrow>
     (\<forall>sel n. sort_by scoredBefore (AnnSearch env sel n) = take n (sort_by scoredBefore (scoreRows score (filter sel (ShVectors s)))))"

definition members :: "filter_node option \<Rightarrow> scalar_column option \<Rightarrow> 'f shared_state \<Rightarrow> string \<Rightarrow> leg_hit list" where
  "members f groupColumn s k =
     sort_by memberBefore (map (legHit groupColumn) (filter (\<lambda>x. OcKey (snd x) = k \<and> filterMatches f (snd x)) (ShOccurrences s)))"

definition denseRanking :: "('f vector_row \<Rightarrow> 's::linorder) \<Rightarrow> filter_node option \<Rightarrow> scalar_column option \<Rightarrow> 'f shared_state \<Rightarrow> leg_hit list" where
  "denseRanking score f groupColumn s =
     concat (map (members f groupColumn s \<circ> fst) (sort_by scoredBefore (scoreRows score (ShVectors s))))"

lemma appendMembers_take: "appendMembers depth hits ms = hits @ take (depth - length hits) ms"
proof (induction ms arbitrary: hits)
  case (Cons m ms)
  show ?case
  proof (cases "length hits \<ge> depth")
    case False
    then have "depth - length hits = Suc (depth - Suc (length hits))" by simp
    with False Cons.IH [of "hits @ [m]"] show ?thesis by simp
  qed simp
qed simp

lemma take_take_append: "take d (take d xs @ ys) = take d (xs @ ys)"
  by (cases "length xs \<le> d") auto

lemma expand_fold:
  "length hits \<le> depth \<Longrightarrow>
    fold (\<lambda>k hits. appendOrderedMembers hits (ms k) depth) b hits = take depth (hits @ concat (map (sort_by memberBefore \<circ> ms) b))"
proof (induction b arbitrary: hits)
  case (Cons k b)
  have "appendOrderedMembers hits (ms k) depth = take depth (hits @ sort_by memberBefore (ms k))"
    using Cons.prems by (simp add: appendOrderedMembers_def appendMembers_take)
  with Cons.IH [of "take depth (hits @ sort_by memberBefore (ms k))"] show ?case
    by (simp add: take_take_append del: take_append)
qed simp

lemma request_ok [simp]: "\<forall>n. orc n = CallOk \<Longrightarrow> request orc x n = (Suc n, Some x)"
  by (simp add: request_def)

lemma thenR_Some [simp]: "thenR (n, Some x) f = f x n"
  by (simp add: thenR_def)

lemma readMatches_ok: "\<forall>n. orc n = CallOk \<Longrightarrow> \<exists>m. readMatches orc rows n = (m, Some rows)"
  by (simp add: readMatches_def)

lemma expandBatches_ok:
  assumes ok: "\<forall>n. orc n = CallOk"
  shows "length hits \<le> depth \<Longrightarrow> snd (expandBatches orc f groupColumn depth s bs hits n)
    = Some (take depth (hits @ concat (map (members f groupColumn s) (concat bs))))"
proof (induction bs arbitrary: hits n)
  case (Cons b bs)
  show ?case
  proof (cases "length hits \<ge> depth")
    case False
    let ?rows = "filter (\<lambda>x. OcKey (snd x) \<in> set b \<and> filterMatches f (snd x)) (ShOccurrences s)"
    obtain m where m: "readMatches orc ?rows n = (m, Some ?rows)" using readMatches_ok [OF ok] by blast
    have mem: "map (sort_by memberBefore \<circ> keyMembers groupColumn ?rows) b = map (members f groupColumn s) b"
      by (auto simp: members_def keyMembers_def intro!: arg_cong [where f = "\<lambda>z. sort_by memberBefore (map (legHit groupColumn) z)"] filter_cong)
    let ?h = "fold (\<lambda>k hits. appendOrderedMembers hits (keyMembers groupColumn ?rows k) depth) b hits"
    have h: "?h = take depth (hits @ concat (map (members f groupColumn s) b))"
      using expand_fold [OF Cons.prems, of "keyMembers groupColumn ?rows" b] unfolding mem .
    then have "length ?h \<le> depth" by simp
    from Cons.IH [OF this, of m] False m show ?thesis
      by (simp add: h take_take_append del: take_append)
  qed (use Cons.prems in simp)
qed simp

lemma expandKeys_ok:
  assumes "\<forall>n. orc n = CallOk"
  shows "\<exists>m. expandKeys orc f groupColumn depth s keys n = (m, Some (take depth (concat (map (members f groupColumn s \<circ> fst) keys))))"
proof -
  have "concat (batchesOf vectorKeyBatchSize (map fst keys)) = map fst keys"
    by (rule concat_batchesOf) (simp add: vectorKeyBatchSize_def)
  with expandBatches_ok [OF assms, of "[]" depth f groupColumn s "batchesOf vectorKeyBatchSize (map fst keys)" n] show ?thesis
    by (simp add: expandKeys_def prod_eq_iff)
qed

section \<open>The dense leg is the dense ranking\<close>

context keyed_order
begin

lemma sort_filter:
  assumes "distinct (map key xs)"
  shows "sort_by lt (filter P xs) = filter P (sort_by lt xs)"
proof (rule sorted_filter_eq)
  have d: "distinct xs" using assms by (simp add: distinct_map)
  show "sorted_wrt lt (sort_by lt xs)" using assms by (rule sorted_sort_by)
  show "sorted_wrt lt (sort_by lt (filter P xs))" using assms by (intro sorted_sort_by) (simp add: distinct_map_filter)
  show "distinct (sort_by lt xs)" "distinct (sort_by lt (filter P xs))"
    using d by (metis mset_sort_by mset_eq_imp_distinct_iff distinct_filter)+
qed auto

end

lemma concat_map_filter_empty:
  "(\<And>x. x \<in> set xs \<Longrightarrow> \<not> P x \<Longrightarrow> m x = []) \<Longrightarrow> concat (map m (filter P xs)) = concat (map m xs)"
  by (induction xs) auto

lemma take_concat_nonempty:
  "(\<And>x. x \<in> set xs \<Longrightarrow> m x \<noteq> []) \<Longrightarrow> take d (concat (map m xs)) = take d (concat (map m (take d xs)))"
proof (induction xs arbitrary: d)
  case (Cons x xs)
  show ?case
  proof (cases d)
    case (Suc n)
    have "m x \<noteq> []" using Cons.prems by simp
    then have k: "Suc n - length (m x) \<le> n" by (cases "m x") auto
    have "take n (concat (map m xs)) = take n (concat (map m (take n xs)))" using Cons by simp
    then have "take (Suc n - length (m x)) (concat (map m xs)) = take (Suc n - length (m x)) (concat (map m (take n xs)))"
      using k by (metis min.absorb1 take_take)
    with Suc show ?thesis by simp
  qed simp
qed simp

lemma scoreRows_keys [simp]: "map fst (scoreRows score rows) = map fst rows"
  by (simp add: scoreRows_def case_prod_unfold comp_def)

lemma scoreRows_filter:
  assumes "gm_wf vs"
  shows "scoreRows score (filter sel vs) = filter (\<lambda>x. \<exists>row. map_of vs (fst x) = Some row \<and> sel (fst x, row)) (scoreRows score vs)"
proof -
  have "sel x \<longleftrightarrow> (\<exists>row. map_of vs (fst x) = Some row \<and> sel (fst x, row))" if "x \<in> set vs" for x
    using that gm_wf_mem [OF assms, of "fst x" "snd x"] by auto
  then have "filter sel vs = filter (\<lambda>x. \<exists>row. map_of vs (fst x) = Some row \<and> sel (fst x, row)) vs"
    by (rule filter_cong [OF refl])
  then show ?thesis by (simp add: scoreRows_def filter_map comp_def case_prod_unfold)
qed

lemma members_nonempty:
  "members f groupColumn s k \<noteq> [] \<longleftrightarrow> (\<exists>occ\<in>snd ` set (ShOccurrences s). OcKey occ = k \<and> filterMatches f occ)"
proof -
  have "sort_by memberBefore xs = [] \<longleftrightarrow> xs = []" for xs by (metis length_0_conv length_sort_by)
  then show ?thesis by (auto simp: members_def filter_empty_conv)
qed

lemma members_vector:
  assumes inv: "sharedInv scalars s" and expr: "SupersetExpression f scalars = Inr expression"
    and mem: "members f groupColumn s k \<noteq> []"
  shows "\<exists>row. map_of (ShVectors s) k = Some row \<and> supersetMatches scalars f (k, row)"
proof -
  from mem obtain occ where occ: "occ \<in> snd ` set (ShOccurrences s)" "OcKey occ = k" "filterMatches f occ"
    by (auto simp: members_nonempty)
  show ?thesis
  proof (cases f)
    case None
    with inv occ show ?thesis by (auto simp: sharedInv_def occurrenceCovered_def supersetMatches_def)
  next
    case (Some g)
    with expr occ have "occ \<in> denseMatches scalars g s"
      using denseMatches_exact [OF inv, of g expression] by (simp add: filterMatches_def)
    with Some occ(2) show ?thesis by (auto simp: denseMatches_def supersetMatches_def)
  qed
qed

lemma ranking_of_selection:
  assumes wf: "gm_wf (ShVectors s)"
    and all: "\<And>k. members f groupColumn s k \<noteq> [] \<Longrightarrow> \<exists>row. map_of (ShVectors s) k = Some row \<and> sel (k, row)"
  shows "concat (map (members f groupColumn s \<circ> fst) (sort_by scoredBefore (scoreRows score (filter sel (ShVectors s)))))
    = denseRanking score f groupColumn s"
proof -
  have "distinct (map fst (scoreRows score (ShVectors s)))" using wf by (simp add: gm_wf_def)
  moreover have "(members f groupColumn s \<circ> fst) x = []" if "\<not> (\<exists>row. map_of (ShVectors s) (fst x) = Some row \<and> sel (fst x, row))" for x
    using that all [of "fst x"] by (cases "members f groupColumn s (fst x)") auto
  ultimately show ?thesis
    unfolding denseRanking_def scoreRows_filter [OF wf] by (simp only: scored.sort_filter) (rule concat_map_filter_empty)
qed

context keyed_order
begin

text \<open>The best of a list is among the best of its parts.\<close>

lemma take_sort_parts:
  assumes dist: "distinct (map key (concat bs))"
  shows "take d (sort_by lt (concat (map (\<lambda>b. take d (sort_by lt b)) bs))) = take d (sort_by lt (concat bs))"
proof (rule take_sort_subset)
  let ?top = "\<lambda>b. take d (sort_by lt b)"
  let ?ys = "concat (map ?top bs)"
  have part: "b \<in> set bs \<Longrightarrow> distinct (map key b)" for b using dist by (auto simp: map_concat distinct_concat_iff)
  have sub: "set (?top b) \<subseteq> set b" for b by (metis set_take_subset set_sort_by)
  then show "set ?ys \<subseteq> set (concat bs)" by fastforce
  have "mset (concat (map (\<lambda>b. ?top b) bs)) \<subseteq># mset (concat bs)" for bs
  proof (induction bs)
    case (Cons b bs)
    have "mset (?top b) \<subseteq># mset b" by (metis append_take_drop_id mset_append mset_sort_by mset_subset_eq_add_left)
    with Cons show ?case by (simp add: subset_mset.add_mono)
  qed simp
  then obtain zs where "mset (concat bs) = mset (?ys @ zs)" by (metis ex_mset mset_append subset_mset.le_iff_add)
  then have "mset (map key (concat bs)) = mset (map key (?ys @ zs))" by (metis mset_map)
  from mset_eq_imp_distinct_iff [OF this] dist show "distinct (map key ?ys)" by simp
  show "d \<le> card {y \<in> set ?ys. lt y x}" if x: "x \<in> set (concat bs)" "x \<notin> set ?ys" for x
  proof -
    from x obtain b where b: "b \<in> set bs" "x \<in> set b" "x \<notin> set (?top b)" by auto
    have so: "sorted_wrt lt (sort_by lt b)" and ds: "distinct (sort_by lt b)"
      using sorted_sort_by [OF part [OF b(1)]] part [OF b(1)] by (auto simp: distinct_map) (metis mset_sort_by mset_eq_imp_distinct_iff)
    have "x \<in> set (drop d (sort_by lt b))" using b(2,3) by (metis append_take_drop_id set_sort_by Un_iff set_append)
    moreover from this have "d \<le> length b" by (metis drop_all empty_iff empty_set length_sort_by nat_le_linear)
    moreover have "\<forall>y\<in>set (take d (sort_by lt b)). \<forall>z\<in>set (drop d (sort_by lt b)). lt y z"
      using so by (metis append_take_drop_id sorted_wrt_append)
    ultimately have "set (?top b) \<subseteq> {y \<in> set ?ys. lt y x}" "card (set (?top b)) = d"
      using b(1) ds by (auto simp: distinct_card)
    then show ?thesis using card_mono [of "{y \<in> set ?ys. lt y x}" "set (?top b)"] by simp
  qed
qed (rule dist)

end

lemma exactBatches_ok:
  assumes ok: "\<forall>n. orc n = CallOk" and ann: "annExact env score s"
  shows "\<exists>m. exactBatches orc env depth bs merged n = (m, Some (merged @
    concat (map (\<lambda>b. take (min depth (length b)) (sort_by scoredBefore (scoreRows score (filter (\<lambda>x. fst x \<in> set b) (ShVectors s))))) bs)))"
proof (induction bs arbitrary: merged n)
  case (Cons b bs)
  let ?rows = "take (min depth (length b)) (sort_by scoredBefore (scoreRows score (filter (\<lambda>x. fst x \<in> set b) (ShVectors s))))"
  have "searchVectors orc env (\<lambda>x. fst x \<in> set b) (min depth (length b)) n = (Suc n, Some ?rows)"
    using ann by (simp add: searchVectors_def annExact_def request_ok [OF ok])
  with Cons.IH [of "merged @ ?rows" "Suc n"] show ?case by simp
qed simp

lemma distinct_remdups_adj_sort: "distinct (remdups_adj (sort xs))"
proof -
  have "sorted ys \<Longrightarrow> distinct (remdups_adj ys)" for ys :: "'a list"
  proof (induction ys rule: remdups_adj.induct)
    case (3 x y xs)
    then show ?case by (cases "x = y") (auto simp: order.antisym)
  qed auto
  then show ?thesis by simp
qed

lemma exact_merge:
  assumes wf: "gm_wf vs" and bs: "distinct (concat bs)"
  shows "take d (sort_by scoredBefore (concat (map (\<lambda>b. take (min d (length b)) (sort_by scoredBefore (scoreRows score (filter (\<lambda>x. fst x \<in> set b) vs)))) bs)))
    = take d (sort_by scoredBefore (scoreRows score (filter (\<lambda>x. fst x \<in> set (concat bs)) vs)))"
proof -
  let ?rows = "\<lambda>b. scoreRows score (filter (\<lambda>x. fst x \<in> set b) vs)"
  have keys: "distinct (map fst (?rows b))" for b using wf by (simp add: gm_wf_def distinct_map_filter)
  have "length (?rows b) \<le> length b" for b
  proof -
    have "length (?rows b) = card (set (map fst (?rows b)))" using distinct_card [OF keys [of b]] by (simp del: scoreRows_keys set_map)
    also have "\<dots> \<le> card (set b)" by (intro card_mono) auto
    finally show ?thesis using card_length [of b] by linarith
  qed
  then have top: "take (min d (length b)) (sort_by scoredBefore (?rows b)) = take d (sort_by scoredBefore (?rows b))" for b
    by (simp add: take_take [symmetric] del: take_take)
  have parts: "distinct (map fst (concat (map ?rows bs)))" and msets: "mset (concat (map ?rows bs)) = mset (?rows (concat bs))"
    using bs
  proof (induction bs)
    case (Cons b bs)
    { case 1
      with Cons(1) keys [of b] show ?case by (fastforce simp: map_concat comp_def) }
    { case 2
      have "filter (\<lambda>x. fst x \<in> set b \<or> (\<exists>c\<in>set bs. fst x \<in> set c)) vs = filter (\<lambda>x. fst x \<in> set b \<or> fst x \<in> set (concat bs)) vs" by simp
      moreover have "mset (filter (\<lambda>x. fst x \<in> set b \<or> fst x \<in> set (concat bs)) vs)
          = mset (filter (\<lambda>x. fst x \<in> set b) vs) + mset (filter (\<lambda>x. fst x \<in> set (concat bs)) vs)"
        using 2 by (induction vs) auto
      ultimately show ?case using Cons(2) 2 by (simp add: scoreRows_def) }
  qed (auto simp: scoreRows_def)
  show ?thesis
    using scored.take_sort_parts [OF parts, of d] scored.sort_by_perm [OF msets parts] by (simp add: top comp_def)
qed

lemma exactDenseLeg_ok:
  assumes ok: "\<forall>n. orc n = CallOk" and ann: "annExact env score s" and wf: "gm_wf (ShVectors s)"
    and covered: "\<And>k. members f groupColumn s k \<noteq> [] \<Longrightarrow> map_of (ShVectors s) k \<noteq> None"
  shows "snd (exactDenseLeg orc env f groupColumn depth s n) = Some (take depth (denseRanking score f groupColumn s))"
proof -
  let ?keys = "iterateVectorKeys (filterMatches f) s"
  let ?bs = "batchesOf fallbackKeyBatch ?keys"
  let ?all = "sort_by scoredBefore (scoreRows score (filter (\<lambda>x. fst x \<in> set ?keys) (ShVectors s)))"
  let ?m = "members f groupColumn s \<circ> fst"
  have cc: "concat ?bs = ?keys" by (rule concat_batchesOf) (simp add: fallbackKeyBatch_def)
  have mem: "members f groupColumn s k \<noteq> [] \<longleftrightarrow> k \<in> set ?keys" for k by (auto simp: members_nonempty iterate_keys)
  obtain m merged where ex: "exactBatches orc env depth ?bs [] (Suc n) = (m, Some merged)"
    and merged: "merged = concat (map (\<lambda>b. take (min depth (length b)) (sort_by scoredBefore (scoreRows score (filter (\<lambda>x. fst x \<in> set b) (ShVectors s))))) ?bs)"
    using exactBatches_ok [OF ok ann, of depth ?bs "[]" "Suc n"] by auto
  have top: "take depth (sort_by scoredBefore merged) = take depth ?all"
    using exact_merge [OF wf, of ?bs depth score] unfolding merged cc
    by (simp add: iterateVectorKeys_def distinct_remdups_adj_sort)
  have keys: "x \<in> set merged \<union> set ?all \<Longrightarrow> ?m x \<noteq> []" for x
  proof -
    have "b \<in> set ?bs \<Longrightarrow> a \<in> set b \<Longrightarrow> a \<in> set ?keys" for a b using cc by (metis UN_I set_concat)
    then show "x \<in> set merged \<union> set ?all \<Longrightarrow> ?m x \<noteq> []" by (auto simp: mem merged scoreRows_def dest!: in_set_takeD)
  qed
  have "take depth (concat (map ?m (sort_by scoredBefore merged))) = take depth (concat (map ?m ?all))"
    using take_concat_nonempty [of "sort_by scoredBefore merged" ?m depth] take_concat_nonempty [of ?all ?m depth] keys top by simp
  also have "concat (map ?m ?all) = denseRanking score f groupColumn s"
    using covered mem by (intro ranking_of_selection [OF wf]) auto
  finally have ranking: "take depth (concat (map ?m (sort_by scoredBefore merged))) = take depth (denseRanking score f groupColumn s)" .
  from expandKeys_ok [OF ok, of f groupColumn depth s "sort_by scoredBefore merged" m] obtain m2 where
    "expandKeys orc f groupColumn depth s (sort_by scoredBefore merged) m = (m2, Some (take depth (concat (map ?m (sort_by scoredBefore merged)))))" by blast
  then show ?thesis by (simp only: exactDenseLeg_def request_ok [OF ok] thenR_Some ex ranking snd_conv)
qed

lemma denseLeg_loop_ok:
  assumes ok: "\<forall>n. orc n = CallOk" and ann: "annExact env score s" and wf: "gm_wf (ShVectors s)"
    and inv: "sharedInv scalars s" and expr: "SupersetExpression f scalars = Inr expression"
  shows "0 < fetch \<Longrightarrow> \<exists>m. denseLeg_loop orc env scalars f groupColumn depth s fetch n = Some (m, Some (take depth (denseRanking score f groupColumn s)))"
proof (induction "RankingDepth - fetch" arbitrary: fetch n rule: less_induct)
  case less
  let ?L = "sort_by scoredBefore (scoreRows score (filter (supersetMatches scalars f) (ShVectors s)))"
  let ?m = "members f groupColumn s \<circ> fst"
  let ?hits = "take depth (concat (map ?m (take fetch ?L)))"
  have search: "searchVectors orc env (supersetMatches scalars f) fetch n = (Suc n, Some (take fetch ?L))"
    using ann by (simp add: searchVectors_def annExact_def request_ok [OF ok])
  obtain k where expand: "expandKeys orc f groupColumn depth s (take fetch ?L) (Suc n) = (k, Some ?hits)"
    using expandKeys_ok [OF ok] by blast
  have vector: "members f groupColumn s k \<noteq> [] \<Longrightarrow> \<exists>row. map_of (ShVectors s) k = Some row \<and> supersetMatches scalars f (k, row)" for k
    using members_vector [OF inv expr] by blast
  have ranking: "concat (map ?m ?L) = denseRanking score f groupColumn s"
    by (rule ranking_of_selection [OF wf vector])
  show ?case
  proof (cases "length ?hits \<ge> depth \<or> length (take fetch ?L) < fetch")
    case True
    have "concat (map ?m ?L) = concat (map ?m (take fetch ?L)) @ concat (map ?m (drop fetch ?L))"
      by (metis append_take_drop_id concat_append map_append)
    with True have "take depth (concat (map ?m ?L)) = ?hits" by auto
    with True show ?thesis by (subst denseLeg_loop.simps) (simp add: search expand ranking del: length_take)
  next
    case short: False
    show ?thesis
    proof (cases "fetch < RankingDepth")
      case True
      let ?fetch = "min (fetch * denseFetchGrowth) RankingDepth"
      have "RankingDepth - ?fetch < RankingDepth - fetch" "0 < ?fetch"
        using True less.prems by (auto simp: denseFetchGrowth_def)
      from less.hyps [OF this, of k] short True show ?thesis
        by (subst denseLeg_loop.simps) (simp add: search expand del: length_take)
    next
      case False
      have "snd (exactDenseLeg orc env f groupColumn depth s k) = Some (take depth (denseRanking score f groupColumn s))"
        using vector by (intro exactDenseLeg_ok [OF ok ann wf]) fastforce
      with short False show ?thesis
        by (subst denseLeg_loop.simps) (simp add: search expand prod_eq_iff del: length_take)
    qed
  qed
qed

section \<open>The lexical leg is the lexical ranking\<close>

text \<open>
  A lexical search: the best rows of the selection by score; rows of equal score come in any order, and
  at the limit any of them may be cut. A row that does not share a term with the query has no score.
\<close>

definition textRows :: "(string \<times> 'f occurrence \<Rightarrow> 's option) \<Rightarrow> filter_node option \<Rightarrow> 'f shared_state \<Rightarrow> (string \<times> 's) list" where
  "textRows score f s = concat (map (\<lambda>x. case score x of None \<Rightarrow> [] | Some v \<Rightarrow> [(fst x, v)])
     (filter (\<lambda>x. filterMatches f (snd x)) (ShOccurrences s)))"

definition topRows :: "(string \<times> 's::linorder) list \<Rightarrow> nat \<Rightarrow> (string \<times> 's) list \<Rightarrow> bool" where
  "topRows rows n r \<longleftrightarrow> distinct (map fst r) \<and> set r \<subseteq> set rows \<and> length r = min n (length rows)
     \<and> (\<forall>x\<in>set rows - set r. \<forall>y\<in>set r. snd x \<le> snd y)"

definition textTop :: "('f, 's::linorder) search_env \<Rightarrow> (string \<times> 'f occurrence \<Rightarrow> 's option) \<Rightarrow> filter_node option \<Rightarrow> 'f shared_state \<Rightarrow> bool" where
  "textTop env score f s \<longleftrightarrow> (\<forall>n. topRows (textRows score f s) n (TextSearch env (\<lambda>x. filterMatches f (snd x)) n))"

text \<open>The rows that tie with a row of the leg fit into one search.\<close>

definition tiesFit :: "nat \<Rightarrow> (string \<times> 's::linorder) list \<Rightarrow> bool" where
  "tiesFit depth rows \<longleftrightarrow>
     (\<forall>x\<in>set rows. depth \<le> card {y \<in> set rows. snd x < snd y} \<or> card {y \<in> set rows. snd x \<le> snd y} \<le> RankingDepth)"

definition sparseRanking :: "(string \<times> 'f occurrence \<Rightarrow> 's::linorder option) \<Rightarrow> filter_node option \<Rightarrow> scalar_column option \<Rightarrow> 'f shared_state \<Rightarrow> leg_hit list" where
  "sparseRanking score f groupColumn s = sparseHits groupColumn s (sort_by scoredBefore (textRows score f s))"

lemma textRows_fst: "map fst (textRows score f s) = map fst (filter (\<lambda>x. filterMatches f (snd x) \<and> score x \<noteq> None) (ShOccurrences s))"
proof -
  have "map fst (concat (map (\<lambda>x. case score x of None \<Rightarrow> [] | Some v \<Rightarrow> [(fst x, v)]) (filter P xs)))
      = map fst (filter (\<lambda>x. P x \<and> score x \<noteq> None) xs)" for P xs
    by (induction xs) (auto split: option.split)
  then show ?thesis by (simp add: textRows_def)
qed

lemma textRows_keys:
  assumes "gm_wf (ShOccurrences s)"
  shows "distinct (map fst (textRows score f s))"
  unfolding textRows_fst using assms by (simp add: gm_wf_def distinct_map_filter)

lemma topRows_take:
  fixes rows :: "(string \<times> 's::linorder) list"
  assumes top: "topRows rows n r" and dist: "distinct (map fst rows)" and depth: "depth \<le> n"
    and late: "\<And>x. x \<in> set rows \<Longrightarrow> x \<notin> set r \<Longrightarrow> length r = n \<Longrightarrow> depth \<le> card {y \<in> set r. snd x < snd y}"
  shows "take depth (sort_by scoredBefore r) = take depth (sort_by scoredBefore rows)"
proof (rule scored.take_sort_subset [OF dist])
  show "distinct (map fst r)" "set r \<subseteq> set rows" using top by (auto simp: topRows_def)
  show "depth \<le> card {y \<in> set r. scoredBefore y x}" if x: "x \<in> set rows" "x \<notin> set r" for x
  proof -
    have "length r \<noteq> length rows"
    proof
      assume "length r = length rows"
      then have "card (set r) = card (set rows)" using top dist by (simp add: topRows_def distinct_map distinct_card)
      then have "set r = set rows" using top by (intro card_subset_eq) (auto simp: topRows_def)
      with x show False by simp
    qed
    then have "length r = n" using top by (auto simp: topRows_def min_def split: if_splits)
    from late [OF x this] have "depth \<le> card {y \<in> set r. snd x < snd y}" .
    also have "\<dots> \<le> card {y \<in> set r. scoredBefore y x}" by (intro card_mono) (auto simp: scoredBefore_def)
    finally show ?thesis .
  qed
qed

lemma better_than_last:
  fixes r :: "(string \<times> 's::linorder) list"
  assumes dist: "distinct (map fst r)" and depth: "0 < depth"
    and tie: "snd (sort_by scoredBefore r ! (depth - 1)) \<noteq> snd (last (sort_by scoredBefore r))" and d: "depth < length r"
    and below: "\<And>y. y \<in> set r \<Longrightarrow> snd x \<le> snd y"
  shows "depth \<le> card {y \<in> set r. snd x < snd y}"
proof -
  let ?C = "sort_by scoredBefore r"
  have so: "sorted_wrt scoredBefore ?C" using dist by (rule scored.sorted_sort_by)
  have score: "i < j \<Longrightarrow> j < length ?C \<Longrightarrow> snd (?C ! j) \<le> snd (?C ! i)" for i j
    using sorted_wrt_nth_less [OF so, of i j] by (auto simp: scoredBefore_def split: if_splits)
  have ne: "?C \<noteq> []" using d by (metis length_0_conv length_sort_by not_less_zero)
  then have last: "last ?C = ?C ! (length r - 1)" by (simp add: last_conv_nth)
  have "snd (?C ! (length r - 1)) < snd (?C ! (depth - 1))"
    using score [of "depth - 1" "length r - 1"] tie d depth unfolding last by fastforce
  moreover have "snd x \<le> snd (?C ! (length r - 1))"
    using below [of "last ?C"] last_in_set [OF ne] last by simp
  ultimately have "snd x < snd (?C ! i)" if "i < depth" for i
    using that score [of i "depth - 1"] d by (cases "i = depth - 1") fastforce+
  then have "y \<in> set (take depth ?C) \<Longrightarrow> y \<in> set r \<and> snd x < snd y" for y
    using in_set_takeD [of y depth ?C] by (metis in_set_conv_nth length_take min_less_iff_conj nth_take set_sort_by)
  then have "set (take depth ?C) \<subseteq> {y \<in> set r. snd x < snd y}" by blast
  then have "card (set (take depth ?C)) \<le> card {y \<in> set r. snd x < snd y}" by (intro card_mono) auto
  moreover have "distinct ?C" using dist by (metis distinct_map mset_sort_by mset_eq_imp_distinct_iff)
  ultimately show ?thesis using d by (simp add: distinct_card)
qed

lemma sparse_cut:
  fixes rows :: "(string \<times> 's::linorder) list"
  assumes top: "topRows rows fetch r" and dist: "distinct (map fst rows)" and depth: "0 < depth" "depth \<le> fetch"
    and fit: "tiesFit depth rows"
    and complete: "length r < fetch \<or> fetch = RankingDepth \<or> length r \<le> depth
      \<or> snd (sort_by scoredBefore r ! (depth - 1)) \<noteq> snd (last (sort_by scoredBefore r))"
    and cap: "depth = fetch \<Longrightarrow> fetch = RankingDepth"
  shows "take depth (sort_by scoredBefore r) = take depth (sort_by scoredBefore rows)"
proof (rule topRows_take [OF top dist depth(2)])
  fix x assume x: "x \<in> set rows" "x \<notin> set r" and len: "length r = fetch"
  let ?C = "sort_by scoredBefore r"
  have dr: "distinct (map fst r)" "distinct r" and sub: "set r \<subseteq> set rows" and below: "\<And>y. y \<in> set r \<Longrightarrow> snd x \<le> snd y"
    using top x by (auto simp: topRows_def distinct_map)
  show "depth \<le> card {y \<in> set r. snd x < snd y}"
  proof (cases "fetch = RankingDepth")
    case True
    have "insert x (set r) \<subseteq> {y \<in> set rows. snd x \<le> snd y}" using x sub below by auto
    then have "card (insert x (set r)) \<le> card {y \<in> set rows. snd x \<le> snd y}" by (intro card_mono) auto
    then have "\<not> card {y \<in> set rows. snd x \<le> snd y} \<le> RankingDepth" using x(2) len True dr(2) by (simp add: distinct_card)
    with fit x(1) have better: "depth \<le> card {y \<in> set rows. snd x < snd y}" by (auto simp: tiesFit_def)
    show ?thesis
    proof (cases "{y \<in> set rows. snd x < snd y} \<subseteq> set r")
      case True
      then have "{y \<in> set rows. snd x < snd y} = {y \<in> set r. snd x < snd y}" using sub by auto
      with better show ?thesis by simp
    next
      case False
      then obtain z where "z \<in> set rows" "z \<notin> set r" "snd x < snd z" by auto
      with top have "\<forall>y\<in>set r. snd x < snd y" unfolding topRows_def by (meson DiffI less_le_trans)
      then have "{y \<in> set r. snd x < snd y} = set r" by auto
      with dr(2) len depth(2) show ?thesis by (simp add: distinct_card)
    qed
  next
    case False
    with cap depth(2) len have "depth < length r" by (cases "depth = fetch") auto
    with False complete len have "snd (?C ! (depth - 1)) \<noteq> snd (last ?C)" "depth < length r" by auto
    from better_than_last [OF dr(1) depth(1) this below] show ?thesis .
  qed
qed

lemma sparseLeg_loop_ok:
  fixes env :: "('f, 's::linorder) search_env"
  assumes ok: "\<forall>n. orc n = CallOk" and lex: "textTop env score f s" and wf: "gm_wf (ShOccurrences s)"
    and depth: "0 < depth" and fit: "tiesFit depth (textRows score f s)"
  shows "depth \<le> fetch \<Longrightarrow> fetch \<le> RankingDepth \<Longrightarrow> (depth = fetch \<Longrightarrow> fetch = RankingDepth) \<Longrightarrow>
    \<exists>m. sparseLeg_loop orc env f depth fetch n = Some (m, Some (take depth (sort_by scoredBefore (textRows score f s))))"
proof (induction "RankingDepth - fetch" arbitrary: fetch n rule: less_induct)
  case less
  let ?r = "TextSearch env (\<lambda>x. filterMatches f (snd x)) fetch"
  let ?C = "sort_by scoredBefore ?r"
  have top: "topRows (textRows score f s) fetch ?r" using lex by (simp add: textTop_def)
  show ?case
  proof (cases "length ?r < fetch \<or> fetch = RankingDepth \<or> length ?r \<le> depth \<or> snd (?C ! (depth - 1)) \<noteq> snd (last ?C)")
    case True
    from sparse_cut [OF top textRows_keys [OF wf] depth less.prems(1) fit True less.prems(3)]
    have "take depth ?C = take depth (sort_by scoredBefore (textRows score f s))" by blast
    with True less.prems show ?thesis by (subst sparseLeg_loop.simps) (auto simp: request_ok [OF ok])
  next
    case False
    let ?fetch = "min (fetch * denseFetchGrowth) RankingDepth"
    have "RankingDepth - ?fetch < RankingDepth - fetch" "depth \<le> ?fetch" "?fetch \<le> RankingDepth" "depth = ?fetch \<Longrightarrow> ?fetch = RankingDepth"
      using False depth less.prems(1,2) by (auto simp: denseFetchGrowth_def min_def split: if_splits)
    from less.hyps [OF this, of "Suc n"] False less.prems show ?thesis
      by (subst sparseLeg_loop.simps) (auto simp: request_ok [OF ok])
  qed
qed

lemma sparseHits_take:
  assumes "fst ` set cs \<subseteq> fst ` set (ShOccurrences s)"
  shows "sparseHits groupColumn s (take d cs) = take d (sparseHits groupColumn s cs)
    \<and> map LhID (sparseHits groupColumn s cs) = map fst cs"
  using assms
proof (induction cs arbitrary: d)
  case (Cons c cs)
  then obtain occ where "map_of (ShOccurrences s) (fst c) = Some occ"
    by (metis (no_types, lifting) image_subset_iff list.set_intros(1) map_of_eq_None_iff not_None_eq)
  with Cons show ?case by (cases d) (auto simp: sparseHits_def legHit_def)
qed (simp add: sparseHits_def)

lemma sparseLeg_ok:
  fixes env :: "('f, 's::linorder) search_env"
  assumes ok: "\<forall>n. orc n = CallOk" and lex: "textTop env score f s" and wf: "gm_wf (ShOccurrences s)"
    and depth: "0 < depth" "depth \<le> RankingDepth" and fit: "tiesFit depth (textRows score f s)"
  shows "\<exists>m. sparseLeg orc env f groupColumn depth s n = Some (m, Some (take depth (sparseRanking score f groupColumn s)))"
proof -
  let ?fetch = "min (depth * 2) RankingDepth"
  have "fst ` set (textRows score f s) = set (map fst (textRows score f s))" by simp
  then have "fst ` set (sort_by scoredBefore (textRows score f s)) \<subseteq> fst ` set (ShOccurrences s)"
    unfolding textRows_fst by auto
  moreover have "depth \<le> ?fetch" "?fetch \<le> RankingDepth" "depth = ?fetch \<Longrightarrow> ?fetch = RankingDepth" using depth by auto
  from sparseLeg_loop_ok [OF ok lex wf depth(1) fit this] obtain m where
    "sparseLeg_loop orc env f depth ?fetch n = Some (m, Some (take depth (sort_by scoredBefore (textRows score f s))))" by blast
  ultimately show ?thesis by (simp add: sparseLeg_def sparseHits_take sparseRanking_def)
qed

section \<open>The search is the fusion of the two rankings\<close>

definition referencePage ::
  "'s::{linorder, zero} rrf_arith \<Rightarrow> ('f vector_row \<Rightarrow> 's) \<Rightarrow> (string \<times> 'f occurrence \<Rightarrow> 's option) \<Rightarrow> 's search_request \<Rightarrow> 'f shared_state \<Rightarrow> 's candidate list" where
  "referencePage arith dense lexical req s =
     (let g = GroupColumnFor (SrScalars req) (SrGroupBy req) (SrPerGroupLimit req)
      in searchPage arith (denseRanking dense (SrFilter req) g s) (sparseRanking lexical (SrFilter req) g s)
           (if g = None then 0 else SrPerGroupLimit req) (SrMinScore req) (SrLimit req))"


text \<open>An environment whose searches are exact.\<close>

definition exactEnv :: "('f vector_row \<Rightarrow> 's::linorder) \<Rightarrow> (string \<times> 'f occurrence \<Rightarrow> 's option) \<Rightarrow> 'f shared_state \<Rightarrow> ('f, 's) search_env" where
  "exactEnv dense lexical s =
     \<lparr>AnnSearch = \<lambda>sel n. take n (sort_by scoredBefore (scoreRows dense (filter sel (ShVectors s)))),
      TextSearch = \<lambda>sel n. take n (concat (map (\<lambda>x. case lexical x of None \<Rightarrow> [] | Some v \<Rightarrow> [(fst x, v)]) (filter sel (ShOccurrences s))))\<rparr>"

lemma exactEnv_ann: "gm_wf (ShVectors s) \<Longrightarrow> annExact (exactEnv dense lexical s) dense s"
proof -
  assume wf: "gm_wf (ShVectors s)"
  have "sort_by scoredBefore (take n (sort_by scoredBefore (scoreRows dense (filter sel (ShVectors s)))))
      = take n (sort_by scoredBefore (scoreRows dense (filter sel (ShVectors s))))" for sel n
  proof (rule scored.sorted_unique)
    let ?l = "scoreRows dense (filter sel (ShVectors s))"
    have d: "distinct (map fst ?l)" using wf by (simp add: gm_wf_def distinct_map_filter)
    then show so: "sorted_wrt scoredBefore (take n (sort_by scoredBefore ?l))"
      by (intro sorted_wrt_take scored.sorted_sort_by)
    have "mset (map fst (sort_by scoredBefore ?l)) = mset (map fst ?l)" by (metis mset_map mset_sort_by)
    with d have "distinct (map fst (sort_by scoredBefore ?l))" by (metis mset_eq_imp_distinct_iff)
    then have "distinct (map fst (take n (sort_by scoredBefore ?l)))" by (metis distinct_take take_map)
    then show "sorted_wrt scoredBefore (sort_by scoredBefore (take n (sort_by scoredBefore ?l)))" by (rule scored.sorted_sort_by)
  qed simp
  then show ?thesis by (simp add: annExact_def exactEnv_def)
qed

lemma sampleOccurrences: "map fst (ShOccurrences sampleStore) = [''r1'', ''r2'']"
  by code_simp

lemma constant_textTop:
  assumes "gm_wf (ShOccurrences s)"
  shows "textTop (exactEnv dense (\<lambda>x. Some v) s) (\<lambda>x. Some v) f s"
proof -
  let ?rows = "textRows (\<lambda>x. Some v) f s"
  have "distinct (map fst (take n ?rows))" for n using textRows_keys [OF assms] by (metis distinct_take take_map)
  moreover have "x \<in> set ?rows \<Longrightarrow> snd x = v" for x by (auto simp: textRows_def)
  moreover have "TextSearch (exactEnv dense (\<lambda>x. Some v) s) (\<lambda>x. filterMatches f (snd x)) n = take n ?rows" for n
    by (simp add: exactEnv_def textRows_def)
  moreover from calculation(2) have "x \<in> set (take n ?rows) \<Longrightarrow> snd x = v" for x n by (blast dest: in_set_takeD)
  ultimately show ?thesis using set_take_subset [of _ ?rows] by (simp add: textTop_def topRows_def min.commute)
qed

lemma few_tiesFit: "length rows \<le> RankingDepth \<Longrightarrow> tiesFit depth rows"
proof -
  assume "length rows \<le> RankingDepth"
  then have "card {y \<in> set rows. P y} \<le> RankingDepth" for P
    using card_mono [of "set rows" "{y \<in> set rows. P y}"] card_length [of rows] by fastforce
  then show ?thesis by (simp add: tiesFit_def)
qed

definition sampleRequest :: "rat search_request" where
  "sampleRequest = \<lparr>SrFilter = Some (ColumnRange ''turn'' (Some 3) (Some 9)), SrScalars = sampleColumns, SrGroupBy = [],
     SrPerGroupLimit = 0, SrMinScore = 0, SrLimit = 5\<rparr>"


end
