(* ===== verification/PathStore.thy ===== *)
theory PathStore
  imports EmbedPipeline
begin

text \<open>
  The rows of one code collection, addressed by file path (\<open>internal/semantic/service.go\<close>,
  \<open>copy_chunks.go\<close>): \<open>Reindex\<close> deletes the rows of a path and writes the rows of its new chunks,
  \<open>CopyChunks\<close> moves rows to another path without embedding them again, \<open>PruneToCurrent\<close> drops the rows
  of unknown paths. Each request to the store may fail or be applied with its answer lost, and a flush
  may be refused for a while. The embedding and insertion of chunks is an argument with one law, which
  the pipeline of \<open>EmbedPipeline\<close> satisfies. Paths are valid UTF-8, so the store keeps them unchanged.
\<close>

section \<open>The store and its requests\<close>

type_synonym 'x stored_row = "'x collection_row \<times> gostring"

record 'x path_store =
  PsExists :: bool
  PsRows :: "'x stored_row list"
  PsCalls :: nat

datatype path_error = PathCollectionMissing | PathStoreError | PathInsertError | PathUnavailable

datatype flush_answer = FlushAccepted | FlushRateLimited bool | FlushRefused

record ('f, 'x) service_env =
  SvCall :: call_oracle
  SvFlush :: "nat \<Rightarrow> flush_answer"
  SvInsert :: "nat \<Rightarrow> 'f stored_chunk list \<Rightarrow> 'x stored_row list \<times> path_error option"
  SvSha256Hex :: "gostring \<Rightarrow> gostring"
  SvDecodeLanguage :: "gostring \<Rightarrow> gostring"

definition rowPath :: "'x stored_row \<Rightarrow> gostring" where
  "rowPath r = RowRelativePath (fst r)"

definition rowsOf :: "gostring \<Rightarrow> 'x path_store \<Rightarrow> 'x stored_row list" where
  "rowsOf p s = filter (\<lambda>r. rowPath r = p) (PsRows s)"

definition pathCall :: "('f, 'x) service_env \<Rightarrow> ('x stored_row list \<Rightarrow> 'x stored_row list) \<Rightarrow> 'x path_store \<Rightarrow> 'x path_store \<times> path_error option" where
  "pathCall env f s =
     (let t = s\<lparr>PsCalls := Suc (PsCalls s)\<rparr>
      in case SvCall env (PsCalls s) of
           CallOk \<Rightarrow> (t\<lparr>PsRows := f (PsRows s)\<rparr>, None)
         | CallFailed \<Rightarrow> (t, Some PathStoreError)
         | CallLost \<Rightarrow> (t\<lparr>PsRows := f (PsRows s)\<rparr>, Some PathStoreError))"

definition readPath :: "('f, 'x) service_env \<Rightarrow> 'x path_store \<Rightarrow> 'x path_store \<times> path_error option" where
  "readPath env = pathCall env (\<lambda>rows. rows)"

definition deleteByRelativePaths :: "('f, 'x) service_env \<Rightarrow> gostring list \<Rightarrow> 'x path_store \<Rightarrow> 'x path_store \<times> path_error option" where
  "deleteByRelativePaths env paths s =
     (if paths = [] then (s, None) else pathCall env (filter (\<lambda>r. rowPath r \<notin> set paths)) s)"

section \<open>Replacing the rows of a path\<close>

definition insertChunks :: "('f, 'x) service_env \<Rightarrow> 'f stored_chunk list \<Rightarrow> 'x path_store \<Rightarrow> 'x path_store \<times> path_error option" where
  "insertChunks env chunks s =
     (case SvInsert env (PsCalls s) chunks of
        (rows, err) \<Rightarrow> (s\<lparr>PsRows := PsRows s @ rows, PsCalls := Suc (PsCalls s)\<rparr>, err))"

text \<open>\<open>Reindex\<close> with a removal by path: the presence check, the preparation and the lease are requests that only read.\<close>

definition Reindex :: "('f, 'x) service_env \<Rightarrow> 'f stored_chunk list \<Rightarrow> gostring list \<Rightarrow> 'x path_store \<Rightarrow> 'x path_store \<times> path_error option" where
  "Reindex env chunks removalPaths s =
     andThen (readPath env s) (\<lambda>s.
       if \<not> PsExists s then (s, Some PathCollectionMissing)
       else andThen (if chunks \<noteq> [] then readPath env s else (s, None)) (\<lambda>s.
         andThen (readPath env s) (\<lambda>s.
           andThen (deleteByRelativePaths env removalPaths s) (\<lambda>s.
             if chunks = [] then (s, None) else insertChunks env chunks s))))"

definition PruneToCurrent :: "('f, 'x) service_env \<Rightarrow> gostring list \<Rightarrow> 'x path_store \<Rightarrow> 'x path_store \<times> path_error option" where
  "PruneToCurrent env currentPaths s =
     (if currentPaths = [] then (s, None)
      else andThen (readPath env s) (\<lambda>s.
        if \<not> PsExists s then (s, Some PathCollectionMissing)
        else andThen (readPath env s) (pathCall env (filter (\<lambda>r. rowPath r \<in> set currentPaths)))))"

section \<open>Copying rows to another path\<close>

record chunk_copy =
  CcSource :: gostring
  CcDestination :: gostring

definition copiedChunkID :: "(gostring \<Rightarrow> gostring) \<Rightarrow> gostring \<Rightarrow> gostring \<Rightarrow> gostring" where
  "copiedChunkID sha256Hex sourceID dstRelativePath = ''chunk_'' @ take 16 (sha256Hex (dstRelativePath @ '':'' @ sourceID))"

text \<open>A stored row read back as a chunk: the scalars are not read, the language comes from the metadata.\<close>

definition copiedRowAt :: "(gostring \<Rightarrow> gostring) \<Rightarrow> 'x collection_row \<Rightarrow> unit stored_chunk" where
  "copiedRowAt decodeMetadataLanguage row =
     \<lparr>Content = RowContent row, RelativePath = RowRelativePath row,
      StartLine = safeInt32FromInt (RowStartLine row), EndLine = safeInt32FromInt (RowEndLine row),
      Language = decodeMetadataLanguage (RowMetadata row), FileExtension = RowFileExtension row,
      SplitPart = RowSplitPart row, SplitPartRecorded = RowSplitPartRecorded row, Scalars = [], Score = ()\<rparr>"

definition rewriteCopiedRow :: "(gostring \<Rightarrow> gostring) \<Rightarrow> (gostring \<Rightarrow> gostring) \<Rightarrow> gostring \<Rightarrow> 'x stored_row \<Rightarrow> 'x stored_row" where
  "rewriteCopiedRow sha256Hex decodeMetadataLanguage dst r =
     (let row = fst r; chunk = (copiedRowAt decodeMetadataLanguage row)\<lparr>RelativePath := dst\<rparr>;
          recorded = RowSplitPartRecorded row
      in (\<lparr>RowID = (if recorded then generateID sha256Hex chunk else copiedChunkID sha256Hex (RowID row) dst),
           RowContent = Content chunk, RowRelativePath = dst, RowStartLine = StartLine chunk, RowEndLine = EndLine chunk,
           RowFileExtension = FileExtension chunk, RowMetadata = encodeMetadata chunk, RowSplitPart = SplitPart chunk,
           RowSplitPartRecorded = recorded, RowVector = RowVector row, RowScalars = rowScalars CodeColumns chunk\<rparr>, snd r))"

definition copyRows :: "('f, 'x) service_env \<Rightarrow> gostring \<Rightarrow> 'x stored_row list \<Rightarrow> 'x stored_row list" where
  "copyRows env dst = map (rewriteCopiedRow (SvSha256Hex env) (SvDecodeLanguage env) dst)"

definition insertCopiedRows :: "('f, 'x) service_env \<Rightarrow> chunk_copy \<Rightarrow> 'x path_store \<Rightarrow> 'x path_store \<times> nat \<times> path_error option" where
  "insertCopiedRows env c s =
     (case readPath env s of
        (s, Some e) \<Rightarrow> (s, 0, Some e)
      | (s, None) \<Rightarrow>
          let source = rowsOf (CcSource c) s
          in if source = [] then (s, 0, None)
             else case andThen (readPath env s) (pathCall env (\<lambda>rows. rows @ copyRows env (CcDestination c) source)) of
                    (s, Some e) \<Rightarrow> (s, 0, Some e)
                  | (s, None) \<Rightarrow> (s, length source, None))"

text \<open>The loop over the copies: the row counts so far and the sources with copied rows.\<close>

fun copyLoop :: "('f, 'x) service_env \<Rightarrow> chunk_copy list \<Rightarrow> nat list \<Rightarrow> gostring list \<Rightarrow> 'x path_store
    \<Rightarrow> 'x path_store \<times> nat list \<times> gostring list \<times> path_error option" where
  "copyLoop env [] counts sources s = (s, counts, sources, None)"
| "copyLoop env (c # cs) counts sources s =
     (if CcSource c = CcDestination c then copyLoop env cs (counts @ [0]) sources s
      else case insertCopiedRows env c s of
             (s, n, Some e) \<Rightarrow> (s, counts @ replicate (Suc (length cs)) 0, sources, Some e)
           | (s, n, None) \<Rightarrow>
               copyLoop env cs (counts @ [n]) (if n > 0 \<and> CcSource c \<notin> set sources then sources @ [CcSource c] else sources) s)"

definition flushRateLimitMaxAttempts :: nat where "flushRateLimitMaxAttempts = 8"

text \<open>A refused flush is tried again while Milvus reports a rate limit and the wait completes.\<close>

function requestFlush :: "('f, 'x) service_env \<Rightarrow> nat \<Rightarrow> 'x path_store \<Rightarrow> 'x path_store \<times> path_error option" where
  "requestFlush env attempt s =
     (let t = s\<lparr>PsCalls := Suc (PsCalls s)\<rparr>
      in case SvFlush env (PsCalls s) of
           FlushAccepted \<Rightarrow> (t, None)
         | FlushRefused \<Rightarrow> (t, Some PathStoreError)
         | FlushRateLimited waited \<Rightarrow>
             if attempt \<ge> flushRateLimitMaxAttempts \<or> \<not> waited then (t, Some PathStoreError)
             else requestFlush env (Suc attempt) t)"
  by pat_completeness auto
termination
  by (relation "measure (\<lambda>(env, attempt, s). flushRateLimitMaxAttempts - attempt)") auto

declare requestFlush.simps [simp del]

definition flushCollection :: "('f, 'x) service_env \<Rightarrow> 'x path_store \<Rightarrow> 'x path_store \<times> path_error option" where
  "flushCollection env s = andThen (requestFlush env 1 s) (readPath env)"

definition hasDistinctChunkCopy :: "chunk_copy list \<Rightarrow> bool" where
  "hasDistinctChunkCopy copies \<longleftrightarrow> list_ex (\<lambda>c. CcSource c \<noteq> CcDestination c) copies"

definition CopyChunks :: "('f, 'x) service_env \<Rightarrow> chunk_copy list \<Rightarrow> 'x path_store \<Rightarrow> 'x path_store \<times> nat list \<times> path_error option" where
  "CopyChunks env copies s =
     (if \<not> hasDistinctChunkCopy copies then (s, replicate (length copies) 0, None)
      else case readPath env s of
             (s, Some e) \<Rightarrow> (s, [], Some e)
           | (s, None) \<Rightarrow>
               if \<not> PsExists s then (s, [], Some PathCollectionMissing)
               else (case andThen (readPath env s) (readPath env) of
                   (s, Some e) \<Rightarrow> (s, [], Some e)
                 | (s, None) \<Rightarrow>
                     (case copyLoop env copies [] [] s of
                        (s, counts, sources, Some e) \<Rightarrow> (s, counts, Some e)
                      | (s, counts, sources, None) \<Rightarrow>
                          if sources = [] then (s, counts, None)
                          else (case andThen (flushCollection env s) (deleteByRelativePaths env sources) of
                                  (s, err) \<Rightarrow> (s, counts, err)))))"

section \<open>The embedding pipeline as the inserter\<close>

text \<open>What a path store needs of the insertion of chunks: the rows belong to the paths of the chunks.\<close>

locale chunk_inserter =
  fixes ins :: "nat \<Rightarrow> 'f stored_chunk list \<Rightarrow> 'x stored_row list \<times> path_error option"
  assumes rows_path: "r \<in> set (fst (ins n chunks)) \<Longrightarrow> rowPath r \<in> RelativePath ` set chunks"
begin

lemma rows_one_path: "\<forall>c\<in>set chunks. RelativePath c = p \<Longrightarrow> r \<in> set (fst (ins n chunks)) \<Longrightarrow> rowPath r = p"
  using rows_path by fastforce

end

text \<open>
  The guards and the embed-and-insert loop. The \<open>n\<close>-th run has its own endpoint and store answers; rows of
  a request whose answer was lost may be in the store although the run failed.
\<close>

definition pipelineInsert ::
  "pipe_config \<Rightarrow> int \<Rightarrow> (nat \<Rightarrow> ('x, 'e) store_env) \<Rightarrow> (gostring \<Rightarrow> gostring) \<Rightarrow> (nat \<Rightarrow> nat \<Rightarrow> nat \<Rightarrow> gostring list \<Rightarrow> 'e + 'x list batch_result)
    \<Rightarrow> (nat \<Rightarrow> (gostring, 'x reuse_vector) gomap) \<Rightarrow> (nat \<Rightarrow> 'x stored_row list) \<Rightarrow> nat \<Rightarrow> 'f stored_chunk list \<Rightarrow> 'x stored_row list \<times> path_error option" where
  "pipelineInsert cfg byteBudget env h embedFn reuse lost n chunks =
     (case insertChunksBatched cfg (env n) h (embedFn n) (reuse n) CodeColumns True (guardrailExpand byteBudget chunks) of
        None \<Rightarrow> ([], Some PathInsertError)
      | Some (st, None) \<Rightarrow> (Acknowledged st, None)
      | Some (st, Some e) \<Rightarrow> (Acknowledged st @ filter (\<lambda>r. rowPath r \<in> RelativePath ` set chunks) (lost n), Some PathInsertError))"

lemma splitOver_path: "RelativePath ` set (fst (splitOver_loop k cs)) \<subseteq> RelativePath ` set cs"
  by (induction cs) (auto simp: case_prod_unfold Let_def dest!: splitChunk_path)

lemma guardrail_path: "RelativePath ` set (guardrailExpand k cs) \<subseteq> RelativePath ` set cs"
proof -
  have over: "RelativePath ` set (fst (expandOversizeChunks cs)) \<subseteq> RelativePath ` set cs" for cs :: "'a stored_chunk list"
    by (auto simp: expandOversizeChunks_def dest!: splitChunk_path split: if_splits)
  have "RelativePath ` set (expandOverTokenBudget k cs) \<subseteq> RelativePath ` set cs"
    using splitOver_path [of k cs] by (auto simp: expandOverTokenBudget_def SplitChunksToByteBudget_def case_prod_unfold Let_def)
  with over [of "expandOverTokenBudget k cs"] show ?thesis by (simp add: guardrailExpand_eq)
qed

lemma insertChunksBatched_paths:
  fixes chunks :: "'b stored_chunk list"
  shows "\<exists>st err. insertChunksBatched cfg env h embedFn reuse cols ready chunks = Some (st, err)
    \<and> (\<forall>q\<in>set (Acknowledged st). rowPath q \<in> RelativePath ` set chunks)"
proof -
  from insertChunksBatched_result [of cfg env h embedFn reuse cols ready chunks] obtain st err where
    run: "insertChunksBatched cfg env h embedFn reuse cols ready chunks = Some (st, err)"
    and rows: "rowsOk h cols (sourcedIn (RelativePath ` set chunks) h reuse embedFn :: 'b stored_chunk \<Rightarrow> _) (Acknowledged st)" by blast
  have "rowPath q \<in> RelativePath ` set chunks" if "q \<in> set (Acknowledged st)" for q
    using rows that unfolding rowsOk_def sourcedIn_def by (force simp: rowPath_def insertRow_def)
  with run show ?thesis by blast
qed

interpretation pipeline: chunk_inserter "pipelineInsert cfg byteBudget env h embedFn reuse lost"
proof (unfold_locales, goal_cases)
  case (1 r n chunks)
  let ?cs = "guardrailExpand byteBudget chunks"
  obtain st err where run: "insertChunksBatched cfg (env n) h (embedFn n) (reuse n) CodeColumns True ?cs = Some (st, err)"
    and rows: "\<forall>q\<in>set (Acknowledged st). rowPath q \<in> RelativePath ` set ?cs"
    using insertChunksBatched_paths by blast
  have ack: "rowPath q \<in> RelativePath ` set chunks" if "q \<in> set (Acknowledged st)" for q
    using that rows guardrail_path [of byteBudget chunks] by blast
  have "r \<in> set (Acknowledged st) \<or> rowPath r \<in> RelativePath ` set chunks"
    using 1 unfolding pipelineInsert_def run by (cases err) auto
  with ack show ?case by blast
qed

section \<open>What the operations do to the rows of a path\<close>

lemma rowsOf_simps [simp]:
  "rowsOf p (s\<lparr>PsCalls := n\<rparr>) = rowsOf p s"
  "rowsOf p (s\<lparr>PsRows := xs @ ys\<rparr>) = rowsOf p (s\<lparr>PsRows := xs\<rparr>) @ rowsOf p (s\<lparr>PsRows := ys\<rparr>)"
  "rowsOf p (s\<lparr>PsRows := filter P xs\<rparr>) = filter P (rowsOf p (s\<lparr>PsRows := xs\<rparr>))"
  by (auto simp: rowsOf_def intro: filter_cong)

lemma rowsOf_self [simp]: "rowsOf p (s\<lparr>PsRows := PsRows s\<rparr>) = rowsOf p s"
  by simp

lemma pathCall_cases:
  obtains (applied) e where "pathCall env f s = (s\<lparr>PsCalls := Suc (PsCalls s), PsRows := f (PsRows s)\<rparr>, e)"
  | (unapplied) e where "pathCall env f s = (s\<lparr>PsCalls := Suc (PsCalls s)\<rparr>, Some e)"
  by (cases "SvCall env (PsCalls s)") (auto simp: pathCall_def Let_def)

lemma pathCall_ok: "snd (pathCall env f s) = None \<Longrightarrow> fst (pathCall env f s) = s\<lparr>PsCalls := Suc (PsCalls s), PsRows := f (PsRows s)\<rparr>"
  by (cases rule: pathCall_cases [of env f s]) auto

lemma readPath_fst: "fst (readPath env s) = s\<lparr>PsCalls := Suc (PsCalls s)\<rparr>"
  by (cases rule: pathCall_cases [of env "\<lambda>rows. rows" s]) (auto simp: readPath_def)

lemma readPath_obtain:
  obtains e where "readPath env s = (s\<lparr>PsCalls := Suc (PsCalls s)\<rparr>, e)"
  using readPath_fst [of env s] by (metis prod.collapse)

lemma deleteByRelativePaths_rows:
  assumes "deleteByRelativePaths env paths s = (t, e)"
  shows "PsExists t = PsExists s"
    and "p \<notin> set paths \<Longrightarrow> rowsOf p t = rowsOf p s"
    and "e = None \<Longrightarrow> rowsOf p t = (if p \<in> set paths then [] else rowsOf p s)"
    and "rowsOf p t = rowsOf p s \<or> (p \<in> set paths \<and> rowsOf p t = [])"
proof -
  have keep: "filter (\<lambda>r. rowPath r \<notin> set paths) (rowsOf p s) = (if p \<in> set paths then [] else rowsOf p s)" for p
    by (auto simp: rowsOf_def filter_empty_conv intro!: filter_cong filter_True)
  have "PsExists t = PsExists s \<and> (p \<notin> set paths \<longrightarrow> rowsOf p t = rowsOf p s) \<and> (e = None \<longrightarrow> rowsOf p t = (if p \<in> set paths then [] else rowsOf p s))
      \<and> (rowsOf p t = rowsOf p s \<or> (p \<in> set paths \<and> rowsOf p t = []))" for p
  proof (cases "paths = []")
    case False
    show ?thesis
    proof (cases rule: pathCall_cases [of env "filter (\<lambda>r. rowPath r \<notin> set paths)" s])
      case (applied e')
      with assms False have t: "t = s\<lparr>PsCalls := Suc (PsCalls s), PsRows := filter (\<lambda>r. rowPath r \<notin> set paths) (PsRows s)\<rparr>"
        by (simp add: deleteByRelativePaths_def)
      have "rowsOf p t = (if p \<in> set paths then [] else rowsOf p s)" unfolding t by (simp add: keep rowsOf_def [of p "_\<lparr>PsRows := _\<rparr>"])
      with t show ?thesis by simp
    next
      case (unapplied e')
      with assms False show ?thesis by (auto simp: deleteByRelativePaths_def)
    qed
  qed (use assms in \<open>auto simp: deleteByRelativePaths_def\<close>)
  then show "PsExists t = PsExists s" "p \<notin> set paths \<Longrightarrow> rowsOf p t = rowsOf p s"
    "e = None \<Longrightarrow> rowsOf p t = (if p \<in> set paths then [] else rowsOf p s)"
    "rowsOf p t = rowsOf p s \<or> (p \<in> set paths \<and> rowsOf p t = [])" by blast+
qed

lemma PsExists_readPath [simp]: "PsExists (fst (readPath env s)) = PsExists s"
  by (simp add: readPath_fst)

lemma rowsOf_readPath [simp]: "rowsOf p (fst (readPath env s)) = rowsOf p s"
  by (simp add: readPath_fst)

lemma rowsOf_delete_other:
  "PsExists (fst (deleteByRelativePaths env paths s)) = PsExists s"
  "p \<notin> set paths \<Longrightarrow> rowsOf p (fst (deleteByRelativePaths env paths s)) = rowsOf p s"
  using deleteByRelativePaths_rows(1,2) [of env paths s "fst (deleteByRelativePaths env paths s)" "snd (deleteByRelativePaths env paths s)"] by auto

lemma insertChunks_rows:
  assumes law: "chunk_inserter (SvInsert env)" and "\<forall>c\<in>set chunks. RelativePath c = p" and ins: "insertChunks env chunks s = (t, e)"
  shows "PsExists t = PsExists s" and "q \<noteq> p \<Longrightarrow> rowsOf q t = rowsOf q s"
    and "e = None \<Longrightarrow> \<exists>n rows. SvInsert env n chunks = (rows, None) \<and> rowsOf p t = rowsOf p s @ rows"
proof -
  obtain rows err where run: "SvInsert env (PsCalls s) chunks = (rows, err)" by force
  with ins have t: "t = s\<lparr>PsRows := PsRows s @ rows, PsCalls := Suc (PsCalls s)\<rparr>" "e = err" by (auto simp: insertChunks_def)
  have all: "r \<in> set rows \<Longrightarrow> rowPath r = p" for r
    using chunk_inserter.rows_one_path [OF law assms(2), of r "PsCalls s"] run by simp
  then have "rowsOf q (s\<lparr>PsRows := rows\<rparr>) = (if q = p then rows else [])" for q by (auto simp: rowsOf_def filter_empty_conv)
  with t have rows: "rowsOf q t = rowsOf q s @ (if q = p then rows else [])" for q by simp
  from t show "PsExists t = PsExists s" by simp
  show "q \<noteq> p \<Longrightarrow> rowsOf q t = rowsOf q s" using rows by simp
  show "e = None \<Longrightarrow> \<exists>n rows. SvInsert env n chunks = (rows, None) \<and> rowsOf p t = rowsOf p s @ rows"
    using run t(2) rows by auto
qed

text \<open>A run of \<open>Reindex\<close> stops before the delete, at the delete, or ends with the insertion.\<close>

lemma Reindex_cases:
  assumes "Reindex env chunks paths s = (t, e)"
  obtains (untouched) n err where "t = s\<lparr>PsCalls := n\<rparr>" "e = Some err"
  | (delete) n err where "PsExists s" "deleteByRelativePaths env paths (s\<lparr>PsCalls := n\<rparr>) = (t, Some err)" "e = Some err"
  | (empty) n where "PsExists s" "chunks = []" "deleteByRelativePaths env paths (s\<lparr>PsCalls := n\<rparr>) = (t, None)" "e = None"
  | (insert) n u where "PsExists s" "chunks \<noteq> []" "deleteByRelativePaths env paths (s\<lparr>PsCalls := n\<rparr>) = (u, None)" "insertChunks env chunks u = (t, e)"
proof -
  obtain e1 where r1: "readPath env s = (s\<lparr>PsCalls := Suc (PsCalls s)\<rparr>, e1)" by (rule readPath_obtain)
  show thesis
  proof (cases "e1 = None \<and> PsExists s")
    case False
    with assms r1 have "t = s\<lparr>PsCalls := Suc (PsCalls s)\<rparr> \<and> e \<noteq> None"
      by (auto simp: Reindex_def andThen_def split: option.splits if_splits)
    then show thesis by (auto intro: untouched)
  next
    case go: True
    let ?s1 = "s\<lparr>PsCalls := Suc (PsCalls s)\<rparr>"
    obtain n2 e2 where r2: "(if chunks \<noteq> [] then readPath env ?s1 else (?s1, None)) = (s\<lparr>PsCalls := n2\<rparr>, e2)"
    proof (cases "chunks = []")
      case True
      then show thesis using that [of "Suc (PsCalls s)" None] by simp
    next
      case False
      obtain e where "readPath env ?s1 = (s\<lparr>PsCalls := Suc (Suc (PsCalls s))\<rparr>, e)" by (rule readPath_obtain [of env ?s1]) simp
      then show thesis using False that [of "Suc (Suc (PsCalls s))" e] by simp
    qed
    show thesis
    proof (cases e2)
      case (Some x)
      with assms r1 go have "t = s\<lparr>PsCalls := n2\<rparr> \<and> e = Some x" unfolding Reindex_def andThen_def by (simp add: r2 del: if_split)
      then show thesis by (auto intro: untouched)
    next
      case None
      obtain e3 where r3: "readPath env (s\<lparr>PsCalls := n2\<rparr>) = (s\<lparr>PsCalls := Suc n2\<rparr>, e3)"
        by (rule readPath_obtain [of env "s\<lparr>PsCalls := n2\<rparr>"]) simp
      obtain u d where del: "deleteByRelativePaths env paths (s\<lparr>PsCalls := Suc n2\<rparr>) = (u, d)" by force
      have eq: "Reindex env chunks paths s = (case e3 of Some x \<Rightarrow> (s\<lparr>PsCalls := Suc n2\<rparr>, Some x)
          | None \<Rightarrow> (case d of Some x \<Rightarrow> (u, Some x) | None \<Rightarrow> if chunks = [] then (u, None) else insertChunks env chunks u))"
        using r1 go None r3 del unfolding Reindex_def andThen_def by (simp add: r2 del: if_split split: option.split)
      show thesis
        using assms go del unfolding eq
        by (cases e3; cases d; cases "chunks = []") (auto intro: untouched delete empty insert)
    qed
  qed
qed

lemma Reindex_rows:
  assumes law: "chunk_inserter (SvInsert env)" and one: "\<forall>c\<in>set chunks. RelativePath c = p" and run: "Reindex env chunks paths s = (t, e)"
  shows "PsExists t = PsExists s"
    and "q \<noteq> p \<or> chunks = [] \<Longrightarrow> q \<notin> set paths \<Longrightarrow> rowsOf q t = rowsOf q s"
    and "q \<noteq> p \<or> chunks = [] \<Longrightarrow> rowsOf q t = rowsOf q s \<or> (q \<in> set paths \<and> rowsOf q t = [])"
    and "chunks = [] \<Longrightarrow> e = None \<Longrightarrow> q \<in> set paths \<Longrightarrow> rowsOf q t = []"
    and "chunks \<noteq> [] \<Longrightarrow> e = None \<Longrightarrow> p \<in> set paths \<Longrightarrow> \<exists>n rows. SvInsert env n chunks = (rows, None) \<and> rowsOf p t = rows"
  by (cases rule: Reindex_cases [OF run];
      use deleteByRelativePaths_rows insertChunks_rows [OF law one] in \<open>fastforce\<close>)+

section \<open>What copying does\<close>

lemma copyRows_path: "r \<in> set (copyRows env dst rows) \<Longrightarrow> rowPath r = dst"
  by (auto simp: copyRows_def rewriteCopiedRow_def rowPath_def Let_def)

lemma rowsOf_copies: "rowsOf q (s\<lparr>PsRows := copyRows env dst rows\<rparr>) = (if q = dst then copyRows env dst rows else [])"
  using copyRows_path by (fastforce simp: rowsOf_def filter_empty_conv intro!: filter_True)

lemma copyRows_Nil [simp]: "copyRows env dst [] = []"
  by (simp add: copyRows_def)

lemma length_copyRows [simp]: "length (copyRows env dst rows) = length rows"
  by (simp add: copyRows_def)

text \<open>A copy appends the rewritten rows of the source to the destination, or nothing.\<close>

lemma insertCopiedRows_cases:
  assumes "insertCopiedRows env c s = (t, n, e)"
  obtains (nothing) k where "t = s\<lparr>PsCalls := k\<rparr>" "n = 0" "e = None \<Longrightarrow> rowsOf (CcSource c) s = []"
  | (copied) k where "t = s\<lparr>PsCalls := k, PsRows := PsRows s @ copyRows env (CcDestination c) (rowsOf (CcSource c) s)\<rparr>"
      "e = None \<Longrightarrow> n = length (rowsOf (CcSource c) s)" "e \<noteq> None \<Longrightarrow> n = 0"
proof -
  obtain e1 where r1: "readPath env s = (s\<lparr>PsCalls := Suc (PsCalls s)\<rparr>, e1)" by (rule readPath_obtain)
  let ?s1 = "s\<lparr>PsCalls := Suc (PsCalls s)\<rparr>" and ?src = "rowsOf (CcSource c) s"
  show thesis
  proof (cases "e1 = None \<and> ?src \<noteq> []")
    case False
    with assms r1 have "t = ?s1" "n = 0" "e = None \<Longrightarrow> ?src = []" by (auto simp: insertCopiedRows_def split: option.splits)
    then show thesis by (rule nothing)
  next
    case True
    obtain e2 where r2: "readPath env ?s1 = (s\<lparr>PsCalls := Suc (Suc (PsCalls s))\<rparr>, e2)" by (rule readPath_obtain [of env ?s1]) simp
    let ?s2 = "s\<lparr>PsCalls := Suc (Suc (PsCalls s))\<rparr>" and ?f = "\<lambda>rows. rows @ copyRows env (CcDestination c) ?src"
    show thesis
    proof (cases e2)
      case (Some x)
      with True assms r1 r2 have "t = s\<lparr>PsCalls := Suc (Suc (PsCalls s))\<rparr>" "n = 0" "e = None \<Longrightarrow> ?src = []"
        by (auto simp: insertCopiedRows_def andThen_def)
      then show thesis by (rule nothing)
    next
      case None
      have eq: "insertCopiedRows env c s = (case pathCall env ?f ?s2 of (s, Some e) \<Rightarrow> (s, 0, Some e) | (s, None) \<Rightarrow> (s, length ?src, None))"
        using True r1 r2 None by (simp add: insertCopiedRows_def andThen_def Let_def)
      show thesis
      proof (cases rule: pathCall_cases [of env ?f ?s2])
        case (applied e3)
        with assms eq have "t = s\<lparr>PsCalls := Suc (PsCalls ?s2), PsRows := ?f (PsRows s)\<rparr>" "e = None \<Longrightarrow> n = length ?src" "e \<noteq> None \<Longrightarrow> n = 0"
          by (auto split: option.splits)
        then show thesis by (rule copied)
      next
        case (unapplied e3)
        with assms eq have "t = s\<lparr>PsCalls := Suc (PsCalls ?s2)\<rparr>" "n = 0" "e = None \<Longrightarrow> ?src = []" by auto
        then show thesis by (rule nothing)
      qed
    qed
  qed
qed

lemma insertCopiedRows_rows:
  assumes "insertCopiedRows env c s = (t, n, e)"
  shows "PsExists t = PsExists s"
    and "e = None \<Longrightarrow> n = length (rowsOf (CcSource c) s)
      \<and> rowsOf q t = rowsOf q s @ (if q = CcDestination c then copyRows env q (rowsOf (CcSource c) s) else [])"
    and "\<exists>ys. rowsOf q t = rowsOf q s @ ys \<and> (q \<noteq> CcDestination c \<longrightarrow> ys = [])"
  by (cases rule: insertCopiedRows_cases [OF assms]; auto simp: rowsOf_copies)+

definition realCopies :: "chunk_copy list \<Rightarrow> chunk_copy list" where
  "realCopies copies = filter (\<lambda>c. CcSource c \<noteq> CcDestination c) copies"

definition separated :: "chunk_copy list \<Rightarrow> bool" where
  "separated copies \<longleftrightarrow> CcSource ` set (realCopies copies) \<inter> CcDestination ` set (realCopies copies) = {}"

definition copiesTo :: "('f, 'x) service_env \<Rightarrow> chunk_copy list \<Rightarrow> 'x path_store \<Rightarrow> gostring \<Rightarrow> 'x stored_row list" where
  "copiesTo env copies s q =
     concat (map (\<lambda>c. copyRows env q (rowsOf (CcSource c) s)) (filter (\<lambda>c. CcDestination c = q) (realCopies copies)))"

lemma copyLoop_rows:
  assumes "copyLoop env cs counts sources s = (t, counts', sources', e)"
    and "S \<inter> D = {}" "CcSource ` set (realCopies cs) \<subseteq> S" "CcDestination ` set (realCopies cs) \<subseteq> D"
  shows "PsExists t = PsExists s \<and> (q \<notin> D \<longrightarrow> rowsOf q t = rowsOf q s) \<and> (\<exists>ys. rowsOf q t = rowsOf q s @ ys)
    \<and> (set sources' \<subseteq> set sources \<union> S)
    \<and> (e = None \<longrightarrow> counts' = counts @ map (\<lambda>c. if CcSource c = CcDestination c then 0 else length (rowsOf (CcSource c) s)) cs
        \<and> set sources' = set sources \<union> {CcSource c |c. c \<in> set (realCopies cs) \<and> rowsOf (CcSource c) s \<noteq> []}
        \<and> rowsOf q t = rowsOf q s @ copiesTo env cs s q)"
  using assms(1,3,4)
proof (induction cs arbitrary: counts sources s)
  case Nil
  then show ?case by (auto simp: copiesTo_def realCopies_def)
next
  case (Cons c cs)
  show ?case
  proof (cases "CcSource c = CcDestination c")
    case True
    with Cons.prems Cons.IH [of "counts @ [0]" sources s] show ?thesis by (simp add: realCopies_def copiesTo_def)
  next
    case real: False
    then have S: "CcSource c \<in> S" "CcDestination c \<in> D" "CcSource ` set (realCopies cs) \<subseteq> S" "CcDestination ` set (realCopies cs) \<subseteq> D"
      using Cons.prems by (auto simp: realCopies_def)
    obtain u n e1 where ins: "insertCopiedRows env c s = (u, n, e1)" by (metis prod_cases3)
    note u = insertCopiedRows_rows [OF ins]
    show ?thesis
    proof (cases e1)
      case (Some x)
      with Cons.prems(1) real ins have "t = u" "sources' = sources" "e = Some x" by auto
      with u(1) u(3) [of q] S(2) Some show ?thesis by auto
    next
      case None
      let ?src = "if n > 0 \<and> CcSource c \<notin> set sources then sources @ [CcSource c] else sources"
      from Cons.prems(1) real ins None have loop: "copyLoop env cs (counts @ [n]) ?src u = (t, counts', sources', e)" by simp
      have uq: "rowsOf q u = rowsOf q s @ (if q = CcDestination c then copyRows env q (rowsOf (CcSource c) s) else [])" for q
        using u(2) [OF None] by blast
      have n: "n = length (rowsOf (CcSource c) s)" using u(2) [OF None] by blast
      have same: "rowsOf q u = rowsOf q s" if "q \<in> S" for q using uq that assms(2) S(2) by auto
      have src: "rowsOf (CcSource d) u = rowsOf (CcSource d) s" if "d \<in> set (realCopies cs)" for d using that S(3) same by auto
      then have to: "copiesTo env cs u q = copiesTo env cs s q" for q
        by (auto simp: copiesTo_def intro!: arg_cong [where f = concat])
      have counts: "map (\<lambda>c. if CcSource c = CcDestination c then 0 else length (rowsOf (CcSource c) u)) cs
          = map (\<lambda>c. if CcSource c = CcDestination c then 0 else length (rowsOf (CcSource c) s)) cs"
        using src by (auto simp: realCopies_def)
      have copies: "(if q = CcDestination c then copyRows env q (rowsOf (CcSource c) s) else []) @ copiesTo env cs s q = copiesTo env (c # cs) s q"
        using real by (auto simp: copiesTo_def realCopies_def)
      have srcs: "set ?src \<union> {CcSource c |c. c \<in> set (realCopies cs) \<and> rowsOf (CcSource c) u \<noteq> []}
          = set sources \<union> {CcSource d |d. d \<in> set (realCopies (c # cs)) \<and> rowsOf (CcSource d) s \<noteq> []}"
        using real n src by (auto simp: realCopies_def)
      have sub: "set ?src \<subseteq> set sources \<union> S" using S(1) by auto
      from Cons.IH [OF loop S(3,4)] have ih: "PsExists t = PsExists u" "q \<notin> D \<longrightarrow> rowsOf q t = rowsOf q u" "\<exists>ys. rowsOf q t = rowsOf q u @ ys"
        "set sources' \<subseteq> set ?src \<union> S"
        "e = None \<longrightarrow> counts' = (counts @ [n]) @ map (\<lambda>c. if CcSource c = CcDestination c then 0 else length (rowsOf (CcSource c) s)) cs
          \<and> set sources' = set sources \<union> {CcSource d |d. d \<in> set (realCopies (c # cs)) \<and> rowsOf (CcSource d) s \<noteq> []}
          \<and> rowsOf q t = rowsOf q u @ copiesTo env cs s q"
        unfolding to counts srcs by blast+
      have "q \<notin> D \<longrightarrow> rowsOf q t = rowsOf q s" using ih(2) uq [of q] S(2) by auto
      moreover have "\<exists>ys. rowsOf q t = rowsOf q s @ ys" using ih(3) uq [of q] by auto
      moreover have "set sources' \<subseteq> set sources \<union> S" using ih(4) sub by blast
      moreover have "e = None \<longrightarrow> rowsOf q t = rowsOf q s @ copiesTo env (c # cs) s q" using ih(5) uq [of q] copies by auto
      ultimately show ?thesis using ih(1,5) u(1) real n by simp
    qed
  qed
qed

lemma requestFlush_state: "\<exists>n. fst (requestFlush env attempt s) = s\<lparr>PsCalls := n\<rparr>"
proof (induction env attempt s rule: requestFlush.induct)
  case (1 env attempt s)
  let ?t = "s\<lparr>PsCalls := Suc (PsCalls s)\<rparr>"
  show ?case
  proof (cases "SvFlush env (PsCalls s)")
    case (FlushRateLimited waited)
    show ?thesis
    proof (cases "flushRateLimitMaxAttempts \<le> attempt \<or> \<not> waited")
      case False
      from 1 [OF refl FlushRateLimited False] obtain n where "fst (requestFlush env (Suc attempt) ?t) = ?t\<lparr>PsCalls := n\<rparr>" by blast
      then show ?thesis using FlushRateLimited False by (subst requestFlush.simps) (auto simp: Let_def)
    qed (use FlushRateLimited in \<open>subst requestFlush.simps, auto simp: Let_def\<close>)
  qed (subst requestFlush.simps, auto simp: Let_def)+
qed

lemma flush_state: "\<exists>n. fst (flushCollection env s) = s\<lparr>PsCalls := n\<rparr>"
proof -
  obtain n where "fst (requestFlush env 1 s) = s\<lparr>PsCalls := n\<rparr>" using requestFlush_state by blast
  then show ?thesis unfolding flushCollection_def andThen_def
    by (cases "requestFlush env 1 s") (auto split: option.split simp: readPath_fst)
qed

text \<open>A call of \<open>CopyChunks\<close> ends before the copies, in them, or with the flush and the delete of the sources.\<close>

lemma CopyChunks_cases:
  assumes "CopyChunks env copies s = (t, counts, e)"
  obtains (untouched) n where "t = s\<lparr>PsCalls := n\<rparr>" "e = None \<Longrightarrow> realCopies copies = [] \<and> counts = replicate (length copies) 0"
  | (copying) n sources where "PsExists s" "copyLoop env copies [] [] (s\<lparr>PsCalls := n\<rparr>) = (t, counts, sources, e)" "e = None \<Longrightarrow> sources = []"
  | (deleting) n u sources m where "PsExists s" "copyLoop env copies [] [] (s\<lparr>PsCalls := n\<rparr>) = (u, counts, sources, None)" "sources \<noteq> []"
      "t = u\<lparr>PsCalls := m\<rparr> \<and> e \<noteq> None \<or> deleteByRelativePaths env sources (u\<lparr>PsCalls := m\<rparr>) = (t, e)"
proof (cases "hasDistinctChunkCopy copies")
  case False
  then have "realCopies copies = []" by (auto simp: hasDistinctChunkCopy_def realCopies_def filter_empty_conv list_ex_iff)
  with False assms show thesis by (intro untouched [of "PsCalls s"]) (auto simp: CopyChunks_def)
next
  case True
  obtain e1 where r1: "readPath env s = (s\<lparr>PsCalls := Suc (PsCalls s)\<rparr>, e1)" by (rule readPath_obtain)
  let ?s1 = "s\<lparr>PsCalls := Suc (PsCalls s)\<rparr>"
  show thesis
  proof (cases "e1 = None \<and> PsExists s")
    case False
    with True assms r1 have "t = ?s1 \<and> e \<noteq> None" by (auto simp: CopyChunks_def split: option.splits if_splits)
    then show thesis by (intro untouched) auto
  next
    case go: True
    obtain n e2 where r2: "andThen (readPath env ?s1) (readPath env) = (s\<lparr>PsCalls := n\<rparr>, e2)"
    proof -
      obtain e where "readPath env ?s1 = (s\<lparr>PsCalls := Suc (Suc (PsCalls s))\<rparr>, e)" by (rule readPath_obtain [of env ?s1]) simp
      moreover obtain e' where "readPath env (s\<lparr>PsCalls := Suc (Suc (PsCalls s))\<rparr>) = (s\<lparr>PsCalls := Suc (Suc (Suc (PsCalls s)))\<rparr>, e')"
        by (rule readPath_obtain [of env "s\<lparr>PsCalls := Suc (Suc (PsCalls s))\<rparr>"]) simp
      ultimately show thesis by (cases e) (auto simp: andThen_def intro: that)
    qed
    obtain u cn srcs e3 where loop: "copyLoop env copies [] [] (s\<lparr>PsCalls := n\<rparr>) = (u, cn, srcs, e3)" by (metis prod_cases4)
    obtain m where m: "fst (flushCollection env u) = u\<lparr>PsCalls := m\<rparr>" using flush_state by blast
    have eq: "CopyChunks env copies s = (case e2 of Some x \<Rightarrow> (s\<lparr>PsCalls := n\<rparr>, [], Some x)
        | None \<Rightarrow> (case e3 of Some x \<Rightarrow> (u, cn, Some x)
        | None \<Rightarrow> if srcs = [] then (u, cn, None)
                 else (case andThen (flushCollection env u) (deleteByRelativePaths env srcs) of (s, err) \<Rightarrow> (s, cn, err))))"
      using True r1 go r2 loop by (simp add: CopyChunks_def split: option.split)
    show thesis
    proof (cases "e2 = None \<and> e3 = None \<and> srcs \<noteq> []")
      case False
      with assms eq go loop show thesis
        by (cases e2; cases e3) (auto intro: untouched [of n] copying)
    next
      case last: True
      with assms eq have fin: "andThen (flushCollection env u) (deleteByRelativePaths env srcs) = (t, e)" "counts = cn"
        by (auto split: prod.splits)
      with m have "t = u\<lparr>PsCalls := m\<rparr> \<and> e \<noteq> None \<or> deleteByRelativePaths env srcs (u\<lparr>PsCalls := m\<rparr>) = (t, e)"
        by (cases "flushCollection env u") (auto simp: andThen_def split: option.splits)
      with go loop last fin(2) show thesis by (intro deleting [of n u srcs m]) auto
    qed
  qed
qed

lemma CopyChunks_rows:
  assumes run: "CopyChunks env copies s = (t, counts, e)" and sep: "separated copies"
  shows "PsExists t = PsExists s"
    and "q \<notin> CcSource ` set (realCopies copies) \<Longrightarrow> \<exists>ys. rowsOf q t = rowsOf q s @ ys"
    and "q \<notin> CcSource ` set (realCopies copies) \<Longrightarrow> q \<notin> CcDestination ` set (realCopies copies) \<Longrightarrow> rowsOf q t = rowsOf q s"
    and "e = None \<Longrightarrow> counts = map (\<lambda>c. if CcSource c = CcDestination c then 0 else length (rowsOf (CcSource c) s)) copies"
    and "e = None \<Longrightarrow> rowsOf q t = (if q \<in> CcSource ` set (realCopies copies) then [] else rowsOf q s @ copiesTo env copies s q)"
proof -
  let ?S = "CcSource ` set (realCopies copies)" and ?D = "CcDestination ` set (realCopies copies)"
  let ?n = "map (\<lambda>c. if CcSource c = CcDestination c then 0 else length (rowsOf (CcSource c) s)) copies"
  have SD: "?S \<inter> ?D = {}" using sep by (simp add: separated_def)
  have src_to: "q \<in> ?S \<Longrightarrow> copiesTo env copies s q = []" for q
    using SD by (auto simp: copiesTo_def filter_empty_conv)
  have eqn: "copiesTo env copies (s\<lparr>PsCalls := n\<rparr>) q = copiesTo env copies s q" for n q by (simp add: copiesTo_def)
  have "PsExists t = PsExists s \<and> (q \<notin> ?S \<longrightarrow> (\<exists>ys. rowsOf q t = rowsOf q s @ ys)) \<and> (q \<notin> ?S \<union> ?D \<longrightarrow> rowsOf q t = rowsOf q s)
      \<and> (e = None \<longrightarrow> counts = ?n \<and> rowsOf q t = (if q \<in> ?S then [] else rowsOf q s @ copiesTo env copies s q))" for q
    using run
  proof (cases rule: CopyChunks_cases)
    case (untouched n)
    then show ?thesis by (auto simp: copiesTo_def realCopies_def filter_empty_conv intro!: nth_equalityI)
  next
    case (copying n sources)
    note loop = copyLoop_rows [OF copying(2) SD subset_refl subset_refl, of q, unfolded eqn]
    have "\<forall>c\<in>set (realCopies copies). rowsOf (CcSource c) s = []" if "e = None"
      using loop copying(3) that by fastforce
    with loop src_to show ?thesis by (auto simp: copiesTo_def)
  next
    case (deleting n u sources m)
    note loop = copyLoop_rows [OF deleting(2) SD subset_refl subset_refl, of q, unfolded eqn]
    have sources: "set sources = {CcSource c |c. c \<in> set (realCopies copies) \<and> rowsOf (CcSource c) s \<noteq> []}" using loop by simp
    then have sub: "set sources \<subseteq> ?S" and rest: "q \<in> ?S \<Longrightarrow> q \<notin> set sources \<Longrightarrow> rowsOf q s = []" by auto
    from deleting(4) show ?thesis
    proof
      assume "t = u\<lparr>PsCalls := m\<rparr> \<and> e \<noteq> None"
      with loop show ?thesis by auto
    next
      assume del: "deleteByRelativePaths env sources (u\<lparr>PsCalls := m\<rparr>) = (t, e)"
      note d = deleteByRelativePaths_rows [OF del]
      have keep: "q \<notin> ?S \<Longrightarrow> rowsOf q t = rowsOf q u" using d(2) [of q] sub by auto
      have gone: "e = None \<Longrightarrow> q \<in> ?S \<Longrightarrow> rowsOf q t = []"
        using d(3) [of q] rest loop src_to [of q] by (cases "q \<in> set sources") auto
      from d(1) loop keep gone show ?thesis by auto
    qed
  qed
  then show "PsExists t = PsExists s" "q \<notin> ?S \<Longrightarrow> \<exists>ys. rowsOf q t = rowsOf q s @ ys" "q \<notin> ?S \<Longrightarrow> q \<notin> ?D \<Longrightarrow> rowsOf q t = rowsOf q s"
    "e = None \<Longrightarrow> counts = ?n" "e = None \<Longrightarrow> rowsOf q t = (if q \<in> ?S then [] else rowsOf q s @ copiesTo env copies s q)" by blast+
qed

end
