(* ===== verification/MerkleSnapshot.thy ===== *)
theory MerkleSnapshot
  imports GoStrings
begin

text \<open>
  The checkpoint of an indexed directory (\<open>internal/merkle/snapshot.go\<close>): one content hash for each file, an
  optional device and inode for each file, and the digest of the configuration. The theory models the
  digest of a snapshot, the inode sidecar, path coverage, the capture of a directory, the load rules for
  a stored checkpoint, and the difference of two snapshots, which drives every sync. Hashes are
  arguments; the file system answers each access of a capture by a function.
\<close>

section \<open>Snapshots\<close>

record inode_ref =
  IrDevice :: string
  IrInode :: uint64

definition noInode :: inode_ref where "noInode = \<lparr>IrDevice = [], IrInode = 0\<rparr>"

definition IsZero :: "inode_ref \<Rightarrow> bool" where
  "IsZero ref \<longleftrightarrow> IrDevice ref = [] \<and> IrInode ref = 0"

record snapshot =
  SnConfigDigest :: string
  SnFiles :: "(string, string) gomap"
  SnInodes :: "(string, inode_ref) gomap"

definition emptySnapshot :: "string \<Rightarrow> snapshot" where
  "emptySnapshot digest = \<lparr>SnConfigDigest = digest, SnFiles = [], SnInodes = []\<rparr>"

definition NUL :: char where "NUL = CHR 0x00"

text \<open>The bytes \<open>Snapshot.Hash\<close> writes to the hash, in writing order.\<close>

definition hashInput :: "snapshot \<Rightarrow> string" where
  "hashInput s = ''config:'' @ SnConfigDigest s @ [NUL]
     @ concat (map (\<lambda>path. path @ [NUL] @ gm_get0 [] (SnFiles s) path @ [NUL]) (sort (map fst (SnFiles s))))"

definition SnapshotHash :: "(string \<Rightarrow> string) \<Rightarrow> snapshot \<Rightarrow> string" where
  "SnapshotHash sha256Hex s = sha256Hex (hashInput s)"

definition LookupByInode :: "snapshot \<Rightarrow> inode_ref \<Rightarrow> string list" where
  "LookupByInode s ref =
     (if IsZero ref \<or> SnInodes s = [] then [] else map fst (filter (\<lambda>x. snd x = ref) (SnInodes s)))"

definition RecordInode :: "string \<Rightarrow> inode_ref \<Rightarrow> snapshot \<Rightarrow> snapshot" where
  "RecordInode path ref s =
     (if IsZero ref then s\<lparr>SnInodes := gm_del path (SnInodes s)\<rparr> else s\<lparr>SnInodes := gm_put path ref (SnInodes s)\<rparr>)"

definition ForgetInode :: "string \<Rightarrow> snapshot \<Rightarrow> snapshot" where
  "ForgetInode path s = s\<lparr>SnInodes := gm_del path (SnInodes s)\<rparr>"

definition HasFile :: "snapshot \<Rightarrow> string \<Rightarrow> bool" where
  "HasFile s path \<longleftrightarrow> map_of (SnFiles s) path \<noteq> None"

definition CoversPath :: "snapshot \<Rightarrow> string \<Rightarrow> bool" where
  "CoversPath s path =
     (if path = [] \<or> path = ''.'' then length (SnFiles s) > 0
      else HasFile s path \<or> list_ex (\<lambda>x. hasPrefix (fst x) (path @ ''/'')) (SnFiles s))"

section \<open>Capture\<close>

datatype 'i stat_result = StatAbsent | StatError | StatInfo 'i
datatype read_result = ReadAbsent | ReadError | ReadData string
datatype snapshot_error = CaptureCancelled | CaptureStat string | CaptureRead string | SnapshotNotExist | SnapshotUnreadable | ConfigDigestMismatch

record 'i capture_env =
  CeLstat :: "string \<Rightarrow> 'i stat_result"
  CeStat :: "string \<Rightarrow> 'i stat_result"
  CeRead :: "string \<Rightarrow> read_result"
  CeSymlink :: "'i \<Rightarrow> bool"
  CeRegular :: "'i \<Rightarrow> bool"
  CeInode :: "'i \<Rightarrow> inode_ref"
  CeDecide :: "string \<Rightarrow> 'i \<Rightarrow> bool"
  CeDecideContent :: "string \<Rightarrow> bool"
  CeDigest :: "string \<Rightarrow> string"

definition skipReadFailureForSnapshot :: "'i capture_env \<Rightarrow> string \<Rightarrow> bool" where
  "skipReadFailureForSnapshot env path =
     (case CeStat env path of StatAbsent \<Rightarrow> True | StatError \<Rightarrow> False | StatInfo i \<Rightarrow> \<not> CeRegular env i)"

text \<open>One file of the walk: recorded with its digest, skipped, or the error that ends the capture.\<close>

definition captureFile :: "'i capture_env \<Rightarrow> string \<Rightarrow> snapshot \<Rightarrow> snapshot_error + snapshot" where
  "captureFile env path s =
     (let lst = CeLstat env path;
          symlink = (case lst of StatInfo i \<Rightarrow> CeSymlink env i | _ \<Rightarrow> False);
          info = (if symlink then CeStat env path else lst)
      in case info of
           StatAbsent \<Rightarrow> Inr s
         | StatError \<Rightarrow> Inl (CaptureStat path)
         | StatInfo i \<Rightarrow>
             if \<not> CeDecide env path i then Inr s
             else (case CeRead env path of
                 ReadAbsent \<Rightarrow> Inr s
               | ReadError \<Rightarrow> if skipReadFailureForSnapshot env path then Inr s else Inl (CaptureRead path)
               | ReadData content \<Rightarrow>
                   if \<not> CeDecideContent env content then Inr s
                   else let s = s\<lparr>SnFiles := gm_put path (CeDigest env content) (SnFiles s)\<rparr>
                        in Inr (if symlink then s else RecordInode path (CeInode env i) s)))"

fun captureFiles :: "'i capture_env \<Rightarrow> (nat \<Rightarrow> bool) \<Rightarrow> nat \<Rightarrow> string list \<Rightarrow> snapshot \<Rightarrow> snapshot_error + snapshot" where
  "captureFiles env cancelled n [] s = Inr s"
| "captureFiles env cancelled n (path # paths) s =
     (if cancelled n then Inl CaptureCancelled
      else case captureFile env path s of Inl e \<Rightarrow> Inl e | Inr s \<Rightarrow> captureFiles env cancelled (Suc n) paths s)"

definition Capture :: "'i capture_env \<Rightarrow> (nat \<Rightarrow> bool) \<Rightarrow> string list \<Rightarrow> snapshot_error + snapshot" where
  "Capture env cancelled discovered = captureFiles env cancelled 0 discovered (emptySnapshot [])"

section \<open>Stored checkpoints\<close>

definition LoadSnapshotForConfig ::
  "(snapshot_error + snapshot) \<Rightarrow> string \<Rightarrow> string \<Rightarrow> snapshot \<times> snapshot_error option" where
  "LoadSnapshotForConfig readSnapshot configDigest legacyAcceptDigest =
     (case readSnapshot of
        Inl e \<Rightarrow> (emptySnapshot configDigest, Some e)
      | Inr s \<Rightarrow>
          let storedDigest = (if SnConfigDigest s = [] then legacyAcceptDigest else SnConfigDigest s)
          in if storedDigest \<noteq> configDigest then (emptySnapshot configDigest, Some ConfigDigestMismatch)
             else (s\<lparr>SnConfigDigest := configDigest\<rparr>, None))"

definition LoadOptionalSnapshotForConfig :: "(snapshot_error + snapshot) \<Rightarrow> string \<Rightarrow> string \<Rightarrow> snapshot" where
  "LoadOptionalSnapshotForConfig readSnapshot configDigest legacyAcceptDigest =
     fst (LoadSnapshotForConfig readSnapshot configDigest legacyAcceptDigest)"

section \<open>The difference of two snapshots\<close>

record diff =
  DfAdded :: "string list"
  DfModified :: "string list"
  DfRemoved :: "string list"

definition noDiff :: diff where "noDiff = \<lparr>DfAdded = [], DfModified = [], DfRemoved = []\<rparr>"

definition DiffEmpty :: "diff \<Rightarrow> bool" where
  "DiffEmpty d \<longleftrightarrow> length (DfAdded d) = 0 \<and> length (DfModified d) = 0 \<and> length (DfRemoved d) = 0"

definition DiffSnapshots :: "snapshot \<Rightarrow> snapshot \<Rightarrow> diff" where
  "DiffSnapshots prev current =
     (let added = map fst (filter (\<lambda>x. map_of (SnFiles prev) (fst x) = None) (SnFiles current));
          modified = map fst (filter (\<lambda>x. case map_of (SnFiles prev) (fst x) of None \<Rightarrow> False | Some previousHash \<Rightarrow> previousHash \<noteq> snd x)
            (SnFiles current));
          removed = map fst (filter (\<lambda>x. map_of (SnFiles current) (fst x) = None) (SnFiles prev))
      in \<lparr>DfAdded = sort added, DfModified = sort modified, DfRemoved = sort removed\<rparr>)"

definition SnapshotEqual :: "snapshot \<Rightarrow> snapshot \<Rightarrow> bool" where
  "SnapshotEqual left right =
     (length (SnFiles left) = length (SnFiles right)
      \<and> list_all (\<lambda>path. gm_get0 [] (SnFiles left) path = gm_get0 [] (SnFiles right) path) (sort (map fst (SnFiles left))))"

section \<open>The difference is exact\<close>

lemma sorted_keys_of:
  assumes "gm_wf m"
  shows "sorted_wrt (<) (sort (map fst (filter P m)))" "set (sort (map fst (filter P m))) = {k. \<exists>v. map_of m k = Some v \<and> P (k, v)}"
proof -
  have d: "distinct (map fst (filter P m))" using assms by (simp add: gm_wf_def distinct_map_filter)
  then show "sorted_wrt (<) (sort (map fst (filter P m)))" by (simp add: strict_sorted_iff)
  have "(k, v) \<in> set m \<longleftrightarrow> map_of m k = Some v" for k v using assms by (rule gm_wf_mem)
  then show "set (sort (map fst (filter P m))) = {k. \<exists>v. map_of m k = Some v \<and> P (k, v)}" by force
qed

lemma diff_sets:
  assumes "gm_wf (SnFiles prev)" "gm_wf (SnFiles current)"
  shows "set (DfAdded (DiffSnapshots prev current)) = {p. map_of (SnFiles prev) p = None \<and> map_of (SnFiles current) p \<noteq> None}"
    and "set (DfModified (DiffSnapshots prev current))
      = {p. map_of (SnFiles prev) p \<noteq> None \<and> map_of (SnFiles current) p \<noteq> None \<and> map_of (SnFiles prev) p \<noteq> map_of (SnFiles current) p}"
    and "set (DfRemoved (DiffSnapshots prev current)) = {p. map_of (SnFiles prev) p \<noteq> None \<and> map_of (SnFiles current) p = None}"
  unfolding DiffSnapshots_def Let_def diff.select_convs
    sorted_keys_of(2) [OF assms(1)] sorted_keys_of(2) [OF assms(2)]
  by (auto split: option.splits)

lemma diff_sorted:
  assumes "gm_wf (SnFiles prev)" "gm_wf (SnFiles current)"
  shows "sorted_wrt (<) (DfAdded (DiffSnapshots prev current))"
    and "sorted_wrt (<) (DfModified (DiffSnapshots prev current))"
    and "sorted_wrt (<) (DfRemoved (DiffSnapshots prev current))"
  unfolding DiffSnapshots_def Let_def diff.select_convs
  by (rule sorted_keys_of(1), rule assms)+


definition sampleBefore :: snapshot where
  "sampleBefore = \<lparr>SnConfigDigest = ''c'', SnFiles = [(''b'', ''1''), (''a'', ''2'')], SnInodes = []\<rparr>"

definition sampleAfter :: snapshot where
  "sampleAfter = \<lparr>SnConfigDigest = ''c'', SnFiles = [(''b'', ''3''), (''d'', ''4''), (''c'', ''5'')], SnInodes = []\<rparr>"

lemma sample_wf: "gm_wf (SnFiles sampleBefore)" "gm_wf (SnFiles sampleAfter)"
  by (simp_all add: sampleBefore_def sampleAfter_def gm_wf_def)

lemma sample_diff: "DiffSnapshots sampleBefore sampleAfter = \<lparr>DfAdded = [''c'', ''d''], DfModified = [''b''], DfRemoved = [''a'']\<rparr>"
  by code_simp


section \<open>The digest of a snapshot\<close>

definition hashFields :: "snapshot \<Rightarrow> string list" where
  "hashFields s = (''config:'' @ SnConfigDigest s)
     # concat (map (\<lambda>path. [path, gm_get0 [] (SnFiles s) path]) (sort (map fst (SnFiles s))))"

lemma hashInput_fields: "hashInput s = concat (map (\<lambda>f. f @ [NUL]) (hashFields s))"
proof -
  have "concat (map (\<lambda>p. p @ [NUL] @ g p @ [NUL]) ks) = concat (map (\<lambda>f. f @ [NUL]) (concat (map (\<lambda>p. [p, g p]) ks)))" for g ks
    by (induction ks) auto
  then show ?thesis by (simp add: hashInput_def hashFields_def)
qed

lemma terminated_inj:
  "concat (map (\<lambda>f. f @ [z]) fs) = concat (map (\<lambda>f. f @ [z]) gs) \<Longrightarrow> (\<And>f. f \<in> set fs \<union> set gs \<Longrightarrow> z \<notin> set f) \<Longrightarrow> fs = gs"
proof (induction fs arbitrary: gs)
  case Nil
  then show ?case by (cases gs) auto
next
  case (Cons f fs)
  from Cons.prems(1) obtain g gs' where gs: "gs = g # gs'" by (cases gs) auto
  with Cons.prems have "f = g \<and> concat (map (\<lambda>f. f @ [z]) fs) = concat (map (\<lambda>f. f @ [z]) gs')"
    by (intro sep_split_unique [of f z "concat (map (\<lambda>f. f @ [z]) fs)" g]) auto
  with Cons gs show ?case by auto
qed

lemma pairs_inj:
  "concat (map (\<lambda>p. [p, g p]) ks) = concat (map (\<lambda>p. [p, g' p]) ks') \<Longrightarrow> ks = ks' \<and> (\<forall>p\<in>set ks. g p = g' p)"
proof (induction ks arbitrary: ks')
  case Nil
  then show ?case by (cases ks') auto
next
  case (Cons k ks)
  then obtain k' ks'' where "ks' = k' # ks''" by (cases ks') auto
  with Cons show ?case by auto
qed

definition noNul :: "snapshot \<Rightarrow> bool" where
  "noNul s \<longleftrightarrow> NUL \<notin> set (SnConfigDigest s) \<and> (\<forall>(p, h)\<in>set (SnFiles s). NUL \<notin> set p \<and> NUL \<notin> set h)"

lemma noNul_fields: "gm_wf (SnFiles s) \<Longrightarrow> noNul s \<Longrightarrow> f \<in> set (hashFields s) \<Longrightarrow> NUL \<notin> set f"
  by (auto simp: noNul_def hashFields_def gm_get0_def gm_wf_mem NUL_def split: option.splits)

lemma same_map_keys:
  assumes "gm_wf m" "gm_wf m'" "map_of m = map_of m'"
  shows "sort (map fst m) = sort (map fst m')"
proof (rule sorted_distinct_set_unique)
  have "set (map fst m) = dom (map_of m)" "set (map fst m') = dom (map_of m')" by (auto simp: dom_map_of_conv_image_fst)
  with assms(3) show "set (sort (map fst m)) = set (sort (map fst m'))" by simp
qed (use assms in \<open>auto simp: gm_wf_def\<close>)

text \<open>
  The digest of a snapshot hashes exactly what the snapshot records. For paths, hashes and digests
  without a NUL byte, two snapshots give the same bytes to the hash exactly when they have the same
  configuration digest and record the same hash for the same files, whatever the order of the map; so
  equal digests mean equal contents up to collisions of the hash.
\<close>

theorem snapshot_hash_injective:
  assumes wf: "gm_wf (SnFiles s)" "gm_wf (SnFiles t)" and nul: "noNul s" "noNul t"
  shows "hashInput s = hashInput t \<longleftrightarrow> SnConfigDigest s = SnConfigDigest t \<and> map_of (SnFiles s) = map_of (SnFiles t)"
proof
  assume "hashInput s = hashInput t"
  then have "hashFields s = hashFields t"
    unfolding hashInput_fields using noNul_fields [OF wf(1) nul(1)] noNul_fields [OF wf(2) nul(2)] by (auto intro!: terminated_inj)
  then have dig: "SnConfigDigest s = SnConfigDigest t"
    and pairs: "concat (map (\<lambda>p. [p, gm_get0 [] (SnFiles s) p]) (sort (map fst (SnFiles s))))
      = concat (map (\<lambda>p. [p, gm_get0 [] (SnFiles t) p]) (sort (map fst (SnFiles t))))"
    by (simp_all add: hashFields_def)
  from pairs_inj [OF pairs] have ks: "sort (map fst (SnFiles s)) = sort (map fst (SnFiles t))"
    and vs: "\<forall>p\<in>set (sort (map fst (SnFiles s))). gm_get0 [] (SnFiles s) p = gm_get0 [] (SnFiles t) p" by blast+
  have dom: "fst ` set (SnFiles s) = fst ` set (SnFiles t)" using arg_cong [OF ks, of set] by simp
  have "map_of (SnFiles s) p = map_of (SnFiles t) p" for p
  proof (cases "p \<in> fst ` set (SnFiles s)")
    case True
    moreover from True dom obtain u v where "map_of (SnFiles s) p = Some u" "map_of (SnFiles t) p = Some v"
      by (metis map_of_eq_None_iff not_None_eq)
    ultimately show ?thesis using vs by (auto simp: gm_get0_def)
  next
    case False
    with dom show ?thesis by (metis map_of_eq_None_iff)
  qed
  with dig show "SnConfigDigest s = SnConfigDigest t \<and> map_of (SnFiles s) = map_of (SnFiles t)" by auto
next
  assume "SnConfigDigest s = SnConfigDigest t \<and> map_of (SnFiles s) = map_of (SnFiles t)"
  with same_map_keys [OF wf] show "hashInput s = hashInput t" by (simp add: hashInput_def gm_get0_def)
qed

theorem snapshot_hash_injective_witness:
  "hashInput sampleBefore \<noteq> hashInput sampleAfter"
proof -
  have nul: "noNul sampleBefore" "noNul sampleAfter" by code_simp+
  have "map_of (SnFiles sampleBefore) ''a'' \<noteq> map_of (SnFiles sampleAfter) ''a''" by (simp add: sampleBefore_def sampleAfter_def)
  with snapshot_hash_injective [OF sample_wf nul] show ?thesis by metis
qed

end
