(* ===== verification/FileIndexer.thy ===== *)
theory FileIndexer
  imports PathStore MerkleSnapshot
begin

text \<open>
  The per-file indexer (\<open>internal/indexer/indexer.go\<close>) and the gates that decide which files belong to an
  index (\<open>internal/indexability/indexability.go\<close>, \<open>gates.go\<close>). The ignore matcher of \<open>git-pkgs\<close>, the git
  topology (nested worktrees and submodules), the file system and the syntax splitter are arguments. The
  theory shows that nothing below an excluded directory is indexed, and that a batch of files gives
  exactly the chunks and hashes of its indexed files.
\<close>

section \<open>The gates\<close>

definition Keep :: string where "Keep = []"
definition ReasonOutOfScope :: string where "ReasonOutOfScope = ''out-of-scope''"
definition ReasonIgnored :: string where "ReasonIgnored = ''ignored''"
definition ReasonSubmodule :: string where "ReasonSubmodule = ''submodule''"
definition ReasonNotRegular :: string where "ReasonNotRegular = ''not-regular''"
definition ReasonOversize :: string where "ReasonOversize = ''oversize''"
definition ReasonNonUTF8 :: string where "ReasonNonUTF8 = ''non-utf-8''"

lemmas reason_defs = Keep_def ReasonOutOfScope_def ReasonIgnored_def ReasonSubmodule_def ReasonNotRegular_def ReasonOversize_def ReasonNonUTF8_def

datatype gate_skip = SkipKeep | SkipNotRegular | SkipOversizeGate | SkipNonUTF8

record decision =
  DcIndexed :: bool
  DcReason :: string

record file_info =
  FiDir :: bool
  FiRegular :: bool
  FiSize :: int

record built_rules =
  RuMatchPath :: "string \<Rightarrow> bool \<Rightarrow> bool"
  RuCommonDir :: string
  RuNestedWorktree :: "string \<Rightarrow> bool"
  RuSubmoduleRoot :: "string \<Rightarrow> string option"
  RuSubmoduleAllowed :: "string \<Rightarrow> bool"
  RuMaxBytes :: int

definition eligibleByStat :: "file_info \<Rightarrow> int \<Rightarrow> bool \<times> gate_skip" where
  "eligibleByStat info maxBytes =
     (if \<not> FiRegular info then (False, SkipNotRegular)
      else if maxBytes > 0 \<and> FiSize info > maxBytes then (False, SkipOversizeGate)
      else (True, SkipKeep))"

definition eligibleContent :: "string \<Rightarrow> bool \<times> gate_skip" where
  "eligibleContent data = (if \<not> validUtf8 data then (False, SkipNonUTF8) else (True, SkipKeep))"

fun reasonForSkip :: "gate_skip \<Rightarrow> string" where
  "reasonForSkip SkipNotRegular = ReasonNotRegular"
| "reasonForSkip SkipOversizeGate = ReasonOversize"
| "reasonForSkip SkipNonUTF8 = ReasonNonUTF8"
| "reasonForSkip SkipKeep = Keep"

text \<open>\<open>strings.Split(s, "/")\<close> of a text, and the normal form of a path: slashes only, none at the ends.\<close>

fun splitSlash :: "string \<Rightarrow> string list" where
  "splitSlash [] = [[]]"
| "splitSlash (c # cs) = (if c = CHR ''/'' then [] # splitSlash cs else (case splitSlash cs of p # ps \<Rightarrow> (c # p) # ps))"

definition trimSlash :: "string \<Rightarrow> string" where
  "trimSlash s = rev (dropWhile (\<lambda>c. c = CHR ''/'') (rev (dropWhile (\<lambda>c. c = CHR ''/'') s)))"

definition normalizedPath :: "string \<Rightarrow> string" where
  "normalizedPath relPath = trimSlash (map (\<lambda>c. if c = CHR 0x5C then CHR ''/'' else c) relPath)"

definition pathIgnored :: "built_rules \<Rightarrow> string \<Rightarrow> bool \<Rightarrow> bool" where
  "pathIgnored rules relPath isDir =
     (let normalized = normalizedPath relPath; parts = splitSlash normalized
      in if normalized = [] then False
         else list_ex (\<lambda>index. RuMatchPath rules (joinStrings (take index parts) ''/'') True) [1..<length parts]
              \<or> RuMatchPath rules normalized isDir)"

definition hasGitComponent :: "string \<Rightarrow> bool" where
  "hasGitComponent relPath =
     (let normalized = normalizedPath relPath in if normalized = [] then False else ''.git'' \<in> set (splitSlash normalized))"

definition scopeOrIgnore :: "built_rules \<Rightarrow> string \<Rightarrow> bool \<Rightarrow> string" where
  "scopeOrIgnore rules relPath isDir =
     (if RuCommonDir rules \<noteq> [] \<and> RuNestedWorktree rules relPath then ReasonOutOfScope
      else if RuCommonDir rules \<noteq> []
        \<and> (case RuSubmoduleRoot rules relPath of None \<Rightarrow> False | Some submoduleRoot \<Rightarrow> \<not> RuSubmoduleAllowed rules submoduleRoot)
      then ReasonSubmodule
      else if hasGitComponent relPath then ReasonOutOfScope
      else if pathIgnored rules relPath isDir then ReasonIgnored
      else Keep)"

definition Decide :: "built_rules \<Rightarrow> string \<Rightarrow> file_info \<Rightarrow> decision" where
  "Decide rules relPath info =
     (let reason = scopeOrIgnore rules relPath (FiDir info)
      in if reason \<noteq> Keep then \<lparr>DcIndexed = False, DcReason = reason\<rparr>
         else case eligibleByStat info (RuMaxBytes rules) of
                (False, skip) \<Rightarrow> \<lparr>DcIndexed = False, DcReason = reasonForSkip skip\<rparr>
              | (True, skip) \<Rightarrow> \<lparr>DcIndexed = True, DcReason = Keep\<rparr>)"

definition DecideContent :: "string \<Rightarrow> decision" where
  "DecideContent data =
     (case eligibleContent data of
        (False, skip) \<Rightarrow> \<lparr>DcIndexed = False, DcReason = reasonForSkip skip\<rparr>
      | (True, skip) \<Rightarrow> \<lparr>DcIndexed = True, DcReason = Keep\<rparr>)"

definition Ignored :: "built_rules \<Rightarrow> string \<Rightarrow> bool \<Rightarrow> bool" where
  "Ignored rules relPath isDir \<longleftrightarrow> scopeOrIgnore rules relPath isDir \<noteq> Keep"

section \<open>One file\<close>

datatype skip_reason = SkipNone | SkipOversize | SkipUnreadable | SkipPending

record processed_file =
  PfChunks :: "unit stored_chunk list"
  PfHash :: string
  PfSkipped :: bool
  PfSkipReason :: skip_reason
  PfRemoved :: bool

definition newProcessedFile :: "unit stored_chunk list \<Rightarrow> string \<Rightarrow> bool \<Rightarrow> skip_reason \<Rightarrow> bool \<Rightarrow> processed_file" where
  "newProcessedFile chunks fileHash skipped skipReason removed =
     \<lparr>PfChunks = chunks, PfHash = fileHash, PfSkipped = skipped, PfSkipReason = skipReason, PfRemoved = removed\<rparr>"

datatype index_error = IndexNotExist string | IndexStat string | IndexReason string | IndexRead string | IndexSplit string | IndexCancelled

record split_chunk =
  ScContent :: string
  ScStartLine :: int
  ScEndLine :: int
  ScLanguage :: string

text \<open>
  The answers of the file system: each access of the \<open>t\<close>-th visited path is a function of \<open>t\<close> and the path,
  so a file may change between two accesses.
\<close>

record fs_env =
  FsRules :: built_rules
  FsClassify :: "string \<Rightarrow> file_info stat_result"
  FsLstat :: "nat \<Rightarrow> string \<Rightarrow> file_info stat_result"
  FsStat :: "nat \<Rightarrow> string \<Rightarrow> file_info stat_result"
  FsRead :: "nat \<Rightarrow> string \<Rightarrow> read_result"
  FsStatAgain :: "nat \<Rightarrow> string \<Rightarrow> file_info stat_result"
  FsInode :: "nat \<Rightarrow> string \<Rightarrow> inode_ref"
  FsSplitFile :: "string \<Rightarrow> string \<Rightarrow> split_chunk list option"
  FsDigest :: "string \<Rightarrow> string"

text \<open>\<open>filepath.Ext\<close>: the part of the last path element from its last dot on.\<close>

definition filepathExt :: "string \<Rightarrow> string" where
  "filepathExt path =
     (let tail = takeWhile (\<lambda>c. c \<noteq> CHR ''.'' \<and> c \<noteq> CHR ''/'') (rev path)
      in case drop (length tail) (rev path) of c # cs \<Rightarrow> if c = CHR ''.'' then CHR ''.'' # rev tail else [] | [] \<Rightarrow> [])"

definition storedChunkOf :: "string \<Rightarrow> split_chunk \<Rightarrow> unit stored_chunk" where
  "storedChunkOf relativePath c =
     \<lparr>Content = ScContent c, RelativePath = relativePath, StartLine = safeInt32FromInt (ScStartLine c), EndLine = safeInt32FromInt (ScEndLine c),
      Language = ScLanguage c, FileExtension = filepathExt relativePath, SplitPart = 0, SplitPartRecorded = True, Scalars = [], Score = ()\<rparr>"

definition processFile :: "fs_env \<Rightarrow> string \<Rightarrow> string \<Rightarrow> index_error + processed_file" where
  "processFile fs relativePath data =
     (if \<not> DcIndexed (DecideContent data) then Inr (newProcessedFile [] [] True SkipUnreadable False)
      else case FsSplitFile fs relativePath data of
             None \<Rightarrow> Inl (IndexSplit relativePath)
           | Some cs \<Rightarrow> Inr (newProcessedFile (map (storedChunkOf relativePath) cs) (FsDigest fs data) False SkipNone False))"

text \<open>The verdict before the read: an error, or the result of a path that is not read, and whether to go on.\<close>

definition statEligibility :: "fs_env \<Rightarrow> nat \<Rightarrow> string \<Rightarrow> index_error + (processed_file \<times> bool)" where
  "statEligibility fs t relativePath =
     (case FsStat fs t relativePath of
        StatAbsent \<Rightarrow> Inl (IndexNotExist relativePath)
      | StatError \<Rightarrow> Inl (IndexStat relativePath)
      | StatInfo info \<Rightarrow>
          let d = Decide (FsRules fs) relativePath info
          in if DcIndexed d then Inr (newProcessedFile [] [] False SkipNone False, True)
             else if DcReason d = ReasonOversize then Inr (newProcessedFile [] [] True SkipOversize False, False)
             else if DcReason d \<in> {ReasonNotRegular, ReasonOutOfScope, ReasonIgnored, ReasonSubmodule}
             then Inr (newProcessedFile [] [] False SkipNone True, False)
             else Inl (IndexReason relativePath))"

definition readErrorMeansRemoved :: "fs_env \<Rightarrow> nat \<Rightarrow> string \<Rightarrow> bool" where
  "readErrorMeansRemoved fs t path =
     (case FsStatAgain fs t path of StatAbsent \<Rightarrow> True | StatError \<Rightarrow> False | StatInfo info \<Rightarrow> \<not> FiRegular info)"

definition IndexOne :: "fs_env \<Rightarrow> nat \<Rightarrow> string \<Rightarrow> index_error + processed_file" where
  "IndexOne fs t relativePath =
     (case statEligibility fs t relativePath of
        Inl (IndexNotExist p) \<Rightarrow> Inr (newProcessedFile [] [] False SkipNone True)
      | Inl e \<Rightarrow> Inl e
      | Inr (statResult, False) \<Rightarrow> Inr statResult
      | Inr (statResult, True) \<Rightarrow>
          (case FsRead fs t relativePath of
             ReadAbsent \<Rightarrow> Inr (newProcessedFile [] [] False SkipNone True)
           | ReadError \<Rightarrow>
               if readErrorMeansRemoved fs t relativePath then Inr (newProcessedFile [] [] False SkipNone True) else Inl (IndexRead relativePath)
           | ReadData data \<Rightarrow> processFile fs relativePath data))"

section \<open>A batch of files\<close>

record index_accumulator =
  AcTotalChunks :: "32 word"
  AcTotalBytes :: "64 word"
  AcIndexedCount :: "32 word"
  AcStoredChunks :: "unit stored_chunk list"
  AcFileHashes :: "(string, string) gomap"
  AcSkippedFiles :: "string list"
  AcSkippedOversize :: "32 word"
  AcSkippedUnreadable :: "32 word"

definition chunkContentBytes :: "unit stored_chunk list \<Rightarrow> 64 word" where
  "chunkContentBytes chunks = foldl (\<lambda>total c. total + word_of_int (int (length (Content c)))) 0 chunks"

definition addSkipped :: "string \<Rightarrow> processed_file \<Rightarrow> index_accumulator \<Rightarrow> index_accumulator" where
  "addSkipped relativePath processed acc =
     (if \<not> PfSkipped processed then acc
      else let acc = acc\<lparr>AcSkippedFiles := AcSkippedFiles acc @ [relativePath]\<rparr>
           in if PfSkipReason processed = SkipOversize then acc\<lparr>AcSkippedOversize := AcSkippedOversize acc + 1\<rparr>
              else acc\<lparr>AcSkippedUnreadable := AcSkippedUnreadable acc + 1\<rparr>)"

definition ingestProcessed :: "string \<Rightarrow> processed_file \<Rightarrow> index_accumulator \<Rightarrow> index_accumulator" where
  "ingestProcessed relativePath processed acc =
     (if PfSkipped processed then addSkipped relativePath processed acc
      else acc\<lparr>AcTotalChunks := AcTotalChunks acc + word_of_int (safeInt32FromInt (int (length (PfChunks processed)))),
               AcTotalBytes := AcTotalBytes acc + chunkContentBytes (PfChunks processed),
               AcIndexedCount := AcIndexedCount acc + 1,
               AcFileHashes := gm_put relativePath (PfHash processed) (AcFileHashes acc),
               AcStoredChunks := AcStoredChunks acc @ PfChunks processed\<rparr>)"

definition ingestFile :: "fs_env \<Rightarrow> nat \<Rightarrow> string \<Rightarrow> index_accumulator \<Rightarrow> index_error + index_accumulator" where
  "ingestFile fs t relativePath acc =
     (case statEligibility fs t relativePath of
        Inl (IndexNotExist p) \<Rightarrow> Inr acc
      | Inl e \<Rightarrow> Inl e
      | Inr (statResult, False) \<Rightarrow> Inr (addSkipped relativePath statResult acc)
      | Inr (statResult, True) \<Rightarrow>
          (case FsRead fs t relativePath of
             ReadAbsent \<Rightarrow> Inr acc
           | ReadError \<Rightarrow> if readErrorMeansRemoved fs t relativePath then Inr acc else Inl (IndexRead relativePath)
           | ReadData data \<Rightarrow>
               (case processFile fs relativePath data of
                  Inl e \<Rightarrow> Inl e
                | Inr processed \<Rightarrow> Inr (ingestProcessed relativePath processed acc))))"

definition emptyAccumulator :: index_accumulator where
  "emptyAccumulator =
     \<lparr>AcTotalChunks = 0, AcTotalBytes = 0, AcIndexedCount = 0, AcStoredChunks = [], AcFileHashes = [], AcSkippedFiles = [],
      AcSkippedOversize = 0, AcSkippedUnreadable = 0\<rparr>"

fun ingestFiles :: "fs_env \<Rightarrow> (nat \<Rightarrow> bool) \<Rightarrow> nat \<Rightarrow> string list \<Rightarrow> index_accumulator \<Rightarrow> index_error + index_accumulator" where
  "ingestFiles fs cancelled t [] acc = Inr acc"
| "ingestFiles fs cancelled t (p # ps) acc =
     (if cancelled t then Inl IndexCancelled
      else case ingestFile fs t p acc of Inl e \<Rightarrow> Inl e | Inr acc \<Rightarrow> ingestFiles fs cancelled (Suc t) ps acc)"

record index_result =
  IrIndexedFiles :: "32 word"
  IrTotalChunks :: "32 word"
  IrTotalBytes :: "64 word"
  IrChunks :: "unit stored_chunk list"
  IrFileHashes :: "(string, string) gomap"
  IrSkippedFiles :: "string list"
  IrSkippedOversize :: "32 word"
  IrSkippedUnreadable :: "32 word"

definition resultOf :: "index_accumulator \<Rightarrow> index_result" where
  "resultOf acc =
     \<lparr>IrIndexedFiles = AcIndexedCount acc, IrTotalChunks = AcTotalChunks acc, IrTotalBytes = AcTotalBytes acc, IrChunks = AcStoredChunks acc,
      IrFileHashes = AcFileHashes acc, IrSkippedFiles = AcSkippedFiles acc, IrSkippedOversize = AcSkippedOversize acc,
      IrSkippedUnreadable = AcSkippedUnreadable acc\<rparr>"

definition IndexFiles :: "fs_env \<Rightarrow> (nat \<Rightarrow> bool) \<Rightarrow> string list \<Rightarrow> index_error + index_result" where
  "IndexFiles fs cancelled relativePaths = map_sum (\<lambda>e. e) resultOf (ingestFiles fs cancelled 0 relativePaths emptyAccumulator)"

section \<open>Nothing below an excluded directory is indexed\<close>

lemma splitSlash_ne [simp]: "splitSlash s \<noteq> []"
  by (induction s) (auto split: list.split)

lemma splitSlash_append: "splitSlash (s @ CHR ''/'' # t) = splitSlash s @ splitSlash t"
proof (induction s)
  case (Cons c s)
  then show ?case by (cases "splitSlash s") auto
qed simp

lemma join_splitSlash: "joinStrings (splitSlash s) ''/'' = s"
proof (induction s)
  case (Cons c s)
  then show ?case by (cases "splitSlash s"; cases "tl (splitSlash s)") auto
qed simp

lemma trimSlash_id: "s = [] \<or> hd s \<noteq> CHR ''/'' \<and> last s \<noteq> CHR ''/'' \<Longrightarrow> trimSlash s = s"
proof -
  have "dropWhile (\<lambda>c. c = CHR ''/'') s = s" if "s = [] \<or> hd s \<noteq> CHR ''/''" for s :: string using that by (cases s) auto
  then show "s = [] \<or> hd s \<noteq> CHR ''/'' \<and> last s \<noteq> CHR ''/'' \<Longrightarrow> trimSlash s = s" by (auto simp: trimSlash_def hd_rev)
qed

definition slashPath :: "string \<Rightarrow> bool" where
  "slashPath p \<longleftrightarrow> p \<noteq> [] \<and> CHR 0x5C \<notin> set p \<and> hd p \<noteq> CHR ''/'' \<and> last p \<noteq> CHR ''/''"

lemma normalizedPath_id: "slashPath p \<Longrightarrow> normalizedPath p = p"
proof -
  assume "slashPath p"
  moreover from this have "map (\<lambda>c. if c = CHR 0x5C then CHR ''/'' else c) p = p" by (auto simp: slashPath_def intro!: map_idI)
  ultimately show ?thesis by (simp add: normalizedPath_def trimSlash_id slashPath_def)
qed

lemma slashPath_append: "slashPath d \<Longrightarrow> slashPath f \<Longrightarrow> slashPath (d @ CHR ''/'' # f)"
  by (auto simp: slashPath_def)

lemma pathIgnored_below:
  assumes "slashPath d" "slashPath f" "pathIgnored rules d True"
  shows "pathIgnored rules (d @ CHR ''/'' # f) isDir"
proof -
  let ?p = "d @ CHR ''/'' # f" and ?n = "length (splitSlash d)"
  have norm: "normalizedPath d = d" "normalizedPath ?p = ?p" "d \<noteq> []" using assms(1,2) by (simp_all add: normalizedPath_id slashPath_append slashPath_def)
  have parts: "splitSlash ?p = splitSlash d @ splitSlash f" by (rule splitSlash_append)
  have len: "?n < length (splitSlash ?p)" "1 \<le> ?n" by (simp_all add: parts Suc_leI)
  from assms(3) norm consider (dir) i where "1 \<le> i" "i < ?n" "RuMatchPath rules (joinStrings (take i (splitSlash d)) ''/'') True"
    | (self) "RuMatchPath rules d True"
    unfolding pathIgnored_def Let_def list_ex_iff by (auto simp: Bex_def)
  then obtain i where "i \<in> set [1..<length (splitSlash ?p)]" "RuMatchPath rules (joinStrings (take i (splitSlash ?p)) ''/'') True"
  proof cases
    case dir
    with len parts show thesis by (intro that [of i]) auto
  next
    case self
    with len parts show thesis by (intro that [of ?n]) (auto simp: join_splitSlash)
  qed
  then show ?thesis using norm(2) unfolding pathIgnored_def Let_def list_ex_iff by auto
qed

lemma gitComponent_below: "slashPath d \<Longrightarrow> slashPath f \<Longrightarrow> hasGitComponent d \<Longrightarrow> hasGitComponent (d @ CHR ''/'' # f)"
  by (auto simp: hasGitComponent_def Let_def normalizedPath_id slashPath_append splitSlash_append split: if_splits)

text \<open>
  C38: Nothing below an excluded directory is indexed. When a directory matches an ignore rule, lies
  below a directory that does, or is or lies below a \<open>.git\<close> directory, every path below it is excluded,
  whatever later pattern would match the path itself: it is out of scope or ignored, the gate declines
  it for every file information, and the indexer never reads it, so a batch neither splits nor hashes it.
\<close>

theorem excluded_directory_excludes:
  assumes "slashPath d" "slashPath f" "pathIgnored rules d True \<or> hasGitComponent d" "p = d @ CHR ''/'' # f"
  shows "Ignored rules p isDir \<and> \<not> DcIndexed (Decide rules p info)
    \<and> (FsRules fs = rules \<longrightarrow> ingestFile fs t p acc \<in> {Inr acc, Inl (IndexStat p)})"
proof -
  have "hasGitComponent p \<or> pathIgnored rules p isDir" for isDir
    using assms pathIgnored_below gitComponent_below by blast
  then have reason: "scopeOrIgnore rules p isDir \<in> {ReasonOutOfScope, ReasonSubmodule, ReasonIgnored}" for isDir
    using \<open>hasGitComponent p \<or> pathIgnored rules p isDir\<close> by (auto simp: scopeOrIgnore_def)
  have keep: "scopeOrIgnore rules p isDir \<noteq> Keep" for isDir using reason [of isDir] by (auto simp: reason_defs)
  have dec: "Decide rules p info = \<lparr>DcIndexed = False, DcReason = scopeOrIgnore rules p (FiDir info)\<rparr>" for info
    by (simp add: Decide_def Let_def keep)
  have "ingestFile fs t p acc \<in> {Inr acc, Inl (IndexStat p)}" if "FsRules fs = rules"
  proof (cases "FsStat fs t p")
    case (StatInfo info)
    have "statEligibility fs t p = Inr (newProcessedFile [] [] False SkipNone True, False)"
      using reason [of "FiDir info"] by (simp add: statEligibility_def StatInfo that dec) (auto simp: reason_defs)
    then show ?thesis by (simp add: ingestFile_def addSkipped_def newProcessedFile_def)
  qed (simp_all add: ingestFile_def statEligibility_def)
  with keep dec show ?thesis by (simp add: Ignored_def)
qed

definition sampleRules :: built_rules where
  "sampleRules = \<lparr>RuMatchPath = \<lambda>p isDir. p = ''vendor'', RuCommonDir = [], RuNestedWorktree = \<lambda>p. False, RuSubmoduleRoot = \<lambda>p. None,
     RuSubmoduleAllowed = \<lambda>p. False, RuMaxBytes = 0\<rparr>"

theorem excluded_directory_excludes_witness:
  "\<not> DcIndexed (Decide sampleRules ''vendor/lib/x.go'' \<lparr>FiDir = False, FiRegular = True, FiSize = 3\<rparr>)"
proof -
  have "slashPath ''vendor''" "slashPath ''lib/x.go''" "pathIgnored sampleRules ''vendor'' True \<or> hasGitComponent ''vendor''"
    "''vendor/lib/x.go'' = ''vendor'' @ CHR ''/'' # ''lib/x.go''" by code_simp+
  from excluded_directory_excludes [OF this] show ?thesis by blast
qed

section \<open>A batch gives what its files give\<close>

text \<open>The files of a batch one by one, each by \<open>IndexOne\<close>.\<close>

fun indexEach :: "fs_env \<Rightarrow> nat \<Rightarrow> string list \<Rightarrow> index_error + (string \<times> processed_file) list" where
  "indexEach fs t [] = Inr []"
| "indexEach fs t (p # ps) =
     (case IndexOne fs t p of Inl e \<Rightarrow> Inl e | Inr r \<Rightarrow> map_sum (\<lambda>e. e) (\<lambda>rs. (p, r) # rs) (indexEach fs (Suc t) ps))"

definition indexed :: "(string \<times> processed_file) list \<Rightarrow> (string \<times> processed_file) list" where
  "indexed rs = filter (\<lambda>(p, r). \<not> PfSkipped r \<and> \<not> PfRemoved r) rs"

definition accumulated :: "index_accumulator \<Rightarrow> (string \<times> processed_file) list \<Rightarrow> index_accumulator" where
  "accumulated acc rs =
     \<lparr>AcTotalChunks = AcTotalChunks acc + sum_list (map (\<lambda>(p, r). word_of_int (safeInt32FromInt (int (length (PfChunks r))))) (indexed rs)),
      AcTotalBytes = AcTotalBytes acc + sum_list (map (\<lambda>c. word_of_int (int (length (Content c)))) (concat (map (PfChunks \<circ> snd) (indexed rs)))),
      AcIndexedCount = AcIndexedCount acc + word_of_int (int (length (indexed rs))),
      AcStoredChunks = AcStoredChunks acc @ concat (map (PfChunks \<circ> snd) (indexed rs)),
      AcFileHashes = fold (\<lambda>(p, r). gm_put p (PfHash r)) (indexed rs) (AcFileHashes acc),
      AcSkippedFiles = AcSkippedFiles acc @ map fst (filter (\<lambda>(p, r). PfSkipped r) rs),
      AcSkippedOversize = AcSkippedOversize acc + word_of_int (int (length (filter (\<lambda>(p, r). PfSkipped r \<and> PfSkipReason r = SkipOversize) rs))),
      AcSkippedUnreadable = AcSkippedUnreadable acc + word_of_int (int (length (filter (\<lambda>(p, r). PfSkipped r \<and> PfSkipReason r \<noteq> SkipOversize) rs)))\<rparr>"

lemma chunkContentBytes_sum: "chunkContentBytes cs = sum_list (map (\<lambda>c. word_of_int (int (length (Content c)))) cs)"
proof -
  have "foldl (\<lambda>total c. total + word_of_int (int (length (Content c)))) (k :: 64 word) cs
      = k + sum_list (map (\<lambda>c. word_of_int (int (length (Content c)))) cs)" for k
    by (induction cs arbitrary: k) (simp_all add: add.assoc)
  from this [of 0] show ?thesis by (simp add: chunkContentBytes_def)
qed

lemma ingestFile_step:
  "ingestFile fs t p acc = (case IndexOne fs t p of Inl e \<Rightarrow> Inl e | Inr r \<Rightarrow> Inr (accumulated acc [(p, r)]))"
proof -
  have full: "accumulated acc [(p, r)] = ingestProcessed p r acc" if "processFile fs p data = Inr r" for r data
    using that by (auto simp: processFile_def accumulated_def indexed_def newProcessedFile_def ingestProcessed_def addSkipped_def
      chunkContentBytes_sum split: if_splits option.splits)
  have stat: "accumulated acc [(p, r)] = addSkipped p r acc" if "statEligibility fs t p = Inr (r, False)" for r
    using that by (auto simp: statEligibility_def Let_def accumulated_def indexed_def newProcessedFile_def addSkipped_def
      split: stat_result.splits if_splits)
  note defs = ingestFile_def IndexOne_def
  show ?thesis
  proof (cases "statEligibility fs t p")
    case (Inl e)
    then show ?thesis by (cases e) (simp_all add: defs, simp_all add: accumulated_def indexed_def newProcessedFile_def)
  next
    case (Inr x)
    then obtain r go where x: "statEligibility fs t p = Inr (r, go)" by (cases x) simp
    show ?thesis
    proof (cases go)
      case True
      with x show ?thesis by (cases "FsRead fs t p") (auto simp: defs full split: sum.split, auto simp: accumulated_def indexed_def newProcessedFile_def)
    qed (use x stat in \<open>simp add: defs\<close>)
  qed
qed

lemma accumulated_append: "accumulated (accumulated acc rs) rs' = accumulated acc (rs @ rs')"
  by (simp add: accumulated_def indexed_def add.assoc)

lemma ingestFiles_each:
  "\<forall>i. \<not> cancelled i \<Longrightarrow> ingestFiles fs cancelled t ps acc = map_sum (\<lambda>e. e) (accumulated acc) (indexEach fs t ps)"
proof (induction ps arbitrary: t acc)
  case Nil
  then show ?case by (simp add: accumulated_def indexed_def)
next
  case (Cons p ps)
  show ?case
  proof (cases "IndexOne fs t p")
    case (Inr r)
    with Cons show ?thesis
      by (cases "indexEach fs (Suc t) ps") (simp_all add: ingestFile_step accumulated_append)
  qed (use Cons in \<open>simp add: ingestFile_step\<close>)
qed

lemma IndexOne_indexed:
  assumes "IndexOne fs t p = Inr r"
  shows "PfSkipped r \<or> PfRemoved r \<longrightarrow> PfChunks r = []"
    and "\<not> PfSkipped r \<Longrightarrow> \<not> PfRemoved r \<Longrightarrow> \<exists>content cs. validUtf8 content \<and> FsRead fs t p = ReadData content \<and> FsSplitFile fs p content = Some cs
      \<and> r = newProcessedFile (map (storedChunkOf p) cs) (FsDigest fs content) False SkipNone False"
proof -
  have stat: "PfChunks r = [] \<and> (PfSkipped r \<or> PfRemoved r)" if "statEligibility fs t p = Inr (r, False)"
    using that by (auto simp: statEligibility_def Let_def newProcessedFile_def split: stat_result.splits if_splits)
  have proc: "(PfSkipped r \<or> PfRemoved r) \<and> PfChunks r = [] \<or> validUtf8 content \<and> (\<exists>cs. FsSplitFile fs p content = Some cs
      \<and> r = newProcessedFile (map (storedChunkOf p) cs) (FsDigest fs content) False SkipNone False)" if "processFile fs p content = Inr r" for content
    using that by (auto simp: processFile_def newProcessedFile_def DecideContent_def eligibleContent_def split: if_splits option.splits)
  have "(PfSkipped r \<or> PfRemoved r) \<and> PfChunks r = [] \<or> (\<exists>content cs. validUtf8 content \<and> FsRead fs t p = ReadData content \<and> FsSplitFile fs p content = Some cs
      \<and> r = newProcessedFile (map (storedChunkOf p) cs) (FsDigest fs content) False SkipNone False)"
    using assms stat proc
    by (auto simp: IndexOne_def newProcessedFile_def [of "[]"] split: sum.splits index_error.splits read_result.splits prod.splits bool.splits if_splits)
  then show "PfSkipped r \<or> PfRemoved r \<longrightarrow> PfChunks r = []"
    and "\<not> PfSkipped r \<Longrightarrow> \<not> PfRemoved r \<Longrightarrow> \<exists>content cs. validUtf8 content \<and> FsRead fs t p = ReadData content \<and> FsSplitFile fs p content = Some cs
      \<and> r = newProcessedFile (map (storedChunkOf p) cs) (FsDigest fs content) False SkipNone False"
    by (auto simp: newProcessedFile_def)
qed

lemma indexEach_indexed: "indexEach fs t ps = Inr rs \<Longrightarrow> (p, r) \<in> set (indexed rs) \<Longrightarrow> \<exists>u. IndexOne fs u p = Inr r"
proof (induction ps arbitrary: t rs)
  case (Cons q ps)
  then obtain s rs' where "IndexOne fs t q = Inr s" "indexEach fs (Suc t) ps = Inr rs'" "rs = (q, s) # rs'"
    by (cases "IndexOne fs t q"; cases "indexEach fs (Suc t) ps") auto
  with Cons.IH [of "Suc t" rs'] Cons.prems(2) show ?case by (auto simp: indexed_def split: if_splits)
qed (simp add: indexed_def)

lemma fold_put_dom: "fst ` set (fold (\<lambda>(p, r). gm_put p (f r)) rs m) = fst ` set m \<union> fst ` set rs"
proof (induction rs arbitrary: m)
  case (Cons x rs)
  have "fst ` set (gm_put k v m) = insert k (fst ` set m)" for k v
    by (simp add: dom_update)
  with Cons show ?case by (cases x) auto
qed simp

text \<open>
  C39: A batch of files gives what its files give one by one. Without a cancellation \<open>IndexFiles\<close> fails
  exactly when \<open>IndexOne\<close> fails for one of its files, with the first such error. Otherwise its chunks are
  the chunks of the indexed files in order, the skipped files are those \<open>IndexOne\<close> skips, vanished files
  leave no trace, and every chunk has the path of a file with a recorded hash, valid line numbers for the
  store, the extension of its path, and comes from a content that is valid UTF-8.
\<close>

theorem index_files_as_index_one:
  assumes "\<forall>i. \<not> cancelled i"
  shows "case indexEach fs 0 ps of
      Inl e \<Rightarrow> IndexFiles fs cancelled ps = Inl e
    | Inr rs \<Rightarrow> (\<exists>r. IndexFiles fs cancelled ps = Inr r
        \<and> IrChunks r = concat (map (PfChunks \<circ> snd) (indexed rs))
        \<and> IrFileHashes r = fold (\<lambda>(p, q). gm_put p (PfHash q)) (indexed rs) []
        \<and> IrSkippedFiles r = map fst (filter (\<lambda>(p, q). PfSkipped q) rs)
        \<and> (\<forall>c\<in>set (IrChunks r). RelativePath c \<in> fst ` set (IrFileHashes r) \<and> FileExtension c = filepathExt (RelativePath c)
            \<and> \<bar>StartLine c\<bar> \<le> 2 ^ 31 \<and> \<bar>EndLine c\<bar> \<le> 2 ^ 31
            \<and> (\<exists>t content cs. FsRead fs t (RelativePath c) = ReadData content \<and> validUtf8 content
                \<and> FsSplitFile fs (RelativePath c) content = Some cs \<and> c \<in> storedChunkOf (RelativePath c) ` set cs)))"
proof (cases "indexEach fs 0 ps")
  case (Inl e)
  then show ?thesis by (simp add: IndexFiles_def ingestFiles_each [OF assms])
next
  case (Inr rs)
  let ?r = "resultOf (accumulated emptyAccumulator rs)"
  have run: "IndexFiles fs cancelled ps = Inr ?r" by (simp add: IndexFiles_def ingestFiles_each [OF assms] Inr)
  have chunks: "IrChunks ?r = concat (map (PfChunks \<circ> snd) (indexed rs))"
    and hashes: "IrFileHashes ?r = fold (\<lambda>(p, q). gm_put p (PfHash q)) (indexed rs) []"
    and skipped: "IrSkippedFiles ?r = map fst (filter (\<lambda>(p, q). PfSkipped q) rs)"
    by (simp_all add: resultOf_def accumulated_def emptyAccumulator_def)
  have "RelativePath c \<in> fst ` set (IrFileHashes ?r) \<and> FileExtension c = filepathExt (RelativePath c)
      \<and> \<bar>StartLine c\<bar> \<le> 2 ^ 31 \<and> \<bar>EndLine c\<bar> \<le> 2 ^ 31
      \<and> (\<exists>t content cs. FsRead fs t (RelativePath c) = ReadData content \<and> validUtf8 content
          \<and> FsSplitFile fs (RelativePath c) content = Some cs \<and> c \<in> storedChunkOf (RelativePath c) ` set cs)" if "c \<in> set (IrChunks ?r)" for c
  proof -
    from that chunks obtain p q where pq: "(p, q) \<in> set (indexed rs)" "c \<in> set (PfChunks q)" by auto
    from indexEach_indexed [OF Inr pq(1)] obtain t where one: "IndexOne fs t p = Inr q" by blast
    from pq(1) have "\<not> PfSkipped q" "\<not> PfRemoved q" by (auto simp: indexed_def)
    from IndexOne_indexed(2) [OF one this] obtain content cs where content: "validUtf8 content" "FsRead fs t p = ReadData content"
      "FsSplitFile fs p content = Some cs" "PfChunks q = map (storedChunkOf p) cs" by (auto simp: newProcessedFile_def)
    with pq(2) have c: "c \<in> storedChunkOf p ` set cs" by simp
    then have "RelativePath c = p" "FileExtension c = filepathExt p" "\<bar>StartLine c\<bar> \<le> 2 ^ 31" "\<bar>EndLine c\<bar> \<le> 2 ^ 31"
      by (auto simp: storedChunkOf_def safeInt32FromInt_def)
    moreover have "p \<in> fst ` set (IrFileHashes ?r)" unfolding hashes fold_put_dom using pq(1) by force
    ultimately show ?thesis using c content by blast
  qed
  with run chunks hashes skipped show ?thesis by (simp add: Inr)
qed

text \<open>A disk that does not change: contents and inodes by path, one chunk for each file that is not empty.\<close>

definition diskInfo :: "(string, string) gomap \<Rightarrow> string \<Rightarrow> file_info stat_result" where
  "diskInfo files p =
     (case map_of files p of None \<Rightarrow> StatAbsent | Some content \<Rightarrow> StatInfo \<lparr>FiDir = False, FiRegular = True, FiSize = int (length content)\<rparr>)"

definition diskFs :: "(string, string) gomap \<Rightarrow> (string, inode_ref) gomap \<Rightarrow> fs_env" where
  "diskFs files inodes =
     \<lparr>FsRules = sampleRules, FsClassify = diskInfo files, FsLstat = \<lambda>t. diskInfo files, FsStat = \<lambda>t. diskInfo files,
      FsRead = \<lambda>t p. (case map_of files p of None \<Rightarrow> ReadAbsent | Some content \<Rightarrow> ReadData content),
      FsStatAgain = \<lambda>t. diskInfo files, FsInode = \<lambda>t. gm_get0 noInode inodes,
      FsSplitFile = \<lambda>p content. Some (if content = [] then [] else [\<lparr>ScContent = content, ScStartLine = 1, ScEndLine = 1, ScLanguage = ''text''\<rparr>]),
      FsDigest = \<lambda>content. ''#'' @ content\<rparr>"

definition batchDisk :: fs_env where
  "batchDisk = diskFs [(''a.go'', ''x''), (''vendor/b.go'', ''y'')] []"

lemma batchDisk_each:
  "indexEach batchDisk 0 [''a.go'', ''vendor/b.go'', ''gone'']
     = Inr [(''a.go'', newProcessedFile [storedChunkOf ''a.go'' \<lparr>ScContent = ''x'', ScStartLine = 1, ScEndLine = 1, ScLanguage = ''text''\<rparr>] ''#x'' False SkipNone False),
            (''vendor/b.go'', newProcessedFile [] [] False SkipNone True), (''gone'', newProcessedFile [] [] False SkipNone True)]"
  by code_simp

theorem index_files_as_index_one_witness:
  "\<exists>r. IndexFiles batchDisk (\<lambda>t. False) [''a.go'', ''vendor/b.go'', ''gone''] = Inr r \<and> IrFileHashes r = [(''a.go'', ''#x'')]
     \<and> IrChunks r = [storedChunkOf ''a.go'' \<lparr>ScContent = ''x'', ScStartLine = 1, ScEndLine = 1, ScLanguage = ''text''\<rparr>]"
  using index_files_as_index_one [of "\<lambda>t. False" batchDisk "[''a.go'', ''vendor/b.go'', ''gone'']"]
  unfolding batchDisk_each by (simp add: indexed_def newProcessedFile_def) blast

section \<open>A copied row and a fresh one\<close>


definition sampleSplit :: split_chunk where
  "sampleSplit = \<lparr>ScContent = ''x'', ScStartLine = 1, ScEndLine = 2, ScLanguage = ''text''\<rparr>"


end
