(* ===== verification/Converge.thy ===== *)
theory Converge
  imports FileIndexer
begin

text \<open>
  Convergence of changed paths (\<open>internal/daemon/converge.go\<close>, \<open>admission.go\<close>): for each path a watcher
  reports, the index is made to match the disk, through the indexability gate, the hash comparison with
  the checkpoint, a copy of the rows of a renamed file, or a new embedding. A file may change between two
  accesses; every store request may fail. The theory shows that with working requests and real renames
  the store and the checkpoint agree afterwards and the reported files are up to date, and what goes
  wrong for a path that was renamed away and written again, and after a failed embedding.
\<close>

section \<open>Admission\<close>

record admission =
  AdMaxChunks :: int
  AdMaxBytes :: int
  AdExpectedChunks :: int
  AdGrowthLimit :: int
  AdChunks :: int
  AdBytes :: int

definition tighterPositiveLimit :: "int \<Rightarrow> int \<Rightarrow> int" where
  "tighterPositiveLimit serverLimit requestLimit =
     (if requestLimit > 0 \<and> (serverLimit = 0 \<or> requestLimit < serverLimit) then requestLimit else serverLimit)"

record 'r admission_config =
  AcMaxJobChunks :: int
  AcMaxJobBytes :: int
  AcGrowthFactor :: 'r
  AcGrowthFloor :: int

text \<open>\<open>ceilMul\<close> is the product of a chunk count and the factor, rounded up.\<close>

definition newAdmissionState ::
  "(int \<Rightarrow> 'r \<Rightarrow> int) \<Rightarrow> 'r::{zero, one, linorder} admission_config \<Rightarrow> int \<Rightarrow> int \<Rightarrow> int \<Rightarrow> admission" where
  "newAdmissionState ceilMul cfg budgetChunks budgetBytes expectedChunks =
     \<lparr>AdMaxChunks = tighterPositiveLimit (AcMaxJobChunks cfg) budgetChunks,
      AdMaxBytes = tighterPositiveLimit (AcMaxJobBytes cfg) budgetBytes, AdExpectedChunks = expectedChunks,
      AdGrowthLimit =
        (if expectedChunks > 0 \<and> (AcGrowthFactor cfg > 0 \<or> AcGrowthFloor cfg > 0)
         then max (ceilMul expectedChunks (if AcGrowthFactor cfg \<le> 0 then 1 else AcGrowthFactor cfg)) (expectedChunks + AcGrowthFloor cfg)
         else 0),
      AdChunks = 0, AdBytes = 0\<rparr>"

definition storedChunkBytes :: "unit stored_chunk list \<Rightarrow> int" where
  "storedChunkBytes chunks = sum_list (map (\<lambda>c. int (length (Content c))) chunks)"

definition Admit :: "unit stored_chunk list \<Rightarrow> admission \<Rightarrow> admission \<times> bool" where
  "Admit chunks a =
     (if chunks = [] then (a, True)
      else let nextChunks = AdChunks a + int (length chunks); nextBytes = AdBytes a + storedChunkBytes chunks
           in if AdMaxChunks a > 0 \<and> nextChunks > AdMaxChunks a then (a, False)
              else if AdMaxBytes a > 0 \<and> nextBytes > AdMaxBytes a then (a, False)
              else if AdGrowthLimit a > 0 \<and> nextChunks > AdGrowthLimit a then (a, False)
              else (a\<lparr>AdChunks := nextChunks, AdBytes := nextBytes\<rparr>, True))"

section \<open>The state of one call\<close>

record pending_rename =
  PrSource :: string
  PrDestination :: string
  PrResult :: "processed_file"
  PrInode :: inode_ref

record converge_outcome =
  PathsGiven :: int
  PathsProcessed :: int
  PathsConverged :: int

record 'x converge_state =
  CvStore :: "'x path_store"
  CvSnapshot :: snapshot
  CvAdmission :: admission
  CvRenames :: "pending_rename list"
  CvChanged :: bool
  CvOutcome :: converge_outcome

datatype converge_error =
  CeLstatFailed string | CeIndexFailed index_error | CeClassifyFailed string | CeCancelled | CeCheckpoint | CeSnapshotWrite "converge_error option"

record converge_context =
  CxDisabled :: bool
  CxClassifyCancelled :: "nat \<Rightarrow> bool"
  CxCancelled :: "nat \<Rightarrow> bool"
  CxCheckpointStops :: "nat \<Rightarrow> bool"

definition pickRenameSource :: "string list \<Rightarrow> (string, string) gomap \<Rightarrow> string \<Rightarrow> string" where
  "pickRenameSource candidates fileHashes freshHash =
     (case find (\<lambda>c. gm_get0 [] fileHashes c = freshHash) candidates of None \<Rightarrow> [] | Some c \<Rightarrow> c)"

definition renameCopySource :: "inode_ref \<Rightarrow> string \<Rightarrow> snapshot \<Rightarrow> string" where
  "renameCopySource currentInode freshHash s =
     (let siblings = LookupByInode s currentInode
      in if siblings = [] then [] else pickRenameSource siblings (SnFiles s) freshHash)"

definition shouldUpdateInodeStamp :: "snapshot \<Rightarrow> string \<Rightarrow> inode_ref \<Rightarrow> bool" where
  "shouldUpdateInodeStamp s p current =
     (if IsZero current then False
      else case map_of (SnInodes s) p of None \<Rightarrow> True | Some existing \<Rightarrow> existing \<noteq> current)"

definition stampInodeForPath :: "converge_context \<Rightarrow> fs_env \<Rightarrow> nat \<Rightarrow> string \<Rightarrow> inode_ref" where
  "stampInodeForPath cx fs t p = (if CxDisabled cx then noInode else FsInode fs t p)"

section \<open>One path\<close>

definition recordFile :: "string \<Rightarrow> string \<Rightarrow> inode_ref \<Rightarrow> snapshot \<Rightarrow> snapshot" where
  "recordFile p hash inode s = RecordInode p inode (s\<lparr>SnFiles := gm_put p hash (SnFiles s)\<rparr>)"

definition forgetFile :: "string \<Rightarrow> snapshot \<Rightarrow> snapshot" where
  "forgetFile p s = ForgetInode p (s\<lparr>SnFiles := gm_del p (SnFiles s)\<rparr>)"

definition convergeUpsert ::
  "(unit, 'x) service_env \<Rightarrow> string \<Rightarrow> processed_file \<Rightarrow> inode_ref \<Rightarrow> 'x converge_state \<Rightarrow> 'x converge_state \<times> bool" where
  "convergeUpsert env p fr inode st =
     (case Admit (PfChunks fr) (CvAdmission st) of
        (a, False) \<Rightarrow> (st, False)
      | (a, True) \<Rightarrow>
          (case Reindex env (PfChunks fr) [p] (CvStore st) of
             (s, Some e) \<Rightarrow> (st\<lparr>CvAdmission := a, CvStore := s\<rparr>, False)
           | (s, None) \<Rightarrow>
               (st\<lparr>CvAdmission := a, CvStore := s, CvSnapshot := recordFile p (PfHash fr) inode (CvSnapshot st)\<rparr>, True)))"

definition convergeRemoveExcluded :: "(unit, 'x) service_env \<Rightarrow> string \<Rightarrow> 'x converge_state \<Rightarrow> 'x converge_state \<times> bool" where
  "convergeRemoveExcluded env p st =
     (if \<not> HasFile (CvSnapshot st) p then (st, False)
      else case Reindex env [] [p] (CvStore st) of
             (s, Some e) \<Rightarrow> (st\<lparr>CvStore := s\<rparr>, False)
           | (s, None) \<Rightarrow> (st\<lparr>CvStore := s, CvSnapshot := forgetFile p (CvSnapshot st)\<rparr>, True))"

text \<open>The decision for a file that was read: the stamp of an unchanged file, a queued rename, or an upsert.\<close>

definition convergeIndexed ::
  "(unit, 'x) service_env \<Rightarrow> string \<Rightarrow> processed_file \<Rightarrow> inode_ref \<Rightarrow> 'x converge_state \<Rightarrow> 'x converge_state \<times> bool" where
  "convergeIndexed env p fr inode st =
     (case map_of (SnFiles (CvSnapshot st)) p of
        Some previousHash \<Rightarrow>
          if previousHash = PfHash fr
          then (if shouldUpdateInodeStamp (CvSnapshot st) p inode
                then (st\<lparr>CvSnapshot := RecordInode p inode (CvSnapshot st)\<rparr>, True) else (st, False))
          else convergeUpsert env p fr inode st
      | None \<Rightarrow>
          let source = renameCopySource inode (PfHash fr) (CvSnapshot st)
          in if source \<noteq> []
             then (st\<lparr>CvRenames := CvRenames st @ [\<lparr>PrSource = source, PrDestination = p, PrResult = fr, PrInode = inode\<rparr>]\<rparr>, False)
             else convergeUpsert env p fr inode st)"

definition convergeOnePath ::
  "(unit, 'x) service_env \<Rightarrow> converge_context \<Rightarrow> fs_env \<Rightarrow> nat \<Rightarrow> string \<Rightarrow> 'x converge_state
    \<Rightarrow> 'x converge_state \<times> (converge_error + bool)" where
  "convergeOnePath env cx fs t p st =
     (let gate = (case FsLstat fs t p of
            StatInfo info \<Rightarrow> if DcIndexed (Decide (FsRules fs) p info) then None else Some (case convergeRemoveExcluded env p st of (st, b) \<Rightarrow> (st, Inr b))
          | StatError \<Rightarrow> Some (st, Inl (CeLstatFailed p))
          | StatAbsent \<Rightarrow> None)
      in case gate of
           Some result \<Rightarrow> result
         | None \<Rightarrow>
             (case IndexOne fs t p of
                Inl e \<Rightarrow> (st, Inl (CeIndexFailed e))
              | Inr fr \<Rightarrow>
                  if PfRemoved fr then (st, Inr False)
                  else if PfSkipped fr then (st, Inr False)
                  else case convergeIndexed env p fr (stampInodeForPath cx fs t p) st of (st, b) \<Rightarrow> (st, Inr b)))"

section \<open>The queued renames\<close>

fun applyRenames ::
  "(unit, 'x) service_env \<Rightarrow> bool \<Rightarrow> (pending_rename \<times> nat) list \<Rightarrow> 'x converge_state \<Rightarrow> 'x converge_state \<times> nat" where
  "applyRenames env copyOk [] st = (st, 0)"
| "applyRenames env copyOk ((r, n) # rs) st =
     (if copyOk \<and> n > 0
      then (case applyRenames env copyOk rs
              (st\<lparr>CvSnapshot := recordFile (PrDestination r) (PfHash (PrResult r)) (PrInode r) (forgetFile (PrSource r) (CvSnapshot st))\<rparr>) of
              (st, k) \<Rightarrow> (st, Suc k))
      else case convergeUpsert env (PrDestination r) (PrResult r) (PrInode r) st of
             (st, b) \<Rightarrow> (case applyRenames env copyOk rs st of (st, k) \<Rightarrow> (st, if b then Suc k else k)))"

definition applyRenameCopies :: "(unit, 'x) service_env \<Rightarrow> 'x converge_state \<Rightarrow> 'x converge_state \<times> nat" where
  "applyRenameCopies env st =
     (if CvRenames st = [] then (st, 0)
      else case CopyChunks env (map (\<lambda>r. \<lparr>CcSource = PrSource r, CcDestination = PrDestination r\<rparr>) (CvRenames st)) (CvStore st) of
             (s, counts, err) \<Rightarrow>
               applyRenames env (err = None) (zip (CvRenames st) (if err = None then counts else replicate (length (CvRenames st)) 0)) (st\<lparr>CvStore := s\<rparr>))"

section \<open>The call\<close>

record classified_path =
  CpRelativePath :: string
  CpMissing :: bool

definition classifiedBefore :: "classified_path \<Rightarrow> classified_path \<Rightarrow> bool" where
  "classifiedBefore first second =
     (if CpMissing first \<noteq> CpMissing second then \<not> CpMissing first else CpRelativePath first < CpRelativePath second)"

fun classifyPaths :: "converge_context \<Rightarrow> fs_env \<Rightarrow> nat \<Rightarrow> string list \<Rightarrow> converge_error + classified_path list" where
  "classifyPaths cx fs t [] = (if 0 < t \<and> CxClassifyCancelled cx t then Inl CeCancelled else Inr [])"
| "classifyPaths cx fs t (p # ps) =
     (if CxClassifyCancelled cx t then Inl CeCancelled
      else if FsClassify fs p = StatError then Inl (CeClassifyFailed p)
      else case classifyPaths cx fs (Suc t) ps of
             Inl e \<Rightarrow> Inl e
           | Inr cs \<Rightarrow> Inr (\<lparr>CpRelativePath = p, CpMissing = (FsClassify fs p = StatAbsent)\<rparr> # cs))"

definition classifyConvergePaths :: "converge_context \<Rightarrow> fs_env \<Rightarrow> string list \<Rightarrow> converge_error + classified_path list" where
  "classifyConvergePaths cx fs paths = map_sum (\<lambda>e. e) (sort_by classifiedBefore) (classifyPaths cx fs 0 paths)"

definition notePath :: "bool \<Rightarrow> 'x converge_state \<Rightarrow> 'x converge_state" where
  "notePath converged st =
     st\<lparr>CvChanged := CvChanged st \<or> converged,
        CvOutcome := (CvOutcome st)\<lparr>PathsProcessed := PathsProcessed (CvOutcome st) + 1,
          PathsConverged := PathsConverged (CvOutcome st) + (if converged then 1 else 0)\<rparr>\<rparr>"

text \<open>The walk; the last component says whether it ended without an error or a cancellation.\<close>

fun convergeWalk ::
  "(unit, 'x) service_env \<Rightarrow> converge_context \<Rightarrow> fs_env \<Rightarrow> nat \<Rightarrow> classified_path list \<Rightarrow> 'x converge_state
    \<Rightarrow> 'x converge_state \<times> converge_error option \<times> bool" where
  "convergeWalk env cx fs t [] st = (st, None, \<not> CxCancelled cx t)"
| "convergeWalk env cx fs t (c # cs) st =
     (if CxCancelled cx t then (st, None, False)
      else if CpMissing c then convergeWalk env cx fs (Suc t) cs (notePath False st)
      else case convergeOnePath env cx fs t (CpRelativePath c) st of
             (st, Inl e) \<Rightarrow> (st, Some e, False)
           | (st, Inr converged) \<Rightarrow>
               if converged \<and> CxCheckpointStops cx t
               then (st\<lparr>CvChanged := True, CvOutcome := (CvOutcome st)\<lparr>PathsConverged := PathsConverged (CvOutcome st) + 1\<rparr>\<rparr>, Some CeCheckpoint, False)
               else convergeWalk env cx fs (Suc t) cs (notePath converged st))"

definition convergeClassifiedPaths ::
  "(unit, 'x) service_env \<Rightarrow> converge_context \<Rightarrow> fs_env \<Rightarrow> classified_path list \<Rightarrow> 'x converge_state \<Rightarrow> 'x converge_state \<times> converge_error option" where
  "convergeClassifiedPaths env cx fs cs st =
     (case convergeWalk env cx fs 0 cs st of
        (st, err, False) \<Rightarrow> (st, err)
      | (st, err, True) \<Rightarrow>
          (case applyRenameCopies env st of
             (st, renamed) \<Rightarrow>
               if renamed = 0 then (st, None)
               else (st\<lparr>CvChanged := True, CvOutcome := (CvOutcome st)\<lparr>PathsConverged := PathsConverged (CvOutcome st) + int renamed\<rparr>\<rparr>,
                     if CxCheckpointStops cx (length cs) then Some CeCheckpoint else None)))"

text \<open>
  The guards of the call: an unknown or quarantined codebase, a missing root or a missing backend leave
  everything as it is. The result is the store, the checkpoint on disk, the outcome and the error.
\<close>

record converge_guard =
  CgFound :: bool
  CgRootMissing :: bool
  CgAvailable :: bool
  CgQuarantined :: bool

definition noOutcome :: converge_outcome where
  "noOutcome = \<lparr>PathsGiven = 0, PathsProcessed = 0, PathsConverged = 0\<rparr>"

definition ConvergePaths ::
  "(unit, 'x) service_env \<Rightarrow> converge_context \<Rightarrow> fs_env \<Rightarrow> converge_guard \<Rightarrow> admission \<Rightarrow> string \<Rightarrow> bool \<Rightarrow> string list
    \<Rightarrow> snapshot \<Rightarrow> 'x path_store \<Rightarrow> 'x path_store \<times> snapshot \<times> converge_outcome \<times> converge_error option" where
  "ConvergePaths env cx fs guard adm configDigest writeFails paths snap s =
     (if \<not> CgFound guard \<or> CgRootMissing guard \<or> \<not> CgAvailable guard \<or> CgQuarantined guard then (s, snap, noOutcome, None)
      else let outcome = noOutcome\<lparr>PathsGiven := safeInt32FromInt (int (length paths))\<rparr>
           in case classifyConvergePaths cx fs paths of
                Inl e \<Rightarrow> (s, snap, outcome, Some e)
              | Inr cs \<Rightarrow>
                  (case convergeClassifiedPaths env cx fs cs
                      \<lparr>CvStore = s, CvSnapshot = snap\<lparr>SnConfigDigest := configDigest\<rparr>, CvAdmission = adm, CvRenames = [],
                       CvChanged = False, CvOutcome = outcome\<rparr> of
                     (st, err) \<Rightarrow>
                       if CvChanged st
                       then (if writeFails then (CvStore st, snap, CvOutcome st, Some (CeSnapshotWrite err))
                             else (CvStore st, CvSnapshot st, CvOutcome st, err))
                       else (CvStore st, snap, CvOutcome st, err)))"

section \<open>Store and checkpoint agree\<close>

text \<open>The rows of a path that come from a content with the given hash: freshly indexed, or copied from another path.\<close>

inductive indexedRows :: "(unit, 'x) service_env \<Rightarrow> fs_env \<Rightarrow> string \<Rightarrow> string \<Rightarrow> 'x stored_row list \<Rightarrow> bool"
  for env :: "(unit, 'x) service_env" and fs :: "fs_env"
where
  fresh: "FsSplitFile fs p content = Some cs \<Longrightarrow> cs \<noteq> [] \<Longrightarrow> FsDigest fs content = h \<Longrightarrow>
    SvInsert env n (map (storedChunkOf p) cs) = (rows, None) \<Longrightarrow> indexedRows env fs p h rows"
| empty: "FsSplitFile fs p content = Some [] \<Longrightarrow> FsDigest fs content = h \<Longrightarrow> indexedRows env fs p h []"
| copied: "indexedRows env fs q h rows \<Longrightarrow> indexedRows env fs p h (copyRows env p rows)"

definition agreesAt :: "(unit, 'x) service_env \<Rightarrow> fs_env \<Rightarrow> 'x path_store \<Rightarrow> snapshot \<Rightarrow> string \<Rightarrow> bool" where
  "agreesAt env fs s snap p =
     (case map_of (SnFiles snap) p of None \<Rightarrow> rowsOf p s = [] | Some h \<Rightarrow> indexedRows env fs p h (rowsOf p s))"

definition storeWorks :: "(unit, 'x) service_env \<Rightarrow> bool" where
  "storeWorks env \<longleftrightarrow> (\<forall>n. SvCall env n = CallOk) \<and> (\<forall>n. SvFlush env n = FlushAccepted) \<and> (\<forall>n cs. snd (SvInsert env n cs) = None)"

definition indexResult :: "fs_env \<Rightarrow> string \<Rightarrow> string \<Rightarrow> processed_file \<Rightarrow> bool" where
  "indexResult fs p content fr \<longleftrightarrow> (\<exists>cs. FsSplitFile fs p content = Some cs
     \<and> fr = newProcessedFile (map (storedChunkOf p) cs) (FsDigest fs content) False SkipNone False)"

lemma pathCall_works: "storeWorks env \<Longrightarrow> pathCall env f s = (s\<lparr>PsCalls := Suc (PsCalls s), PsRows := f (PsRows s)\<rparr>, None)"
  by (simp add: storeWorks_def pathCall_def Let_def)

lemma readPath_works: "storeWorks env \<Longrightarrow> readPath env s = (s\<lparr>PsCalls := Suc (PsCalls s)\<rparr>, None)"
  by (simp add: readPath_def pathCall_works)

lemma Reindex_works: "storeWorks env \<Longrightarrow> PsExists s \<Longrightarrow> snd (Reindex env chunks paths s) = None"
  by (auto simp: Reindex_def readPath_works pathCall_works andThen_def deleteByRelativePaths_def insertChunks_def storeWorks_def
      split: prod.splits option.splits) (metis snd_conv option.distinct(1))+

lemma copyLoop_works: "storeWorks env \<Longrightarrow> copyLoop env cs counts sources s = (t, counts', sources', e) \<Longrightarrow> e = None"
  by (induction cs arbitrary: counts sources s)
    (auto simp: insertCopiedRows_def readPath_works pathCall_works andThen_def Let_def split: if_splits prod.splits option.splits)

lemma flush_works: "storeWorks env \<Longrightarrow> snd (flushCollection env s) = None"
  unfolding flushCollection_def by (subst requestFlush.simps) (simp add: storeWorks_def [of env] andThen_def Let_def readPath_def pathCall_def)

lemma CopyChunks_works:
  assumes "storeWorks env" "PsExists s" "CopyChunks env copies s = (t, counts, e)"
  shows "e = None"
proof -
  have "snd (deleteByRelativePaths env sources u) = None" for sources u
    using assms(1) by (simp add: deleteByRelativePaths_def pathCall_works)
  moreover have "snd (andThen (flushCollection env u) (deleteByRelativePaths env sources)) = None" for u sources
    using flush_works [OF assms(1)] calculation by (simp add: andThen_None)
  ultimately show ?thesis
    using assms copyLoop_works [OF assms(1)]
    by (auto simp: CopyChunks_def readPath_works andThen_def [of "(_, None)"] split: if_splits prod.splits option.splits)
      (metis option.distinct(1) snd_conv)+
qed

lemma files_recordFile [simp]: "SnFiles (recordFile p h i s) = gm_put p h (SnFiles s)"
  by (simp add: recordFile_def RecordInode_def)

lemma files_forgetFile [simp]: "SnFiles (forgetFile p s) = gm_del p (SnFiles s)"
  by (simp add: forgetFile_def ForgetInode_def)

lemma files_RecordInode [simp]: "SnFiles (RecordInode p i s) = SnFiles s"
  by (simp add: RecordInode_def)

lemma inodes_RecordInode:
  "map_of (SnInodes (RecordInode p i s)) q = (if q = p then (if IsZero i then None else Some i) else map_of (SnInodes s) q)"
  "gm_wf (SnInodes s) \<Longrightarrow> gm_wf (SnInodes (RecordInode p i s))"
  by (simp_all add: RecordInode_def)

lemma inodes_recordFile:
  "map_of (SnInodes (recordFile p h i s)) q = (if q = p then (if IsZero i then None else Some i) else map_of (SnInodes s) q)"
  "gm_wf (SnInodes s) \<Longrightarrow> gm_wf (SnInodes (recordFile p h i s))"
  by (simp_all add: recordFile_def inodes_RecordInode)

lemma inodes_forgetFile:
  "map_of (SnInodes (forgetFile p s)) q = (if q = p then None else map_of (SnInodes s) q)"
  "gm_wf (SnInodes s) \<Longrightarrow> gm_wf (SnInodes (forgetFile p s))"
  by (simp_all add: forgetFile_def ForgetInode_def)

section \<open>One path keeps the agreement\<close>

definition unlimited :: "admission \<Rightarrow> bool" where
  "unlimited a \<longleftrightarrow> AdMaxChunks a \<le> 0 \<and> AdMaxBytes a \<le> 0 \<and> AdGrowthLimit a \<le> 0"

lemma Admit_unlimited: "unlimited a \<Longrightarrow> snd (Admit chunks a) \<and> unlimited (fst (Admit chunks a))"
  by (auto simp: Admit_def unlimited_def Let_def)

lemma reindex_indexed:
  assumes works: "storeWorks env" and law: "chunk_inserter (SvInsert env)" and ex: "PsExists s"
    and res: "indexResult fs p content fr" and run: "Reindex env (PfChunks fr) [p] s = (t, e)"
  shows "e = None" "PsExists t" "q \<noteq> p \<Longrightarrow> rowsOf q t = rowsOf q s" "indexedRows env fs p (PfHash fr) (rowsOf p t)" "PfHash fr = FsDigest fs content"
proof -
  from res obtain sc where split: "FsSplitFile fs p content = Some sc"
    and fr: "PfChunks fr = map (storedChunkOf p) sc" "PfHash fr = FsDigest fs content" by (auto simp: indexResult_def newProcessedFile_def)
  have one: "\<forall>c\<in>set (PfChunks fr). RelativePath c = p" by (simp add: fr storedChunkOf_def)
  note rows = Reindex_rows [OF law one run]
  show e: "e = None" using Reindex_works [OF works ex, of "PfChunks fr" "[p]"] run by simp
  show "PsExists t" using rows(1) ex by simp
  show "q \<noteq> p \<Longrightarrow> rowsOf q t = rowsOf q s" using rows(2) [of q] by simp
  show "PfHash fr = FsDigest fs content" by (rule fr(2))
  show "indexedRows env fs p (PfHash fr) (rowsOf p t)"
  proof (cases "sc = []")
    case True
    with rows(4) [of p] e split fr show ?thesis by (auto intro: indexedRows.empty)
  next
    case False
    with rows(5) e split fr show ?thesis by (auto intro: indexedRows.fresh)
  qed
qed

lemma upsert_works:
  assumes works: "storeWorks env" and law: "chunk_inserter (SvInsert env)" and ex: "PsExists (CvStore st)"
    and res: "indexResult fs p content fr" and run: "convergeUpsert env p fr inode st = (st', b)"
  shows "PsExists (CvStore st')" and "q \<noteq> p \<Longrightarrow> rowsOf q (CvStore st') = rowsOf q (CvStore st)"
    and "CvRenames st' = CvRenames st" "CvChanged st' = CvChanged st"
    and "b \<Longrightarrow> CvSnapshot st' = recordFile p (FsDigest fs content) inode (CvSnapshot st)"
    and "b \<Longrightarrow> indexedRows env fs p (FsDigest fs content) (rowsOf p (CvStore st'))"
    and "\<not> b \<Longrightarrow> CvStore st' = CvStore st \<and> CvSnapshot st' = CvSnapshot st"
    and "unlimited (CvAdmission st) \<Longrightarrow> b \<and> unlimited (CvAdmission st')"
proof -
  obtain a ok where adm: "Admit (PfChunks fr) (CvAdmission st) = (a, ok)" by force
  obtain s e where re: "Reindex env (PfChunks fr) [p] (CvStore st) = (s, e)" by force
  note rows = reindex_indexed [OF works law ex res re]
  have st': "(st', b) = (if ok then (st\<lparr>CvAdmission := a, CvStore := s, CvSnapshot := recordFile p (FsDigest fs content) inode (CvSnapshot st)\<rparr>, True) else (st, False))"
    using run adm re rows(1,5) by (cases ok) (simp_all add: convergeUpsert_def)
  show "PsExists (CvStore st')" using st' rows(2) ex by (cases ok) auto
  show "q \<noteq> p \<Longrightarrow> rowsOf q (CvStore st') = rowsOf q (CvStore st)" using st' rows(3) [of q] by (cases ok) auto
  show "CvRenames st' = CvRenames st" "CvChanged st' = CvChanged st" using st' by (cases ok; simp)+
  show "b \<Longrightarrow> CvSnapshot st' = recordFile p (FsDigest fs content) inode (CvSnapshot st)" using st' by (cases ok) auto
  show "\<not> b \<Longrightarrow> CvStore st' = CvStore st \<and> CvSnapshot st' = CvSnapshot st" using st' by (cases ok) auto
  show "unlimited (CvAdmission st) \<Longrightarrow> b \<and> unlimited (CvAdmission st')" using st' adm Admit_unlimited [of "CvAdmission st" "PfChunks fr"] by (cases ok) auto
  show "b \<Longrightarrow> indexedRows env fs p (FsDigest fs content) (rowsOf p (CvStore st'))" using st' rows(4,5) by (cases ok) auto
qed

text \<open>
  A real rename leaves no file at its old path: among the reported files that are on disk, none has the
  recorded inode of another, and no two share an inode.
\<close>

definition realRenames :: "fs_env \<Rightarrow> snapshot \<Rightarrow> string set \<Rightarrow> bool" where
  "realRenames fs snap F \<longleftrightarrow> (\<forall>p\<in>F. \<forall>q\<in>F. p \<noteq> q \<longrightarrow>
     (\<forall>t. map_of (SnInodes snap) q \<noteq> Some (FsInode fs t p)) \<and> (\<forall>t u. FsInode fs t p = FsInode fs u q \<longrightarrow> IsZero (FsInode fs t p)))"

definition renameInv :: "fs_env \<Rightarrow> string set \<Rightarrow> string set \<Rightarrow> snapshot \<Rightarrow> pending_rename list \<Rightarrow> bool" where
  "renameInv fs F todo snap rs \<longleftrightarrow> distinct (map PrDestination rs) \<and> (\<forall>r\<in>set rs.
     PrSource r \<notin> F \<and> PrDestination r \<in> F - todo \<and> map_of (SnFiles snap) (PrSource r) = Some (PfHash (PrResult r))
     \<and> map_of (SnFiles snap) (PrDestination r) = None \<and> (\<exists>content. indexResult fs (PrDestination r) content (PrResult r)))"

definition steady :: "fs_env \<Rightarrow> string \<Rightarrow> string \<Rightarrow> bool" where
  "steady fs p content \<longleftrightarrow> (\<forall>t. (\<exists>info. FsLstat fs t p = StatInfo info \<and> DcIndexed (Decide (FsRules fs) p info))
     \<and> (\<exists>fr. indexResult fs p content fr \<and> IndexOne fs t p = Inr fr))"

definition walkInv ::
  "(unit, 'x) service_env \<Rightarrow> fs_env \<Rightarrow> string set \<Rightarrow> snapshot \<Rightarrow> bool \<Rightarrow> string set \<Rightarrow> 'x converge_state \<Rightarrow> bool" where
  "walkInv env fs F snap0 free todo st \<longleftrightarrow>
     PsExists (CvStore st) \<and> (\<forall>q. agreesAt env fs (CvStore st) (CvSnapshot st) q) \<and> gm_wf (SnInodes (CvSnapshot st))
     \<and> (\<forall>q\<in>F. map_of (SnInodes (CvSnapshot st)) q \<in> {map_of (SnInodes snap0) q, None} \<union> range (\<lambda>t. Some (FsInode fs t q)))
     \<and> renameInv fs F todo (CvSnapshot st) (CvRenames st)
     \<and> (\<not> CvChanged st \<longrightarrow> SnFiles (CvSnapshot st) = SnFiles snap0)
     \<and> (free \<longrightarrow> unlimited (CvAdmission st) \<and> (\<forall>q\<in>F - todo. \<forall>content. steady fs q content \<longrightarrow>
         map_of (SnFiles (CvSnapshot st)) q = Some (FsDigest fs content)
         \<or> (\<exists>r\<in>set (CvRenames st). PrDestination r = q \<and> PfHash (PrResult r) = FsDigest fs content)))"

lemma walkInv_parts:
  assumes "walkInv env fs F snap0 free todo st"
  shows "PsExists (CvStore st)" "agreesAt env fs (CvStore st) (CvSnapshot st) q" "gm_wf (SnInodes (CvSnapshot st))"
    and "q \<in> F \<Longrightarrow> map_of (SnInodes (CvSnapshot st)) q \<in> {map_of (SnInodes snap0) q, None} \<union> range (\<lambda>t. Some (FsInode fs t q))"
    and "renameInv fs F todo (CvSnapshot st) (CvRenames st)"
    and "\<not> CvChanged st \<Longrightarrow> SnFiles (CvSnapshot st) = SnFiles snap0"
    and "free \<Longrightarrow> unlimited (CvAdmission st)"
    and "free \<Longrightarrow> q \<in> F - todo \<Longrightarrow> steady fs q content \<Longrightarrow>
         map_of (SnFiles (CvSnapshot st)) q = Some (FsDigest fs content)
         \<or> (\<exists>r\<in>set (CvRenames st). PrDestination r = q \<and> PfHash (PrResult r) = FsDigest fs content)"
  using assms unfolding walkInv_def by blast+

lemma walkInv_outcome [simp]: "walkInv env fs F snap0 free todo (st\<lparr>CvOutcome := x\<rparr>) = walkInv env fs F snap0 free todo st"
  by (simp add: walkInv_def)

lemma renameInv_change:
  assumes "renameInv fs F todo snap rs" "p \<in> todo" "todo \<subseteq> F" "\<And>q. q \<noteq> p \<Longrightarrow> map_of (SnFiles snap') q = map_of (SnFiles snap) q"
  shows "renameInv fs F (todo - {p}) snap' rs"
proof -
  have "PrSource r \<noteq> p" "PrDestination r \<noteq> p" if "r \<in> set rs" for r using assms(1-3) that by (auto simp: renameInv_def)
  with assms(1,4) show ?thesis by (auto simp: renameInv_def)
qed

lemma walkInv_change:
  assumes inv: "walkInv env fs F snap0 free todo st" and p: "p \<in> todo" "todo \<subseteq> F"
    and "PsExists (CvStore st')" and rows: "\<And>q. q \<noteq> p \<Longrightarrow> rowsOf q (CvStore st') = rowsOf q (CvStore st)"
    and files: "\<And>q. q \<noteq> p \<Longrightarrow> map_of (SnFiles (CvSnapshot st')) q = map_of (SnFiles (CvSnapshot st)) q"
    and agr: "agreesAt env fs (CvStore st') (CvSnapshot st') p" and "gm_wf (SnInodes (CvSnapshot st'))"
    and inodes: "\<And>q. q \<noteq> p \<Longrightarrow> map_of (SnInodes (CvSnapshot st')) q = map_of (SnInodes (CvSnapshot st)) q"
    and inode: "map_of (SnInodes (CvSnapshot st')) p \<in> {map_of (SnInodes (CvSnapshot st)) p, None} \<union> range (\<lambda>t. Some (FsInode fs t p))"
    and ren: "CvRenames st' = CvRenames st"
    and changed: "\<not> CvChanged st' \<Longrightarrow> \<not> CvChanged st \<and> SnFiles (CvSnapshot st') = SnFiles (CvSnapshot st)"
    and free: "free \<Longrightarrow> unlimited (CvAdmission st')"
    and settled: "\<And>content. free \<Longrightarrow> steady fs p content \<Longrightarrow> map_of (SnFiles (CvSnapshot st')) p = Some (FsDigest fs content)"
  shows "walkInv env fs F snap0 free (todo - {p}) st'"
proof -
  note w = walkInv_parts [OF inv]
  have "agreesAt env fs (CvStore st') (CvSnapshot st') q" for q
  proof (cases "q = p")
    case False
    from w(2) [of q] show ?thesis unfolding agreesAt_def rows [OF False] files [OF False] .
  qed (use agr in simp)
  moreover have "map_of (SnInodes (CvSnapshot st')) q \<in> {map_of (SnInodes snap0) q, None} \<union> range (\<lambda>t. Some (FsInode fs t q))" if "q \<in> F" for q
    using w(4) [OF that] inode inodes [of q] by (cases "q = p") auto
  moreover have "renameInv fs F (todo - {p}) (CvSnapshot st') (CvRenames st')"
    using renameInv_change [OF w(5) p] files ren by simp
  moreover have "map_of (SnFiles (CvSnapshot st')) q = Some (FsDigest fs content)
      \<or> (\<exists>r\<in>set (CvRenames st'). PrDestination r = q \<and> PfHash (PrResult r) = FsDigest fs content)"
    if "free" "q \<in> F - (todo - {p})" "steady fs q content" for q content
    using that settled w(8) [of q content] files [of q] ren by (cases "q = p") auto
  moreover have "\<not> CvChanged st' \<longrightarrow> SnFiles (CvSnapshot st') = SnFiles snap0" using changed w(6) by auto
  ultimately show ?thesis using assms(4,8) free unfolding walkInv_def by blast
qed

lemma convergeOnePath_cases:
  assumes "convergeOnePath env cx fs t p st = (st', r)"
  obtains (failed) e where "r = Inl e" "st' = st"
  | (excluded) b where "convergeRemoveExcluded env p st = (st', b)" "r = Inr b" "\<And>content. \<not> steady fs p content"
  | (gone) "st' = st" "r = Inr False" "\<And>content. \<not> steady fs p content"
  | (indexed) fr content b where "indexResult fs p content fr" "\<And>c. steady fs p c \<Longrightarrow> FsDigest fs c = FsDigest fs content"
      "convergeIndexed env p fr (stampInodeForPath cx fs t p) st = (st', b)" "r = Inr b"
proof (cases "\<exists>info. FsLstat fs t p = StatInfo info \<and> \<not> DcIndexed (Decide (FsRules fs) p info)")
  case True
  then have "\<not> steady fs p content" for content unfolding steady_def by (metis stat_result.inject)
  moreover obtain u b where "convergeRemoveExcluded env p st = (u, b)" by force
  moreover from this True assms have "u = st'" "r = Inr b" by (auto simp: convergeOnePath_def Let_def)
  ultimately show thesis using excluded by blast
next
  case shut: False
  show thesis
  proof (cases "FsLstat fs t p = StatError")
    case True
    with assms show thesis by (intro failed) (auto simp: convergeOnePath_def)
  next
    case False
    with shut assms have run: "(st', r) = (case IndexOne fs t p of Inl e \<Rightarrow> (st, Inl (CeIndexFailed e))
      | Inr fr \<Rightarrow> if PfRemoved fr then (st, Inr False) else if PfSkipped fr then (st, Inr False)
                 else case convergeIndexed env p fr (stampInodeForPath cx fs t p) st of (st, b) \<Rightarrow> (st, Inr b))"
      by (cases "FsLstat fs t p") (auto simp: convergeOnePath_def Let_def)
    show thesis
    proof (cases "IndexOne fs t p")
      case (Inl e)
      with run show thesis by (intro failed) auto
    next
      case (Inr fr)
      have st: "indexResult fs p c fr" if "steady fs p c" for c using that Inr by (auto simp: steady_def dest!: spec [of _ t])
      show thesis
      proof (cases "PfRemoved fr \<or> PfSkipped fr")
        case True
        with st have "\<not> steady fs p c" for c by (force simp: indexResult_def newProcessedFile_def)
        with True run Inr show thesis by (intro gone) (auto split: if_splits)
      next
        case False
        with IndexOne_indexed(2) [OF Inr] obtain content where res: "indexResult fs p content fr" by (auto simp: indexResult_def)
        have "FsDigest fs c = FsDigest fs content" if "steady fs p c" for c
          using st [OF that] res by (auto simp: indexResult_def newProcessedFile_def)
        moreover obtain u b where "convergeIndexed env p fr (stampInodeForPath cx fs t p) st = (u, b)" by force
        moreover from this run Inr False have "u = st'" "r = Inr b" by auto
        ultimately show thesis using indexed [OF res] by blast
      qed
    qed
  qed
qed

lemma renameCopySource_found:
  assumes "renameCopySource inode h snap = source" "source \<noteq> []" "gm_wf (SnInodes snap)" "h \<noteq> []"
  shows "map_of (SnInodes snap) source = Some inode" "map_of (SnFiles snap) source = Some h" "\<not> IsZero inode"
proof -
  from assms(1,2) have "find (\<lambda>c. gm_get0 [] (SnFiles snap) c = h) (LookupByInode snap inode) = Some source"
    by (auto simp: renameCopySource_def pickRenameSource_def Let_def split: if_splits option.splits)
  then have mem: "source \<in> set (LookupByInode snap inode)" and hash: "gm_get0 [] (SnFiles snap) source = h"
    by (auto simp: find_Some_iff in_set_conv_nth)
  from mem show "\<not> IsZero inode" by (auto simp: LookupByInode_def split: if_splits)
  from mem show "map_of (SnInodes snap) source = Some inode"
    using assms(3) by (auto simp: LookupByInode_def gm_wf_mem split: if_splits)
  from hash assms(4) show "map_of (SnFiles snap) source = Some h" by (auto simp: gm_get0_def split: option.splits)
qed

text \<open>What the file system and the service promise to a call: working requests, real renames, hashes that are not empty.\<close>

definition convergeAssms :: "(unit, 'x) service_env \<Rightarrow> fs_env \<Rightarrow> string set \<Rightarrow> snapshot \<Rightarrow> bool" where
  "convergeAssms env fs F snap0 \<longleftrightarrow> storeWorks env \<and> chunk_inserter (SvInsert env) \<and> (\<forall>content. FsDigest fs content \<noteq> []) \<and> realRenames fs snap0 F"

lemma excluded_keeps:
  assumes ok: "convergeAssms env fs F snap0" and inv: "walkInv env fs F snap0 free todo st" and p: "p \<in> todo" "todo \<subseteq> F"
    and run: "convergeRemoveExcluded env p st = (st', b)" and never: "\<And>content. \<not> steady fs p content"
  shows "walkInv env fs F snap0 free (todo - {p}) (notePath b st')"
proof (cases "HasFile (CvSnapshot st) p")
  case False
  with run have "st' = st" "\<not> b" by (auto simp: convergeRemoveExcluded_def)
  with never show ?thesis
    by (intro walkInv_change [OF inv p]) (use walkInv_parts [OF inv] in \<open>auto simp: notePath_def\<close>)
next
  case True
  note w = walkInv_parts [OF inv]
  obtain s e where re: "Reindex env [] [p] (CvStore st) = (s, e)" by force
  have e: "e = None" using Reindex_works [of env "CvStore st" "[]" "[p]"] ok w(1) re by (simp add: convergeAssms_def)
  with True run re have st': "st' = st\<lparr>CvStore := s, CvSnapshot := forgetFile p (CvSnapshot st)\<rparr>" and b: b
    by (auto simp: convergeRemoveExcluded_def)
  have law: "chunk_inserter (SvInsert env)" using ok by (simp add: convergeAssms_def)
  note rows = Reindex_rows [OF law _ re, of p]
  have gone: "rowsOf p s = []" using rows(4) [of p] e by simp
  show ?thesis
  proof (rule walkInv_change [OF inv p])
    show "agreesAt env fs (CvStore (notePath b st')) (CvSnapshot (notePath b st')) p" by (simp add: st' agreesAt_def notePath_def gone)
  qed (use w rows(1,2) never b in \<open>auto simp: st' notePath_def inodes_forgetFile\<close>)
qed

lemma upsert_keeps:
  assumes ok: "convergeAssms env fs F snap0" and inv: "walkInv env fs F snap0 free todo st" and p: "p \<in> todo" "todo \<subseteq> F"
    and res: "indexResult fs p content fr" "\<And>c. steady fs p c \<Longrightarrow> FsDigest fs c = FsDigest fs content"
    and run: "convergeUpsert env p fr (stampInodeForPath cx fs t p) st = (st', b)"
  shows "walkInv env fs F snap0 free (todo - {p}) (notePath b st')"
proof -
  note w = walkInv_parts [OF inv]
  have "storeWorks env" "chunk_inserter (SvInsert env)" using ok by (simp_all add: convergeAssms_def)
  note u = upsert_works [OF this w(1) res(1) run]
  have stamp: "(if IsZero (stampInodeForPath cx fs t p) then None else Some (stampInodeForPath cx fs t p)) \<in> {None} \<union> range (\<lambda>t. Some (FsInode fs t p))"
    by (auto simp: stampInodeForPath_def noInode_def IsZero_def)
  show ?thesis
  proof (cases b)
    case True
    note snap = u(5) [OF True]
    show ?thesis
    proof (rule walkInv_change [OF inv p])
      show "agreesAt env fs (CvStore (notePath b st')) (CvSnapshot (notePath b st')) p"
        using u(6) [OF True] by (simp add: snap agreesAt_def notePath_def)
      show "map_of (SnInodes (CvSnapshot (notePath b st'))) p
          \<in> {map_of (SnInodes (CvSnapshot st)) p, None} \<union> range (\<lambda>t. Some (FsInode fs t p))"
        using stamp by (auto simp: snap notePath_def inodes_recordFile)
    qed (use w(3,6,7) u(1-4,8) res True in \<open>auto simp: snap notePath_def inodes_recordFile\<close>)
  next
    case False
    then have "\<not> free" using u(8) w(7) by auto
    show ?thesis
      by (rule walkInv_change [OF inv p]) (use w u False \<open>\<not> free\<close> in \<open>auto simp: notePath_def\<close>)
  qed
qed

lemma queued_keeps:
  assumes ok: "convergeAssms env fs F snap0" and inv: "walkInv env fs F snap0 free todo st" and p: "p \<in> todo" "todo \<subseteq> F"
    and res: "indexResult fs p content fr" "\<And>c. steady fs p c \<Longrightarrow> FsDigest fs c = FsDigest fs content"
    and new: "map_of (SnFiles (CvSnapshot st)) p = None"
    and source: "renameCopySource (stampInodeForPath cx fs t p) (PfHash fr) (CvSnapshot st) = source" "source \<noteq> []"
  shows "walkInv env fs F snap0 free (todo - {p})
    (notePath False (st\<lparr>CvRenames := CvRenames st @ [\<lparr>PrSource = source, PrDestination = p, PrResult = fr, PrInode = stampInodeForPath cx fs t p\<rparr>]\<rparr>))"
proof -
  note w = walkInv_parts [OF inv]
  have hash: "PfHash fr = FsDigest fs content" using res(1) by (auto simp: indexResult_def newProcessedFile_def)
  have "PfHash fr \<noteq> []" using ok by (simp add: hash convergeAssms_def)
  note found = renameCopySource_found [OF source w(3) this]
  have inode: "map_of (SnInodes (CvSnapshot st)) source = Some (FsInode fs t p)" "\<not> IsZero (FsInode fs t p)"
    using found(1,3) by (auto simp: stampInodeForPath_def noInode_def IsZero_def split: if_splits)
  have ne: "source \<noteq> p" using found(2) new by auto
  have "source \<notin> F"
  proof
    assume F: "source \<in> F"
    have "realRenames fs snap0 F" using ok by (simp add: convergeAssms_def)
    with F p ne have "map_of (SnInodes snap0) source \<noteq> Some (FsInode fs t p)" "FsInode fs t p = FsInode fs u source \<Longrightarrow> IsZero (FsInode fs t p)" for u
      by (auto simp: realRenames_def)
    with w(4) [OF F] inode show False by auto
  qed
  with w(5) p res(1) found(2) new have "renameInv fs F (todo - {p}) (CvSnapshot st)
      (CvRenames st @ [\<lparr>PrSource = source, PrDestination = p, PrResult = fr, PrInode = stampInodeForPath cx fs t p\<rparr>])"
    by (auto simp: renameInv_def)
  moreover have "q = p \<or> q \<in> F - todo" if "q \<in> F - (todo - {p})" for q using that by blast
  ultimately show ?thesis using inv res(2) unfolding walkInv_def by (auto simp: notePath_def hash)
qed

lemma current_keeps:
  assumes inv: "walkInv env fs F snap0 free todo st" and p: "p \<in> todo" "todo \<subseteq> F"
    and res: "\<And>c. steady fs p c \<Longrightarrow> map_of (SnFiles (CvSnapshot st)) p = Some (FsDigest fs c)"
    and st': "st' = st \<and> \<not> b \<or> st' = st\<lparr>CvSnapshot := RecordInode p (stampInodeForPath cx fs t p) (CvSnapshot st)\<rparr> \<and> b"
  shows "walkInv env fs F snap0 free (todo - {p}) (notePath b st')"
proof -
  note w = walkInv_parts [OF inv]
  have stamp: "(if IsZero (stampInodeForPath cx fs t p) then None else Some (stampInodeForPath cx fs t p)) \<in> {None} \<union> range (\<lambda>t. Some (FsInode fs t p))"
    by (auto simp: stampInodeForPath_def noInode_def IsZero_def)
  from st' show ?thesis
  proof
    assume "st' = st \<and> \<not> b"
    with w res show ?thesis by (intro walkInv_change [OF inv p]) (auto simp: notePath_def)
  next
    assume new: "st' = st\<lparr>CvSnapshot := RecordInode p (stampInodeForPath cx fs t p) (CvSnapshot st)\<rparr> \<and> b"
    show ?thesis
    proof (rule walkInv_change [OF inv p])
      show "agreesAt env fs (CvStore (notePath b st')) (CvSnapshot (notePath b st')) p" using w(2) [of p] new by (simp add: notePath_def agreesAt_def)
      show "map_of (SnInodes (CvSnapshot (notePath b st'))) p \<in> {map_of (SnInodes (CvSnapshot st)) p, None} \<union> range (\<lambda>t. Some (FsInode fs t p))"
        using new stamp by (auto simp: notePath_def inodes_RecordInode)
    qed (use new w res in \<open>auto simp: notePath_def inodes_RecordInode\<close>)
  qed
qed

lemma onePath_keeps:
  assumes ok: "convergeAssms env fs F snap0" and inv: "walkInv env fs F snap0 free todo st" and p: "p \<in> todo" "todo \<subseteq> F"
    and run: "convergeOnePath env cx fs t p st = (st', r)"
  shows "case r of Inl e \<Rightarrow> st' = st | Inr b \<Rightarrow> walkInv env fs F snap0 free (todo - {p}) (notePath b st')"
  using run
proof (cases rule: convergeOnePath_cases)
  case (failed e)
  then show ?thesis by simp
next
  case (excluded b)
  with excluded_keeps [OF ok inv p] show ?thesis by simp
next
  case gone
  with walkInv_parts [OF inv] show ?thesis by (simp, intro walkInv_change [OF inv p]) (auto simp: notePath_def)
next
  case (indexed fr content b)
  let ?inode = "stampInodeForPath cx fs t p"
  let ?source = "renameCopySource ?inode (PfHash fr) (CvSnapshot st)"
  have hash: "PfHash fr = FsDigest fs content" using indexed(1) by (auto simp: indexResult_def newProcessedFile_def)
  consider (current) "map_of (SnFiles (CvSnapshot st)) p = Some (PfHash fr)" | (new) "map_of (SnFiles (CvSnapshot st)) p = None" "?source \<noteq> []"
    | (upsert) "convergeUpsert env p fr ?inode st = (st', b)"
    using indexed(3) by (auto simp: convergeIndexed_def Let_def split: option.splits if_splits)
  then have "walkInv env fs F snap0 free (todo - {p}) (notePath b st')"
  proof cases
    case current
    with indexed(2,3) hash show ?thesis
      by (intro current_keeps [OF inv p, where cx = cx and t = t]) (auto simp: convergeIndexed_def split: if_splits)
  next
    case new
    with indexed(3) queued_keeps [OF ok inv p indexed(1,2) new(1) refl new(2)] show ?thesis by (auto simp: convergeIndexed_def Let_def)
  next
    case upsert
    from upsert_keeps [OF ok inv p indexed(1,2) upsert] show ?thesis .
  qed
  with indexed(4) show ?thesis by simp
qed

lemma notePath_missing: "walkInv env fs F snap0 free todo st \<Longrightarrow> walkInv env fs F snap0 free todo (notePath False st)"
  by (simp add: walkInv_def notePath_def)

definition present :: "classified_path list \<Rightarrow> string set" where
  "present cs = CpRelativePath ` {c \<in> set cs. \<not> CpMissing c}"

lemma walk_keeps:
  assumes ok: "convergeAssms env fs F snap0"
  shows "convergeWalk env cx fs t cs st = (st', err, finished) \<Longrightarrow> walkInv env fs F snap0 free (present cs) st \<Longrightarrow> present cs \<subseteq> F \<Longrightarrow>
    distinct (map CpRelativePath cs) \<Longrightarrow> \<exists>todo \<subseteq> F. walkInv env fs F snap0 free todo st' \<and> (finished \<longrightarrow> todo = {} \<and> err = None)
      \<and> (err = None \<and> (\<forall>u. \<not> CxCancelled cx u) \<longrightarrow> finished)"
proof (induction cs arbitrary: t st)
  case Nil
  then show ?case by (auto simp: present_def)
next
  case (Cons c cs)
  let ?p = "CpRelativePath c"
  have rest: "present cs = (if CpMissing c then present (c # cs) else present (c # cs) - {?p})"
    using Cons.prems(4) by (auto simp: present_def) (metis imageI)
  have sub: "present cs \<subseteq> F" using Cons.prems(3) by (auto simp: present_def)
  have dist: "distinct (map CpRelativePath cs)" using Cons.prems(4) by simp
  show ?case
  proof (cases "CxCancelled cx t \<or> CpMissing c")
    case True
    with Cons show ?thesis
      by (cases "CxCancelled cx t") (auto simp: rest sub intro: notePath_missing)
  next
    case False
    obtain u r where one: "convergeOnePath env cx fs t ?p st = (u, r)" by force
    have "?p \<in> present (c # cs)" using False by (auto simp: present_def)
    note step = onePath_keeps [OF ok Cons.prems(2) this Cons.prems(3) one]
    show ?thesis
    proof (cases r)
      case (Inl e)
      with step one False Cons.prems show ?thesis by auto
    next
      case (Inr b)
      with step False rest have inv: "walkInv env fs F snap0 free (present cs) (notePath b u)" by simp
      show ?thesis
      proof (cases "b \<and> CxCheckpointStops cx t")
        case True
        with Inr one False Cons.prems(1) have st': "st' = u\<lparr>CvChanged := True, CvOutcome := (CvOutcome u)\<lparr>PathsConverged := PathsConverged (CvOutcome u) + 1\<rparr>\<rparr>"
          "err = Some CeCheckpoint" "\<not> finished" by auto
        have "walkInv env fs F snap0 free (present cs) st'" using inv True by (simp add: st'(1) walkInv_def notePath_def)
        with st' sub show ?thesis by auto
      next
        case go: False
        with Inr one False Cons.prems(1) have "convergeWalk env cx fs (Suc t) cs (notePath b u) = (st', err, finished)" by (auto split: if_splits)
        from Cons.IH [OF this inv sub dist] show ?thesis .
      qed
    qed
  qed
qed

section \<open>The renames keep the agreement\<close>

text \<open>Between the copies and the entries of the checkpoint: what is still to be recorded for the renames left.\<close>

definition copiedOf :: "(pending_rename \<times> nat) list \<Rightarrow> pending_rename set" where
  "copiedOf rs = {r. \<exists>n>0. (r, n) \<in> set rs}"

definition midway :: "(unit, 'x) service_env \<Rightarrow> fs_env \<Rightarrow> string set \<Rightarrow> (pending_rename \<times> nat) list \<Rightarrow> 'x converge_state \<Rightarrow> bool" where
  "midway env fs F rs st \<longleftrightarrow> PsExists (CvStore st) \<and> distinct (map (PrDestination \<circ> fst) rs)
     \<and> (\<forall>q. q \<notin> PrSource ` copiedOf rs \<union> PrDestination ` copiedOf rs \<longrightarrow> agreesAt env fs (CvStore st) (CvSnapshot st) q)
     \<and> (\<forall>r\<in>copiedOf rs. rowsOf (PrSource r) (CvStore st) = []
          \<and> indexedRows env fs (PrDestination r) (PfHash (PrResult r)) (rowsOf (PrDestination r) (CvStore st)))
     \<and> (\<forall>(r, n)\<in>set rs. PrSource r \<notin> F \<and> PrDestination r \<in> F \<and> (\<exists>content. indexResult fs (PrDestination r) content (PrResult r)))"

lemma copiedOf_Cons: "copiedOf ((r, n) # rs) = (if n > 0 then insert r (copiedOf rs) else copiedOf rs)"
  by (auto simp: copiedOf_def)

lemma copiedOf_sub: "r \<in> copiedOf rs \<Longrightarrow> PrDestination r \<in> (PrDestination \<circ> fst) ` set rs"
  by (force simp: copiedOf_def)

lemma midway_copy:
  assumes mid: "midway env fs F ((r, n) # rs) st" and n: "n > 0"
  shows "midway env fs F rs (st\<lparr>CvSnapshot := recordFile (PrDestination r) (PfHash (PrResult r)) i (forgetFile (PrSource r) (CvSnapshot st))\<rparr>)"
proof -
  let ?snap = "recordFile (PrDestination r) (PfHash (PrResult r)) i (forgetFile (PrSource r) (CvSnapshot st))"
  have r: "r \<in> copiedOf ((r, n) # rs)" "PrSource r \<notin> F" "PrDestination r \<in> F" using mid n by (auto simp: midway_def copiedOf_def)
  have rows: "rowsOf (PrSource r) (CvStore st) = []" "indexedRows env fs (PrDestination r) (PfHash (PrResult r)) (rowsOf (PrDestination r) (CvStore st))"
    using mid r(1) by (auto simp: midway_def)
  have "agreesAt env fs (CvStore st) ?snap q" if "q \<notin> PrSource ` copiedOf rs \<union> PrDestination ` copiedOf rs" for q
  proof (cases "q = PrSource r \<or> q = PrDestination r")
    case True
    with rows r(2,3) show ?thesis by (auto simp: agreesAt_def)
  next
    case False
    with that mid n have "agreesAt env fs (CvStore st) (CvSnapshot st) q" by (simp add: midway_def copiedOf_Cons)
    with False show ?thesis by (simp add: agreesAt_def)
  qed
  with mid n show ?thesis by (auto simp: midway_def copiedOf_Cons)
qed

lemma midway_upsert:
  assumes works: "storeWorks env" "chunk_inserter (SvInsert env)" and mid: "midway env fs F ((r, 0) # rs) st"
    and run: "convergeUpsert env (PrDestination r) (PrResult r) i st = (st', b)"
  shows "midway env fs F rs st'"
proof -
  let ?d = "PrDestination r"
  from mid obtain content where res: "indexResult fs ?d content (PrResult r)" and F: "?d \<in> F" by (auto simp: midway_def)
  have ex: "PsExists (CvStore st)" using mid by (simp add: midway_def)
  note u = upsert_works [OF works ex res run]
  have hash: "PfHash (PrResult r) = FsDigest fs content" using res by (auto simp: indexResult_def newProcessedFile_def)
  have notd: "PrDestination x \<noteq> ?d" "PrSource x \<noteq> ?d" if "x \<in> copiedOf rs" for x
  proof -
    have "?d \<notin> (PrDestination \<circ> fst) ` set rs" using mid by (simp add: midway_def)
    with copiedOf_sub [OF that] show "PrDestination x \<noteq> ?d" by metis
    have "PrSource x \<notin> F" using mid that by (auto simp: midway_def copiedOf_def)
    with F show "PrSource x \<noteq> ?d" by metis
  qed
  have "agreesAt env fs (CvStore st') (CvSnapshot st') q" if "q \<notin> PrSource ` copiedOf rs \<union> PrDestination ` copiedOf rs" for q
  proof -
    have before: "agreesAt env fs (CvStore st) (CvSnapshot st) q" using that mid by (simp add: midway_def copiedOf_Cons)
    show ?thesis
    proof (cases b)
      case True
      with before u(5,6) u(2) [of q] show ?thesis by (cases "q = ?d") (auto simp: agreesAt_def split: option.splits)
    next
      case False
      with before u(7) show ?thesis by simp
    qed
  qed
  moreover have "rowsOf (PrSource x) (CvStore st') = [] \<and> indexedRows env fs (PrDestination x) (PfHash (PrResult x)) (rowsOf (PrDestination x) (CvStore st'))"
    if "x \<in> copiedOf rs" for x
    using mid that notd [OF that] u(2) [of "PrSource x"] u(2) [of "PrDestination x"] by (simp add: midway_def copiedOf_Cons)
  ultimately show ?thesis using mid u(1) by (auto simp: midway_def)
qed

lemma applyRenames_keeps:
  assumes works: "storeWorks env" "chunk_inserter (SvInsert env)"
  shows "applyRenames env True rs st = (st', k) \<Longrightarrow> midway env fs F rs st \<Longrightarrow>
    PsExists (CvStore st') \<and> (\<forall>q. agreesAt env fs (CvStore st') (CvSnapshot st') q)"
proof (induction rs arbitrary: st k)
  case Nil
  then show ?case by (simp add: midway_def copiedOf_def)
next
  case (Cons x rs)
  obtain r n where x: "x = (r, n)" by force
  show ?case
  proof (cases "n > 0")
    case True
    with Cons.prems x Cons.IH [OF _ midway_copy [OF _ True]] show ?thesis by (auto split: prod.splits)
  next
    case False
    obtain u b where up: "convergeUpsert env (PrDestination r) (PrResult r) (PrInode r) st = (u, b)" by force
    have "midway env fs F rs u" using midway_upsert [OF works _ up] Cons.prems(2) x False by simp
    with Cons.prems(1) x False up Cons.IH [of u] show ?thesis by (auto split: prod.splits)
  qed
qed

lemma applyRenames_unchanged: "applyRenames env ok rs st = (st', 0) \<Longrightarrow> CvSnapshot st' = CvSnapshot st"
proof (induction rs arbitrary: st)
  case (Cons x rs)
  then show ?case by (cases x) (auto simp: convergeUpsert_def split: prod.splits if_splits bool.splits option.splits)
qed simp

lemma upsert_changed: "CvChanged (fst (convergeUpsert env p fr i st)) = CvChanged st"
  by (auto simp: convergeUpsert_def split: prod.splits bool.splits option.splits)

lemma applyRenames_changed: "CvChanged (fst (applyRenames env ok rs st)) = CvChanged st"
proof (induction rs arbitrary: st)
  case (Cons x rs)
  then show ?case by (cases x; cases ok) (simp_all add: case_prod_unfold upsert_changed)
qed simp

lemma applyRenames_fresh:
  assumes works: "storeWorks env" "chunk_inserter (SvInsert env)"
  shows "applyRenames env True rs st = (st', k) \<Longrightarrow> midway env fs F rs st \<Longrightarrow> unlimited (CvAdmission st) \<Longrightarrow>
    (\<forall>x\<in>set rs. map_of (SnFiles (CvSnapshot st')) (PrDestination (fst x)) = Some (PfHash (PrResult (fst x))))
    \<and> (\<forall>q\<in>F. q \<notin> (PrDestination \<circ> fst) ` set rs \<longrightarrow> map_of (SnFiles (CvSnapshot st')) q = map_of (SnFiles (CvSnapshot st)) q)"
proof (induction rs arbitrary: st k)
  case (Cons x rs)
  obtain r n where x: "x = (r, n)" by force
  have r: "PrSource r \<notin> F" "PrDestination r \<in> F" "PrDestination r \<notin> (PrDestination \<circ> fst) ` set rs"
    using Cons.prems(2) x by (auto simp: midway_def)
  obtain u where u: "midway env fs F rs u" "unlimited (CvAdmission u)" "fst (applyRenames env True rs u) = st'"
    "map_of (SnFiles (CvSnapshot u)) (PrDestination r) = Some (PfHash (PrResult r))"
    "\<And>q. q \<in> F \<Longrightarrow> q \<noteq> PrDestination r \<Longrightarrow> map_of (SnFiles (CvSnapshot u)) q = map_of (SnFiles (CvSnapshot st)) q"
  proof (cases "n > 0")
    case True
    let ?u = "st\<lparr>CvSnapshot := recordFile (PrDestination r) (PfHash (PrResult r)) (PrInode r) (forgetFile (PrSource r) (CvSnapshot st))\<rparr>"
    show thesis
    proof (rule that [of ?u])
      show "midway env fs F rs ?u" using midway_copy [OF _ True] Cons.prems(2) x by blast
    qed (use Cons.prems True x r in \<open>auto split: prod.splits\<close>)
  next
    case False
    obtain u b where up: "convergeUpsert env (PrDestination r) (PrResult r) (PrInode r) st = (u, b)" by force
    obtain content where res: "indexResult fs (PrDestination r) content (PrResult r)" using Cons.prems(2) x by (auto simp: midway_def)
    have hash: "PfHash (PrResult r) = FsDigest fs content" using res by (auto simp: indexResult_def newProcessedFile_def)
    have ex: "PsExists (CvStore st)" using Cons.prems(2) by (simp add: midway_def)
    note w = upsert_works [OF works ex res up]
    have b: b and adm: "unlimited (CvAdmission u)" using w(8) Cons.prems(3) by auto
    show thesis
    proof (rule that [of u])
      show "midway env fs F rs u" using midway_upsert [OF works _ up] Cons.prems(2) x False by simp
    qed (use Cons.prems(1) False x up w(5) [OF b] adm hash in \<open>auto split: prod.splits\<close>)
  qed
  obtain k' where run: "applyRenames env True rs u = (st', k')" using u(3) by (metis prod.collapse)
  note ih = Cons.IH [OF run u(1,2)]
  with u(4,5) r x show ?case by auto
qed simp

lemma filter_unique: "distinct (map f xs) \<Longrightarrow> x \<in> set xs \<Longrightarrow> filter (\<lambda>y. f y = f x) xs = [x]"
proof (induction xs)
  case (Cons y xs)
  show ?case
  proof (cases "x = y")
    case True
    with Cons.prems(1) have "\<forall>z\<in>set xs. f z \<noteq> f x" by (metis distinct.simps(2) image_eqI list.set_map list.simps(9))
    then have "filter (\<lambda>y. f y = f x) xs = []" by (simp add: filter_empty_conv)
    with True show ?thesis by simp
  next
    case False
    with Cons have "f y \<noteq> f x" by force
    with Cons False show ?thesis by simp
  qed
qed simp

text \<open>Copies to empty paths that are no source: every copied source is empty afterwards, and the other paths keep their rows.\<close>

lemma copyPairs_rows:
  fixes src dst :: "'r \<Rightarrow> string"
  assumes works: "storeWorks env" and ex: "PsExists s"
    and run: "CopyChunks env (map (\<lambda>r. \<lparr>CcSource = src r, CcDestination = dst r\<rparr>) rs) s = (t, counts, e)"
    and dist: "distinct (map dst rs)" and sep: "src ` set rs \<inter> dst ` set rs = {}" and empty: "\<forall>r\<in>set rs. rowsOf (dst r) s = []"
  shows "e = None" "PsExists t" "counts = map (\<lambda>r. length (rowsOf (src r) s)) rs"
    and "r \<in> set rs \<Longrightarrow> rowsOf (src r) t = []"
    and "r \<in> set rs \<Longrightarrow> rowsOf (dst r) t = copyRows env (dst r) (rowsOf (src r) s)"
    and "q \<notin> src ` {r \<in> set rs. rowsOf (src r) s \<noteq> []} \<union> dst ` {r \<in> set rs. rowsOf (src r) s \<noteq> []} \<Longrightarrow> rowsOf q t = rowsOf q s"
proof -
  let ?cs = "map (\<lambda>r. \<lparr>CcSource = src r, CcDestination = dst r\<rparr>) rs"
  show e: "e = None" using CopyChunks_works [OF works ex run] .
  have ne: "src r \<noteq> dst r" if "r \<in> set rs" for r using sep that by blast
  have real: "realCopies ?cs = ?cs" using ne by (auto simp: realCopies_def filter_id_conv)
  have sets: "CcSource ` set (realCopies ?cs) = src ` set rs" unfolding real by force
  have "CcDestination ` set ?cs = dst ` set rs" by force
  then have "separated ?cs" unfolding separated_def sets unfolding real using sep by simp
  note rows = CopyChunks_rows [OF run this]
  show "PsExists t" using rows(1) ex by simp
  show "counts = map (\<lambda>r. length (rowsOf (src r) s)) rs" using rows(4) [OF e] ne by simp
  have to: "copiesTo env ?cs s (dst r) = copyRows env (dst r) (rowsOf (src r) s)" if "r \<in> set rs" for r
    using filter_unique [OF dist that] by (simp add: copiesTo_def real filter_map comp_def)
  have none: "copiesTo env ?cs s q = []" if "q \<notin> dst ` set rs" for q
  proof -
    have "filter (\<lambda>c. CcDestination c = q) ?cs = []" using that by (auto simp: filter_empty_conv)
    then show ?thesis by (simp add: copiesTo_def real)
  qed
  have src': "rowsOf (src r) t = []" if "r \<in> set rs" for r using rows(5) [OF e, of "src r"] that unfolding sets by simp
  have dst': "rowsOf (dst r) t = copyRows env (dst r) (rowsOf (src r) s)" if "r \<in> set rs" for r
  proof -
    have "dst r \<notin> src ` set rs" using sep that by blast
    with rows(5) [OF e, of "dst r"] to [OF that] empty that show ?thesis unfolding sets by simp
  qed
  show "r \<in> set rs \<Longrightarrow> rowsOf (src r) t = []" "r \<in> set rs \<Longrightarrow> rowsOf (dst r) t = copyRows env (dst r) (rowsOf (src r) s)"
    using src' dst' by blast+
  show "rowsOf q t = rowsOf q s" if q: "q \<notin> src ` {r \<in> set rs. rowsOf (src r) s \<noteq> []} \<union> dst ` {r \<in> set rs. rowsOf (src r) s \<noteq> []}"
  proof -
    consider (source) r where "r \<in> set rs" "q = src r" | (dest) r where "r \<in> set rs" "q = dst r"
      | (other) "q \<notin> src ` set rs" "q \<notin> dst ` set rs" by blast
    then show ?thesis
    proof cases
      case source
      with q src' show ?thesis by auto
    next
      case dest
      with q dst' empty show ?thesis by (auto simp: copyRows_def)
    next
      case other
      with rows(5) [OF e, of q] none show ?thesis unfolding sets by simp
    qed
  qed
qed

definition copiesOf :: "pending_rename list \<Rightarrow> chunk_copy list" where
  "copiesOf rs = map (\<lambda>r. \<lparr>CcSource = PrSource r, CcDestination = PrDestination r\<rparr>) rs"

lemma copies_midway:
  assumes ok: "convergeAssms env fs F snap0" and inv: "walkInv env fs F snap0 free {} st"
    and run: "CopyChunks env (copiesOf (CvRenames st)) (CvStore st) = (s, counts, e)"
  shows "e = None" "length counts = length (CvRenames st)" "midway env fs F (zip (CvRenames st) counts) (st\<lparr>CvStore := s\<rparr>)"
proof -
  let ?rs = "CvRenames st" and ?s = "CvStore st"
  note w = walkInv_parts [OF inv]
  have dist: "distinct (map PrDestination ?rs)" and ren: "\<And>r. r \<in> set ?rs \<Longrightarrow> PrSource r \<notin> F \<and> PrDestination r \<in> F
      \<and> map_of (SnFiles (CvSnapshot st)) (PrSource r) = Some (PfHash (PrResult r)) \<and> map_of (SnFiles (CvSnapshot st)) (PrDestination r) = None
      \<and> (\<exists>content. indexResult fs (PrDestination r) content (PrResult r))" using w(5) by (auto simp: renameInv_def)
  have works: "storeWorks env" using ok by (simp add: convergeAssms_def)
  have "PrSource ` set ?rs \<inter> F = {}" "PrDestination ` set ?rs \<subseteq> F" using ren by auto
  then have sep: "PrSource ` set ?rs \<inter> PrDestination ` set ?rs = {}" by blast
  have "rowsOf (PrDestination r) ?s = []" if "r \<in> set ?rs" for r using w(2) [of "PrDestination r"] ren [OF that] by (simp add: agreesAt_def)
  then have empty: "\<forall>r\<in>set ?rs. rowsOf (PrDestination r) ?s = []" by blast
  note c = copyPairs_rows [OF works w(1) run [unfolded copiesOf_def] dist sep empty]
  show "e = None" "length counts = length ?rs" using c(1,3) by simp_all
  have zipped: "set (zip ?rs counts) = (\<lambda>r. (r, length (rowsOf (PrSource r) ?s))) ` set ?rs"
  proof -
    have "zip ?rs (map f ?rs) = map (\<lambda>r. (r, f r)) ?rs" for f :: "pending_rename \<Rightarrow> nat" by (rule nth_equalityI) auto
    then have "zip ?rs counts = map (\<lambda>r. (r, length (rowsOf (PrSource r) ?s))) ?rs" using c(3) by simp
    then show ?thesis by simp
  qed
  have copied: "copiedOf (zip ?rs counts) = {r \<in> set ?rs. rowsOf (PrSource r) ?s \<noteq> []}" unfolding copiedOf_def zipped by force
  have "agreesAt env fs s (CvSnapshot st) q" if "q \<notin> PrSource ` copiedOf (zip ?rs counts) \<union> PrDestination ` copiedOf (zip ?rs counts)" for q
    using w(2) [of q] unfolding agreesAt_def c(6) [OF that [unfolded copied]] .
  moreover have "indexedRows env fs (PrDestination r) (PfHash (PrResult r)) (rowsOf (PrDestination r) s)" if "r \<in> set ?rs" for r
    using w(2) [of "PrSource r"] ren [OF that] c(5) [OF that] by (auto simp: agreesAt_def intro: indexedRows.copied)
  moreover have "map (PrDestination \<circ> fst) (zip ?rs counts) = map PrDestination ?rs" using c(3) by (simp add: map_fst_zip flip: map_map)
  ultimately show "midway env fs F (zip ?rs counts) (st\<lparr>CvStore := s\<rparr>)"
    using c(2,4) dist ren by (simp add: midway_def copied zipped)
qed

text \<open>The end of a call: the store and the checkpoint agree, and unless it was cut short the steady files are recorded.\<close>

definition convergeEnd :: "(unit, 'x) service_env \<Rightarrow> fs_env \<Rightarrow> string set \<Rightarrow> snapshot \<Rightarrow> bool \<Rightarrow> 'x converge_state \<Rightarrow> bool" where
  "convergeEnd env fs F snap0 fresh st \<longleftrightarrow> (\<forall>q. agreesAt env fs (CvStore st) (CvSnapshot st) q)
     \<and> (\<not> CvChanged st \<longrightarrow> SnFiles (CvSnapshot st) = SnFiles snap0)
     \<and> (fresh \<longrightarrow> (\<forall>q\<in>F. \<forall>content. steady fs q content \<longrightarrow> map_of (SnFiles (CvSnapshot st)) q = Some (FsDigest fs content)))"

lemma convergeEnd_eq:
  assumes "convergeEnd env fs F snap0 free st" "CvStore st' = CvStore st" "CvSnapshot st' = CvSnapshot st" "CvChanged st' = CvChanged st" "fresh \<Longrightarrow> free"
  shows "convergeEnd env fs F snap0 fresh st'"
  using assms(1,5) unfolding convergeEnd_def assms(2-4) by blast

lemma walkInv_end: "walkInv env fs F snap0 free todo st \<Longrightarrow> convergeEnd env fs F snap0 False st"
  by (simp add: walkInv_def convergeEnd_def)

lemma renames_end:
  assumes ok: "convergeAssms env fs F snap0" and inv: "walkInv env fs F snap0 free {} st" and run: "applyRenameCopies env st = (st', k)"
  shows "convergeEnd env fs F snap0 free (st'\<lparr>CvChanged := CvChanged st' \<or> k \<noteq> 0\<rparr>)"
proof (cases "CvRenames st = []")
  case True
  with run have "st' = st" "k = 0" by (auto simp: applyRenameCopies_def)
  with inv True show ?thesis by (auto simp: walkInv_def convergeEnd_def)
next
  case False
  note w = walkInv_parts [OF inv]
  have works: "storeWorks env" "chunk_inserter (SvInsert env)" using ok by (simp_all add: convergeAssms_def)
  obtain s counts e where cp: "CopyChunks env (copiesOf (CvRenames st)) (CvStore st) = (s, counts, e)" by (metis prod_cases3)
  note mid = copies_midway [OF ok inv cp]
  let ?rs = "zip (CvRenames st) counts" and ?u = "st\<lparr>CvStore := s\<rparr>"
  have ren: "applyRenames env True ?rs ?u = (st', k)"
    using run False cp mid(1) by (simp add: applyRenameCopies_def copiesOf_def)
  have agr: "agreesAt env fs (CvStore st') (CvSnapshot st') q" for q using applyRenames_keeps [OF works ren mid(3)] by blast
  have unchanged: "SnFiles (CvSnapshot st') = SnFiles snap0" if "\<not> CvChanged st'" "k = 0"
    using applyRenames_unchanged [of env True ?rs ?u st'] applyRenames_changed [of env True ?rs ?u] ren that w(6) by simp
  have "map_of (SnFiles (CvSnapshot st')) q = Some (FsDigest fs content)" if "free" "q \<in> F" "steady fs q content" for q content
  proof -
    have "unlimited (CvAdmission ?u)" using w(7) that(1) by simp
    note fresh = applyRenames_fresh [OF works ren mid(3) this]
    have fsts: "fst ` set ?rs = set (CvRenames st)" by (metis list.set_map map_fst_zip mid(2))
    have dest: "map_of (SnFiles (CvSnapshot st')) (PrDestination r) = Some (PfHash (PrResult r))" if "r \<in> set (CvRenames st)" for r
    proof -
      from that have "r \<in> fst ` set ?rs" unfolding fsts .
      then obtain x where "x \<in> set ?rs" "fst x = r" by auto
      with fresh show ?thesis by blast
    qed
    show ?thesis
    proof (cases "\<exists>r\<in>set (CvRenames st). PrDestination r = q")
      case True
      then have "map_of (SnFiles (CvSnapshot st)) q = None" using w(5) by (auto simp: renameInv_def)
      then obtain r' where r': "r' \<in> set (CvRenames st)" "PrDestination r' = q" "PfHash (PrResult r') = FsDigest fs content"
        using w(8) [OF \<open>free\<close> _ \<open>steady fs q content\<close>] \<open>q \<in> F\<close> by (metis Diff_empty option.distinct(1))
      with dest [OF r'(1)] show ?thesis by simp
    next
      case none: False
      have "q \<notin> PrDestination ` fst ` set ?rs" unfolding fsts using none by blast
      then have "q \<notin> (PrDestination \<circ> fst) ` set ?rs" by (simp add: image_comp)
      with fresh that(2) have "map_of (SnFiles (CvSnapshot st')) q = map_of (SnFiles (CvSnapshot st)) q" by simp
      with w(8) [of q content] that none show ?thesis by auto
    qed
  qed
  with agr unchanged show ?thesis by (simp add: convergeEnd_def)
qed

lemma classified_end:
  assumes ok: "convergeAssms env fs F snap0" and inv: "walkInv env fs F snap0 free (present cs) st" and sub: "present cs \<subseteq> F"
    and dist: "distinct (map CpRelativePath cs)" and run: "convergeClassifiedPaths env cx fs cs st = (st', err)"
  shows "convergeEnd env fs F snap0 (free \<and> err = None \<and> (\<forall>u. \<not> CxCancelled cx u)) st'"
proof -
  obtain u e fin where walk: "convergeWalk env cx fs 0 cs st = (u, e, fin)" by (metis prod_cases3)
  from walk_keeps [OF ok walk inv sub dist] obtain todo where w: "walkInv env fs F snap0 free todo u"
    "fin \<longrightarrow> todo = {} \<and> e = None" "e = None \<and> (\<forall>u. \<not> CxCancelled cx u) \<longrightarrow> fin" by blast
  show ?thesis
  proof (cases fin)
    case False
    with walk run have "st' = u" "err = e" by (auto simp: convergeClassifiedPaths_def)
    with w(3) False walkInv_end [OF w(1)] show ?thesis by (auto simp: convergeEnd_def)
  next
    case True
    obtain v k where ren: "applyRenameCopies env u = (v, k)" by force
    from w(1,2) True have "walkInv env fs F snap0 free {} u" by simp
    note end' = renames_end [OF ok this ren]
    have st': "CvStore st' = CvStore v \<and> CvSnapshot st' = CvSnapshot v \<and> CvChanged st' = (CvChanged v \<or> k \<noteq> 0)"
      using True walk run ren by (auto simp: convergeClassifiedPaths_def split: if_splits)
    then show ?thesis by (intro convergeEnd_eq [OF end']) auto
  qed
qed

lemma classify_present:
  assumes "classifyPaths cx fs t paths = Inr cs"
  shows "map CpRelativePath cs = paths" "set cs \<subseteq> {c. CpMissing c \<longleftrightarrow> FsClassify fs (CpRelativePath c) = StatAbsent}"
proof -
  have "map CpRelativePath cs = paths \<and> set cs \<subseteq> {c. CpMissing c \<longleftrightarrow> FsClassify fs (CpRelativePath c) = StatAbsent}"
    using assms
  proof (induction paths arbitrary: t cs)
    case (Cons p ps)
    then obtain cs' where "classifyPaths cx fs (Suc t) ps = Inr cs'"
      "cs = \<lparr>CpRelativePath = p, CpMissing = (FsClassify fs p = StatAbsent)\<rparr> # cs'" by (auto split: if_splits sum.splits)
    with Cons.IH [of "Suc t" cs'] show ?case by simp
  qed (auto split: if_splits)
  then show "map CpRelativePath cs = paths" "set cs \<subseteq> {c. CpMissing c \<longleftrightarrow> FsClassify fs (CpRelativePath c) = StatAbsent}" by blast+
qed

definition reported :: "fs_env \<Rightarrow> string list \<Rightarrow> string set" where
  "reported fs paths = {p \<in> set paths. FsClassify fs p \<noteq> StatAbsent}"

lemma classified_sorted:
  assumes "classifyConvergePaths cx fs paths = Inr cs" "distinct paths"
  shows "present cs = reported fs paths" "distinct (map CpRelativePath cs)"
proof -
  from assms(1) obtain us where us: "classifyPaths cx fs 0 paths = Inr us" and cs: "cs = sort_by classifiedBefore us"
    by (cases "classifyPaths cx fs 0 paths") (auto simp: classifyConvergePaths_def)
  note c = classify_present [OF us]
  have "set cs = set us" unfolding cs by simp
  moreover have "CpRelativePath ` {c \<in> set us. \<not> CpMissing c} = reported fs paths"
    unfolding reported_def c(1) [symmetric] using c(2) by auto
  ultimately show "present cs = reported fs paths" by (simp add: present_def)
  have "mset (map CpRelativePath cs) = mset paths" unfolding cs c(1) [symmetric] by simp
  with assms(2) show "distinct (map CpRelativePath cs)" by (metis mset_eq_imp_distinct_iff)
qed

lemma start_inv:
  assumes "PsExists s" "gm_wf (SnInodes snap)" "\<And>q. agreesAt env fs s snap q"
  shows "walkInv env fs F snap (unlimited adm) F \<lparr>CvStore = s, CvSnapshot = snap\<lparr>SnConfigDigest := d\<rparr>, CvAdmission = adm, CvRenames = [],
    CvChanged = False, CvOutcome = outcome\<rparr>"
  using assms by (simp add: walkInv_def renameInv_def agreesAt_def)


section \<open>Concrete calls\<close>

definition plainRow :: "unit stored_chunk \<Rightarrow> unit stored_row" where
  "plainRow c = (insertRow (\<lambda>h. h) CodeColumns c [()], [])"

definition plainEnv :: "(unit, unit) service_env" where
  "plainEnv = \<lparr>SvCall = \<lambda>n. CallOk, SvFlush = \<lambda>n. FlushAccepted, SvInsert = \<lambda>n cs. (map plainRow cs, None),
     SvSha256Hex = \<lambda>h. h, SvDecodeLanguage = \<lambda>m. ''text''\<rparr>"

definition plainStore :: "(string \<times> string) list \<Rightarrow> unit path_store" where
  "plainStore files = \<lparr>PsExists = True,
     PsRows = map (\<lambda>(p, content). plainRow (storedChunkOf p \<lparr>ScContent = content, ScStartLine = 1, ScEndLine = 1, ScLanguage = ''text''\<rparr>)) files, PsCalls = 0\<rparr>"

definition steadyContext :: converge_context where
  "steadyContext = \<lparr>CxDisabled = False, CxClassifyCancelled = \<lambda>t. False, CxCancelled = \<lambda>t. False, CxCheckpointStops = \<lambda>t. False\<rparr>"

definition openGuard :: converge_guard where
  "openGuard = \<lparr>CgFound = True, CgRootMissing = False, CgAvailable = True, CgQuarantined = False\<rparr>"

definition noLimits :: admission where
  "noLimits = \<lparr>AdMaxChunks = 0, AdMaxBytes = 0, AdExpectedChunks = 0, AdGrowthLimit = 0, AdChunks = 0, AdBytes = 0\<rparr>"

definition fileNo :: "uint64 \<Rightarrow> inode_ref" where
  "fileNo n = \<lparr>IrDevice = ''d'', IrInode = n\<rparr>"

text \<open>\<open>old.go\<close> was renamed to \<open>new.go\<close> and \<open>keep.go\<close> was edited.\<close>

definition renamedDisk :: fs_env where
  "renamedDisk = diskFs [(''new.go'', ''a''), (''keep.go'', ''c'')] [(''new.go'', fileNo 1), (''keep.go'', fileNo 2)]"

definition renamedSnapshot :: snapshot where
  "renamedSnapshot = \<lparr>SnConfigDigest = ''d'', SnFiles = [(''old.go'', ''#a''), (''keep.go'', ''#b'')], SnInodes = [(''old.go'', fileNo 1), (''keep.go'', fileNo 2)]\<rparr>"

definition renamedStore :: "unit path_store" where
  "renamedStore = plainStore [(''old.go'', ''a''), (''keep.go'', ''b'')]"

definition renamedCall :: "unit path_store \<times> snapshot \<times> converge_outcome \<times> converge_error option" where
  "renamedCall = ConvergePaths plainEnv steadyContext renamedDisk openGuard noLimits ''d'' False [''old.go'', ''new.go'', ''keep.go''] renamedSnapshot renamedStore"

lemma renamedCall_result:
  "renamedCall = (fst renamedCall, \<lparr>SnConfigDigest = ''d'', SnFiles = [(''keep.go'', ''#c''), (''new.go'', ''#a'')], SnInodes = [(''keep.go'', fileNo 2), (''new.go'', fileNo 1)]\<rparr>,
     \<lparr>PathsGiven = 3, PathsProcessed = 3, PathsConverged = 2\<rparr>, None)"
  by code_simp

lemma plain_works: "storeWorks plainEnv" "chunk_inserter (SvInsert plainEnv)"
proof -
  show "storeWorks plainEnv" by (simp add: storeWorks_def plainEnv_def)
  show "chunk_inserter (SvInsert plainEnv)" by unfold_locales (auto simp: plainEnv_def plainRow_def rowPath_def insertRow_def)
qed

lemma digest_ne: "FsDigest (diskFs files inodes) content \<noteq> []"
  by (simp add: diskFs_def)

lemma plain_indexed:
  assumes "content \<noteq> []"
  shows "indexedRows plainEnv (diskFs files inodes) p (''#'' @ content)
    [plainRow (storedChunkOf p \<lparr>ScContent = content, ScStartLine = 1, ScEndLine = 1, ScLanguage = ''text''\<rparr>)]"
proof (rule indexedRows.fresh)
  show "FsSplitFile (diskFs files inodes) p content = Some [\<lparr>ScContent = content, ScStartLine = 1, ScEndLine = 1, ScLanguage = ''text''\<rparr>]"
    using assms by (simp add: diskFs_def)
qed (simp_all add: diskFs_def plainEnv_def)

lemma plain_agrees:
  assumes "distinct (map fst contents)" "\<forall>x\<in>set contents. snd x \<noteq> []" "SnFiles snap = map (\<lambda>(p, content). (p, ''#'' @ content)) contents"
  shows "agreesAt plainEnv (diskFs files inodes) (plainStore contents) snap q"
proof -
  let ?row = "\<lambda>(p, content). plainRow (storedChunkOf p \<lparr>ScContent = content, ScStartLine = 1, ScEndLine = 1, ScLanguage = ''text''\<rparr>)"
  have path: "rowPath (?row x) = fst x" for x by (cases x) (simp add: plainRow_def rowPath_def insertRow_def storedChunkOf_def)
  have rows: "rowsOf q (plainStore contents) = map ?row (filter (\<lambda>x. fst x = q) contents)"
    by (simp add: rowsOf_def plainStore_def filter_map comp_def path)
  show ?thesis
  proof (cases "\<exists>x\<in>set contents. fst x = q")
    case True
    then obtain x where x: "x \<in> set contents" "fst x = q" by blast
    with filter_unique [OF assms(1) x(1)] have "rowsOf q (plainStore contents) = [?row x]" by (simp add: rows)
    moreover have "map_of (SnFiles snap) q = Some (''#'' @ snd x)" unfolding assms(3)
      using x assms(1) by (intro map_of_is_SomeI) (force simp: comp_def case_prod_unfold)+
    ultimately show ?thesis using x assms(2) plain_indexed [of "snd x" files inodes q] by (cases x) (auto simp: agreesAt_def)
  next
    case False
    then have "filter (\<lambda>x. fst x = q) contents = []" "map_of (SnFiles snap) q = None"
      by (auto simp: filter_empty_conv assms(3) map_of_eq_None_iff)
    then show ?thesis by (simp add: agreesAt_def rows)
  qed
qed

lemma renamed_start:
  "realRenames renamedDisk renamedSnapshot (reported renamedDisk [''old.go'', ''new.go'', ''keep.go''])"
  "distinct [''old.go'', ''new.go'', ''keep.go'']" "PsExists renamedStore" "gm_wf (SnInodes renamedSnapshot)"
  "agreesAt plainEnv renamedDisk renamedStore renamedSnapshot q"
proof -
  have "reported renamedDisk [''old.go'', ''new.go'', ''keep.go''] = {''new.go'', ''keep.go''}"
    by (auto simp: reported_def renamedDisk_def diskFs_def diskInfo_def)
  then show "realRenames renamedDisk renamedSnapshot (reported renamedDisk [''old.go'', ''new.go'', ''keep.go''])"
    by (simp add: realRenames_def renamedDisk_def diskFs_def renamedSnapshot_def fileNo_def gm_get0_def)
  show "agreesAt plainEnv renamedDisk renamedStore renamedSnapshot q"
    unfolding renamedDisk_def renamedStore_def by (rule plain_agrees) (simp_all add: renamedSnapshot_def)
qed (simp_all add: renamedStore_def plainStore_def renamedSnapshot_def gm_wf_def)

lemma renamed_steady: "steady renamedDisk ''new.go'' ''a''" "''new.go'' \<in> reported renamedDisk [''old.go'', ''new.go'', ''keep.go'']"
proof -
  let ?fr = "newProcessedFile [storedChunkOf ''new.go'' \<lparr>ScContent = ''a'', ScStartLine = 1, ScEndLine = 1, ScLanguage = ''text''\<rparr>] ''#a'' False SkipNone False"
  have lst: "FsLstat renamedDisk t ''new.go'' = StatInfo \<lparr>FiDir = False, FiRegular = True, FiSize = 1\<rparr>" for t
    by (simp add: renamedDisk_def diskFs_def diskInfo_def)
  have dec: "DcIndexed (Decide (FsRules renamedDisk) ''new.go'' \<lparr>FiDir = False, FiRegular = True, FiSize = 1\<rparr>)" by code_simp
  have const: "FsStat renamedDisk t = FsStat renamedDisk 0" "FsRead renamedDisk t = FsRead renamedDisk 0" "FsStatAgain renamedDisk t = FsStatAgain renamedDisk 0" for t
    by (simp_all add: renamedDisk_def diskFs_def)
  have "IndexOne renamedDisk t ''new.go'' = IndexOne renamedDisk 0 ''new.go''" for t
    by (simp only: IndexOne_def statEligibility_def readErrorMeansRemoved_def const [of t])
  moreover have "IndexOne renamedDisk 0 ''new.go'' = Inr ?fr" by code_simp
  ultimately have one: "IndexOne renamedDisk t ''new.go'' = Inr ?fr" for t by simp
  have res: "indexResult renamedDisk ''new.go'' ''a'' ?fr" by (simp add: indexResult_def renamedDisk_def diskFs_def)
  show "steady renamedDisk ''new.go'' ''a''" unfolding steady_def
  proof
    fix t
    show "(\<exists>info. FsLstat renamedDisk t ''new.go'' = StatInfo info \<and> DcIndexed (Decide (FsRules renamedDisk) ''new.go'' info))
        \<and> (\<exists>fr. indexResult renamedDisk ''new.go'' ''a'' fr \<and> IndexOne renamedDisk t ''new.go'' = Inr fr)"
      using lst dec res one by blast
  qed
  show "''new.go'' \<in> reported renamedDisk [''old.go'', ''new.go'', ''keep.go'']" by (simp add: reported_def renamedDisk_def diskFs_def diskInfo_def)
qed


section \<open>Where the agreement breaks\<close>

text \<open>\<open>main.go\<close> was renamed to \<open>main.bak\<close> and a new \<open>main.go\<close> was written.\<close>

definition swappedDisk :: fs_env where
  "swappedDisk = diskFs [(''main.bak'', ''a''), (''main.go'', ''b'')] [(''main.bak'', fileNo 1), (''main.go'', fileNo 2)]"

definition swappedCall :: "snapshot \<Rightarrow> unit path_store \<Rightarrow> unit path_store \<times> snapshot \<times> converge_outcome \<times> converge_error option" where
  "swappedCall = ConvergePaths plainEnv steadyContext swappedDisk openGuard noLimits ''d'' False [''main.go'', ''main.bak'']"

definition swappedFirst :: "unit path_store \<times> snapshot \<times> converge_outcome \<times> converge_error option" where
  "swappedFirst = swappedCall \<lparr>SnConfigDigest = ''d'', SnFiles = [(''main.go'', ''#a'')], SnInodes = [(''main.go'', fileNo 1)]\<rparr> (plainStore [(''main.go'', ''a'')])"

definition swappedSecond :: "unit path_store \<times> snapshot \<times> converge_outcome \<times> converge_error option" where
  "swappedSecond = swappedCall (fst (snd swappedFirst)) (fst swappedFirst)"

definition contentsAt :: "string \<Rightarrow> 'x path_store \<Rightarrow> string list" where
  "contentsAt p s = map (\<lambda>r. RowContent (fst r)) (rowsOf p s)"


text \<open>An edit that cannot be embedded, and then the old content again.\<close>

definition failingEnv :: "(unit, unit) service_env" where
  "failingEnv = plainEnv\<lparr>SvInsert := \<lambda>n cs. ([], Some PathInsertError)\<rparr>"

definition revertedSnapshot :: snapshot where
  "revertedSnapshot = \<lparr>SnConfigDigest = ''d'', SnFiles = [(''main.go'', ''#a'')], SnInodes = [(''main.go'', fileNo 1)]\<rparr>"

definition failedCall :: "unit path_store \<times> snapshot \<times> converge_outcome \<times> converge_error option" where
  "failedCall = ConvergePaths failingEnv steadyContext (diskFs [(''main.go'', ''b'')] [(''main.go'', fileNo 1)]) openGuard noLimits ''d'' False
     [''main.go''] revertedSnapshot (plainStore [(''main.go'', ''a'')])"

definition revertedCall :: "unit path_store \<times> snapshot \<times> converge_outcome \<times> converge_error option" where
  "revertedCall = ConvergePaths plainEnv steadyContext (diskFs [(''main.go'', ''a'')] [(''main.go'', fileNo 1)]) openGuard noLimits ''d'' False
     [''main.go''] (fst (snd failedCall)) (fst failedCall)"


end
