(* ===== verification/DeltaSync.thy ===== *)
theory DeltaSync
  imports Converge
begin

text \<open>
  The incremental sync of a code codebase (\<open>internal/daemon/manager_delta.go\<close>, \<open>manager_delta_rename.go\<close>,
  \<open>manager_delta_absence.go\<close>, \<open>quarantine.go\<close>, \<open>collection_policy.go\<close>): the captured snapshot is compared with
  the checkpoint, a suspicious wave of removals stops the run, renamed files keep their rows, removed
  files lose theirs, changed files are embedded one by one, and the checkpoint is written after each
  step. The theory shows that the store and the checkpoint agree whenever the run stops, and that a run
  that completes on an unchanged disk ends with the captured snapshot.
\<close>

section \<open>Quarantine\<close>

datatype codebase_kind = KindCode | KindDocument

record quarantine_state =
  QsReason :: string
  QsObservationCount :: "32 word"
  QsLastTrigger :: string
  QsLastMissingCount :: "32 word"
  QsLastTotalCount :: "32 word"

datatype codebase_status =
  StatusNotIndexed | StatusPending | StatusIndexing | StatusIndexed | StatusStale | StatusFailed | StatusMissing | StatusDiscovered | StatusQuarantined

text \<open>The fields of a codebase record the sync and the job transitions use; of the last runs, the file count of a success and whether a failure is recorded.\<close>

record codebase =
  CbKind :: codebase_kind
  CbStatus :: codebase_status
  CbActiveJob :: string
  CbFailedRun :: bool
  CbLastRunFiles :: "32 word option"
  CbLiveFileTotal :: "32 word"
  CbQuarantine :: "quarantine_state option"

record quarantine_signal =
  QgReason :: string
  QgTrigger :: string
  QgMissingCount :: "32 word"
  QgTotalCount :: "32 word"

definition suspiciousRemovalAbsoluteThreshold :: "32 word" where "suspiciousRemovalAbsoluteThreshold = 100"
definition suspiciousRemovalRatioNumerator :: "32 word" where "suspiciousRemovalRatioNumerator = 1"
definition suspiciousRemovalRatioDenominator :: "32 word" where "suspiciousRemovalRatioDenominator = 4"
definition quarantineConfirmationObservations :: "32 word" where "quarantineConfirmationObservations = 2"
definition quarantineTriggerFullScan :: string where "quarantineTriggerFullScan = ''full_scan''"

definition quarantineReasonFullScanLargeDelete :: string where
  "quarantineReasonFullScanLargeDelete =
     ''A full scan still sees a suspiciously large delete wave, so destructive sync remains paused until the signal repeats.''"

definition safeInt32 :: "int \<Rightarrow> 32 word" where
  "safeInt32 value = word_of_int (safeInt32FromInt value)"

definition quarantineConfirmed :: "codebase \<Rightarrow> bool" where
  "quarantineConfirmed c =
     (case CbQuarantine c of None \<Rightarrow> False
      | Some q \<Rightarrow> quarantineConfirmationObservations \<le>s QsObservationCount q \<and> QsLastTrigger q = quarantineTriggerFullScan)"

definition trackedFileTotalForSuspicion :: "codebase \<Rightarrow> snapshot \<Rightarrow> 32 word" where
  "trackedFileTotalForSuspicion c snap =
     (if SnFiles snap \<noteq> [] then safeInt32 (int (length (SnFiles snap)))
      else case CbLastRunFiles c of
             Some files \<Rightarrow> if 0 <s files then files else if 0 <s CbLiveFileTotal c then CbLiveFileTotal c else 0
           | None \<Rightarrow> if 0 <s CbLiveFileTotal c then CbLiveFileTotal c else 0)"

definition shouldQuarantineLargeRemoval :: "codebase \<Rightarrow> 32 word \<Rightarrow> 32 word \<Rightarrow> bool" where
  "shouldQuarantineLargeRemoval c missingCount totalCount =
     (if CbKind c \<noteq> KindCode then False
      else if CbLastRunFiles c = None then False
      else if totalCount \<le>s 0 \<or> missingCount <s suspiciousRemovalAbsoluteThreshold then False
      else totalCount * suspiciousRemovalRatioNumerator \<le>s missingCount * suspiciousRemovalRatioDenominator)"

definition physicallyMissingPaths :: "(string \<Rightarrow> bool) \<Rightarrow> string list \<Rightarrow> string list" where
  "physicallyMissingPaths fileExists = filter (\<lambda>p. \<not> fileExists p)"

definition assessDeltaDeleteWave :: "(string \<Rightarrow> bool) \<Rightarrow> codebase \<Rightarrow> diff \<Rightarrow> snapshot \<Rightarrow> quarantine_signal option" where
  "assessDeltaDeleteWave fileExists c d snap =
     (if quarantineConfirmed c then None
      else let missingCount = safeInt32 (int (length (physicallyMissingPaths fileExists (DfRemoved d))));
               totalCount = trackedFileTotalForSuspicion c snap
           in if \<not> shouldQuarantineLargeRemoval c missingCount totalCount then None
              else Some \<lparr>QgReason = quarantineReasonFullScanLargeDelete, QgTrigger = quarantineTriggerFullScan,
                         QgMissingCount = missingCount, QgTotalCount = totalCount\<rparr>)"

definition applyQuarantineState :: "quarantine_signal \<Rightarrow> codebase \<Rightarrow> codebase" where
  "applyQuarantineState signal c =
     c\<lparr>CbStatus := StatusQuarantined,
       CbQuarantine := Some \<lparr>QsReason = QgReason signal,
         QsObservationCount = (case CbQuarantine c of None \<Rightarrow> 1 | Some q \<Rightarrow> QsObservationCount q + 1),
         QsLastTrigger = QgTrigger signal, QsLastMissingCount = QgMissingCount signal, QsLastTotalCount = QgTotalCount signal\<rparr>\<rparr>"

section \<open>Routing by the presence of the collection\<close>

datatype collection_presence = PresenceUnknown | PresencePresent | PresenceMissing
datatype start_index_mode = AlreadyIndexed | Incremental | Bootstrap
datatype empty_diff_mode = CompleteNoop | FallbackBootstrap
datatype search_collection_mode = SearchProceed | SearchAutomaticRepair | SearchMissing

definition decideStartIndexMode :: "bool \<Rightarrow> codebase_status \<Rightarrow> bool \<Rightarrow> bool \<Rightarrow> collection_presence \<Rightarrow> start_index_mode" where
  "decideStartIndexMode codebaseFound status configMatches force presence =
     (if \<not> codebaseFound then (if presence = PresencePresent then Incremental else Bootstrap)
      else if status \<in> {StatusFailed, StatusStale, StatusIndexing, StatusMissing, StatusQuarantined}
      then (if presence = PresenceMissing then Bootstrap else Incremental)
      else if status \<in> {StatusNotIndexed, StatusPending, StatusDiscovered} then Bootstrap
      else if \<not> force \<and> configMatches \<and> presence \<noteq> PresenceMissing then AlreadyIndexed
      else if presence = PresenceMissing then Bootstrap
      else Incremental)"

record collection_evidence =
  EvPresence :: collection_presence
  EvRows :: int
  EvRowsKnown :: bool

definition decideEmptyDiffMode :: "collection_evidence \<Rightarrow> nat \<Rightarrow> empty_diff_mode" where
  "decideEmptyDiffMode evidence seedFileCount =
     (if EvPresence evidence = PresenceMissing then FallbackBootstrap
      else if EvPresence evidence = PresencePresent \<and> EvRowsKnown evidence \<and> EvRows evidence = 0 \<and> seedFileCount > 0 then FallbackBootstrap
      else CompleteNoop)"

definition decideSearchCollectionMode :: "codebase_status \<Rightarrow> bool \<Rightarrow> collection_presence \<Rightarrow> search_collection_mode" where
  "decideSearchCollectionMode status hasActiveJob presence =
     (if presence \<noteq> PresenceMissing then SearchProceed
      else if hasActiveJob \<or> status = StatusStale \<or> status = StatusIndexing then SearchAutomaticRepair
      else SearchMissing)"

section \<open>The plan of a run\<close>

text \<open>\<open>unionForcedItems\<close>: forced items of the capture join the modified ones.\<close>

fun forcedMissing :: "string list \<Rightarrow> string list \<Rightarrow> snapshot \<Rightarrow> string list" where
  "forcedMissing already [] captured = []"
| "forcedMissing already (item # forced) captured =
     (if map_of (SnFiles captured) item = None \<or> item \<in> set already then forcedMissing already forced captured
      else item # forcedMissing (item # already) forced captured)"

definition unionForcedItems :: "diff \<Rightarrow> string list \<Rightarrow> snapshot \<Rightarrow> diff" where
  "unionForcedItems d forced captured =
     (if forced = [] then d
      else let extra = forcedMissing (DfAdded d @ DfModified d) forced captured
           in if extra = [] then d else d\<lparr>DfModified := sort (DfModified d @ extra)\<rparr>)"

record delta_pair =
  DpSource :: string
  DpDestination :: string
  DpHash :: string

fun deltaRename_loop :: "snapshot \<Rightarrow> snapshot \<Rightarrow> string list \<Rightarrow> string list \<Rightarrow> string list \<Rightarrow> string list \<Rightarrow> delta_pair list" where
  "deltaRename_loop seed current removed forced matched [] = []"
| "deltaRename_loop seed current removed forced matched (destination # added) =
     (if destination \<in> set forced then deltaRename_loop seed current removed forced matched added
      else case map_of (SnInodes current) destination of
             None \<Rightarrow> deltaRename_loop seed current removed forced matched added
           | Some currentInode \<Rightarrow>
               let candidates = sort (filter (\<lambda>c. c \<in> set removed \<and> c \<notin> set matched) (LookupByInode seed currentInode));
                   fileHash = gm_get0 [] (SnFiles current) destination;
                   source = pickRenameSource candidates (SnFiles seed) fileHash
               in if source = [] then deltaRename_loop seed current removed forced matched added
                  else \<lparr>DpSource = source, DpDestination = destination, DpHash = fileHash\<rparr>
                    # deltaRename_loop seed current removed forced (source # matched) added)"

definition deltaRenamePairs :: "snapshot \<Rightarrow> snapshot \<Rightarrow> diff \<Rightarrow> string list \<Rightarrow> bool \<Rightarrow> delta_pair list" where
  "deltaRenamePairs seed current d forced inodeTrackingDisabled =
     (if inodeTrackingDisabled \<or> DfAdded d = [] \<or> DfRemoved d = [] then []
      else deltaRename_loop seed current (DfRemoved d) forced [] (DfAdded d))"

definition pathsWithout :: "string list \<Rightarrow> string list \<Rightarrow> string list" where
  "pathsWithout paths excluded = filter (\<lambda>p. p \<notin> set excluded) paths"

section \<open>The state of a run\<close>

record delta_outcome =
  DoFallback :: bool
  DoHandled :: bool
  DoProgressed :: bool

definition goOn :: delta_outcome where "goOn = \<lparr>DoFallback = False, DoHandled = False, DoProgressed = False\<rparr>"
definition fellBack :: delta_outcome where "fellBack = \<lparr>DoFallback = True, DoHandled = False, DoProgressed = False\<rparr>"
definition stopped :: delta_outcome where "stopped = \<lparr>DoFallback = False, DoHandled = True, DoProgressed = False\<rparr>"
definition wentOn :: delta_outcome where "wentOn = \<lparr>DoFallback = False, DoHandled = False, DoProgressed = True\<rparr>"

lemmas outcome_defs = goOn_def fellBack_def stopped_def wentOn_def

record 'x delta_state =
  DsStore :: "'x path_store"
  DsWorking :: "(string, string) gomap"
  DsCheckpoint :: snapshot
  DsWrites :: nat
  DsAdmission :: admission
  DsDiff :: diff
  DsRenamed :: "(string, string) gomap"
  DsResult :: index_result
  DsSkippedPending :: "32 word"

text \<open>
  What the run does not decide itself: cancellations before the \<open>t\<close>-th changed file and during its read,
  checkpoints of the job that stop it, failed loads of reusable vectors, and failed writes of the checkpoint file.
\<close>

record delta_context =
  DxSemantic :: bool
  DxStreaming :: bool
  DxInodesDisabled :: bool
  DxDigest :: string
  DxCancelled :: "nat \<Rightarrow> bool"
  DxReadCancelled :: "nat \<Rightarrow> bool"
  DxJobStops :: "nat \<Rightarrow> bool"
  DxRenameStops :: bool
  DxRemovalStops :: bool
  DxSeedReuseFails :: bool
  DxReuseFails :: "nat \<Rightarrow> bool"
  DxWriteFails :: "nat \<Rightarrow> bool"
  DxTotalsFail :: bool

definition checkpointSnapshot :: "string \<Rightarrow> (string, string) gomap \<Rightarrow> (string, inode_ref) gomap \<Rightarrow> bool \<Rightarrow> snapshot" where
  "checkpointSnapshot configDigest files capturedInodes inodeTrackingDisabled =
     (let snap = \<lparr>SnConfigDigest = configDigest, SnFiles = files, SnInodes = []\<rparr>
      in if inodeTrackingDisabled then snap
         else fold (\<lambda>p s. case map_of capturedInodes p of Some ref \<Rightarrow> RecordInode p ref s | None \<Rightarrow> s) (map fst files) snap)"

definition writeCheckpoint :: "delta_context \<Rightarrow> snapshot \<Rightarrow> 'x delta_state \<Rightarrow> 'x delta_state" where
  "writeCheckpoint cx current st =
     (if DxWriteFails cx (DsWrites st) then st\<lparr>DsWrites := Suc (DsWrites st)\<rparr>
      else st\<lparr>DsWrites := Suc (DsWrites st), DsCheckpoint := checkpointSnapshot (DxDigest cx) (DsWorking st) (SnInodes current) (DxInodesDisabled cx)\<rparr>)"

definition classifyReindexErr :: "path_error \<Rightarrow> delta_outcome" where
  "classifyReindexErr err = (if err = PathCollectionMissing then fellBack else stopped)"

definition applyReindexForState ::
  "(unit, 'x) service_env \<Rightarrow> unit stored_chunk list \<Rightarrow> string list \<Rightarrow> 'x delta_state \<Rightarrow> 'x delta_state \<times> delta_outcome" where
  "applyReindexForState env chunks removal st =
     (case Admit chunks (DsAdmission st) of
        (a, False) \<Rightarrow> (st, stopped)
      | (a, True) \<Rightarrow>
          (case Reindex env chunks removal (DsStore st) of
             (s, Some err) \<Rightarrow> (st\<lparr>DsAdmission := a, DsStore := s\<rparr>, classifyReindexErr err)
           | (s, None) \<Rightarrow> (st\<lparr>DsAdmission := a, DsStore := s\<rparr>, goOn)))"

section \<open>Renames and removals\<close>

definition pairCopies :: "delta_pair list \<Rightarrow> chunk_copy list" where
  "pairCopies pairs = map (\<lambda>p. \<lparr>CcSource = DpSource p, CcDestination = DpDestination p\<rparr>) pairs"

definition copiedPairs :: "delta_pair list \<Rightarrow> nat list \<Rightarrow> delta_pair list" where
  "copiedPairs pairs counts = map fst (filter (\<lambda>(p, n). n \<noteq> 0) (zip pairs counts))"

definition recordPair :: "delta_pair \<Rightarrow> 'x delta_state \<Rightarrow> 'x delta_state" where
  "recordPair p st =
     st\<lparr>DsWorking := gm_del (DpSource p) (gm_put (DpDestination p) (DpHash p) (DsWorking st)),
        DsRenamed := gm_put (DpSource p) (DpDestination p) (DsRenamed st)\<rparr>"

definition applyDeltaRenameCopies ::
  "(unit, 'x) service_env \<Rightarrow> delta_context \<Rightarrow> snapshot \<Rightarrow> snapshot \<Rightarrow> string list \<Rightarrow> 'x delta_state \<Rightarrow> 'x delta_state \<times> delta_outcome" where
  "applyDeltaRenameCopies env cx seed current forced st =
     (if \<not> DxSemantic cx then (st, goOn)
      else let pairs = deltaRenamePairs seed current (DsDiff st) forced (DxInodesDisabled cx)
           in if pairs = [] then (st, goOn)
              else case CopyChunks env (pairCopies pairs) (DsStore st) of
                     (s, counts, Some err) \<Rightarrow> (st\<lparr>DsStore := s\<rparr>, goOn)
                   | (s, counts, None) \<Rightarrow>
                       let copied = copiedPairs pairs counts; st = fold recordPair copied (st\<lparr>DsStore := s\<rparr>)
                       in if copied = [] then (st, goOn)
                          else let d = DsDiff st;
                                   st = writeCheckpoint cx current (st\<lparr>DsDiff :=
                                     \<lparr>DfAdded = pathsWithout (DfAdded d) (map DpDestination copied), DfModified = DfModified d,
                                      DfRemoved = pathsWithout (DfRemoved d) (map DpSource copied)\<rparr>\<rparr>)
                               in (st, if DxRenameStops cx then stopped else wentOn))"

definition applyDeltaRemovals ::
  "(unit, 'x) service_env \<Rightarrow> delta_context \<Rightarrow> snapshot \<Rightarrow> snapshot \<Rightarrow> string list \<Rightarrow> 'x delta_state \<Rightarrow> 'x delta_state \<times> delta_outcome" where
  "applyDeltaRemovals env cx seed current forced st =
     (case applyDeltaRenameCopies env cx seed current forced st of
        (st, out) \<Rightarrow>
          if DoHandled out then (st, out)
          else let removed = DfRemoved (DsDiff st)
               in if removed = [] \<or> \<not> DxSemantic cx then (st, goOn)
                  else (case applyReindexForState env [] removed st of
                          (st, out) \<Rightarrow>
                            if DoFallback out \<or> DoHandled out then (st, out)
                            else (writeCheckpoint cx current (st\<lparr>DsWorking := fold gm_del removed (DsWorking st)\<rparr>),
                                  if DxRemovalStops cx then stopped else goOn)))"

section \<open>Changed files\<close>

definition handleRemovedFile :: "(unit, 'x) service_env \<Rightarrow> delta_context \<Rightarrow> string \<Rightarrow> 'x delta_state \<Rightarrow> 'x delta_state \<times> delta_outcome" where
  "handleRemovedFile env cx p st =
     (case (if DxSemantic cx then applyReindexForState env [] [p] st else (st, goOn)) of
        (st, out) \<Rightarrow> if DoFallback out \<or> DoHandled out then (st, out) else (st\<lparr>DsWorking := gm_del p (DsWorking st)\<rparr>, wentOn))"

definition applyChangedFileSemantic ::
  "(unit, 'x) service_env \<Rightarrow> delta_context \<Rightarrow> nat \<Rightarrow> string \<Rightarrow> processed_file \<Rightarrow> 'x delta_state \<Rightarrow> 'x delta_state \<times> delta_outcome" where
  "applyChangedFileSemantic env cx t p fr st = (if DxReuseFails cx t then (st, stopped) else applyReindexForState env (PfChunks fr) [p] st)"

definition noteSkipped :: "string \<Rightarrow> skip_reason \<Rightarrow> 'x delta_state \<Rightarrow> 'x delta_state" where
  "noteSkipped p reason st =
     (let r = DsResult st
      in case reason of
           SkipOversize \<Rightarrow> st\<lparr>DsResult := r\<lparr>IrSkippedFiles := IrSkippedFiles r @ [p], IrSkippedOversize := IrSkippedOversize r + 1\<rparr>\<rparr>
         | SkipPending \<Rightarrow> st\<lparr>DsSkippedPending := DsSkippedPending st + 1\<rparr>
         | SkipUnreadable \<Rightarrow> st\<lparr>DsResult := r\<lparr>IrSkippedFiles := IrSkippedFiles r @ [p], IrSkippedUnreadable := IrSkippedUnreadable r + 1\<rparr>\<rparr>
         | SkipNone \<Rightarrow> st\<lparr>DsResult := r\<lparr>IrSkippedFiles := IrSkippedFiles r @ [p], IrSkippedUnreadable := IrSkippedUnreadable r + 1\<rparr>\<rparr>)"

definition noteIndexed :: "string \<Rightarrow> processed_file \<Rightarrow> 'x delta_state \<Rightarrow> 'x delta_state" where
  "noteIndexed p fr st =
     (let r = DsResult st
      in st\<lparr>DsWorking := gm_put p (PfHash fr) (DsWorking st),
            DsResult := r\<lparr>IrChunks := IrChunks r @ PfChunks fr, IrTotalChunks := IrTotalChunks r + safeInt32 (int (length (PfChunks fr))),
              IrTotalBytes := IrTotalBytes r + chunkContentBytes (PfChunks fr), IrIndexedFiles := IrIndexedFiles r + 1\<rparr>\<rparr>)"

definition handleChangedFile ::
  "(unit, 'x) service_env \<Rightarrow> delta_context \<Rightarrow> fs_env \<Rightarrow> nat \<Rightarrow> string \<Rightarrow> 'x delta_state \<Rightarrow> 'x delta_state \<times> delta_outcome" where
  "handleChangedFile env cx fs t p st =
     (if DxReadCancelled cx t then (st, stopped)
      else case IndexOne fs t p of
             Inl e \<Rightarrow> (st, stopped)
           | Inr fr \<Rightarrow>
               if PfRemoved fr then handleRemovedFile env cx p st
               else if PfSkipped fr then (noteSkipped p (PfSkipReason fr) st, goOn)
               else (case (if DxSemantic cx then applyChangedFileSemantic env cx t p fr st else (st, goOn)) of
                       (st, out) \<Rightarrow> if DoFallback out \<or> DoHandled out then (st, out) else (noteIndexed p fr st, wentOn)))"

fun applyDeltaChanges ::
  "(unit, 'x) service_env \<Rightarrow> delta_context \<Rightarrow> fs_env \<Rightarrow> snapshot \<Rightarrow> snapshot \<Rightarrow> string list \<Rightarrow> nat \<Rightarrow> string list \<Rightarrow> 'x delta_state
    \<Rightarrow> 'x delta_state \<times> delta_outcome" where
  "applyDeltaChanges env cx fs seed current forced t [] st = (st, goOn)"
| "applyDeltaChanges env cx fs seed current forced t (p # ps) st =
     (if DxCancelled cx t then (st, stopped)
      else if p \<notin> set forced \<and> (case map_of (SnFiles seed) p of None \<Rightarrow> False | Some seedHash \<Rightarrow> seedHash = gm_get0 [] (SnFiles current) p)
      then let st = st\<lparr>DsWorking := gm_put p (gm_get0 [] (SnFiles seed) p) (DsWorking st)\<rparr>
           in if DxJobStops cx t then (st, stopped) else applyDeltaChanges env cx fs seed current forced (Suc t) ps st
      else case handleChangedFile env cx fs t p st of
             (st, out) \<Rightarrow>
               if DoFallback out \<or> DoHandled out then (st, out)
               else let st = (if DoProgressed out then writeCheckpoint cx current st else st)
                    in if DxJobStops cx t then (st, stopped) else applyDeltaChanges env cx fs seed current forced (Suc t) ps st)"

section \<open>The run\<close>

definition pruneAfterStreaming :: "(unit, 'x) service_env \<Rightarrow> snapshot \<Rightarrow> 'x delta_state \<Rightarrow> 'x delta_state \<times> delta_outcome" where
  "pruneAfterStreaming env current st =
     (case PruneToCurrent env (sort (map fst (SnFiles current))) (DsStore st) of
        (s, None) \<Rightarrow> (st\<lparr>DsStore := s\<rparr>, goOn)
      | (s, Some err) \<Rightarrow> (st\<lparr>DsStore := s\<rparr>, if err = PathCollectionMissing then goOn else stopped))"

datatype run_end = RunFallback | RunStopped | RunQuarantined quarantine_signal | RunCompleted

text \<open>A completed job writes the checkpoint once more, unless the run left no file.\<close>

definition completeRun :: "delta_context \<Rightarrow> snapshot \<Rightarrow> 'x delta_state \<Rightarrow> 'x delta_state \<times> run_end" where
  "completeRun cx current st = (if DsWorking st = [] then st else writeCheckpoint cx current st, RunCompleted)"

definition endOf :: "delta_outcome \<Rightarrow> run_end" where
  "endOf out = (if DoFallback out then RunFallback else RunStopped)"

definition applyDelta ::
  "(unit, 'x) service_env \<Rightarrow> delta_context \<Rightarrow> fs_env \<Rightarrow> snapshot \<Rightarrow> snapshot \<Rightarrow> string list \<Rightarrow> 'x delta_state \<Rightarrow> 'x delta_state \<times> run_end" where
  "applyDelta env cx fs seed current forced st =
     (case applyDeltaRemovals env cx seed current forced st of
        (st, out) \<Rightarrow>
          if DoFallback out \<or> DoHandled out then (st, endOf out)
          else if DfAdded (DsDiff st) \<noteq> [] \<and> DxSemantic cx \<and> DxSeedReuseFails cx then (st, RunStopped)
          else (case applyDeltaChanges env cx fs seed current forced 0 (DfAdded (DsDiff st) @ DfModified (DsDiff st)) st of
                  (st, out) \<Rightarrow>
                    if DoFallback out \<or> DoHandled out then (st, endOf out)
                    else (case (if DxStreaming cx \<and> DxSemantic cx then pruneAfterStreaming env current st else (st, goOn)) of
                            (st, out) \<Rightarrow>
                              if DoHandled out then (st, RunStopped)
                              else if DxTotalsFail cx then (st, RunStopped)
                              else completeRun cx current st)))"

definition startState :: "snapshot \<Rightarrow> snapshot \<Rightarrow> admission \<Rightarrow> diff \<Rightarrow> 'x path_store \<Rightarrow> 'x delta_state" where
  "startState checkpoint seed adm d s =
     \<lparr>DsStore = s, DsWorking = SnFiles seed, DsCheckpoint = checkpoint, DsWrites = 0, DsAdmission = adm, DsDiff = d, DsRenamed = [],
      DsResult = resultOf emptyAccumulator, DsSkippedPending = 0\<rparr>"

text \<open>
  One run for a tracked codebase: \<open>checkpoint\<close> is the file on disk, \<open>seed\<close> what was loaded from it for the
  configuration, and a code source forces no item.
\<close>

definition runDeltaSync ::
  "(unit, 'x) service_env \<Rightarrow> delta_context \<Rightarrow> fs_env \<Rightarrow> (string \<Rightarrow> bool) \<Rightarrow> collection_evidence \<Rightarrow> codebase option \<Rightarrow> snapshot \<Rightarrow> snapshot
    \<Rightarrow> (snapshot_error + snapshot) \<Rightarrow> admission \<Rightarrow> 'x path_store \<Rightarrow> 'x delta_state \<times> run_end" where
  "runDeltaSync env cx fs fileExists evidence found checkpoint seed capture adm s =
     (case found of
        None \<Rightarrow> (startState checkpoint seed adm noDiff s, RunFallback)
      | Some c \<Rightarrow>
          (case capture of
             Inl e \<Rightarrow> (startState checkpoint seed adm noDiff s, RunStopped)
           | Inr current \<Rightarrow>
               let d = unionForcedItems (DiffSnapshots seed current) [] current; st = startState checkpoint seed adm d s
               in if DiffEmpty d
                  then (if decideEmptyDiffMode evidence (length (SnFiles seed)) = FallbackBootstrap then (st, RunFallback)
                        else completeRun cx current (st\<lparr>DsWorking := SnFiles current\<rparr>))
                  else (case assessDeltaDeleteWave fileExists c d seed of
                          Some signal \<Rightarrow> (st, RunQuarantined signal)
                        | None \<Rightarrow> applyDelta env cx fs seed current [] st)))"

section \<open>Store, working set and checkpoint agree\<close>

definition filesOnly :: "(string, string) gomap \<Rightarrow> snapshot" where
  "filesOnly files = \<lparr>SnConfigDigest = [], SnFiles = files, SnInodes = []\<rparr>"

lemma agreesAt_files: "map_of (SnFiles a) q = map_of (SnFiles b) q \<Longrightarrow> agreesAt env fs s a q \<longleftrightarrow> agreesAt env fs s b q"
  by (simp add: agreesAt_def)

definition workingAgrees :: "(unit, 'x) service_env \<Rightarrow> fs_env \<Rightarrow> 'x delta_state \<Rightarrow> bool" where
  "workingAgrees env fs st \<longleftrightarrow> PsExists (DsStore st) \<and> (\<forall>q. agreesAt env fs (DsStore st) (filesOnly (DsWorking st)) q)"

definition syncInv :: "(unit, 'x) service_env \<Rightarrow> fs_env \<Rightarrow> 'x delta_state \<Rightarrow> bool" where
  "syncInv env fs st \<longleftrightarrow> workingAgrees env fs st \<and> map_of (SnFiles (DsCheckpoint st)) = map_of (DsWorking st)"

lemma checkpointSnapshot_files [simp]: "SnFiles (checkpointSnapshot d files inodes disabled) = files"
proof -
  have "SnFiles (fold (\<lambda>p s. case map_of inodes p of Some ref \<Rightarrow> RecordInode p ref s | None \<Rightarrow> s) ps snap) = SnFiles snap" for ps snap
    by (induction ps arbitrary: snap) (auto split: option.split)
  then show ?thesis by (simp add: checkpointSnapshot_def Let_def)
qed

lemma writeCheckpoint_keeps [simp]:
  "DsStore (writeCheckpoint cx current st) = DsStore st" "DsWorking (writeCheckpoint cx current st) = DsWorking st"
  "DsDiff (writeCheckpoint cx current st) = DsDiff st"
  by (simp_all add: writeCheckpoint_def)

lemma writeCheckpoint_inv: "workingAgrees env fs st \<Longrightarrow> \<forall>n. \<not> DxWriteFails cx n \<Longrightarrow> syncInv env fs (writeCheckpoint cx current st)"
  by (simp add: syncInv_def workingAgrees_def) (simp add: writeCheckpoint_def)

lemma workingAgrees_change:
  assumes inv: "workingAgrees env fs st" and "PsExists (DsStore st')"
    and rows: "\<And>q. q \<notin> C \<Longrightarrow> rowsOf q (DsStore st') = rowsOf q (DsStore st)"
    and files: "\<And>q. q \<notin> C \<Longrightarrow> map_of (DsWorking st') q = map_of (DsWorking st) q"
    and changed: "\<And>q. q \<in> C \<Longrightarrow> agreesAt env fs (DsStore st') (filesOnly (DsWorking st')) q"
  shows "workingAgrees env fs st'"
proof -
  have "agreesAt env fs (DsStore st') (filesOnly (DsWorking st')) q" for q
  proof (cases "q \<in> C")
    case False
    have "agreesAt env fs (DsStore st) (filesOnly (DsWorking st)) q" using inv by (simp add: workingAgrees_def)
    then show ?thesis unfolding agreesAt_def filesOnly_def snapshot.select_convs rows [OF False] files [OF False] .
  qed (rule changed)
  with assms(2) show ?thesis by (simp add: workingAgrees_def)
qed

lemma reindex_file:
  assumes works: "storeWorks env" "chunk_inserter (SvInsert env)" and inv: "workingAgrees env fs st"
    and res: "indexResult fs p content fr" and run: "applyReindexForState env (PfChunks fr) [p] st = (st', out)"
  shows "out = stopped \<and> st' = st \<or> out = goOn \<and> workingAgrees env fs (noteIndexed p fr st') \<and> DsWorking st' = DsWorking st"
proof -
  obtain a ok where adm: "Admit (PfChunks fr) (DsAdmission st) = (a, ok)" by force
  obtain s e where re: "Reindex env (PfChunks fr) [p] (DsStore st) = (s, e)" by force
  have "PsExists (DsStore st)" using inv by (simp add: workingAgrees_def)
  note rows = reindex_indexed [OF works this res re]
  show ?thesis
  proof (cases ok)
    case True
    with run adm re rows(1) have st': "st' = st\<lparr>DsAdmission := a, DsStore := s\<rparr>" "out = goOn" by (auto simp: applyReindexForState_def)
    have "workingAgrees env fs (noteIndexed p fr st')"
      by (rule workingAgrees_change [OF inv, where C = "{p}"])
        (use st' rows(2-4) in \<open>auto simp: noteIndexed_def Let_def agreesAt_def filesOnly_def\<close>)
    with st' show ?thesis by simp
  qed (use run adm in \<open>simp add: applyReindexForState_def\<close>)
qed

lemma reindex_remove:
  assumes works: "storeWorks env" "chunk_inserter (SvInsert env)" and inv: "workingAgrees env fs st"
    and run: "applyReindexForState env [] ps st = (st', out)" and gone: "\<And>q. map_of w q = (if q \<in> set ps then None else map_of (DsWorking st) q)"
  shows "out = goOn" "workingAgrees env fs (st'\<lparr>DsWorking := w\<rparr>)" "DsWorking st' = DsWorking st" "DsDiff st' = DsDiff st"
proof -
  obtain s e where re: "Reindex env [] ps (DsStore st) = (s, e)" by force
  have ex: "PsExists (DsStore st)" using inv by (simp add: workingAgrees_def)
  have e: "e = None" using Reindex_works [OF works(1) ex, of "[]" ps] re by simp
  have st': "st' = st\<lparr>DsStore := s\<rparr>" "out = goOn" using run re e by (auto simp: applyReindexForState_def Admit_def)
  note rows = Reindex_rows [OF works(2) _ re, of "[]"]
  show "out = goOn" "DsWorking st' = DsWorking st" "DsDiff st' = DsDiff st" using st' by simp_all
  show "workingAgrees env fs (st'\<lparr>DsWorking := w\<rparr>)"
    by (rule workingAgrees_change [OF inv, where C = "set ps"])
      (use st' ex e rows(1) rows(2) rows(4) gone in \<open>auto simp: agreesAt_def filesOnly_def\<close>)
qed

section \<open>Changed files keep the agreement\<close>

text \<open>The disk still holds the captured snapshot: reading any captured file gives a content with the captured hash.\<close>

definition matchesDisk :: "fs_env \<Rightarrow> snapshot \<Rightarrow> bool" where
  "matchesDisk fs current \<longleftrightarrow> (\<forall>p h t. map_of (SnFiles current) p = Some h \<longrightarrow>
     (\<exists>content fr. indexResult fs p content fr \<and> IndexOne fs t p = Inr fr \<and> PfHash fr = h))"

lemma noteSkipped_keeps [simp]:
  "DsStore (noteSkipped p r st) = DsStore st" "DsWorking (noteSkipped p r st) = DsWorking st" "DsCheckpoint (noteSkipped p r st) = DsCheckpoint st"
  by (cases r; simp add: noteSkipped_def Let_def)+

lemma noteIndexed_working [simp]: "DsWorking (noteIndexed p fr st) = gm_put p (PfHash fr) (DsWorking st)"
  by (simp add: noteIndexed_def Let_def)

lemma handle_keeps:
  assumes works: "storeWorks env" "chunk_inserter (SvInsert env)" and inv: "syncInv env fs st" and sem: "DxSemantic cx"
    and run: "handleChangedFile env cx fs t p st = (st', out)"
  shows "out = stopped \<and> st' = st
    \<or> out = goOn \<and> syncInv env fs st' \<and> DsWorking st' = DsWorking st \<and> \<not> (matchesDisk fs current \<and> map_of (SnFiles current) p \<noteq> None)
    \<or> out = wentOn \<and> workingAgrees env fs st' \<and> (\<forall>q. q \<noteq> p \<longrightarrow> map_of (DsWorking st') q = map_of (DsWorking st) q)
        \<and> (matchesDisk fs current \<and> map_of (SnFiles current) p \<noteq> None \<longrightarrow> map_of (DsWorking st') p = map_of (SnFiles current) p)"
proof -
  have agr: "workingAgrees env fs st" using inv by (simp add: syncInv_def)
  have flags: "DoFallback goOn = False" "DoHandled goOn = False" "DoHandled stopped" by (simp_all add: outcome_defs)
  show ?thesis
  proof (cases "DxReadCancelled cx t \<or> (\<exists>e. IndexOne fs t p = Inl e)")
    case True
    with run have "out = stopped \<and> st' = st" by (auto simp: handleChangedFile_def split: if_splits)
    then show ?thesis by blast
  next
    case False
    then obtain fr where one: "IndexOne fs t p = Inr fr" by (metis sum.exhaust)
    have disk: "\<exists>content. indexResult fs p content fr \<and> map_of (SnFiles current) p = Some (PfHash fr)"
      if "matchesDisk fs current" "map_of (SnFiles current) p \<noteq> None" 
    proof -
      from that(2) obtain h where h: "map_of (SnFiles current) p = Some h" by blast
      with that(1) obtain content fr' where "indexResult fs p content fr'" "IndexOne fs t p = Inr fr'" "PfHash fr' = h" unfolding matchesDisk_def by meson
      with one h show ?thesis by auto
    qed
    then have plain: "\<not> PfRemoved fr \<and> \<not> PfSkipped fr" if "matchesDisk fs current" "map_of (SnFiles current) p \<noteq> None"
      using that by (force simp: indexResult_def newProcessedFile_def)
    consider (removed) "PfRemoved fr" | (skipped) "\<not> PfRemoved fr" "PfSkipped fr" | (indexed) "\<not> PfRemoved fr" "\<not> PfSkipped fr" by blast
    then show ?thesis
    proof cases
      case removed
      obtain u o1 where re: "applyReindexForState env [] [p] st = (u, o1)" by force
      note r = reindex_remove [OF works agr re, of "gm_del p (DsWorking st)"]
      from run False one removed sem re r(1,3) flags have "st' = u\<lparr>DsWorking := gm_del p (DsWorking st)\<rparr>" "out = wentOn"
        by (simp_all add: handleChangedFile_def handleRemovedFile_def)
      with r(2) plain removed show ?thesis by auto
    next
      case skipped
      with run False one have "st' = noteSkipped p (PfSkipReason fr) st" "out = goOn" by (auto simp: handleChangedFile_def)
      with inv plain skipped show ?thesis by (auto simp: syncInv_def workingAgrees_def)
    next
      case indexed
      from IndexOne_indexed(2) [OF one indexed(2,1)] obtain content where res: "indexResult fs p content fr" by (auto simp: indexResult_def)
      show ?thesis
      proof (cases "DxReuseFails cx t")
        case True
        with run False one indexed sem flags have "out = stopped \<and> st' = st" by (auto simp: handleChangedFile_def applyChangedFileSemantic_def)
        then show ?thesis by blast
      next
        case load: False
        obtain u o1 where re: "applyReindexForState env (PfChunks fr) [p] st = (u, o1)" by force
        from reindex_file [OF works agr res re] show ?thesis
        proof
          assume "o1 = stopped \<and> u = st"
          with run False one indexed sem flags load re have "out = stopped \<and> st' = st" by (auto simp: handleChangedFile_def applyChangedFileSemantic_def)
          then show ?thesis by blast
        next
          assume u: "o1 = goOn \<and> workingAgrees env fs (noteIndexed p fr u) \<and> DsWorking u = DsWorking st"
          with run False one indexed sem flags load re have "st' = noteIndexed p fr u" "out = wentOn"
            by (auto simp: handleChangedFile_def applyChangedFileSemantic_def)
          with u disk show ?thesis by auto
        qed
      qed
    qed
  qed
qed

lemma changes_keep:
  assumes works: "storeWorks env" "chunk_inserter (SvInsert env)" and sem: "DxSemantic cx" and wr: "\<forall>n. \<not> DxWriteFails cx n"
  shows "applyDeltaChanges env cx fs seed current [] t ps st = (st', out) \<Longrightarrow> syncInv env fs st \<Longrightarrow>
    \<forall>p\<in>set ps. map_of (SnFiles current) p \<noteq> None \<and> map_of (SnFiles seed) p \<noteq> map_of (SnFiles current) p \<Longrightarrow>
    syncInv env fs st' \<and> out \<in> {goOn, stopped} \<and> (\<forall>q. q \<notin> set ps \<longrightarrow> map_of (DsWorking st') q = map_of (DsWorking st) q)
    \<and> (out = goOn \<and> matchesDisk fs current
      \<and> (\<forall>q. q \<notin> set ps \<longrightarrow> map_of (DsWorking st) q = map_of (SnFiles current) q) \<longrightarrow> map_of (DsWorking st') = map_of (SnFiles current))"
proof (induction ps arbitrary: t st)
  case Nil
  then show ?case by (auto simp: outcome_defs)
next
  case (Cons p ps)
  have flags: "\<not> DoFallback goOn" "\<not> DoHandled goOn" "\<not> DoProgressed goOn" "DoHandled stopped" "\<not> DoFallback wentOn" "\<not> DoHandled wentOn" "DoProgressed wentOn" "stopped \<noteq> goOn"
    by (simp_all add: outcome_defs)
  have new: "\<not> (case map_of (SnFiles seed) p of None \<Rightarrow> False | Some seedHash \<Rightarrow> seedHash = gm_get0 [] (SnFiles current) p)"
    using Cons.prems(3) by (auto simp: gm_get0_def split: option.splits)
  show ?case
  proof (cases "DxCancelled cx t")
    case True
    with Cons.prems flags show ?thesis by auto
  next
    case False
    obtain u o1 where hd: "handleChangedFile env cx fs t p st = (u, o1)" by force
    let ?v = "if DoProgressed o1 then writeCheckpoint cx current u else u"
    note step = handle_keeps [OF works Cons.prems(2) sem hd, of current]
    show ?thesis
    proof (cases "o1 = stopped")
      case True
      with step flags have "u = st" by (auto simp: outcome_defs)
      with True Cons.prems(1,2) False new hd flags show ?thesis by auto
    next
      case go: False
      with step have v: "syncInv env fs ?v" using writeCheckpoint_inv [OF _ wr] flags by (auto simp: outcome_defs)
      have same: "map_of (DsWorking ?v) q = map_of (DsWorking st) q" if "q \<noteq> p" for q using step go that by auto
      have out1: "\<not> (DoFallback o1 \<or> DoHandled o1)" using go step flags by auto
      show ?thesis
      proof (cases "DxJobStops cx t")
        case True
        with Cons.prems(1) False new hd out1 have "st' = ?v" "out = stopped" by (auto simp: Let_def)
        with v flags same show ?thesis by simp
      next
        case cont: False
        from Cons.prems(1) False new hd out1 cont have "applyDeltaChanges env cx fs seed current [] (Suc t) ps ?v = (st', out)" by (auto simp: Let_def)
        from Cons.IH [OF this v] Cons.prems(3) have ih: "syncInv env fs st' \<and> out \<in> {goOn, stopped}
            \<and> (\<forall>q. q \<notin> set ps \<longrightarrow> map_of (DsWorking st') q = map_of (DsWorking ?v) q) \<and> (out = goOn \<and> matchesDisk fs current
            \<and> (\<forall>q. q \<notin> set ps \<longrightarrow> map_of (DsWorking ?v) q = map_of (SnFiles current) q) \<longrightarrow> map_of (DsWorking st') = map_of (SnFiles current))" by simp
        have "map_of (DsWorking ?v) q = map_of (SnFiles current) q" if "matchesDisk fs current"
          "\<forall>q. q \<notin> set (p # ps) \<longrightarrow> map_of (DsWorking st) q = map_of (SnFiles current) q" "q \<notin> set ps" for q
          using step go that Cons.prems(3) flags by (cases "q = p") auto
        moreover have "map_of (DsWorking st') q = map_of (DsWorking st) q" if "q \<notin> set (p # ps)" for q
          using ih same [of q] that by auto
        ultimately show ?thesis using ih by blast
      qed
    qed
  qed
qed

section \<open>Renames and removals keep the agreement\<close>

lemma pickRenameSource_found:
  "pickRenameSource cs files h \<noteq> [] \<Longrightarrow> pickRenameSource cs files h \<in> set cs \<and> gm_get0 [] files (pickRenameSource cs files h) = h"
proof (cases "find (\<lambda>c. gm_get0 [] files c = h) cs")
  case (Some c)
  then have "c \<in> set cs" "gm_get0 [] files c = h" by (auto simp: find_Some_iff in_set_conv_nth)
  with Some show ?thesis by (simp add: pickRenameSource_def)
qed (simp add: pickRenameSource_def)

lemma deltaRename_step:
  obtains "deltaRename_loop seed current removed forced matched (a # added) = deltaRename_loop seed current removed forced matched added"
  | p where "deltaRename_loop seed current removed forced matched (a # added) = p # deltaRename_loop seed current removed forced (DpSource p # matched) added"
    "DpDestination p = a" "DpSource p \<in> set removed" "gm_get0 [] (SnFiles seed) (DpSource p) = DpHash p" "DpHash p = gm_get0 [] (SnFiles current) a"
proof (cases "a \<in> set forced \<or> map_of (SnInodes current) a = None")
  case True
  then show thesis by (auto intro: that(1))
next
  case False
  then obtain inode where inode: "map_of (SnInodes current) a = Some inode" by blast
  let ?cs = "sort (filter (\<lambda>c. c \<in> set removed \<and> c \<notin> set matched) (LookupByInode seed inode))"
  let ?source = "pickRenameSource ?cs (SnFiles seed) (gm_get0 [] (SnFiles current) a)"
  show thesis
  proof (cases "?source = []")
    case True
    with False inode show thesis by (intro that(1)) (simp add: Let_def)
  next
    case found: False
    let ?p = "\<lparr>DpSource = ?source, DpDestination = a, DpHash = gm_get0 [] (SnFiles current) a\<rparr>"
    from False inode found have "deltaRename_loop seed current removed forced matched (a # added) = ?p # deltaRename_loop seed current removed forced (DpSource ?p # matched) added"
      by (simp add: Let_def)
    moreover have "DpSource ?p \<in> set removed" "gm_get0 [] (SnFiles seed) (DpSource ?p) = DpHash ?p" using pickRenameSource_found [OF found] by auto
    ultimately show thesis by (intro that(2) [of ?p]) simp_all
  qed
qed

lemma deltaRename_props:
  "r \<in> set (deltaRename_loop seed current removed forced matched added) \<Longrightarrow>
     DpDestination r \<in> set added \<and> DpSource r \<in> set removed \<and> gm_get0 [] (SnFiles seed) (DpSource r) = DpHash r
     \<and> DpHash r = gm_get0 [] (SnFiles current) (DpDestination r)"
proof (induction added arbitrary: matched)
  case (Cons a added)
  from Cons.prems Cons.IH show ?case by (cases rule: deltaRename_step [of seed current removed forced matched a added]) auto
qed simp

lemma deltaRename_distinct: "distinct added \<Longrightarrow> distinct (map DpDestination (deltaRename_loop seed current removed forced matched added))"
proof (induction added arbitrary: matched)
  case (Cons a added)
  have "DpDestination ` set (deltaRename_loop seed current removed forced m added) \<subseteq> set added" for m using deltaRename_props by blast
  with Cons show ?case by (cases rule: deltaRename_step [of seed current removed forced matched a added]) auto
qed simp

lemma recordPairs:
  assumes "distinct (map DpDestination ps)" "DpSource ` set ps \<inter> DpDestination ` set ps = {}"
  shows "r \<in> set ps \<Longrightarrow> map_of (DsWorking (fold recordPair ps st)) (DpDestination r) = Some (DpHash r)"
    and "r \<in> set ps \<Longrightarrow> map_of (DsWorking (fold recordPair ps st)) (DpSource r) = None"
    and "q \<notin> DpSource ` set ps \<union> DpDestination ` set ps \<Longrightarrow> map_of (DsWorking (fold recordPair ps st)) q = map_of (DsWorking st) q"
proof -
  have "(r \<in> set ps \<longrightarrow> map_of (DsWorking (fold recordPair ps st)) (DpDestination r) = Some (DpHash r)
        \<and> map_of (DsWorking (fold recordPair ps st)) (DpSource r) = None)
      \<and> (q \<notin> DpSource ` set ps \<union> DpDestination ` set ps \<longrightarrow> map_of (DsWorking (fold recordPair ps st)) q = map_of (DsWorking st) q)" for r q
    using assms
  proof (induction ps arbitrary: r q rule: rev_induct)
    case (snoc p ps)
    have ih: "(r \<in> set ps \<longrightarrow> map_of (DsWorking (fold recordPair ps st)) (DpDestination r) = Some (DpHash r)
        \<and> map_of (DsWorking (fold recordPair ps st)) (DpSource r) = None)
      \<and> (q \<notin> DpSource ` set ps \<union> DpDestination ` set ps \<longrightarrow> map_of (DsWorking (fold recordPair ps st)) q = map_of (DsWorking st) q)" for r q
      by (rule snoc.IH) (use snoc.prems in auto)
    have sep: "DpSource r \<noteq> DpDestination s" if "r \<in> set (ps @ [p])" "s \<in> set (ps @ [p])" for r s using snoc.prems(2) that by blast
    have fresh: "DpDestination r \<noteq> DpDestination p" if "r \<in> set ps" for r
      using snoc.prems(1) that by (metis distinct_append disjoint_iff image_eqI list.set_intros(1) list.set_map map_append list.simps(9))
    have step: "map_of (DsWorking (fold recordPair (ps @ [p]) st)) x
        = (if x = DpSource p then None else if x = DpDestination p then Some (DpHash p) else map_of (DsWorking (fold recordPair ps st)) x)" for x
      by (simp add: recordPair_def [of p])
    have last: "map_of (DsWorking (fold recordPair (ps @ [p]) st)) (DpDestination p) = Some (DpHash p)"
      "map_of (DsWorking (fold recordPair (ps @ [p]) st)) (DpSource p) = None" using sep [of p p] by (auto simp: step simp del: fold_append)
    have rest: "map_of (DsWorking (fold recordPair (ps @ [p]) st)) (DpDestination r) = Some (DpHash r)"
      "map_of (DsWorking (fold recordPair (ps @ [p]) st)) (DpSource r) = None" if "r \<in> set ps"
      using ih [of r q] that sep [of p r] sep [of r p] fresh [OF that] unfolding step by auto
    show ?case
    proof (intro conjI impI)
      assume "r \<in> set (ps @ [p])"
      then show "map_of (DsWorking (fold recordPair (ps @ [p]) st)) (DpDestination r) = Some (DpHash r)"
        "map_of (DsWorking (fold recordPair (ps @ [p]) st)) (DpSource r) = None" using last rest by (cases "r = p"; simp)+
    next
      assume "q \<notin> DpSource ` set (ps @ [p]) \<union> DpDestination ` set (ps @ [p])"
      then show "map_of (DsWorking (fold recordPair (ps @ [p]) st)) q = map_of (DsWorking st) q" using ih [of r q] unfolding step by auto
    qed
  qed simp
  then show "r \<in> set ps \<Longrightarrow> map_of (DsWorking (fold recordPair ps st)) (DpDestination r) = Some (DpHash r)"
    "r \<in> set ps \<Longrightarrow> map_of (DsWorking (fold recordPair ps st)) (DpSource r) = None"
    "q \<notin> DpSource ` set ps \<union> DpDestination ` set ps \<Longrightarrow> map_of (DsWorking (fold recordPair ps st)) q = map_of (DsWorking st) q" by blast+
qed

lemma recordPairs_keep [simp]:
  "DsStore (fold recordPair ps st) = DsStore st" "DsDiff (fold recordPair ps st) = DsDiff st" "DsCheckpoint (fold recordPair ps st) = DsCheckpoint st"
proof -
  have "DsStore (fold recordPair ps st) = DsStore st \<and> DsDiff (fold recordPair ps st) = DsDiff st \<and> DsCheckpoint (fold recordPair ps st) = DsCheckpoint st"
    by (induction ps arbitrary: st) (simp_all add: recordPair_def)
  then show "DsStore (fold recordPair ps st) = DsStore st" "DsDiff (fold recordPair ps st) = DsDiff st"
    "DsCheckpoint (fold recordPair ps st) = DsCheckpoint st" by blast+
qed

text \<open>What is left to do: listed changes are real, and every path that is not listed is in its final state.\<close>

definition remaining :: "snapshot \<Rightarrow> snapshot \<Rightarrow> 'x delta_state \<Rightarrow> bool" where
  "remaining seed current st \<longleftrightarrow>
     (\<forall>p\<in>set (DfAdded (DsDiff st)) \<union> set (DfModified (DsDiff st)). map_of (SnFiles current) p \<noteq> None \<and> map_of (SnFiles seed) p \<noteq> map_of (SnFiles current) p)
     \<and> (\<forall>p\<in>set (DfRemoved (DsDiff st)). map_of (SnFiles current) p = None)
     \<and> (\<forall>q. q \<notin> set (DfAdded (DsDiff st)) \<union> set (DfModified (DsDiff st)) \<union> set (DfRemoved (DsDiff st)) \<longrightarrow>
          map_of (DsWorking st) q = map_of (SnFiles current) q)"

lemma copiedPairs_eq: "copiedPairs ps (map (\<lambda>p. length (f p)) ps) = filter (\<lambda>p. f p \<noteq> []) ps"
  by (induction ps) (simp_all add: copiedPairs_def)

lemma renames_keep:
  assumes works: "storeWorks env" "chunk_inserter (SvInsert env)" and wr: "\<forall>n. \<not> DxWriteFails cx n"
    and wf: "gm_wf (SnFiles seed)" "gm_wf (SnFiles current)" and inv: "syncInv env fs st"
    and start: "DsWorking st = SnFiles seed" "DsDiff st = DiffSnapshots seed current"
    and run: "applyDeltaRenameCopies env cx seed current [] st = (st', out)"
  shows "syncInv env fs st' \<and> remaining seed current st' \<and> out \<in> {goOn, stopped, wentOn}"
proof -
  let ?d = "DsDiff st" and ?pairs = "deltaRenamePairs seed current (DsDiff st) [] (DxInodesDisabled cx)"
  note sets = diff_sets [OF wf, folded start(2)]
  have rem0: "remaining seed current st" unfolding remaining_def sets start(1) by auto
  show ?thesis
  proof (cases "\<not> DxSemantic cx \<or> ?pairs = []")
    case True
    with run have "st' = st" "out = goOn" by (auto simp: applyDeltaRenameCopies_def Let_def split: if_splits)
    with inv rem0 show ?thesis by simp
  next
    case False
    then have pairs: "?pairs = deltaRename_loop seed current (DfRemoved ?d) [] [] (DfAdded ?d)" by (auto simp: deltaRenamePairs_def)
    have "distinct (DfAdded ?d)" using diff_sorted(1) [OF wf] unfolding start(2) by (simp add: strict_sorted_iff)
    then have dist: "distinct (map DpDestination ?pairs)" unfolding pairs by (rule deltaRename_distinct)
    have pr: "DpDestination r \<in> set (DfAdded ?d) \<and> DpSource r \<in> set (DfRemoved ?d) \<and> map_of (SnFiles seed) (DpSource r) = Some (DpHash r)
        \<and> map_of (SnFiles current) (DpDestination r) = Some (DpHash r)" if "r \<in> set ?pairs" for r
      using deltaRename_props [OF that [unfolded pairs]] sets(1,3) by (auto simp: gm_get0_def split: option.splits)
    have "set (DfAdded ?d) \<inter> set (DfRemoved ?d) = {}" unfolding sets by auto
    moreover have "DpSource ` set ?pairs \<subseteq> set (DfRemoved ?d)" "DpDestination ` set ?pairs \<subseteq> set (DfAdded ?d)" using pr by auto
    ultimately have sep: "DpSource ` set ?pairs \<inter> DpDestination ` set ?pairs = {}" by (meson disjoint_iff subsetD)
    have agr: "PsExists (DsStore st)" "agreesAt env fs (DsStore st) (filesOnly (SnFiles seed)) q" for q
      using inv by (simp_all add: syncInv_def workingAgrees_def start(1))
    have "rowsOf (DpDestination r) (DsStore st) = []" if "r \<in> set ?pairs" for r
      using agr(2) [of "DpDestination r"] pr [OF that] sets(1) by (auto simp: agreesAt_def filesOnly_def)
    then have empty: "\<forall>r\<in>set ?pairs. rowsOf (DpDestination r) (DsStore st) = []" by blast
    obtain s counts e where cp: "CopyChunks env (pairCopies ?pairs) (DsStore st) = (s, counts, e)" by (metis prod_cases3)
    note c = copyPairs_rows [OF works(1) agr(1) cp [unfolded pairCopies_def] dist sep empty]
    define copied where "copied = filter (\<lambda>r. rowsOf (DpSource r) (DsStore st) \<noteq> []) ?pairs"
    have cps: "copiedPairs ?pairs counts = copied" unfolding c(3) copied_def by (rule copiedPairs_eq)
    have sub: "set copied \<subseteq> set ?pairs" and dist': "distinct (map DpDestination copied)" using dist by (auto simp: copied_def distinct_map_filter)
    then have sep': "DpSource ` set copied \<inter> DpDestination ` set copied = {}" using sep by blast
    let ?u = "fold recordPair copied (st\<lparr>DsStore := s\<rparr>)"
    note rp = recordPairs [OF dist' sep', where st = "st\<lparr>DsStore := s\<rparr>"]
    have u: "workingAgrees env fs ?u"
    proof (rule workingAgrees_change [where st = st and C = "DpSource ` set copied \<union> DpDestination ` set copied"])
      show "workingAgrees env fs st" using inv by (simp add: syncInv_def)
      show "rowsOf q (DsStore ?u) = rowsOf q (DsStore st)" if "q \<notin> DpSource ` set copied \<union> DpDestination ` set copied" for q
        using c(6) [of q] that by (simp add: copied_def)
      show "map_of (DsWorking ?u) q = map_of (DsWorking st) q" if "q \<notin> DpSource ` set copied \<union> DpDestination ` set copied" for q
        using rp(3) [OF that] by simp
      show "agreesAt env fs (DsStore ?u) (filesOnly (DsWorking ?u)) q" if "q \<in> DpSource ` set copied \<union> DpDestination ` set copied" for q
        using that
      proof
        assume "q \<in> DpSource ` set copied"
        then obtain r where r: "r \<in> set copied" "q = DpSource r" by blast
        with rp(2) [OF r(1)] c(4) [of r] sub show ?thesis by (auto simp: agreesAt_def filesOnly_def)
      next
        assume "q \<in> DpDestination ` set copied"
        then obtain r where r: "r \<in> set copied" "q = DpDestination r" by blast
        with sub have "r \<in> set ?pairs" by blast
        then have "indexedRows env fs q (DpHash r) (rowsOf q s)"
          using c(5) [of r] agr(2) [of "DpSource r"] pr [of r] r(2) by (auto simp: agreesAt_def filesOnly_def intro: indexedRows.copied)
        with rp(1) [OF r(1)] r(2) show ?thesis by (simp add: agreesAt_def filesOnly_def)
      qed
    qed (use c(2) in simp)
    have run': "applyDeltaRenameCopies env cx seed current [] st = (if copied = [] then (?u, goOn) else (writeCheckpoint cx current (?u\<lparr>DsDiff :=
        \<lparr>DfAdded = pathsWithout (DfAdded ?d) (map DpDestination copied), DfModified = DfModified ?d, DfRemoved = pathsWithout (DfRemoved ?d) (map DpSource copied)\<rparr>\<rparr>),
        if DxRenameStops cx then stopped else wentOn))"
      using False cp c(1) cps by (auto simp: applyDeltaRenameCopies_def Let_def)
    show ?thesis
    proof (cases "copied = []")
      case True
      with run run' have "st' = ?u" "out = goOn" by simp_all
      with True u inv rem0 show ?thesis by (simp add: syncInv_def remaining_def)
    next
      case some: False
      let ?v = "?u\<lparr>DsDiff := \<lparr>DfAdded = pathsWithout (DfAdded ?d) (map DpDestination copied), DfModified = DfModified ?d,
        DfRemoved = pathsWithout (DfRemoved ?d) (map DpSource copied)\<rparr>\<rparr>"
      have v: "workingAgrees env fs ?v" using u by (simp add: workingAgrees_def)
      have "map_of (DsWorking ?v) q = map_of (SnFiles current) q"
        if "q \<notin> set (DfAdded (DsDiff ?v)) \<union> set (DfModified (DsDiff ?v)) \<union> set (DfRemoved (DsDiff ?v))" for q
      proof -
        consider (source) r where "r \<in> set copied" "q = DpSource r" | (dest) r where "r \<in> set copied" "q = DpDestination r"
          | (other) "q \<notin> DpSource ` set copied \<union> DpDestination ` set copied" by blast
        then show ?thesis
        proof cases
          case source
          with rp(2) pr [of r] sub sets(3) show ?thesis by auto
        next
          case dest
          with rp(1) pr [of r] sub show ?thesis by auto
        next
          case other
          with that rem0 rp(3) [OF other] show ?thesis by (auto simp: remaining_def pathsWithout_def image_iff)
        qed
      qed
      with rem0 have rem: "remaining seed current ?v" by (auto simp: remaining_def pathsWithout_def)
      have st': "st' = writeCheckpoint cx current ?v" "out \<in> {stopped, wentOn}" using run run' some by (simp_all split: if_splits)
      have "remaining seed current st'" using rem unfolding st'(1) by (simp add: remaining_def)
      with writeCheckpoint_inv [OF v wr] st' show ?thesis by auto
    qed
  qed
qed

lemma fold_del: "map_of (fold gm_del ps m) q = (if q \<in> set ps then None else map_of m q)"
  by (induction ps arbitrary: m) auto

lemma removals_keep:
  assumes works: "storeWorks env" "chunk_inserter (SvInsert env)" and wr: "\<forall>n. \<not> DxWriteFails cx n" and sem: "DxSemantic cx"
    and wf: "gm_wf (SnFiles seed)" "gm_wf (SnFiles current)" and inv: "syncInv env fs st"
    and start: "DsWorking st = SnFiles seed" "DsDiff st = DiffSnapshots seed current"
    and run: "applyDeltaRemovals env cx seed current [] st = (st', out)"
  shows "syncInv env fs st' \<and> remaining seed current st' \<and> out \<in> {goOn, stopped}
    \<and> (out = goOn \<longrightarrow> (\<forall>q. q \<notin> set (DfAdded (DsDiff st')) \<union> set (DfModified (DsDiff st')) \<longrightarrow> map_of (DsWorking st') q = map_of (SnFiles current) q))"
proof -
  have flags: "\<not> DoHandled goOn" "DoHandled stopped" "\<not> DoHandled wentOn" "\<not> DoFallback goOn" "stopped \<noteq> goOn" by (simp_all add: outcome_defs)
  obtain u o1 where ren: "applyDeltaRenameCopies env cx seed current [] st = (u, o1)" by force
  note u = renames_keep [OF works wr wf inv start ren]
  let ?rm = "DfRemoved (DsDiff u)" and ?w = "fold gm_del (DfRemoved (DsDiff u)) (DsWorking u)"
  show ?thesis
  proof (cases "DoHandled o1 \<or> ?rm = []")
    case True
    with run ren sem u flags have "st' = u" "out = (if DoHandled o1 then o1 else goOn)" by (auto simp: applyDeltaRemovals_def Let_def)
    with True u flags show ?thesis by (auto simp: remaining_def)
  next
    case False
    obtain v o2 where re: "applyReindexForState env [] ?rm u = (v, o2)" by force
    have "workingAgrees env fs u" using u by (simp add: syncInv_def)
    note r = reindex_remove [OF works this re, of ?w, unfolded fold_del, OF refl]
    let ?x = "v\<lparr>DsWorking := ?w\<rparr>"
    from run ren False sem re r(1,3) flags have st': "st' = writeCheckpoint cx current ?x" "out = (if DxRemovalStops cx then stopped else goOn)"
      by (simp_all add: applyDeltaRemovals_def Let_def)
    have final: "map_of (DsWorking st') q = map_of (SnFiles current) q" if "q \<notin> set (DfAdded (DsDiff st')) \<union> set (DfModified (DsDiff st'))" for q
      using u that r(4) by (auto simp: st'(1) fold_del remaining_def)
    with u r(4) have "remaining seed current st'" by (auto simp: st'(1) remaining_def)
    with writeCheckpoint_inv [OF r(2) wr] st' final flags show ?thesis by auto
  qed
qed

lemma prune_keeps:
  assumes works: "storeWorks env" and inv: "syncInv env fs st" and only: "\<And>q. map_of (SnFiles current) q = None \<Longrightarrow> map_of (DsWorking st) q = None"
    and run: "pruneAfterStreaming env current st = (st', out)"
  shows "syncInv env fs st' \<and> DsWorking st' = DsWorking st \<and> out = goOn"
proof -
  let ?paths = "sort (map fst (SnFiles current))"
  have agr: "workingAgrees env fs st" "PsExists (DsStore st)" using inv by (simp_all add: syncInv_def workingAgrees_def)
  obtain s e where pr: "PruneToCurrent env ?paths (DsStore st) = (s, e)" by force
  have res: "e = None \<and> (if ?paths = [] then s = DsStore st
      else s = (DsStore st)\<lparr>PsCalls := Suc (Suc (Suc (PsCalls (DsStore st)))), PsRows := filter (\<lambda>r. rowPath r \<in> set ?paths) (PsRows (DsStore st))\<rparr>)"
    using pr agr(2) by (auto simp: PruneToCurrent_def readPath_works [OF works] pathCall_works [OF works] andThen_def split: if_splits)
  have e: "e = None" and ex: "PsExists s" using res agr(2) by (auto split: if_splits)
  have "filter (\<lambda>r. rowPath r \<in> S) (rowsOf q t) = (if q \<in> S then rowsOf q t else [])" for q S and t :: "'a path_store"
    by (auto simp: rowsOf_def filter_empty_conv simp del: filter_filter intro!: filter_True)
  then have rows: "rowsOf q s = (if ?paths = [] \<or> q \<in> set ?paths then rowsOf q (DsStore st) else [])" for q
    using res by (simp split: if_splits)
  have st': "st' = st\<lparr>DsStore := s\<rparr>" "out = goOn" using run pr e by (auto simp: pruneAfterStreaming_def)
  have "rowsOf q s = rowsOf q (DsStore st)" for q
  proof (cases "q \<in> set ?paths")
    case False
    then have "map_of (SnFiles current) q = None" by (simp add: map_of_eq_None_iff)
    then have "agreesAt env fs (DsStore st) (filesOnly (DsWorking st)) q \<longrightarrow> rowsOf q (DsStore st) = []" using only by (simp add: agreesAt_def filesOnly_def)
    with agr(1) False show ?thesis by (simp add: rows workingAgrees_def)
  qed (simp add: rows)
  then have "workingAgrees env fs st'" by (intro workingAgrees_change [OF agr(1), where C = "{}"]) (use st' ex in auto)
  with inv st' show ?thesis by (simp add: syncInv_def)
qed

lemma complete_keeps:
  assumes inv: "syncInv env fs st" and wr: "\<forall>n. \<not> DxWriteFails cx n" and run: "completeRun cx current st = (st', fin)"
  shows "syncInv env fs st' \<and> fin = RunCompleted \<and> DsWorking st' = DsWorking st"
proof (cases "DsWorking st = []")
  case False
  with run have "st' = writeCheckpoint cx current st" "fin = RunCompleted" by (auto simp: completeRun_def)
  with writeCheckpoint_inv [OF _ wr, of env fs st] inv show ?thesis by (simp add: syncInv_def)
qed (use assms in \<open>auto simp: completeRun_def\<close>)

lemma applyDelta_keeps:
  assumes works: "storeWorks env" "chunk_inserter (SvInsert env)" and wr: "\<forall>n. \<not> DxWriteFails cx n" and sem: "DxSemantic cx"
    and wf: "gm_wf (SnFiles seed)" "gm_wf (SnFiles current)" and inv: "syncInv env fs st"
    and start: "DsWorking st = SnFiles seed" "DsDiff st = DiffSnapshots seed current"
    and run: "applyDelta env cx fs seed current [] st = (st', fin)"
  shows "syncInv env fs st' \<and> fin \<in> {RunStopped, RunCompleted}
    \<and> (fin = RunCompleted \<and> matchesDisk fs current \<longrightarrow> map_of (DsWorking st') = map_of (SnFiles current))"
proof -
  have flags: "\<not> DoHandled goOn" "DoHandled stopped" "\<not> DoFallback goOn" "\<not> DoFallback stopped" "stopped \<noteq> goOn" by (simp_all add: outcome_defs)
  obtain u o1 where rm: "applyDeltaRemovals env cx seed current [] st = (u, o1)" by force
  note u = removals_keep [OF works wr sem wf inv start rm]
  let ?ps = "DfAdded (DsDiff u) @ DfModified (DsDiff u)"
  show ?thesis
  proof (cases "o1 = stopped \<or> DfAdded (DsDiff u) \<noteq> [] \<and> DxSeedReuseFails cx")
    case True
    with run rm sem u flags have "st' = u" "fin = RunStopped" by (auto simp: applyDelta_def endOf_def split: if_splits)
    with u show ?thesis by simp
  next
    case False
    with u have o1: "o1 = goOn" by auto
    obtain v o2 where ch: "applyDeltaChanges env cx fs seed current [] 0 ?ps u = (v, o2)" by force
    have todo: "\<forall>p\<in>set ?ps. map_of (SnFiles current) p \<noteq> None \<and> map_of (SnFiles seed) p \<noteq> map_of (SnFiles current) p"
      using u by (simp add: remaining_def)
    have before: "\<forall>q. q \<notin> set ?ps \<longrightarrow> map_of (DsWorking u) q = map_of (SnFiles current) q" using u o1 by auto
    have uinv: "syncInv env fs u" using u by blast
    note v = changes_keep [OF works sem wr ch uinv todo]
    show ?thesis
    proof (cases "o2 = stopped")
      case True
      with run rm ch o1 False sem flags have "st' = v" "fin = RunStopped" by (auto simp: applyDelta_def endOf_def)
      with v show ?thesis by simp
    next
      case go: False
      with v have o2: "o2 = goOn" by auto
      obtain w o3 where pr: "(if DxStreaming cx \<and> DxSemantic cx then pruneAfterStreaming env current v else (v, goOn)) = (w, o3)" by force
      have only: "map_of (DsWorking v) q = None" if "map_of (SnFiles current) q = None" for q
      proof -
        have "q \<notin> set ?ps" using todo that by blast
        with v before that show ?thesis by simp
      qed
      have vinv: "syncInv env fs v" using v by blast
      have w: "syncInv env fs w \<and> DsWorking w = DsWorking v \<and> o3 = goOn"
      proof (cases "DxStreaming cx")
        case True
        with pr sem have "pruneAfterStreaming env current v = (w, o3)" by simp
        from prune_keeps [OF works(1) vinv only this] show ?thesis by simp
      qed (use pr vinv in auto)
      have "applyDelta env cx fs seed current [] st = (if DxTotalsFail cx then (w, RunStopped) else completeRun cx current w)"
        using False by (auto simp: applyDelta_def rm ch o1 o2 flags pr w)
      with run have res: "(st', fin) = (if DxTotalsFail cx then (w, RunStopped) else completeRun cx current w)" by simp
      show ?thesis
      proof (cases "DxTotalsFail cx")
        case True
        with res w show ?thesis by simp
      next
        case ok: False
        from ok res complete_keeps [OF conjunct1 [OF w] wr, of current st' fin] have "syncInv env fs st' \<and> fin = RunCompleted \<and> DsWorking st' = DsWorking w" by simp
        with w v o2 before show ?thesis by simp
      qed
    qed
  qed
qed

section \<open>The run is exact\<close>

text \<open>
  C11: An incremental sync is exact. Suppose requests to the store and writes of the checkpoint work, and
  at the start the store agrees with the checkpoint the run is seeded with. Whatever stops the run, a
  cancellation, a full budget, a quarantine or an unreadable file, the store agrees with the checkpoint on
  disk afterwards. If the run completes and the disk still held the captured snapshot, the checkpoint
  records exactly the captured files with their hashes, so the next comparison is empty. Renames need no
  further condition here, since their sources are gone from the captured snapshot.
\<close>

theorem delta_sync_exact:
  assumes works: "storeWorks env" "chunk_inserter (SvInsert env)" and wr: "\<And>n. \<not> DxWriteFails cx n" and sem: "DxSemantic cx"
    and wf: "gm_wf (SnFiles seed)" "gm_wf (SnFiles current)" and start: "PsExists s" "\<And>q. agreesAt env fs s seed q"
    and seeded: "map_of (SnFiles checkpoint) = map_of (SnFiles seed)"
    and run: "runDeltaSync env cx fs fileExists evidence (Some c) checkpoint seed (Inr current) adm s = (st, fin)"
  shows "(\<forall>q. agreesAt env fs (DsStore st) (DsCheckpoint st) q)
    \<and> (fin = RunCompleted \<and> matchesDisk fs current \<longrightarrow>
        map_of (SnFiles (DsCheckpoint st)) = map_of (SnFiles current) \<and> (gm_wf (SnFiles (DsCheckpoint st)) \<longrightarrow> DiffEmpty (DiffSnapshots (DsCheckpoint st) current)))"
proof -
  let ?d = "DiffSnapshots seed current" and ?st = "startState checkpoint seed adm (DiffSnapshots seed current) s"
  have wr': "\<forall>n. \<not> DxWriteFails cx n" using wr by blast
  have inv: "syncInv env fs ?st" using start seeded by (simp add: syncInv_def workingAgrees_def startState_def filesOnly_def agreesAt_def)
  have "syncInv env fs st \<and> (fin = RunCompleted \<and> matchesDisk fs current \<longrightarrow> map_of (DsWorking st) = map_of (SnFiles current))"
  proof (cases "DiffEmpty ?d")
    case True
    have "{p. map_of (SnFiles seed) p \<noteq> map_of (SnFiles current) p} = set (DfAdded ?d) \<union> set (DfModified ?d) \<union> set (DfRemoved ?d)"
      unfolding diff_sets [OF wf] by auto
    with True have same: "map_of (SnFiles seed) = map_of (SnFiles current)" by (auto simp: DiffEmpty_def)
    show ?thesis
    proof (cases "decideEmptyDiffMode evidence (length (SnFiles seed)) = FallbackBootstrap")
      case True
      with run \<open>DiffEmpty ?d\<close> inv show ?thesis by (auto simp: runDeltaSync_def unionForcedItems_def)
    next
      case False
      have "syncInv env fs (?st\<lparr>DsWorking := SnFiles current\<rparr>)"
        using inv by (simp add: syncInv_def workingAgrees_def startState_def agreesAt_def filesOnly_def same)
      moreover from run True False have "completeRun cx current (?st\<lparr>DsWorking := SnFiles current\<rparr>) = (st, fin)"
        by (simp add: runDeltaSync_def unionForcedItems_def)
      ultimately show ?thesis using complete_keeps [OF _ wr'] by (metis delta_state.select_convs(2) delta_state.update_convs(2) delta_state.surjective)
    qed
  next
    case False
    show ?thesis
    proof (cases "assessDeltaDeleteWave fileExists c ?d seed")
      case None
      with run False have "applyDelta env cx fs seed current [] ?st = (st, fin)" by (simp add: runDeltaSync_def unionForcedItems_def)
      moreover have "DsWorking ?st = SnFiles seed" "DsDiff ?st = ?d" by (simp_all add: startState_def)
      ultimately show ?thesis using applyDelta_keeps [OF works wr' sem wf inv] by blast
    next
      case (Some signal)
      with run False have "st = ?st" "fin = RunQuarantined signal" by (auto simp: runDeltaSync_def unionForcedItems_def)
      with inv show ?thesis by simp
    qed
  qed
  then have agr: "\<forall>q. agreesAt env fs (DsStore st) (filesOnly (DsWorking st)) q" and ck: "map_of (SnFiles (DsCheckpoint st)) = map_of (DsWorking st)"
    and fin: "fin = RunCompleted \<and> matchesDisk fs current \<longrightarrow> map_of (DsWorking st) = map_of (SnFiles current)" by (auto simp: syncInv_def workingAgrees_def)
  have "\<forall>q. agreesAt env fs (DsStore st) (DsCheckpoint st) q" using agr ck by (simp add: agreesAt_def filesOnly_def)
  moreover have "DiffEmpty (DiffSnapshots (DsCheckpoint st) current)"
    if "map_of (SnFiles (DsCheckpoint st)) = map_of (SnFiles current)" "gm_wf (SnFiles (DsCheckpoint st))"
  proof -
    have "set (DfAdded (DiffSnapshots (DsCheckpoint st) current)) = {}" "set (DfModified (DiffSnapshots (DsCheckpoint st) current)) = {}"
      "set (DfRemoved (DiffSnapshots (DsCheckpoint st) current)) = {}" unfolding diff_sets [OF that(2) wf(2)] that(1) by auto
    then show ?thesis by (simp add: DiffEmpty_def)
  qed
  ultimately show ?thesis using fin ck by simp
qed

section \<open>Waves of removals\<close>

lemma sint_small: "0 \<le> n \<Longrightarrow> n < 2 ^ 31 \<Longrightarrow> sint (word_of_int n :: 32 word) = n"
  by (simp add: sint_sbintrunc' signed_take_bit_int_eq_self)

lemma large_removal_counts:
  fixes m n :: nat
  assumes "n < 2 ^ 29" "m < 2 ^ 29" "n > 0"
  shows "shouldQuarantineLargeRemoval c (safeInt32 (int m)) (safeInt32 (int n))
    \<longleftrightarrow> CbKind c = KindCode \<and> CbLastRunFiles c \<noteq> None \<and> 100 \<le> m \<and> n \<le> 4 * m"
proof -
  have clamp: "safeInt32FromInt (int k) = int k" if "k < 2 ^ 29" for k :: nat using that by (simp add: safeInt32FromInt_def)
  have four: "(word_of_int (int m) * 4 :: 32 word) = word_of_int (int (4 * m))" by (metis mult.commute of_int_mult of_int_numeral of_nat_mult of_nat_numeral)
  have sints: "sint (word_of_int (int m) :: 32 word) = int m" "sint (word_of_int (int n) :: 32 word) = int n" "sint (word_of_int (int (4 * m)) :: 32 word) = int (4 * m)"
    by (rule sint_small; use assms in simp)+
  show ?thesis unfolding shouldQuarantineLargeRemoval_def safeInt32_def clamp [OF assms(1)] clamp [OF assms(2)] suspiciousRemovalAbsoluteThreshold_def
    suspiciousRemovalRatioNumerator_def suspiciousRemovalRatioDenominator_def mult_1_right four word_sle_eq word_sless_alt sints
    using assms by auto
qed

lemma quarantine_twice:
  assumes "CbQuarantine c = None" "QgTrigger signal = quarantineTriggerFullScan"
  shows "\<not> quarantineConfirmed (applyQuarantineState signal c)" "quarantineConfirmed (applyQuarantineState signal (applyQuarantineState signal c))"
  using assms by (simp_all add: quarantineConfirmed_def applyQuarantineState_def quarantineConfirmationObservations_def word_sle_eq)

lemma confirmed_twice:
  assumes "CbQuarantine c = None" "QgTrigger signal = quarantineTriggerFullScan"
  shows "quarantineConfirmed (applyQuarantineState signal (applyQuarantineState first c))"
  using assms by (simp add: quarantineConfirmed_def applyQuarantineState_def quarantineConfirmationObservations_def word_sle_eq)

lemma assessed_trigger: "assessDeltaDeleteWave fileExists c d seed = Some signal \<Longrightarrow> QgTrigger signal = quarantineTriggerFullScan"
  by (auto simp: assessDeltaDeleteWave_def Let_def split: if_splits)

lemma assess_wave:
  assumes wf: "gm_wf (SnFiles seed)" "gm_wf (SnFiles current)" and size: "SnFiles seed \<noteq> []" "length (SnFiles seed) < 2 ^ 29"
    and code: "CbKind c = KindCode" "CbLastRunFiles c \<noteq> None" and d: "d = DiffSnapshots seed current"
    and missing: "missing = length (filter (\<lambda>p. \<not> fileExists p) (DfRemoved d))"
  shows "assessDeltaDeleteWave fileExists c d seed \<noteq> None \<longleftrightarrow> \<not> quarantineConfirmed c \<and> 100 \<le> missing \<and> length (SnFiles seed) \<le> 4 * missing"
proof -
  have "distinct (DfRemoved d)" using diff_sorted(3) [OF wf] d by (simp add: strict_sorted_iff)
  moreover have "set (DfRemoved d) \<subseteq> fst ` set (SnFiles seed)" unfolding d diff_sets [OF wf] by (auto simp: map_of_eq_None_iff)
  ultimately have "length (DfRemoved d) \<le> card (fst ` set (SnFiles seed))" by (metis card_mono distinct_card finite_imageI finite_set)
  also have "\<dots> \<le> length (SnFiles seed)" by (metis card_length length_map list.set_map)
  finally have "missing < 2 ^ 29" using size(2) length_filter_le [of "\<lambda>p. \<not> fileExists p" "DfRemoved d"] unfolding missing by linarith
  then show ?thesis
    using large_removal_counts [OF size(2), of missing c] size(1) code
    by (auto simp: assessDeltaDeleteWave_def Let_def trackedFileTotalForSuspicion_def physicallyMissingPaths_def missing)
qed

lemma applyDelta_not_quarantined: "snd (applyDelta env cx fs seed current forced st) \<noteq> RunQuarantined signal"
  by (auto simp: applyDelta_def endOf_def completeRun_def Let_def split: prod.splits if_splits)

text \<open>
  C12: A suspicious wave of removals stops a run. For a tracked code codebase
  with an earlier successful run, a scan that finds a change stops as quarantined exactly when at least
  a hundred recorded files are missing from the disk and these are at least a quarter of all recorded
  files, unless a full scan has confirmed the quarantine. A quarantined scan leaves the store and the
  checkpoint untouched; starting without a quarantine, one signal does not confirm it and a second does.
  The file counts are below \<open>2 ^ 29\<close>, where the 32-bit product of the ratio test is exact.
\<close>

theorem delete_wave_quarantined:
  assumes wf: "gm_wf (SnFiles seed)" "gm_wf (SnFiles current)" and size: "SnFiles seed \<noteq> []" "length (SnFiles seed) < 2 ^ 29"
    and code: "CbKind c = KindCode" "CbLastRunFiles c \<noteq> None" and "d = DiffSnapshots seed current" "\<not> DiffEmpty d"
    and missing: "missing = length (filter (\<lambda>p. \<not> fileExists p) (DfRemoved d))"
    and run: "runDeltaSync env cx fs fileExists evidence (Some c) checkpoint seed (Inr current) adm s = (st, fin)"
  shows "((\<exists>signal. fin = RunQuarantined signal) \<longleftrightarrow> \<not> quarantineConfirmed c \<and> 100 \<le> missing \<and> length (SnFiles seed) \<le> 4 * missing)
    \<and> (\<forall>signal. fin = RunQuarantined signal \<longrightarrow> DsStore st = s \<and> DsCheckpoint st = checkpoint
        \<and> (CbQuarantine c = None \<longrightarrow> \<not> quarantineConfirmed (applyQuarantineState signal c)
            \<and> quarantineConfirmed (applyQuarantineState signal (applyQuarantineState signal c))))"
proof -
  note wave = assess_wave [OF wf size code assms(7) missing]
  show ?thesis
  proof (cases "assessDeltaDeleteWave fileExists c d seed")
    case None
    with run assms(7,8) have "fin = snd (applyDelta env cx fs seed current [] (startState checkpoint seed adm d s))"
      by (simp add: runDeltaSync_def unionForcedItems_def)
    then have "fin \<noteq> RunQuarantined signal" for signal by (simp add: applyDelta_not_quarantined)
    with None wave show ?thesis by simp
  next
    case (Some signal)
    with run assms(7,8) have "st = startState checkpoint seed adm d s" "fin = RunQuarantined signal" by (auto simp: runDeltaSync_def unionForcedItems_def)
    moreover note assessed_trigger [OF Some]
    ultimately show ?thesis using Some wave quarantine_twice by (simp add: startState_def)
  qed
qed


section \<open>Concrete runs\<close>

definition steadyRun :: delta_context where
  "steadyRun = \<lparr>DxSemantic = True, DxStreaming = False, DxInodesDisabled = False, DxDigest = ''d'', DxCancelled = \<lambda>t. False,
     DxReadCancelled = \<lambda>t. False, DxJobStops = \<lambda>t. False, DxRenameStops = False, DxRemovalStops = False, DxSeedReuseFails = False,
     DxReuseFails = \<lambda>t. False, DxWriteFails = \<lambda>n. False, DxTotalsFail = False\<rparr>"

definition trackedCode :: codebase where
  "trackedCode = \<lparr>CbKind = KindCode, CbStatus = StatusIndexed, CbActiveJob = [], CbFailedRun = False, CbLastRunFiles = Some 2, CbLiveFileTotal = 2, CbQuarantine = None\<rparr>"

definition someRows :: collection_evidence where
  "someRows = \<lparr>EvPresence = PresencePresent, EvRows = 2, EvRowsKnown = True\<rparr>"

text \<open>The files of the renaming of \<open>renamedDisk\<close>, found by a full scan instead of events.\<close>

definition scannedSnapshot :: snapshot where
  "scannedSnapshot = \<lparr>SnConfigDigest = ''d'', SnFiles = [(''keep.go'', ''#c''), (''new.go'', ''#a'')], SnInodes = [(''keep.go'', fileNo 2), (''new.go'', fileNo 1)]\<rparr>"

definition scannedRun :: "unit delta_state \<times> run_end" where
  "scannedRun = runDeltaSync plainEnv steadyRun renamedDisk (\<lambda>p. False) someRows (Some trackedCode) renamedSnapshot renamedSnapshot (Inr scannedSnapshot) noLimits renamedStore"

lemma scannedRun_completed: "snd scannedRun = RunCompleted"
  by code_simp

lemma scanned_matches: "matchesDisk renamedDisk scannedSnapshot"
proof -
  let ?fr = "\<lambda>p content. newProcessedFile [storedChunkOf p \<lparr>ScContent = content, ScStartLine = 1, ScEndLine = 1, ScLanguage = ''text''\<rparr>] (''#'' @ content) False SkipNone False"
  have const: "FsStat renamedDisk t = FsStat renamedDisk 0" "FsRead renamedDisk t = FsRead renamedDisk 0" "FsStatAgain renamedDisk t = FsStatAgain renamedDisk 0" for t
    by (simp_all add: renamedDisk_def diskFs_def)
  have any: "IndexOne renamedDisk t p = IndexOne renamedDisk 0 p" for t p
    by (simp only: IndexOne_def statEligibility_def readErrorMeansRemoved_def const [of t])
  have one: "IndexOne renamedDisk 0 ''new.go'' = Inr (?fr ''new.go'' ''a'')" "IndexOne renamedDisk 0 ''keep.go'' = Inr (?fr ''keep.go'' ''c'')" by code_simp+
  have res: "indexResult renamedDisk p content (?fr p content)" if "content \<noteq> []" for p content using that by (simp add: indexResult_def renamedDisk_def diskFs_def)
  have "\<exists>content fr. indexResult renamedDisk p content fr \<and> IndexOne renamedDisk t p = Inr fr \<and> PfHash fr = h"
    if "map_of (SnFiles scannedSnapshot) p = Some h" for p h t
  proof -
    from that have "p = ''keep.go'' \<and> h = ''#c'' \<or> p = ''new.go'' \<and> h = ''#a''" by (auto simp: scannedSnapshot_def split: if_splits)
    then show ?thesis using any [of t] one res [of "''a''" "''new.go''"] res [of "''c''" "''keep.go''"] by (fastforce simp: newProcessedFile_def)
  qed
  then show ?thesis by (simp add: matchesDisk_def)
qed

theorem delta_sync_exact_witness:
  "(\<forall>q. agreesAt plainEnv renamedDisk (DsStore (fst scannedRun)) (DsCheckpoint (fst scannedRun)) q)
    \<and> map_of (SnFiles (DsCheckpoint (fst scannedRun))) = map_of (SnFiles scannedSnapshot)"
proof -
  have "\<not> DxWriteFails steadyRun n" "DxSemantic steadyRun" for n by (simp_all add: steadyRun_def)
  moreover have "gm_wf (SnFiles renamedSnapshot)" "gm_wf (SnFiles scannedSnapshot)" by (simp_all add: renamedSnapshot_def scannedSnapshot_def gm_wf_def)
  moreover have "runDeltaSync plainEnv steadyRun renamedDisk (\<lambda>p. False) someRows (Some trackedCode) renamedSnapshot renamedSnapshot (Inr scannedSnapshot) noLimits renamedStore
      = (fst scannedRun, snd scannedRun)" by (simp add: scannedRun_def)
  ultimately show ?thesis using delta_sync_exact [OF plain_works _ _ _ _ renamed_start(3,5) refl] scannedRun_completed scanned_matches by blast
qed

text \<open>A scan that finds a hundred of 104 recorded files gone.\<close>

definition manyFiles :: snapshot where
  "manyFiles = \<lparr>SnConfigDigest = ''d'', SnFiles = map (\<lambda>n. (replicate n CHR ''a'', ''#a'')) [1..<105], SnInodes = []\<rparr>"

definition fewFiles :: snapshot where
  "fewFiles = \<lparr>SnConfigDigest = ''d'', SnFiles = map (\<lambda>n. (replicate n CHR ''a'', ''#a'')) [1..<5], SnInodes = []\<rparr>"

definition waveRun :: "unit delta_state \<times> run_end" where
  "waveRun = runDeltaSync plainEnv steadyRun renamedDisk (\<lambda>p. False) someRows (Some trackedCode) manyFiles manyFiles (Inr fewFiles) noLimits renamedStore"


lemma many_wf: "gm_wf (SnFiles manyFiles)" "gm_wf (SnFiles fewFiles)"
  by (auto simp: gm_wf_def manyFiles_def fewFiles_def comp_def distinct_map inj_on_def dest: arg_cong [where f = length])

lemma wave_removed: "length (DfRemoved (DiffSnapshots manyFiles fewFiles)) = 100"
proof -
  have "map_of (map (\<lambda>n. (replicate n CHR ''a'', ''#a'')) [1..<k]) p = None \<longleftrightarrow> p \<notin> (\<lambda>n. replicate n CHR ''a'') ` {1..<k}" for k p
    by (auto simp: map_of_eq_None_iff image_iff)
  then have "set (DfRemoved (DiffSnapshots manyFiles fewFiles)) = (\<lambda>n. replicate n CHR ''a'') ` {1..<105} - (\<lambda>n. replicate n CHR ''a'') ` {1..<5}"
    unfolding diff_sets [OF many_wf] by (auto simp: manyFiles_def fewFiles_def)
  also have "\<dots> = (\<lambda>n. replicate n CHR ''a'') ` {5..<105}" by (force dest: arg_cong [where f = length])
  finally have "card (set (DfRemoved (DiffSnapshots manyFiles fewFiles))) = card {5..<105 :: nat}"
    by (simp add: card_image inj_on_def)
  moreover have "distinct (DfRemoved (DiffSnapshots manyFiles fewFiles))" using diff_sorted(3) [OF many_wf] by (simp add: strict_sorted_iff)
  ultimately show ?thesis by (simp add: distinct_card)
qed

theorem delete_wave_quarantined_witness:
  "\<exists>signal. snd waveRun = RunQuarantined signal \<and> DsStore (fst waveRun) = renamedStore \<and> DsCheckpoint (fst waveRun) = manyFiles
    \<and> \<not> quarantineConfirmed (applyQuarantineState signal trackedCode)"
proof -
  let ?d = "DiffSnapshots manyFiles fewFiles"
  have changed: "\<not> DiffEmpty ?d" using wave_removed by (auto simp: DiffEmpty_def)
  have gone: "100 = length (filter (\<lambda>p. \<not> False) (DfRemoved ?d))" using wave_removed by simp
  have call: "runDeltaSync plainEnv steadyRun renamedDisk (\<lambda>p. False) someRows (Some trackedCode) manyFiles manyFiles (Inr fewFiles) noLimits renamedStore
      = (fst waveRun, snd waveRun)" by (simp add: waveRun_def)
  have files: "SnFiles manyFiles \<noteq> []" "length (SnFiles manyFiles) < 2 ^ 29" "length (SnFiles manyFiles) = 104" by (simp_all add: manyFiles_def)
  have code: "CbKind trackedCode = KindCode" "CbLastRunFiles trackedCode \<noteq> None" "CbQuarantine trackedCode = None" "\<not> quarantineConfirmed trackedCode"
    by (simp_all add: trackedCode_def quarantineConfirmed_def)
  note main = delete_wave_quarantined [OF many_wf files(1,2) code(1,2) refl changed gone call]
  then obtain signal where "snd waveRun = RunQuarantined signal" using files(3) code(4) by auto
  with main code(3) show ?thesis by blast
qed

end
