(* ===== verification/JobTransitions.thy ===== *)
theory JobTransitions
  imports DeltaSync
begin

text \<open>
  The life of a code sync job (\<open>internal/daemon/manager_jobs_state.go\<close>, \<open>manager_pause.go\<close>, \<open>manager_pending.go\<close>,
  \<open>quarantine.go\<close>, and the sweep over quarantined codebases in \<open>background_sync.go\<close>): a request is queued, joins
  the active job or waits in the one pending slot of its codebase; the job runs and ends; its end updates the
  codebase record and drains the slot. The theory shows that the end of a job starts the waiting request, except
  after a quarantine, that a large wave of removals is deleted only after two suspicious scans, and that a
  confirmed quarantine outlives the cancelled job that was to release it.
\<close>

section \<open>Jobs and requests\<close>

datatype job_state = JobQueued | JobRunning | JobPaused | JobCancelling | JobCompleted | JobFailed | JobCancelled

fun isTerminalJobState :: "job_state \<Rightarrow> bool" where
  "isTerminalJobState JobCompleted = True"
| "isTerminalJobState JobFailed = True"
| "isTerminalJobState JobCancelled = True"
| "isTerminalJobState JobQueued = False"
| "isTerminalJobState JobRunning = False"
| "isTerminalJobState JobPaused = False"
| "isTerminalJobState JobCancelling = False"

text \<open>The fields of the index configuration that decide whether two requests are the same work.\<close>

record index_config =
  IcDigest :: string
  IcSplitter :: string

record pending_request =
  PqConfig :: index_config
  PqForce :: bool

record sync_job =
  SjId :: string
  SjCodebase :: string
  SjState :: job_state
  SjConfig :: index_config
  SjForced :: bool

record job_manager =
  MgCodebases :: "(string, codebase) gomap"
  MgJobs :: "(string, sync_job) gomap"
  MgPending :: "(string, pending_request) gomap"

text \<open>What an enqueue does not decide itself: the new job id, the resolved policy, the saved registry and the appended event.\<close>

record enqueue_env =
  EqId :: string
  EqPolicyOk :: bool
  EqSaved :: bool
  EqAppended :: bool

datatype active_resolution = ActiveNone | ActiveDedup sync_job | ActiveConflict sync_job

definition activeJobLocked :: "codebase \<Rightarrow> index_config \<Rightarrow> job_manager \<Rightarrow> active_resolution" where
  "activeJobLocked c config m =
     (if CbActiveJob c = [] then ActiveNone
      else case map_of (MgJobs m) (CbActiveJob c) of
             None \<Rightarrow> ActiveNone
           | Some job \<Rightarrow> if isTerminalJobState (SjState job) then ActiveNone
                         else if IcDigest (SjConfig job) = IcDigest config \<and> IcSplitter (SjConfig job) = IcSplitter config then ActiveDedup job
                         else ActiveConflict job)"

definition mergePendingCodeRequestLocked :: "string \<Rightarrow> pending_request \<Rightarrow> job_manager \<Rightarrow> job_manager" where
  "mergePendingCodeRequestLocked cid incoming m =
     (let merged = (case map_of (MgPending m) cid of
                      Some existing \<Rightarrow> incoming\<lparr>PqForce := PqForce incoming \<or> PqForce existing\<rparr> | None \<Rightarrow> incoming)
      in m\<lparr>MgPending := gm_put cid merged (MgPending m)\<rparr>)"

definition enqueueCodeSyncJobLocked :: "enqueue_env \<Rightarrow> string \<Rightarrow> codebase \<Rightarrow> pending_request \<Rightarrow> job_manager \<Rightarrow> job_manager \<times> sync_job option" where
  "enqueueCodeSyncJobLocked eq cid current request m =
     (if \<not> EqPolicyOk eq then (m, None)
      else let job = \<lparr>SjId = EqId eq, SjCodebase = cid, SjState = JobQueued, SjConfig = PqConfig request, SjForced = PqForce request\<rparr>;
               queued = m\<lparr>MgCodebases := gm_put cid (current\<lparr>CbStatus := StatusIndexing, CbActiveJob := EqId eq\<rparr>) (MgCodebases m)\<rparr>;
               rollback = (\<lambda>m. m\<lparr>MgCodebases := gm_put cid current (MgCodebases m)\<rparr>)
           in if \<not> EqSaved eq then (rollback queued, None)
              else let added = queued\<lparr>MgJobs := gm_put (EqId eq) job (MgJobs queued)\<rparr>
                   in if \<not> EqAppended eq then (rollback added, None) else (added, Some job))"

text \<open>\<open>drainPendingJobLocked\<close>: the slot is emptied before the enqueue is tried.\<close>

definition drainPendingJobLocked :: "enqueue_env \<Rightarrow> string \<Rightarrow> job_manager \<Rightarrow> job_manager \<times> sync_job option" where
  "drainPendingJobLocked eq cid m =
     (case map_of (MgCodebases m) cid of
        None \<Rightarrow> (m\<lparr>MgPending := gm_del cid (MgPending m)\<rparr>, None)
      | Some current \<Rightarrow>
          if CbActiveJob current \<noteq> [] then (m, None)
          else case map_of (MgPending m) cid of
                 Some request \<Rightarrow> enqueueCodeSyncJobLocked eq cid current request (m\<lparr>MgPending := gm_del cid (MgPending m)\<rparr>)
               | None \<Rightarrow> (m, None))"

datatype sync_answer = SyncRefused | SyncDeduplicated sync_job | SyncStarted sync_job

text \<open>\<open>syncIndexWithPolicy\<close> from the codebase that covers the path on.\<close>

definition syncIndexWithPolicy :: "enqueue_env \<Rightarrow> string \<Rightarrow> index_config \<Rightarrow> job_manager \<Rightarrow> job_manager \<times> sync_answer" where
  "syncIndexWithPolicy eq cid config m =
     (case map_of (MgCodebases m) cid of
        None \<Rightarrow> (m, SyncRefused)
      | Some c \<Rightarrow>
          if \<not> EqPolicyOk eq then (m, SyncRefused)
          else let request = \<lparr>PqConfig = config, PqForce = False\<rparr>
               in case activeJobLocked c config m of
                    ActiveDedup job \<Rightarrow> (m, SyncDeduplicated job)
                  | ActiveConflict job \<Rightarrow> (mergePendingCodeRequestLocked cid request m, SyncDeduplicated job)
                  | ActiveNone \<Rightarrow>
                      (case enqueueCodeSyncJobLocked eq cid c request m of
                         (m, None) \<Rightarrow> (m, SyncRefused)
                       | (m, Some job) \<Rightarrow> (m, SyncStarted job)))"

section \<open>Transitions of a job\<close>

definition serializeJobTransition :: "string \<Rightarrow> (job_state \<Rightarrow> bool) \<Rightarrow> job_state \<Rightarrow> job_manager \<Rightarrow> (job_manager \<times> sync_job) option" where
  "serializeJobTransition jid allowed state m =
     (case map_of (MgJobs m) jid of
        None \<Rightarrow> None
      | Some job \<Rightarrow> if \<not> allowed (SjState job) then None
                    else let job = job\<lparr>SjState := state\<rparr> in Some (m\<lparr>MgJobs := gm_put jid job (MgJobs m)\<rparr>, job))"

datatype start_answer = StartRefused | StartRetry | StartedJob

definition updateJobRunning :: "bool \<Rightarrow> bool \<Rightarrow> string \<Rightarrow> job_manager \<Rightarrow> job_manager \<times> start_answer" where
  "updateJobRunning saved journaled jid m =
     (case map_of (MgJobs m) jid of
        None \<Rightarrow> (m, StartRefused)
      | Some current \<Rightarrow>
          (case map_of (MgCodebases m) (SjCodebase current) of
             None \<Rightarrow> (m, StartRefused)
           | Some c \<Rightarrow>
               if CbActiveJob c \<noteq> SjId current then (m, StartRefused)
               else if CbStatus c \<noteq> StatusPending \<and> CbStatus c \<noteq> StatusIndexing then (m, StartRefused)
               else if \<not> saved then (m, StartRetry)
               else let m = (if CbStatus c = StatusPending
                             then m\<lparr>MgCodebases := gm_put (SjCodebase current) (c\<lparr>CbStatus := StatusIndexing\<rparr>) (MgCodebases m)\<rparr> else m)
                    in case serializeJobTransition jid (\<lambda>s. s = JobQueued) JobRunning m of
                         None \<Rightarrow> (m, StartRefused)
                       | Some (m', job) \<Rightarrow>
                           if journaled then (m', StartedJob) else (m'\<lparr>MgJobs := gm_put jid current (MgJobs m')\<rparr>, StartRetry)))"

definition codebaseStatusAfterCancellation :: "codebase \<Rightarrow> codebase_status" where
  "codebaseStatusAfterCancellation c =
     (if CbStatus c \<noteq> StatusPending \<and> CbStatus c \<noteq> StatusIndexing then CbStatus c
      else if CbLastRunFiles c \<noteq> None then StatusIndexed else StatusNotIndexed)"

definition updateJobCancelled :: "enqueue_env \<Rightarrow> string \<Rightarrow> job_manager \<Rightarrow> job_manager \<times> sync_job option" where
  "updateJobCancelled eq jid m =
     (case serializeJobTransition jid (\<lambda>s. \<not> isTerminalJobState s) JobCancelled m of
        None \<Rightarrow> (m, None)
      | Some (m, job) \<Rightarrow>
          (case map_of (MgCodebases m) (SjCodebase job) of
             None \<Rightarrow> (m, None)
           | Some c \<Rightarrow>
               if CbActiveJob c \<noteq> jid then (m, None)
               else drainPendingJobLocked eq (SjCodebase job)
                      (m\<lparr>MgCodebases := gm_put (SjCodebase job) (c\<lparr>CbActiveJob := [], CbStatus := codebaseStatusAfterCancellation c\<rparr>) (MgCodebases m)\<rparr>)))"

definition updateJobCompleted :: "enqueue_env \<Rightarrow> string \<Rightarrow> 32 word \<Rightarrow> job_manager \<Rightarrow> job_manager \<times> sync_job option" where
  "updateJobCompleted eq jid indexedFiles m =
     (case serializeJobTransition jid (\<lambda>s. s \<noteq> JobCancelled \<and> s \<noteq> JobCancelling) JobCompleted m of
        None \<Rightarrow> (case map_of (MgJobs m) jid of
                   Some current \<Rightarrow> if SjState current = JobCancelling then updateJobCancelled eq jid m else (m, None)
                 | None \<Rightarrow> (m, None))
      | Some (m, job) \<Rightarrow>
          (case map_of (MgCodebases m) (SjCodebase job) of
             None \<Rightarrow> (m, None)
           | Some c \<Rightarrow>
               drainPendingJobLocked eq (SjCodebase job)
                 (m\<lparr>MgCodebases := gm_put (SjCodebase job)
                      (c\<lparr>CbStatus := StatusIndexed, CbActiveJob := (if CbActiveJob c = jid then [] else CbActiveJob c), CbQuarantine := None,
                         CbLastRunFiles := Some indexedFiles, CbLiveFileTotal := indexedFiles\<rparr>) (MgCodebases m)\<rparr>)))"

text \<open>\<open>infra\<close> tells a failure of shared infrastructure, \<open>rootMissing\<close> that the source directory is gone.\<close>

definition updateJobFailed :: "enqueue_env \<Rightarrow> bool \<Rightarrow> bool \<Rightarrow> string \<Rightarrow> job_manager \<Rightarrow> job_manager \<times> sync_job option" where
  "updateJobFailed eq infra rootMissing jid m =
     (case serializeJobTransition jid (\<lambda>s. \<not> isTerminalJobState s) JobFailed m of
        None \<Rightarrow> (m, None)
      | Some (m, job) \<Rightarrow>
          (case map_of (MgCodebases m) (SjCodebase job) of
             None \<Rightarrow> (m, None)
           | Some c \<Rightarrow>
               let c = c\<lparr>CbActiveJob := (if CbActiveJob c = jid then [] else CbActiveJob c)\<rparr>;
                   c = (if infra then c
                        else if CbKind c \<noteq> KindDocument \<and> rootMissing then c\<lparr>CbStatus := StatusMissing, CbFailedRun := False\<rparr>
                        else c\<lparr>CbStatus := StatusFailed, CbFailedRun := True\<rparr>)
               in drainPendingJobLocked eq (SjCodebase job) (m\<lparr>MgCodebases := gm_put (SjCodebase job) c (MgCodebases m)\<rparr>)))"

definition updateJobQuarantined :: "quarantine_signal \<Rightarrow> string \<Rightarrow> job_manager \<Rightarrow> job_manager" where
  "updateJobQuarantined signal jid m =
     (case serializeJobTransition jid (\<lambda>s. \<not> isTerminalJobState s) JobFailed m of
        None \<Rightarrow> m
      | Some (m, job) \<Rightarrow>
          (case map_of (MgCodebases m) (SjCodebase job) of
             None \<Rightarrow> m
           | Some c \<Rightarrow>
               if CbActiveJob c \<noteq> SjId job then m
               else m\<lparr>MgCodebases := gm_put (SjCodebase job) (applyQuarantineState signal (c\<lparr>CbActiveJob := [], CbFailedRun := False\<rparr>)) (MgCodebases m)\<rparr>))"

definition finishDetachedCodebase :: "enqueue_env \<Rightarrow> sync_job \<Rightarrow> job_manager \<Rightarrow> job_manager \<times> sync_job option" where
  "finishDetachedCodebase eq job m =
     (case map_of (MgCodebases m) (SjCodebase job) of
        None \<Rightarrow> (m, None)
      | Some c \<Rightarrow>
          if CbActiveJob c \<noteq> SjId job \<or> \<not> isTerminalJobState (SjState job) then (m, None)
          else let status = (if SjState job = JobCompleted then StatusIndexed else if SjState job = JobFailed then StatusFailed
                             else codebaseStatusAfterCancellation (c\<lparr>CbActiveJob := []\<rparr>))
               in drainPendingJobLocked eq (SjCodebase job)
                    (m\<lparr>MgCodebases := gm_put (SjCodebase job) (c\<lparr>CbActiveJob := [], CbStatus := status\<rparr>) (MgCodebases m)\<rparr>))"

text \<open>The three detached ends differ in the state they set.\<close>

definition updateDetachedJob :: "enqueue_env \<Rightarrow> job_state \<Rightarrow> string \<Rightarrow> job_manager \<Rightarrow> job_manager \<times> sync_job option" where
  "updateDetachedJob eq state jid m =
     (case serializeJobTransition jid (\<lambda>s. \<not> isTerminalJobState s) state m of
        None \<Rightarrow> (m, None)
      | Some (m, job) \<Rightarrow> finishDetachedCodebase eq job m)"

section \<open>Quarantined codebases\<close>

definition markCodebaseMissing :: "string \<Rightarrow> job_manager \<Rightarrow> job_manager" where
  "markCodebaseMissing cid m =
     (case map_of (MgCodebases m) cid of
        None \<Rightarrow> m
      | Some c \<Rightarrow>
          if CbStatus c = StatusMissing \<and> CbQuarantine c = None then m
          else m\<lparr>MgCodebases := gm_put cid (c\<lparr>CbStatus := StatusMissing, CbActiveJob := [], CbQuarantine := None, CbFailedRun := False\<rparr>) (MgCodebases m)\<rparr>)"

definition quarantineCodebase :: "quarantine_signal \<Rightarrow> string \<Rightarrow> job_manager \<Rightarrow> job_manager \<times> 32 word" where
  "quarantineCodebase signal cid m =
     (case map_of (MgCodebases m) cid of
        None \<Rightarrow> (m, 0)
      | Some c \<Rightarrow>
          let c = applyQuarantineState signal c
          in (m\<lparr>MgCodebases := gm_put cid c (MgCodebases m)\<rparr>, case CbQuarantine c of None \<Rightarrow> 0 | Some q \<Rightarrow> QsObservationCount q))"

definition clearCodebaseQuarantine :: "codebase_status \<Rightarrow> string \<Rightarrow> job_manager \<Rightarrow> job_manager" where
  "clearCodebaseQuarantine status cid m =
     (case map_of (MgCodebases m) cid of
        None \<Rightarrow> m
      | Some c \<Rightarrow>
          if CbQuarantine c = None \<and> CbStatus c = status then m
          else m\<lparr>MgCodebases := gm_put cid (c\<lparr>CbQuarantine := None, CbStatus := status,
                   CbFailedRun := (if status = StatusIndexed \<or> status = StatusMissing then False else CbFailedRun c)\<rparr>) (MgCodebases m)\<rparr>)"

definition vcsOperationInProgress :: "(string \<Rightarrow> bool) \<Rightarrow> bool" where
  "vcsOperationInProgress gitFileExists =
     list_ex gitFileExists [''index.lock'', ''MERGE_HEAD'', ''CHERRY_PICK_HEAD'', ''REVERT_HEAD'', ''BISECT_LOG'', ''rebase-apply'', ''rebase-merge'']"

text \<open>
  What a sweep finds on disk for one codebase: the root, the marker files below \<open>.git\<close>, the loaded checkpoint,
  the capture and the existence of files.
\<close>

record sweep_scan =
  ScanRootMissing :: bool
  ScanGitFile :: "string \<Rightarrow> bool"
  ScanCheckpoint :: snapshot
  ScanCapture :: "snapshot_error + snapshot"
  ScanExists :: "string \<Rightarrow> bool"

text \<open>
  The codebase record \<open>c\<close> is the one the sweep listed. The result tells whether a sync is requested next.
\<close>

definition handleQuarantinedCodebase :: "sweep_scan \<Rightarrow> codebase \<Rightarrow> string \<Rightarrow> job_manager \<Rightarrow> job_manager \<times> bool" where
  "handleQuarantinedCodebase scan c cid m =
     (if ScanRootMissing scan then (markCodebaseMissing cid m, False)
      else if vcsOperationInProgress (ScanGitFile scan) then (m, False)
      else case ScanCapture scan of
             Inl e \<Rightarrow> (m, False)
           | Inr current \<Rightarrow>
               let d = DiffSnapshots (ScanCheckpoint scan) current
               in case assessDeltaDeleteWave (ScanExists scan) c d (ScanCheckpoint scan) of
                    None \<Rightarrow> (clearCodebaseQuarantine StatusIndexed cid m, \<not> DiffEmpty d)
                  | Some signal \<Rightarrow>
                      (case quarantineCodebase signal cid m of
                         (m, observations) \<Rightarrow> (m, quarantineConfirmationObservations \<le>s observations)))"


section \<open>Which transitions touch the quarantine\<close>

definition quarantineOf :: "string \<Rightarrow> job_manager \<Rightarrow> quarantine_state option" where
  "quarantineOf cid m = Option.bind (map_of (MgCodebases m) cid) CbQuarantine"

definition keepsQuarantine :: "string \<Rightarrow> job_manager \<Rightarrow> job_manager \<Rightarrow> bool" where
  "keepsQuarantine cid m m' \<longleftrightarrow> quarantineOf cid m' = quarantineOf cid m \<or> quarantineOf cid m' = None"

lemma quarantineOf_frame [simp]:
  "quarantineOf cid (m\<lparr>MgJobs := js\<rparr>) = quarantineOf cid m" "quarantineOf cid (m\<lparr>MgPending := ps\<rparr>) = quarantineOf cid m"
  "quarantineOf cid (m\<lparr>MgCodebases := gm_put cid' c cs\<rparr>) = (if cid = cid' then CbQuarantine c else quarantineOf cid (m\<lparr>MgCodebases := cs\<rparr>))"
  by (simp_all add: quarantineOf_def)

lemma quarantineOf_put:
  "quarantineOf cid (m\<lparr>MgCodebases := gm_put cid' c (MgCodebases m)\<rparr>) = (if cid = cid' then CbQuarantine c else quarantineOf cid m)"
  by (simp add: quarantineOf_def)

lemma quarantineOf_some: "map_of (MgCodebases m) cid = Some c \<Longrightarrow> quarantineOf cid m = CbQuarantine c"
  by (simp add: quarantineOf_def)

lemma serialize_keeps:
  assumes "serializeJobTransition jid allowed state m = Some (m', job)"
  shows "quarantineOf cid m' = quarantineOf cid m" "MgCodebases m' = MgCodebases m" "MgPending m' = MgPending m"
    "\<exists>old. map_of (MgJobs m) jid = Some old \<and> allowed (SjState old) \<and> job = old\<lparr>SjState := state\<rparr>"
  using assms by (auto simp: serializeJobTransition_def Let_def split: option.splits if_splits)

lemma enqueue_keeps:
  assumes "map_of (MgCodebases m) cid' = Some c"
  shows "quarantineOf cid (fst (enqueueCodeSyncJobLocked eq cid' c request m)) = quarantineOf cid m"
  using quarantineOf_some [OF assms] by (auto simp: enqueueCodeSyncJobLocked_def Let_def quarantineOf_def)

lemma drain_keeps: "quarantineOf cid (fst (drainPendingJobLocked eq cid' m)) = quarantineOf cid m"
  by (auto simp: drainPendingJobLocked_def enqueue_keeps split: option.split)

lemma syncIndex_keeps: "quarantineOf cid (fst (syncIndexWithPolicy eq cid' config m)) = quarantineOf cid m"
proof (cases "map_of (MgCodebases m) cid'")
  case (Some c)
  show ?thesis using enqueue_keeps [OF Some, of cid eq "\<lparr>PqConfig = config, PqForce = False\<rparr>"]
    by (auto simp: syncIndexWithPolicy_def Some Let_def mergePendingCodeRequestLocked_def split: active_resolution.split prod.split option.splits)
qed (simp add: syncIndexWithPolicy_def)

lemma running_keeps: "quarantineOf cid (fst (updateJobRunning saved journaled jid m)) = quarantineOf cid m"
  by (auto simp: updateJobRunning_def Let_def quarantineOf_put quarantineOf_some dest!: serialize_keeps(1) [where cid = cid] split: option.splits prod.splits)

lemma cancelled_keeps: "quarantineOf cid (fst (updateJobCancelled eq jid m)) = quarantineOf cid m"
  by (auto simp: updateJobCancelled_def drain_keeps quarantineOf_put quarantineOf_some dest!: serialize_keeps(1) [where cid = cid] split: option.splits)

lemma failed_keeps: "quarantineOf cid (fst (updateJobFailed eq infra rootMissing jid m)) = quarantineOf cid m"
  by (auto simp: updateJobFailed_def Let_def drain_keeps quarantineOf_put quarantineOf_some dest!: serialize_keeps(1) [where cid = cid] split: option.splits)

lemma detached_keeps: "quarantineOf cid (fst (updateDetachedJob eq state jid m)) = quarantineOf cid m"
  by (auto simp: updateDetachedJob_def finishDetachedCodebase_def Let_def drain_keeps quarantineOf_put quarantineOf_some
      dest!: serialize_keeps(1) [where cid = cid] split: option.splits)

lemma completed_keeps: "keepsQuarantine cid m (fst (updateJobCompleted eq jid files m))"
  by (auto simp: keepsQuarantine_def updateJobCompleted_def cancelled_keeps drain_keeps quarantineOf_put quarantineOf_some
      dest!: serialize_keeps(1) [where cid = cid] split: option.splits if_splits)

lemma missing_keeps: "keepsQuarantine cid m (markCodebaseMissing cid' m)"
  by (auto simp: keepsQuarantine_def markCodebaseMissing_def quarantineOf_put split: option.splits)

lemma clear_keeps: "keepsQuarantine cid m (clearCodebaseQuarantine status cid' m)"
  by (auto simp: keepsQuarantine_def clearCodebaseQuarantine_def quarantineOf_put split: option.splits)


section \<open>A wave of removals is seen twice\<close>

text \<open>
  One step of the manager. The flag tells whether a full scan of the codebase \<open>cid\<close> saw a suspicious wave.
\<close>

inductive manager_step :: "string \<Rightarrow> job_manager \<Rightarrow> bool \<Rightarrow> job_manager \<Rightarrow> bool" for cid where
  sync_requested: "manager_step cid m False (fst (syncIndexWithPolicy eq cid' config m))"
| job_running: "manager_step cid m False (fst (updateJobRunning saved journaled jid m))"
| job_completed: "manager_step cid m False (fst (updateJobCompleted eq jid files m))"
| job_failed: "manager_step cid m False (fst (updateJobFailed eq infra rootMissing jid m))"
| job_cancelled: "manager_step cid m False (fst (updateJobCancelled eq jid m))"
| detached_ended: "manager_step cid m False (fst (updateDetachedJob eq state jid m))"
| root_missing: "manager_step cid m False (markCodebaseMissing cid' m)"
| job_quarantined:
    "map_of (MgJobs m) jid = Some job \<Longrightarrow> assessDeltaDeleteWave fileExists c d seed = Some signal
      \<Longrightarrow> manager_step cid m (SjCodebase job = cid) (updateJobQuarantined signal jid m)"
| swept:
    "handleQuarantinedCodebase scan c cid' m = (m', start)
      \<Longrightarrow> manager_step cid m (cid' = cid \<and> (\<exists>current. ScanCapture scan = Inr current
            \<and> assessDeltaDeleteWave (ScanExists scan) c (DiffSnapshots (ScanCheckpoint scan) current) (ScanCheckpoint scan) \<noteq> None)) m'"

text \<open>The suspicious scans of a codebase since its record last had no quarantine.\<close>

inductive manager_run :: "string \<Rightarrow> job_manager \<Rightarrow> nat \<Rightarrow> bool" for cid where
  calm: "quarantineOf cid m = None \<Longrightarrow> manager_run cid m 0"
| step: "manager_run cid m n \<Longrightarrow> manager_step cid m wave m'
    \<Longrightarrow> manager_run cid m' (if quarantineOf cid m' = None then 0 else if wave then Suc n else n)"

definition counted :: "nat \<Rightarrow> quarantine_state option \<Rightarrow> bool" where
  "counted n q \<longleftrightarrow> (\<forall>s. q = Some s \<longrightarrow> (\<exists>k\<le>n. QsObservationCount s = of_nat k))"

definition observed :: "quarantine_state option \<Rightarrow> quarantine_state option \<Rightarrow> bool" where
  "observed q q' \<longleftrightarrow> (\<exists>s. q' = Some s \<and> QsObservationCount s = (case q of None \<Rightarrow> 1 | Some old \<Rightarrow> QsObservationCount old + 1))"

lemma counted_mono: "counted n q \<Longrightarrow> n \<le> n' \<Longrightarrow> counted n' q"
  unfolding counted_def using order_trans by blast

lemma counted_observed: "counted n q \<Longrightarrow> observed q q' \<Longrightarrow> counted (Suc n) q'"
proof (cases q)
  case None
  assume "observed q q'"
  then show ?thesis by (auto simp: counted_def observed_def None intro!: exI [of _ "1 :: nat"])
next
  case (Some old)
  assume "counted n q" "observed q q'"
  then obtain k where "k \<le> n" "QsObservationCount old = of_nat k" by (auto simp: counted_def Some)
  with \<open>observed q q'\<close> show ?thesis by (auto simp: counted_def observed_def Some intro!: exI [of _ "Suc k"])
qed

lemma apply_observed: "observed (CbQuarantine c) (CbQuarantine (applyQuarantineState signal c))"
  by (simp add: observed_def applyQuarantineState_def)

lemma quarantined_step:
  assumes "map_of (MgJobs m) jid = Some job"
  shows "quarantineOf cid (updateJobQuarantined signal jid m) = quarantineOf cid m
    \<or> SjCodebase job = cid \<and> observed (quarantineOf cid m) (quarantineOf cid (updateJobQuarantined signal jid m))"
proof (cases "isTerminalJobState (SjState job)")
  case False
  let ?m = "m\<lparr>MgJobs := gm_put jid (job\<lparr>SjState := JobFailed\<rparr>) (MgJobs m)\<rparr>"
  have ser: "serializeJobTransition jid (\<lambda>s. \<not> isTerminalJobState s) JobFailed m = Some (?m, job\<lparr>SjState := JobFailed\<rparr>)"
    using assms False by (simp add: serializeJobTransition_def Let_def)
  show ?thesis using apply_observed [of "c\<lparr>CbActiveJob := [], CbFailedRun := False\<rparr>" signal for c]
    by (auto simp: updateJobQuarantined_def ser quarantineOf_put quarantineOf_some split: option.split)
qed (use assms in \<open>simp add: updateJobQuarantined_def serializeJobTransition_def\<close>)

lemma swept_step:
  assumes "handleQuarantinedCodebase scan c cid' m = (m', start)"
  shows "keepsQuarantine cid m m' \<or> cid' = cid \<and> observed (quarantineOf cid m) (quarantineOf cid m')
    \<and> (\<exists>current. ScanCapture scan = Inr current
        \<and> assessDeltaDeleteWave (ScanExists scan) c (DiffSnapshots (ScanCheckpoint scan) current) (ScanCheckpoint scan) \<noteq> None)"
proof -
  have quar: "quarantineOf cid (fst (quarantineCodebase signal cid' m)) = quarantineOf cid m
      \<or> cid' = cid \<and> observed (quarantineOf cid m) (quarantineOf cid (fst (quarantineCodebase signal cid' m)))" for signal
    using apply_observed [of _ signal] by (auto simp: quarantineCodebase_def Let_def quarantineOf_put quarantineOf_some split: option.split)
  show ?thesis
  proof (cases "ScanRootMissing scan \<or> vcsOperationInProgress (ScanGitFile scan) \<or> (\<exists>e. ScanCapture scan = Inl e)")
    case True
    then have "m' = markCodebaseMissing cid' m \<or> m' = m" using assms by (auto simp: handleQuarantinedCodebase_def split: if_splits sum.splits)
    then show ?thesis using missing_keeps [of cid m cid'] by (auto simp: keepsQuarantine_def)
  next
    case False
    then obtain current where cur: "ScanCapture scan = Inr current" by (cases "ScanCapture scan") auto
    show ?thesis
    proof (cases "assessDeltaDeleteWave (ScanExists scan) c (DiffSnapshots (ScanCheckpoint scan) current) (ScanCheckpoint scan)")
      case None
      with assms False cur have "m' = clearCodebaseQuarantine StatusIndexed cid' m" by (simp add: handleQuarantinedCodebase_def Let_def)
      then show ?thesis using clear_keeps by blast
    next
      case (Some signal)
      with assms False cur have "m' = fst (quarantineCodebase signal cid' m)" by (auto simp: handleQuarantinedCodebase_def Let_def split: prod.splits)
      then show ?thesis using quar [of signal] cur Some by (auto simp: keepsQuarantine_def)
    qed
  qed
qed

lemma manager_step_quarantine:
  assumes "manager_step cid m wave m'"
  shows "keepsQuarantine cid m m' \<or> wave \<and> observed (quarantineOf cid m) (quarantineOf cid m')"
  using assms
proof cases
  case (job_quarantined jid job fileExists c d seed signal)
  then show ?thesis using quarantined_step [of m jid job cid signal] by (auto simp: keepsQuarantine_def)
next
  case (swept scan c cid' start)
  then show ?thesis using swept_step [of scan c cid' m m' start cid] by blast
qed (simp_all add: syncIndex_keeps running_keeps completed_keeps failed_keeps cancelled_keeps detached_keeps missing_keeps, simp_all add: keepsQuarantine_def
  syncIndex_keeps running_keeps failed_keeps cancelled_keeps detached_keeps)

lemma manager_run_counted: "manager_run cid m n \<Longrightarrow> counted n (quarantineOf cid m)"
proof (induction rule: manager_run.induct)
  case (step m n wave m')
  show ?case
  proof (cases "quarantineOf cid m' = None")
    case False
    from manager_step_quarantine [OF step.hyps(2)] False
    consider "quarantineOf cid m' = quarantineOf cid m" | "wave" "observed (quarantineOf cid m) (quarantineOf cid m')"
      by (auto simp: keepsQuarantine_def)
    then show ?thesis
    proof cases
      case 1
      show ?thesis using False step.IH counted_mono [OF step.IH, of "Suc n"] by (auto simp: 1)
    next
      case 2
      then show ?thesis using False counted_observed [OF step.IH] by auto
    qed
  qed (simp add: counted_def)
qed (simp add: counted_def)

lemma counted_confirmed:
  assumes "counted n (CbQuarantine c)" "quarantineConfirmed c"
  shows "2 \<le> n"
proof -
  from assms obtain q k where "CbQuarantine c = Some q" "k \<le> n" and k: "QsObservationCount q = of_nat k"
    by (auto simp: counted_def quarantineConfirmed_def split: option.splits)
  then have "(2 :: 32 word) \<le>s of_nat k" using assms(2) by (simp add: quarantineConfirmed_def quarantineConfirmationObservations_def)
  moreover have "\<not> (2 :: 32 word) \<le>s of_nat 0" "\<not> (2 :: 32 word) \<le>s of_nat 1" by (simp_all add: word_sle_eq)
  ultimately have "k \<noteq> 0" "k \<noteq> 1" by (rule_tac notI; simp)+
  with \<open>k \<le> n\<close> show ?thesis by linarith
qed

text \<open>
  C13: Whatever requests, job ends and sweeps happen, a run that goes on to delete although the removed files
  are a suspicious wave (a code codebase with an earlier run, at least a hundred files missing from disk, at
  least a quarter of the recorded ones) does so only when at least two full scans of that codebase saw a
  suspicious wave since its record last had no quarantine.
\<close>

theorem wave_seen_twice:
  assumes "manager_run cid m n" and "map_of (MgCodebases m) cid = Some c" and "d = DiffSnapshots seed current" and "\<not> DiffEmpty d"
    and "shouldQuarantineLargeRemoval c (safeInt32 (int (length (physicallyMissingPaths fileExists (DfRemoved d))))) (trackedFileTotalForSuspicion c seed)"
    and "runDeltaSync env cx fs fileExists evidence (Some c) checkpoint seed (Inr current) adm s = (st, fin)"
    and "\<forall>signal. fin \<noteq> RunQuarantined signal"
  shows "2 \<le> n"
proof (rule counted_confirmed)
  show "counted n (CbQuarantine c)" using manager_run_counted [OF assms(1)] quarantineOf_some [OF assms(2)] by simp
  show "quarantineConfirmed c"
  proof (rule ccontr)
    assume "\<not> quarantineConfirmed c"
    with assms(5) obtain signal where "assessDeltaDeleteWave fileExists c d seed = Some signal" by (simp add: assessDeltaDeleteWave_def)
    with assms(3,4,6) have "fin = RunQuarantined signal" by (simp add: runDeltaSync_def unionForcedItems_def)
    with assms(7) show False by blast
  qed
qed


section \<open>The pending slot\<close>

definition enqueued :: "enqueue_env \<Rightarrow> bool" where
  "enqueued eq \<longleftrightarrow> EqPolicyOk eq \<and> EqSaved eq \<and> EqAppended eq"

definition queuedFrom :: "enqueue_env \<Rightarrow> string \<Rightarrow> pending_request \<Rightarrow> sync_job" where
  "queuedFrom eq cid request = \<lparr>SjId = EqId eq, SjCodebase = cid, SjState = JobQueued, SjConfig = PqConfig request, SjForced = PqForce request\<rparr>"

text \<open>\<open>drained eq cid request x\<close>: the slot is empty and its request is the active, queued job.\<close>

definition drained :: "enqueue_env \<Rightarrow> string \<Rightarrow> pending_request \<Rightarrow> job_manager \<times> sync_job option \<Rightarrow> bool" where
  "drained eq cid request x \<longleftrightarrow> map_of (MgPending (fst x)) cid = None \<and> snd x = Some (queuedFrom eq cid request)
     \<and> map_of (MgJobs (fst x)) (EqId eq) = Some (queuedFrom eq cid request)
     \<and> (\<exists>c. map_of (MgCodebases (fst x)) cid = Some c \<and> CbActiveJob c = EqId eq \<and> CbStatus c = StatusIndexing)"

lemma drain_drained:
  assumes "enqueued eq" "map_of (MgPending m) cid = Some request" "CbActiveJob c = []"
  shows "drained eq cid request (drainPendingJobLocked eq cid (m\<lparr>MgCodebases := gm_put cid c cs\<rparr>))"
  using assms by (simp add: drained_def drainPendingJobLocked_def enqueueCodeSyncJobLocked_def enqueued_def queuedFrom_def Let_def)

definition activeRun :: "string \<Rightarrow> string \<Rightarrow> job_manager \<Rightarrow> bool" where
  "activeRun cid jid m \<longleftrightarrow> (\<exists>job c. map_of (MgJobs m) jid = Some job \<and> SjId job = jid \<and> SjCodebase job = cid \<and> \<not> isTerminalJobState (SjState job)
     \<and> map_of (MgCodebases m) cid = Some c \<and> CbActiveJob c = jid \<and> jid \<noteq> [])"

lemma activeRunE:
  assumes "activeRun cid jid m"
  obtains job c where "map_of (MgJobs m) jid = Some job" "SjId job = jid" "SjCodebase job = cid" "\<not> isTerminalJobState (SjState job)"
    "map_of (MgCodebases m) cid = Some c" "CbActiveJob c = jid" "jid \<noteq> []"
  using assms by (auto simp: activeRun_def)

lemma serialize_active:
  assumes "map_of (MgJobs m) jid = Some job" "allowed (SjState job)"
  shows "serializeJobTransition jid allowed state m = Some (m\<lparr>MgJobs := gm_put jid (job\<lparr>SjState := state\<rparr>) (MgJobs m)\<rparr>, job\<lparr>SjState := state\<rparr>)"
  using assms by (simp add: serializeJobTransition_def Let_def)

lemma cancelled_drains:
  assumes "activeRun cid jid m" "map_of (MgPending m) cid = Some request" "enqueued eq"
  shows "drained eq cid request (updateJobCancelled eq jid m)"
  using assms by (elim activeRunE) (simp add: updateJobCancelled_def serialize_active Let_def drain_drained)

lemma failed_drains:
  assumes "activeRun cid jid m" "map_of (MgPending m) cid = Some request" "enqueued eq"
  shows "drained eq cid request (updateJobFailed eq infra rootMissing jid m)"
  using assms by (elim activeRunE) (simp add: updateJobFailed_def serialize_active Let_def drain_drained)

lemma detached_drains:
  assumes "activeRun cid jid m" "map_of (MgPending m) cid = Some request" "enqueued eq" "isTerminalJobState state"
  shows "drained eq cid request (updateDetachedJob eq state jid m)"
  using assms by (elim activeRunE) (simp add: updateDetachedJob_def finishDetachedCodebase_def serialize_active Let_def drain_drained)

lemma completed_drains:
  assumes "activeRun cid jid m" "map_of (MgPending m) cid = Some request" "enqueued eq"
  shows "drained eq cid request (updateJobCompleted eq jid files m)"
  using assms(1)
proof (rule activeRunE)
  fix job c
  assume r: "map_of (MgJobs m) jid = Some job" "SjCodebase job = cid" "\<not> isTerminalJobState (SjState job)"
    "map_of (MgCodebases m) cid = Some c" "CbActiveJob c = jid"
  show ?thesis
  proof (cases "SjState job = JobCancelling")
    case True
    then have "updateJobCompleted eq jid files m = updateJobCancelled eq jid m" using r by (simp add: updateJobCompleted_def serializeJobTransition_def)
    with cancelled_drains [OF assms] show ?thesis by simp
  next
    case False
    with r(3) have "SjState job \<noteq> JobCancelled \<and> SjState job \<noteq> JobCancelling" by auto
    with r assms show ?thesis by (simp add: updateJobCompleted_def serialize_active drain_drained)
  qed
qed

text \<open>
  C15: A sync request that waits behind an active job with another configuration is run when that job ends.
  Completing, failing or cancelling the active job, or ending it as a detached one, empties the pending slot and
  leaves the request as a queued job that is the active job of the codebase, provided that the new job can be
  persisted.
\<close>

theorem ended_job_drains_pending:
  assumes "activeRun cid jid m" and "map_of (MgPending m) cid = Some request" and "enqueued eq"
  shows "drained eq cid request (updateJobCompleted eq jid files m) \<and> drained eq cid request (updateJobFailed eq infra rootMissing jid m)
    \<and> drained eq cid request (updateJobCancelled eq jid m) \<and> (isTerminalJobState state \<longrightarrow> drained eq cid request (updateDetachedJob eq state jid m))"
  using completed_drains [OF assms] failed_drains [OF assms] cancelled_drains [OF assms] detached_drains [OF assms] by blast

lemma quarantined_record:
  assumes "activeRun cid jid m"
  shows "\<exists>job c. map_of (MgJobs m) jid = Some job \<and> map_of (MgCodebases m) cid = Some c
    \<and> updateJobQuarantined signal jid m = m\<lparr>MgJobs := gm_put jid (job\<lparr>SjState := JobFailed\<rparr>) (MgJobs m),
         MgCodebases := gm_put cid (applyQuarantineState signal (c\<lparr>CbActiveJob := [], CbFailedRun := False\<rparr>)) (MgCodebases m)\<rparr>"
  using assms by (elim activeRunE) (simp add: updateJobQuarantined_def serialize_active)

text \<open>
  C16: A run that ends as quarantined leaves the waiting request behind: the slot keeps it, the codebase has no
  active job, and no new job carries it. A later sync request starts a job for its own configuration and still
  leaves the slot as it was.
\<close>

theorem quarantine_strands_pending:
  assumes "activeRun cid jid m" and "map_of (MgPending m) cid = Some request" and "m' = updateJobQuarantined signal jid m" and "enqueued eq"
  shows "map_of (MgPending m') cid = Some request \<and> (\<exists>c. map_of (MgCodebases m') cid = Some c \<and> CbActiveJob c = [])
    \<and> (\<forall>j. j \<noteq> jid \<longrightarrow> map_of (MgJobs m') j = map_of (MgJobs m) j)
    \<and> (\<exists>m'' job. syncIndexWithPolicy eq cid config m' = (m'', SyncStarted job) \<and> SjConfig job = config \<and> map_of (MgPending m'') cid = Some request)"
proof -
  from quarantined_record [OF assms(1)] obtain job c where m': "m' = m\<lparr>MgJobs := gm_put jid (job\<lparr>SjState := JobFailed\<rparr>) (MgJobs m),
      MgCodebases := gm_put cid (applyQuarantineState signal (c\<lparr>CbActiveJob := [], CbFailedRun := False\<rparr>)) (MgCodebases m)\<rparr>"
    unfolding assms(3) by blast
  have idle: "CbActiveJob (applyQuarantineState signal (c\<lparr>CbActiveJob := [], CbFailedRun := False\<rparr>)) = []" by (simp add: applyQuarantineState_def)
  show ?thesis using assms(2,4) idle
    by (auto simp: m' syncIndexWithPolicy_def activeJobLocked_def enqueueCodeSyncJobLocked_def enqueued_def Let_def)
qed


section \<open>A confirmation that outlives its release\<close>

lemma sweep_signal:
  assumes "\<not> ScanRootMissing scan" "\<not> vcsOperationInProgress (ScanGitFile scan)" "ScanCapture scan = Inr current"
    and "assessDeltaDeleteWave (ScanExists scan) c (DiffSnapshots (ScanCheckpoint scan) current) (ScanCheckpoint scan) = Some signal"
    and "map_of (MgCodebases m) cid = Some c"
  shows "handleQuarantinedCodebase scan c cid m = (m\<lparr>MgCodebases := gm_put cid (applyQuarantineState signal c) (MgCodebases m)\<rparr>,
    quarantineConfirmationObservations \<le>s (case CbQuarantine c of None \<Rightarrow> 1 | Some q \<Rightarrow> QsObservationCount q + 1))"
  using assms by (simp add: handleQuarantinedCodebase_def quarantineCodebase_def Let_def applyQuarantineState_def)

text \<open>
  The sweep takes a confirmed quarantine for a calm codebase: it clears it and requests a sync, whose scan
  starts a quarantine anew.
\<close>

lemma sweep_drops_confirmation:
  assumes "quarantineConfirmed c" "\<not> ScanRootMissing scan" "\<not> vcsOperationInProgress (ScanGitFile scan)" "ScanCapture scan = Inr current"
  shows "handleQuarantinedCodebase scan c cid m = (clearCodebaseQuarantine StatusIndexed cid m, \<not> DiffEmpty (DiffSnapshots (ScanCheckpoint scan) current))"
  using assms by (simp add: handleQuarantinedCodebase_def assessDeltaDeleteWave_def Let_def)

lemma quarantine_fields [simp]:
  "CbStatus (applyQuarantineState signal c) = StatusQuarantined" "CbActiveJob (applyQuarantineState signal c) = CbActiveJob c"
  "CbLastRunFiles (applyQuarantineState signal c) = CbLastRunFiles c" "CbKind (applyQuarantineState signal c) = CbKind c"
  by (simp_all add: applyQuarantineState_def)

lemma first_observation:
  assumes "CbQuarantine c = None"
  shows "(case CbQuarantine (applyQuarantineState signal c) of None \<Rightarrow> 1 | Some q \<Rightarrow> QsObservationCount q + 1) = 2"
  using assms by (simp add: applyQuarantineState_def)

lemma confirmed_frame:
  "quarantineConfirmed (c\<lparr>CbActiveJob := a\<rparr>) = quarantineConfirmed c" "quarantineConfirmed (c\<lparr>CbStatus := s\<rparr>) = quarantineConfirmed c"
  by (simp_all add: quarantineConfirmed_def)

text \<open>
  C14: A confirmation outlives a cancelled release. A wave is quarantined by a run, the sweep sees it again and
  requests the releasing sync, and that job is cancelled. The codebase record is then indexed, a status that the
  sweep over quarantined codebases passes by, but it is still confirmed: no scan of that record is found
  suspicious, whatever files are missing.
\<close>

theorem cancelled_release_disarms:
  assumes run: "activeRun cid jid m" "map_of (MgCodebases m) cid = Some c" "CbQuarantine c = None" "CbLastRunFiles c \<noteq> None" "map_of (MgPending m) cid = None"
    and first: "m1 = updateJobQuarantined signal jid m" "map_of (MgCodebases m1) cid = Some c1"
    and scan: "\<not> ScanRootMissing scan" "\<not> vcsOperationInProgress (ScanGitFile scan)" "ScanCapture scan = Inr current"
      "assessDeltaDeleteWave (ScanExists scan) c1 (DiffSnapshots (ScanCheckpoint scan) current) (ScanCheckpoint scan) \<noteq> None"
    and second: "handleQuarantinedCodebase scan c1 cid m1 = (m2, start)"
    and release: "syncIndexWithPolicy eq cid config m2 = (m3, answer)" "enqueued eq" "EqId eq \<noteq> []"
    and cancel: "m4 = fst (updateJobCancelled eq' (EqId eq) m3)"
  shows "start \<and> (\<exists>c4. map_of (MgCodebases m4) cid = Some c4 \<and> CbStatus c4 = StatusIndexed
    \<and> (\<forall>fileExists d seed. assessDeltaDeleteWave fileExists c4 d seed = None))"
proof -
  let ?c = "c\<lparr>CbActiveJob := [], CbFailedRun := False\<rparr>"
  from quarantined_record [OF run(1), of signal] run(2) obtain job where m1: "m1 = m\<lparr>MgJobs := gm_put jid (job\<lparr>SjState := JobFailed\<rparr>) (MgJobs m),
      MgCodebases := gm_put cid (applyQuarantineState signal ?c) (MgCodebases m)\<rparr>" unfolding first(1) by auto
  then have c1: "c1 = applyQuarantineState signal ?c" using first(2) by simp
  from scan(4) obtain signal2 where s2: "assessDeltaDeleteWave (ScanExists scan) c1 (DiffSnapshots (ScanCheckpoint scan) current) (ScanCheckpoint scan) = Some signal2" by blast
  let ?c2 = "applyQuarantineState signal2 c1"
  have conf: "quarantineConfirmed ?c2" unfolding c1 using run(3) assessed_trigger [OF s2] by (simp add: confirmed_twice)
  have m2: "m2 = m1\<lparr>MgCodebases := gm_put cid ?c2 (MgCodebases m1)\<rparr>" and start
    using second sweep_signal [OF scan(1-3) s2 first(2)] first_observation [of ?c signal] run(3)
    by (simp_all add: c1 quarantineConfirmationObservations_def)
  let ?j = "queuedFrom eq cid \<lparr>PqConfig = config, PqForce = False\<rparr>" and ?c3 = "?c2\<lparr>CbStatus := StatusIndexing, CbActiveJob := EqId eq\<rparr>"
  have "CbActiveJob ?c2 = []" by (simp add: c1)
  then have m3: "m3 = m2\<lparr>MgCodebases := gm_put cid ?c3 (MgCodebases m2), MgJobs := gm_put (EqId eq) ?j (MgJobs m2)\<rparr>"
    using release by (simp add: m2 syncIndexWithPolicy_def activeJobLocked_def enqueueCodeSyncJobLocked_def enqueued_def queuedFrom_def Let_def)
  let ?c4 = "?c3\<lparr>CbActiveJob := [], CbStatus := codebaseStatusAfterCancellation ?c3\<rparr>"
  have pend: "map_of (MgPending m3) cid = None" using run(5) by (simp add: m3 m2 m1)
  have "map_of (MgJobs m3) (EqId eq) = Some ?j" by (simp add: m3)
  then have "map_of (MgCodebases m4) cid = Some ?c4" unfolding cancel updateJobCancelled_def using pend
    by (simp add: serialize_active queuedFrom_def m3 drainPendingJobLocked_def)
  moreover have "CbStatus ?c4 = StatusIndexed" using run(4) by (simp add: codebaseStatusAfterCancellation_def c1)
  moreover have "quarantineConfirmed ?c4" using conf by (simp add: confirmed_frame)
  then have "\<forall>fileExists d seed. assessDeltaDeleteWave fileExists ?c4 d seed = None" by (simp add: assessDeltaDeleteWave_def)
  ultimately show ?thesis using \<open>start\<close> by blast
qed


section \<open>Concrete managers\<close>

definition newJob :: enqueue_env where
  "newJob = \<lparr>EqId = ''j2'', EqPolicyOk = True, EqSaved = True, EqAppended = True\<rparr>"

definition waitingRequest :: pending_request where
  "waitingRequest = \<lparr>PqConfig = \<lparr>IcDigest = ''e'', IcSplitter = ''ast''\<rparr>, PqForce = False\<rparr>"

definition runningManager :: "(string, pending_request) gomap \<Rightarrow> job_manager" where
  "runningManager slot = \<lparr>MgCodebases = [(''c'', trackedCode\<lparr>CbStatus := StatusIndexing, CbActiveJob := ''j1''\<rparr>)],
     MgJobs = [(''j1'', \<lparr>SjId = ''j1'', SjCodebase = ''c'', SjState = JobRunning, SjConfig = \<lparr>IcDigest = ''d'', IcSplitter = ''ast''\<rparr>, SjForced = False\<rparr>)],
     MgPending = slot\<rparr>"

definition someSignal :: quarantine_signal where
  "someSignal = \<lparr>QgReason = quarantineReasonFullScanLargeDelete, QgTrigger = quarantineTriggerFullScan, QgMissingCount = 100, QgTotalCount = 104\<rparr>"

definition waveScan :: sweep_scan where
  "waveScan = \<lparr>ScanRootMissing = False, ScanGitFile = \<lambda>f. False, ScanCheckpoint = manyFiles, ScanCapture = Inr fewFiles, ScanExists = \<lambda>p. False\<rparr>"

definition onceQuarantined :: job_manager where
  "onceQuarantined = updateJobQuarantined someSignal ''j1'' (runningManager [])"

definition onceCode :: codebase where
  "onceCode = applyQuarantineState someSignal (trackedCode\<lparr>CbStatus := StatusIndexing, CbActiveJob := [], CbFailedRun := False\<rparr>)"

lemma running_active: "activeRun ''c'' ''j1'' (runningManager slot)"
  by (simp add: activeRun_def runningManager_def)

lemma once_record: "map_of (MgCodebases onceQuarantined) ''c'' = Some onceCode"
  by (simp add: onceQuarantined_def onceCode_def updateJobQuarantined_def serializeJobTransition_def runningManager_def Let_def)

lemma wave_assessed:
  assumes "CbKind c = KindCode" "CbLastRunFiles c \<noteq> None" "\<not> quarantineConfirmed c"
  shows "assessDeltaDeleteWave (\<lambda>p. False) c (DiffSnapshots manyFiles fewFiles) manyFiles \<noteq> None"
proof -
  have "100 = length (filter (\<lambda>p. \<not> False) (DfRemoved (DiffSnapshots manyFiles fewFiles)))" using wave_removed by simp
  moreover have "SnFiles manyFiles \<noteq> []" "length (SnFiles manyFiles) < 2 ^ 29" "length (SnFiles manyFiles) = 104" by (simp_all add: manyFiles_def)
  ultimately show ?thesis using assess_wave [OF many_wf _ _ assms(1,2) refl] assms(3) by auto
qed

lemma once_scanned: "assessDeltaDeleteWave (\<lambda>p. False) onceCode (DiffSnapshots manyFiles fewFiles) manyFiles \<noteq> None"
  by (rule wave_assessed) (simp_all add: onceCode_def quarantine_twice trackedCode_def someSignal_def)

theorem ended_job_drains_pending_witness:
  "drained newJob ''c'' waitingRequest (updateJobCompleted newJob ''j1'' 7 (runningManager [(''c'', waitingRequest)]))"
proof -
  have "map_of (MgPending (runningManager [(''c'', waitingRequest)])) ''c'' = Some waitingRequest" "enqueued newJob"
    by (simp_all add: runningManager_def enqueued_def newJob_def)
  then show ?thesis using ended_job_drains_pending [OF running_active] by blast
qed

theorem quarantine_strands_pending_witness:
  "map_of (MgPending (updateJobQuarantined someSignal ''j1'' (runningManager [(''c'', waitingRequest)]))) ''c'' = Some waitingRequest"
proof -
  have "map_of (MgPending (runningManager [(''c'', waitingRequest)])) ''c'' = Some waitingRequest" "enqueued newJob"
    by (simp_all add: runningManager_def enqueued_def newJob_def)
  then show ?thesis using quarantine_strands_pending [OF running_active _ refl] by blast
qed

theorem cancelled_release_disarms_witness:
  "\<exists>m4 c4. map_of (MgCodebases m4) ''c'' = Some c4 \<and> CbStatus c4 = StatusIndexed
    \<and> m4 = fst (updateJobCancelled newJob ''j2'' (fst (syncIndexWithPolicy newJob ''c'' \<lparr>IcDigest = ''d'', IcSplitter = ''ast''\<rparr>
        (fst (handleQuarantinedCodebase waveScan onceCode ''c'' onceQuarantined)))))
    \<and> assessDeltaDeleteWave (\<lambda>p. False) c4 (DiffSnapshots manyFiles fewFiles) manyFiles = None"
proof -
  have m: "map_of (MgCodebases (runningManager [])) ''c'' = Some (trackedCode\<lparr>CbStatus := StatusIndexing, CbActiveJob := ''j1''\<rparr>)"
    "map_of (MgPending (runningManager [])) ''c'' = None" by (simp_all add: runningManager_def)
  have c: "CbQuarantine (trackedCode\<lparr>CbStatus := StatusIndexing, CbActiveJob := ''j1''\<rparr>) = None"
    "CbLastRunFiles (trackedCode\<lparr>CbStatus := StatusIndexing, CbActiveJob := ''j1''\<rparr>) \<noteq> None" by (simp_all add: trackedCode_def)
  have scan: "\<not> ScanRootMissing waveScan" "\<not> vcsOperationInProgress (ScanGitFile waveScan)" "ScanCapture waveScan = Inr fewFiles"
    "assessDeltaDeleteWave (ScanExists waveScan) onceCode (DiffSnapshots (ScanCheckpoint waveScan) fewFiles) (ScanCheckpoint waveScan) \<noteq> None"
    using once_scanned by (simp_all add: waveScan_def vcsOperationInProgress_def)
  have eq: "enqueued newJob" "EqId newJob \<noteq> []" "EqId newJob = ''j2''" by (simp_all add: enqueued_def newJob_def)
  note main = cancelled_release_disarms [OF running_active m(1) c m(2) onceQuarantined_def once_record scan prod.collapse [symmetric] prod.collapse [symmetric] eq(1,2) refl]
  then show ?thesis unfolding eq(3) by blast
qed

theorem wave_seen_twice_witness:
  "\<exists>m n. manager_run ''c'' m n \<and> quarantineOf ''c'' m \<noteq> None \<and> 2 \<le> n"
proof -
  let ?c0 = "trackedCode\<lparr>CbStatus := StatusIndexing, CbActiveJob := ''j1''\<rparr>" and ?d = "DiffSnapshots manyFiles fewFiles"
  obtain signal where s: "assessDeltaDeleteWave (\<lambda>p. False) ?c0 ?d manyFiles = Some signal"
    using wave_assessed [of ?c0] by (auto simp: trackedCode_def quarantineConfirmed_def)
  let ?m1 = "updateJobQuarantined signal ''j1'' (runningManager [])" and ?c1 = "applyQuarantineState signal (?c0\<lparr>CbActiveJob := [], CbFailedRun := False\<rparr>)"
  have r0: "manager_run ''c'' (runningManager []) 0" by (rule calm) (simp add: runningManager_def quarantineOf_def trackedCode_def)
  have "map_of (MgJobs (runningManager [])) ''j1'' \<noteq> None" by (simp add: runningManager_def)
  then obtain job where "map_of (MgJobs (runningManager [])) ''j1'' = Some job" by blast
  from manager_run.step [OF r0 job_quarantined [OF this s]] obtain n1 where r1: "manager_run ''c'' ?m1 n1" by blast
  have c1: "map_of (MgCodebases ?m1) ''c'' = Some ?c1" by (simp add: updateJobQuarantined_def serializeJobTransition_def runningManager_def Let_def)
  have "CbQuarantine (?c0\<lparr>CbActiveJob := [], CbFailedRun := False\<rparr>) = None" by (simp add: trackedCode_def)
  note tw = quarantine_twice(1) [OF this assessed_trigger [OF s]] confirmed_twice [OF this]
  have code: "CbKind ?c1 = KindCode" "CbLastRunFiles ?c1 \<noteq> None" by (simp_all add: trackedCode_def)
  obtain signal2 where s2: "assessDeltaDeleteWave (\<lambda>p. False) ?c1 ?d manyFiles = Some signal2" using wave_assessed [OF code tw(1)] by blast
  let ?c2 = "applyQuarantineState signal2 ?c1" and ?m2 = "?m1\<lparr>MgCodebases := gm_put ''c'' (applyQuarantineState signal2 ?c1) (MgCodebases ?m1)\<rparr>"
  have "fst (handleQuarantinedCodebase waveScan ?c1 ''c'' ?m1) = ?m2"
    using sweep_signal [of waveScan fewFiles ?c1 signal2 ?m1 "''c''"] c1 s2 by (simp add: waveScan_def vcsOperationInProgress_def)
  then obtain start where "handleQuarantinedCodebase waveScan ?c1 ''c'' ?m1 = (?m2, start)" by (metis prod.collapse)
  from manager_run.step [OF r1 swept [OF this]] obtain n2 where r2: "manager_run ''c'' ?m2 n2" by blast
  have c2: "map_of (MgCodebases ?m2) ''c'' = Some ?c2" by simp
  have conf: "quarantineConfirmed ?c2" by (rule tw(2)) (rule assessed_trigger [OF s2])
  have changed: "\<not> DiffEmpty ?d" using wave_removed by (auto simp: DiffEmpty_def)
  have sus: "shouldQuarantineLargeRemoval ?c2 (safeInt32 (int (length (physicallyMissingPaths (\<lambda>p. False) (DfRemoved ?d))))) (trackedFileTotalForSuspicion ?c2 manyFiles)"
    using s2 by (auto simp: assessDeltaDeleteWave_def Let_def shouldQuarantineLargeRemoval_def trackedFileTotalForSuspicion_def applyQuarantineState_def split: if_splits)
  let ?run = "runDeltaSync plainEnv steadyRun renamedDisk (\<lambda>p. False) someRows (Some ?c2) manyFiles manyFiles (Inr fewFiles) noLimits renamedStore"
  have "?run = applyDelta plainEnv steadyRun renamedDisk manyFiles fewFiles [] (startState manyFiles manyFiles noLimits ?d renamedStore)"
    using conf changed by (simp add: runDeltaSync_def unionForcedItems_def assessDeltaDeleteWave_def)
  then have "\<forall>signal. snd ?run \<noteq> RunQuarantined signal" by (simp add: applyDelta_not_quarantined)
  from wave_seen_twice [OF r2 c2 refl changed sus prod.collapse [symmetric] this] r2 have "manager_run ''c'' ?m2 n2 \<and> 2 \<le> n2" by blast
  moreover have "quarantineOf ''c'' ?m2 \<noteq> None" using quarantineOf_some [OF c2] by (simp add: applyQuarantineState_def)
  ultimately show ?thesis by blast
qed

end
